(* ===== verification/Nt_Prelude.thy ===== *)
theory Nt_Prelude
  imports Main "HOL-Library.Word"
begin

text \<open>
  Shared vocabulary of the development: the machine integers of the C sources as words, NTSTATUS
  and its success test, the lemma collections the component theories fill, and the generic facts
  on words and lists that their proofs share.
\<close>

unbundle bit_operations_syntax

section \<open>Machine integers\<close>

type_synonym u8 = "8 word"
type_synonym u16 = "16 word"
type_synonym u32 = "32 word"
type_synonym u64 = "64 word"

section \<open>NTSTATUS\<close>

text \<open>
  An NTSTATUS is a 32-bit value; the kernel headers define the success test as "not negative when
  read as a signed integer", that is, the top bit is clear.
\<close>

type_synonym ntstatus = "32 word"

abbreviation (input) STATUS_SUCCESS :: ntstatus where "STATUS_SUCCESS \<equiv> 0"
abbreviation (input) STATUS_UNSUCCESSFUL :: ntstatus where "STATUS_UNSUCCESSFUL \<equiv> 0xC0000001"
abbreviation (input) STATUS_NOT_IMPLEMENTED :: ntstatus where "STATUS_NOT_IMPLEMENTED \<equiv> 0xC0000002"
abbreviation (input) STATUS_INVALID_PARAMETER :: ntstatus where "STATUS_INVALID_PARAMETER \<equiv> 0xC000000D"
abbreviation (input) STATUS_INSUFFICIENT_RESOURCES :: ntstatus
  where "STATUS_INSUFFICIENT_RESOURCES \<equiv> 0xC000009A"
abbreviation (input) STATUS_DEVICE_CONFIGURATION_ERROR :: ntstatus
  where "STATUS_DEVICE_CONFIGURATION_ERROR \<equiv> 0xC0000182"
abbreviation (input) STATUS_BUFFER_TOO_SMALL :: ntstatus where "STATUS_BUFFER_TOO_SMALL \<equiv> 0xC0000023"
abbreviation (input) STATUS_NOT_SUPPORTED :: ntstatus where "STATUS_NOT_SUPPORTED \<equiv> 0xC00000BB"
abbreviation (input) STATUS_NOT_FOUND :: ntstatus where "STATUS_NOT_FOUND \<equiv> 0xC0000225"
abbreviation (input) STATUS_BAD_MCFG_TABLE :: ntstatus where "STATUS_BAD_MCFG_TABLE \<equiv> 0xC0000908"

definition NT_SUCCESS :: "ntstatus \<Rightarrow> bool" where
  "NT_SUCCESS s \<longleftrightarrow> s < 0x80000000"

lemma NT_SUCCESS_statuses [simp]:
  "NT_SUCCESS STATUS_SUCCESS"
  "\<not> NT_SUCCESS STATUS_UNSUCCESSFUL"
  "\<not> NT_SUCCESS STATUS_NOT_IMPLEMENTED"
  "\<not> NT_SUCCESS STATUS_INVALID_PARAMETER"
  "\<not> NT_SUCCESS STATUS_INSUFFICIENT_RESOURCES"
  "\<not> NT_SUCCESS STATUS_DEVICE_CONFIGURATION_ERROR"
  "\<not> NT_SUCCESS STATUS_BAD_MCFG_TABLE"
  "\<not> NT_SUCCESS STATUS_BUFFER_TOO_SMALL"
  "\<not> NT_SUCCESS STATUS_NOT_SUPPORTED"
  "\<not> NT_SUCCESS STATUS_NOT_FOUND"
  by (simp_all add: NT_SUCCESS_def)

section \<open>Lemma collections\<close>

named_theorems arb_defs \<open>definitions of the arbiter library unfolded by its branch lemmas\<close>
named_theorems word_bounds \<open>order facts on words used to move between strict and non-strict bounds\<close>

section \<open>Words\<close>

lemma word_pred_le [word_bounds]:
  fixes a b c :: "'a::len word"
  assumes "c < b"
  shows "a \<le> b - 1 \<longleftrightarrow> a < b"
  using assms by uint_arith

lemma word_succ_le [word_bounds]:
  fixes a b c :: "'a::len word"
  assumes "b < c"
  shows "b + 1 \<le> a \<longleftrightarrow> b < a"
  using assms by uint_arith

lemma unat_succ [word_bounds]:
  fixes a b :: "'a::len word"
  assumes "a < b"
  shows "unat (a + 1) = Suc (unat a)"
  using assms by unat_arith

lemma unat_u64_lt: "unat (x :: u64) < 2 ^ 64"
  using unsigned_less [of x] by simp

lemma unat_add_nowrap:
  fixes a b :: "'a::len word"
  assumes "unat a + unat b < 2 ^ LENGTH('a)"
  shows "unat (a + b) = unat a + unat b"
  using assms by (simp add: unat_word_ariths)

lemma unat_ucast_widen:
  fixes x :: "'a::len word"
  assumes "LENGTH('a) \<le> LENGTH('b::len)"
  shows "unat (ucast x :: 'b word) = unat x"
proof -
  have "unat x < 2 ^ LENGTH('b)"
    using unsigned_less [of x] assms by (metis less_le_trans one_le_numeral power_increasing)
  then show ?thesis by (simp add: unsigned_ucast_eq take_bit_nat_eq_self)
qed

lemma unat_ucast_narrow:
  fixes x :: "'a::len word"
  assumes "x < 2 ^ LENGTH('b::len)" and "LENGTH('b) < LENGTH('a)"
  shows "unat (ucast x :: 'b word) = unat x"
proof -
  have "(2::'a word) ^ LENGTH('b) \<noteq> 0" using assms(2) by (simp add: exp_eq_zero_iff)
  then have "uint ((2::'a word) ^ LENGTH('b)) = 2 ^ LENGTH('b)" by (simp add: uint_2p word_gt_0)
  then have "unat (2 ^ LENGTH('b) :: 'a word) = 2 ^ LENGTH('b)"
    by (metis nat_numeral nat_power_eq nat_uint_eq zero_le_numeral)
  with assms(1) have "unat x < 2 ^ LENGTH('b)" by (simp add: word_less_nat_alt)
  then show ?thesis by (simp add: unsigned_ucast_eq take_bit_nat_eq_self)
qed

lemma ucast_narrow_widen:
  fixes x :: u64
  assumes "x < 2 ^ 32"
  shows "ucast (ucast x :: u32) = x"
proof -
  have "unat (ucast (ucast x :: u32) :: u64) = unat (ucast x :: u32)" by (rule unat_ucast_widen) simp
  also have "\<dots> = unat x" by (rule unat_ucast_narrow) (use assms in simp_all)
  finally show ?thesis by (simp add: word_unat_eq_iff)
qed

section \<open>Alignment\<close>

text \<open>Rounding down and up to a multiple, on naturals and as the C code computes it on words.\<close>

lemma align_down_nat:
  fixes x A :: nat
  assumes "0 < A"
  shows "x - x mod A \<le> x" and "A dvd x - x mod A" and "A dvd a \<Longrightarrow> a \<le> x \<Longrightarrow> a \<le> x - x mod A"
proof -
  show "x - x mod A \<le> x" by simp
  show "A dvd x - x mod A" by (rule dvd_minus_mod)
  assume "A dvd a" and "a \<le> x"
  then obtain k where k: "a = A * k" by blast
  with \<open>a \<le> x\<close> assms have "k \<le> x div A"
    by (metis div_le_mono nonzero_mult_div_cancel_left less_not_refl2)
  then have "a \<le> A * (x div A)" unfolding k by (rule mult_le_mono2)
  then show "a \<le> x - x mod A" by (simp add: minus_mod_eq_mult_div)
qed

lemma align_up_nat:
  fixes m A :: nat
  assumes "0 < A"
  shows "m \<le> m + (A - 1) - (m + (A - 1)) mod A"
    and "A dvd m + (A - 1) - (m + (A - 1)) mod A"
    and "A dvd a \<Longrightarrow> m \<le> a \<Longrightarrow> m + (A - 1) - (m + (A - 1)) mod A \<le> a"
proof -
  let ?x = "m + (A - 1)"
  have lt: "?x mod A < A" using assms by simp
  show "m \<le> ?x - ?x mod A" using lt assms by linarith
  show "A dvd ?x - ?x mod A" by (rule dvd_minus_mod)
  assume a: "A dvd a" "m \<le> a"
  then obtain k where k: "a = A * k" by blast
  have u: "?x - ?x mod A = A * (?x div A)" by (simp add: minus_mod_eq_mult_div)
  have "?x div A \<le> k"
  proof (rule ccontr)
    assume "\<not> ?x div A \<le> k"
    then have "A * Suc k \<le> A * (?x div A)" by (intro mult_le_mono2) simp
    also have "\<dots> \<le> ?x" by simp
    finally have "a + A \<le> ?x" by (simp add: k)
    with a(2) assms show False by simp
  qed
  then show "?x - ?x mod A \<le> a" unfolding u k by (rule mult_le_mono2)
qed

lemma unat_align_down:
  fixes x A :: "'a::len word"
  shows "unat (x - x mod A) = unat x - unat x mod unat A"
  by (simp add: unat_sub word_le_nat_alt unat_mod)

lemma unat_align_up:
  fixes m A :: "'a::len word"
  assumes "0 < A" and "unat m + (unat A - 1) < 2 ^ LENGTH('a)"
  shows "unat (m + (A - 1) - (m + (A - 1)) mod A) =
    unat m + (unat A - 1) - (unat m + (unat A - 1)) mod unat A"
proof -
  have "unat (A - 1) = unat A - 1" using assms(1) by unat_arith
  with assms(2) have "unat (m + (A - 1)) = unat m + (unat A - 1)"
    by (simp add: unat_word_ariths)
  then show ?thesis by (simp add: unat_align_down)
qed

end
