(* ===== verification/Nt_Resources.thy ===== *)
theory Nt_Resources
  imports Nt_Prelude
begin

text \<open>
  The NT data the arbiters work on: requirement and resource descriptors, arbitration list
  entries, range lists, and the kernel routines they call. The kernel routines (the Rtl range
  list calls, the device property query, the interrupt clock) are not part of the repository, so
  they are the fields of the record \<open>nt_kernel\<close>, an argument of every definition that uses one.
\<close>

section \<open>Resource descriptors\<close>

text \<open>
  IO_RESOURCE_DESCRIPTOR and CM_PARTIAL_RESOURCE_DESCRIPTOR end in a union. Memory and Port share
  one layout; the bus number and interrupt members have their own. Each member's fields are
  separate here: the code reads and writes the member the descriptor's type selects.
\<close>

record io_desc =
  io_Option :: u8
  io_Type :: u8
  io_ShareDisposition :: u8
  io_Flags :: u16
  io_Length :: u32
  io_Alignment :: u32
  io_MinimumAddress :: u64
  io_MaximumAddress :: u64
  io_BusLength :: u32
  io_MinBusNumber :: u32
  io_MaxBusNumber :: u32
  io_MinimumVector :: u32
  io_MaximumVector :: u32
  io_TargetedProcessors :: u64

record cm_desc =
  cm_Type :: u8
  cm_ShareDisposition :: u8
  cm_Flags :: u16
  cm_Start :: u64
  cm_Length :: u32
  cm_BusStart :: u32
  cm_BusLength :: u32
  cm_Vector :: u32
  cm_Level :: u32
  cm_Affinity :: u64

abbreviation (input) CmResourceTypePort :: u8 where "CmResourceTypePort \<equiv> 1"
abbreviation (input) CmResourceTypeInterrupt :: u8 where "CmResourceTypeInterrupt \<equiv> 2"
abbreviation (input) CmResourceTypeMemory :: u8 where "CmResourceTypeMemory \<equiv> 3"
abbreviation (input) CmResourceTypeBusNumber :: u8 where "CmResourceTypeBusNumber \<equiv> 6"
abbreviation (input) CmResourceTypeMemoryLarge :: u8 where "CmResourceTypeMemoryLarge \<equiv> 7"

abbreviation (input) CmResourceShareDriverExclusive :: u8 where "CmResourceShareDriverExclusive \<equiv> 2"
abbreviation (input) CmResourceShareShared :: u8 where "CmResourceShareShared \<equiv> 3"

abbreviation (input) IO_RESOURCE_PREFERRED :: u8 where "IO_RESOURCE_PREFERRED \<equiv> 1"
abbreviation (input) CM_RESOURCE_MEMORY_COMPAT_FOR_INACCESSIBLE_RANGE :: u16
  where "CM_RESOURCE_MEMORY_COMPAT_FOR_INACCESSIBLE_RANGE \<equiv> 0x100"

section \<open>Arbitration list entries\<close>

text \<open>
  A device object is named by a number, and a null pointer is \<open>None\<close>. ARBITER_LIST_ENTRY carries
  the request and receives the answer: \<open>le_SelectedAlternative\<close>, \<open>le_Assignment\<close> (None when the
  requester passed no slot) and \<open>le_Result\<close>.
\<close>

type_synonym device = nat

datatype request_source =
  ArbiterRequestLegacyReported | ArbiterRequestHalReported | ArbiterRequestLegacyAssigned |
  ArbiterRequestPnpDetected | ArbiterRequestPnpEnumerated | ArbiterRequestUndefined

datatype arbiter_result =
  ArbiterResultUndefined | ArbiterResultSuccess | ArbiterResultExternalConflict |
  ArbiterResultNullRequest

record list_entry =
  le_Alternatives :: "io_desc list"
  le_PhysicalDeviceObject :: "device option"
  le_RequestSource :: request_source
  le_Flags :: u32
  le_WorkSpace :: u64
  le_SelectedAlternative :: "io_desc option"
  le_Assignment :: "cm_desc option"
  le_Result :: arbiter_result

section \<open>Range lists and the kernel\<close>

text \<open>
  An RTL_RANGE_LIST is seen through its iterators, as the sequence of ranges that
  RtlGetFirstRange and RtlGetNextRange deliver; both fail only at the end of that sequence.
  RtlFreeRangeList followed by RtlInitializeRangeList leaves the empty list.
\<close>

record rtl_range =
  rr_Start :: u64
  rr_End :: u64
  rr_Owner :: "device option"
  rr_Attributes :: u8
  rr_Flags :: u8

type_synonym range_list = "rtl_range list"

abbreviation (input) RTL_RANGE_LIST_ADD_IF_CONFLICT :: u32 where "RTL_RANGE_LIST_ADD_IF_CONFLICT \<equiv> 1"
abbreviation (input) RTL_RANGE_LIST_ADD_SHARED :: u32 where "RTL_RANGE_LIST_ADD_SHARED \<equiv> 2"
abbreviation (input) RTL_RANGE_LIST_SHARED_OK :: u32 where "RTL_RANGE_LIST_SHARED_OK \<equiv> 1"
abbreviation (input) RTL_RANGE_LIST_NULL_CONFLICT_OK :: u32 where "RTL_RANGE_LIST_NULL_CONFLICT_OK \<equiv> 2"

text \<open>
  \<open>k_RtlFindRange rl min max len align flags attrs\<close> is the status and, on success, the start it
  reports when it is called with the arbiter's ConflictCallback; \<open>k_EnumeratorName\<close> is IoGetDeviceProperty for the enumerator name (\<open>None\<close> when it
  fails); \<open>k_EqualString\<close> is RtlEqualUnicodeString ignoring case; \<open>k_AttachedDrivers d\<close> are the
  driver objects of the devices attached above \<open>d\<close>, nearest first; \<open>k_Clock n\<close> is the value the
  n-th call of KeQueryInterruptTime returns.
\<close>

record nt_kernel =
  k_RtlFindRange :: "range_list \<Rightarrow> u64 \<Rightarrow> u64 \<Rightarrow> u64 \<Rightarrow> u64 \<Rightarrow> u32 \<Rightarrow> u8 \<Rightarrow> ntstatus \<times> u64"
  k_RtlIsRangeAvailable :: "range_list \<Rightarrow> u64 \<Rightarrow> u64 \<Rightarrow> u32 \<Rightarrow> u8 \<Rightarrow> bool"
  k_RtlAddRange ::
    "range_list \<Rightarrow> u64 \<Rightarrow> u64 \<Rightarrow> u8 \<Rightarrow> u32 \<Rightarrow> device option \<Rightarrow> range_list"
  k_RtlDeleteRange :: "range_list \<Rightarrow> u64 \<Rightarrow> u64 \<Rightarrow> device option \<Rightarrow> range_list"
  k_RtlDeleteOwnersRanges :: "range_list \<Rightarrow> device option \<Rightarrow> ntstatus \<times> range_list"
  k_RtlCopyRangeList :: "range_list \<Rightarrow> ntstatus \<times> range_list"
  k_EnumeratorName :: "device \<Rightarrow> string option"
  k_EqualString :: "string \<Rightarrow> string \<Rightarrow> bool"
  k_AttachedDrivers :: "device \<Rightarrow> nat list"
  k_Clock :: "nat \<Rightarrow> u64"

text \<open>The addresses of an inclusive window, and of a range.\<close>

definition window :: "u64 \<Rightarrow> u64 \<Rightarrow> u64 set" where
  "window s e = {a. s \<le> a \<and> a \<le> e}"

lemma mem_window [simp]: "a \<in> window s e \<longleftrightarrow> s \<le> a \<and> a \<le> e"
  by (simp add: window_def)

definition overlaps :: "u64 \<Rightarrow> u64 \<Rightarrow> u64 \<Rightarrow> u64 \<Rightarrow> bool" where
  "overlaps s e s' e' \<longleftrightarrow> s \<le> e' \<and> s' \<le> e"

lemma overlaps_iff:
  assumes "s \<le> e" and "s' \<le> e'"
  shows "overlaps s e s' e' \<longleftrightarrow> window s e \<inter> window s' e' \<noteq> {}"
proof
  assume "overlaps s e s' e'"
  with assms have "max s s' \<in> window s e \<inter> window s' e'"
    by (auto simp: overlaps_def max_def)
  then show "window s e \<inter> window s' e' \<noteq> {}" by blast
qed (auto simp: overlaps_def intro: order_trans)

end
