(* ===== verification/Arbiter_Ordering.thy ===== *)
theory Arbiter_Ordering
  imports Nt_Resources
begin

text \<open>
  Ordering lists of the arbiter library (reactos-libs/arbiter/ordering.c): the growable array of
  preferred windows, the pruning of a reserved window out of it, the walk over the ranges the
  registry policy describes, and the MMCONFIG windows. The main facts: a pruned list covers
  exactly the old addresses without the pruned window, and a failed prune changes nothing.
\<close>

section \<open>Data\<close>

record ordering =
  ord_Start :: u64
  ord_End :: u64

text \<open>
  \<open>ol_Orderings\<close> holds the array slots in use; slots between Count and Maximum are never read.
\<close>

record ordering_list =
  ol_Count :: u16
  ol_Maximum :: u16
  ol_Orderings :: "ordering list"

abbreviation (input) ARBITER_ORDERING_GRANULARITY :: u16 where "ARBITER_ORDERING_GRANULARITY \<equiv> 16"
abbreviation (input) ARBITER_ORDERING_LIMIT :: u32 where "ARBITER_ORDERING_LIMIT \<equiv> 1024"

definition ol_windows :: "ordering_list \<Rightarrow> ordering list" where
  "ol_windows ol = take (unat (ol_Count ol)) (ol_Orderings ol)"

section \<open>Operations\<close>

text \<open>
  A pool allocation may fail: each operation takes the outcome of the allocation it may make, and
  a loop that makes several takes their outcomes by call number.
\<close>

definition ArbpCreateOrderingList :: "bool \<Rightarrow> ntstatus \<times> ordering_list" where
  "ArbpCreateOrderingList pool =
     (if \<not> pool
      then (STATUS_INSUFFICIENT_RESOURCES, \<lparr>ol_Count = 0, ol_Maximum = 0, ol_Orderings = []\<rparr>)
      else (STATUS_SUCCESS,
            \<lparr>ol_Count = 0, ol_Maximum = ARBITER_ORDERING_GRANULARITY, ol_Orderings = []\<rparr>))"

definition ArbiterLibFreeOrderingList :: "ordering_list \<Rightarrow> ordering_list" where
  "ArbiterLibFreeOrderingList ol = \<lparr>ol_Count = 0, ol_Maximum = 0, ol_Orderings = []\<rparr>"

definition ArbiterLibAddOrdering ::
    "bool \<Rightarrow> ordering_list \<Rightarrow> u64 \<Rightarrow> u64 \<Rightarrow> ntstatus \<times> ordering_list" where
  "ArbiterLibAddOrdering pool ol Start End =
     (if End < Start then (STATUS_INVALID_PARAMETER, ol)
      else
        let NewMaximum :: u32 =
              (if ol_Maximum ol \<noteq> 0 then ucast (ol_Maximum ol) * 2
               else ucast ARBITER_ORDERING_GRANULARITY);
            full = (ol_Count ol = ol_Maximum ol)
        in if full \<and> NewMaximum > ARBITER_ORDERING_LIMIT
           then (STATUS_INSUFFICIENT_RESOURCES, ol)
           else if full \<and> \<not> pool then (STATUS_INSUFFICIENT_RESOURCES, ol)
           else (STATUS_SUCCESS,
                 ol\<lparr>ol_Maximum := (if full then ucast NewMaximum else ol_Maximum ol),
                    ol_Orderings := ol_windows ol @ [\<lparr>ord_Start = Start, ord_End = End\<rparr>],
                    ol_Count := ol_Count ol + 1\<rparr>))"

text \<open>The body of the pruning loop: what one window of the list leaves in the pruned list.\<close>

definition ArbpExcludeStep ::
    "bool \<Rightarrow> bool \<Rightarrow> u64 \<Rightarrow> u64 \<Rightarrow> ordering \<Rightarrow> ordering_list \<Rightarrow> ntstatus \<times> ordering_list" where
  "ArbpExcludeStep pool1 pool2 Start End w Pruned =
     (if ord_End w < Start \<or> ord_Start w > End
      then ArbiterLibAddOrdering pool1 Pruned (ord_Start w) (ord_End w)
      else
        let (Status, Pruned') =
              (if ord_Start w < Start
               then ArbiterLibAddOrdering pool1 Pruned (ord_Start w) (Start - 1)
               else (STATUS_SUCCESS, Pruned))
        in if NT_SUCCESS Status \<and> ord_End w > End
           then ArbiterLibAddOrdering pool2 Pruned' (End + 1) (ord_End w)
           else (Status, Pruned'))"

fun ArbpExcludeLoop ::
    "(nat \<Rightarrow> bool) \<Rightarrow> u64 \<Rightarrow> u64 \<Rightarrow> nat \<Rightarrow> ordering list \<Rightarrow> ordering_list \<Rightarrow> ntstatus \<times> ordering_list"
where
  "ArbpExcludeLoop pool Start End i [] Pruned = (STATUS_SUCCESS, Pruned)"
| "ArbpExcludeLoop pool Start End i (w # ws) Pruned =
     (let (Status, Pruned') =
            ArbpExcludeStep (pool (2 * i + 1)) (pool (2 * i + 2)) Start End w Pruned
      in if NT_SUCCESS Status then ArbpExcludeLoop pool Start End (Suc i) ws Pruned'
         else (Status, Pruned'))"

definition ArbpExcludeOrderingRange ::
    "(nat \<Rightarrow> bool) \<Rightarrow> ordering_list \<Rightarrow> u64 \<Rightarrow> u64 \<Rightarrow> ntstatus \<times> ordering_list" where
  "ArbpExcludeOrderingRange pool ol Start End =
     (if End < Start then (STATUS_INVALID_PARAMETER, ol)
      else
        let (Status, Pruned) = ArbpCreateOrderingList (pool 0)
        in if \<not> NT_SUCCESS Status then (Status, ol)
           else
             let (Status, Pruned) = ArbpExcludeLoop pool Start End 0 (ol_windows ol) Pruned
             in if \<not> NT_SUCCESS Status then (Status, ol)
                else (STATUS_SUCCESS, Pruned))"

section \<open>The registry policy\<close>

text \<open>
  A policy value as ArbpReadPolicyValue returns it: its type, its length, for a REG_SZ its
  characters, and for a requirements list its stored Count and the descriptors that lie wholly
  inside the value's data. Opening and reading keys are the kernel's: \<open>reg_open\<close> and \<open>reg_read\<close>.
\<close>

record reg_value =
  rv_Type :: u32
  rv_DataLength :: nat
  rv_Text :: "u16 list"
  rv_Count :: nat
  rv_Descriptors :: "io_desc list"

record reg_policy =
  reg_open :: "string \<Rightarrow> bool"
  reg_read :: "string \<Rightarrow> u16 list \<Rightarrow> ntstatus \<times> reg_value"

abbreviation (input) REG_SZ :: u32 where "REG_SZ \<equiv> 1"
abbreviation (input) REG_RESOURCE_REQUIREMENTS_LIST :: u32 where "REG_RESOURCE_REQUIREMENTS_LIST \<equiv> 10"

text \<open>sizeof(IO_RESOURCE_REQUIREMENTS_LIST): the list header and one embedded descriptor.\<close>

abbreviation sizeof_requirements_list :: nat where "sizeof_requirements_list \<equiv> 72"

type_synonym unpack_requirement = "io_desc \<Rightarrow> ntstatus \<times> (u64 \<times> u64 \<times> u64 \<times> u64)"

definition ArbpDescriptorMatchesArbiter :: "u8 \<Rightarrow> u8 \<Rightarrow> bool" where
  "ArbpDescriptorMatchesArbiter ResourceType DescriptorType \<longleftrightarrow>
     DescriptorType = ResourceType \<or>
     (DescriptorType = CmResourceTypeMemoryLarge \<and> ResourceType = CmResourceTypeMemory)"

text \<open>
  The loop over the descriptors; \<open>n\<close> is what is left of the stored Count. It stops at the first
  descriptor outside the data, and when a translation or a decode fails.
\<close>

fun ArbpForEachDescriptor ::
    "u8 \<Rightarrow> (io_desc \<Rightarrow> ntstatus \<times> io_desc) option \<Rightarrow> unpack_requirement \<Rightarrow>
     ('s \<Rightarrow> u64 \<Rightarrow> u64 \<Rightarrow> 's) \<Rightarrow> nat \<Rightarrow> io_desc list \<Rightarrow> 's \<Rightarrow> 's"
where
  "ArbpForEachDescriptor ty tr unpack cb 0 ds s = s"
| "ArbpForEachDescriptor ty tr unpack cb (Suc n) [] s = s"
| "ArbpForEachDescriptor ty tr unpack cb (Suc n) (d # ds) s =
     (let (Status, Window) = (case tr of Some t \<Rightarrow> t d | None \<Rightarrow> (STATUS_SUCCESS, d))
      in if \<not> NT_SUCCESS Status then s
         else if \<not> ArbpDescriptorMatchesArbiter ty (io_Type Window)
              then ArbpForEachDescriptor ty tr unpack cb n ds s
              else
                let (Status, (Minimum, Maximum, Length, Alignment)) = unpack Window
                in if \<not> NT_SUCCESS Status then s
                   else ArbpForEachDescriptor ty tr unpack cb n ds (cb s Minimum Maximum))"

definition ArbpForEachRegistryRange ::
    "reg_policy \<Rightarrow> u8 \<Rightarrow> string \<Rightarrow> u16 list \<Rightarrow> (io_desc \<Rightarrow> ntstatus \<times> io_desc) option \<Rightarrow>
     unpack_requirement \<Rightarrow> ('s \<Rightarrow> u64 \<Rightarrow> u64 \<Rightarrow> 's) \<Rightarrow> 's \<Rightarrow> ntstatus \<times> 's"
where
  "ArbpForEachRegistryRange reg ty Subkey ValueName tr unpack cb s =
     (if \<not> reg_open reg Subkey then (STATUS_SUCCESS, s)
      else
        let (Status, v0) = reg_read reg Subkey ValueName;
            Value =
              (if NT_SUCCESS Status \<and> rv_Type v0 = REG_SZ \<and>
                  rv_Text v0 \<noteq> [] \<and> last (rv_Text v0) = 0 \<and>
                  NT_SUCCESS (fst (reg_read reg Subkey (takeWhile (\<lambda>c. c \<noteq> 0) (rv_Text v0))))
               then snd (reg_read reg Subkey (takeWhile (\<lambda>c. c \<noteq> 0) (rv_Text v0)))
               else v0)
        in if NT_SUCCESS Status \<and> rv_Type Value = REG_RESOURCE_REQUIREMENTS_LIST \<and>
              sizeof_requirements_list \<le> rv_DataLength Value
           then (STATUS_SUCCESS,
                 ArbpForEachDescriptor ty tr unpack cb (rv_Count Value) (rv_Descriptors Value) s)
           else (STATUS_SUCCESS, s))"

section \<open>Range callbacks and the assignment ordering\<close>

text \<open>
  The two lists an arbiter keeps, as the state the callbacks thread. \<open>pool n m\<close> is the outcome of
  the m-th allocation inside the n-th callback; the counter is part of the state.
\<close>

record ordering_state =
  os_Calls :: nat
  os_OrderingList :: ordering_list
  os_ReservedList :: ordering_list

definition ArbpAddOrderingCallback ::
    "(nat \<Rightarrow> nat \<Rightarrow> bool) \<Rightarrow> ordering_state \<Rightarrow> u64 \<Rightarrow> u64 \<Rightarrow> ordering_state" where
  "ArbpAddOrderingCallback pool s Start End =
     s\<lparr>os_Calls := Suc (os_Calls s),
       os_OrderingList :=
         snd (ArbiterLibAddOrdering (pool (os_Calls s) 0) (os_OrderingList s) Start End)\<rparr>"

definition ArbpAddReservedCallback ::
    "(nat \<Rightarrow> nat \<Rightarrow> bool) \<Rightarrow> ordering_state \<Rightarrow> u64 \<Rightarrow> u64 \<Rightarrow> ordering_state" where
  "ArbpAddReservedCallback pool s Start End =
     (let p = pool (os_Calls s);
          (Status, Reserved) = ArbiterLibAddOrdering (p 0) (os_ReservedList s) Start End
      in s\<lparr>os_Calls := Suc (os_Calls s),
           os_ReservedList := Reserved,
           os_OrderingList :=
             (if NT_SUCCESS Status
              then snd (ArbpExcludeOrderingRange (\<lambda>m. p (Suc m)) (os_OrderingList s) Start End)
              else os_OrderingList s)\<rparr>)"

definition ArbiterLibDefaultAssignmentOrdering ::
    "(nat \<Rightarrow> nat \<Rightarrow> bool) \<Rightarrow> reg_policy \<Rightarrow> u8 \<Rightarrow> u16 list \<Rightarrow> u16 list \<Rightarrow>
     (io_desc \<Rightarrow> ntstatus \<times> io_desc) option \<Rightarrow> unpack_requirement \<Rightarrow>
     ordering_list \<Rightarrow> ordering_list \<Rightarrow> ntstatus \<times> ordering_list \<times> ordering_list"
where
  "ArbiterLibDefaultAssignmentOrdering pool reg ty OrderName ReservedName tr unpack ol rl =
     (let ol = ArbiterLibFreeOrderingList ol;
          rl = ArbiterLibFreeOrderingList rl;
          (Status, ol) = ArbpCreateOrderingList (pool 0 0)
      in if \<not> NT_SUCCESS Status then (Status, ol, rl)
         else
           let (Status, rl) = ArbpCreateOrderingList (pool 1 0)
           in if \<not> NT_SUCCESS Status then (Status, ArbiterLibFreeOrderingList ol, rl)
              else
                let s = \<lparr>os_Calls = 2, os_OrderingList = ol, os_ReservedList = rl\<rparr>;
                    (_, s) = ArbpForEachRegistryRange reg ty ''AllocationOrder'' OrderName tr unpack
                               (ArbpAddOrderingCallback pool) s;
                    (Status, s) = ArbpForEachRegistryRange reg ty ''ReservedResources'' ReservedName
                               tr unpack (ArbpAddReservedCallback pool) s
                in (Status, os_OrderingList s, os_ReservedList s))"

section \<open>MMCONFIG windows and blocked ranges\<close>

text \<open>
  The recorded MMCONFIG windows: the static table of ordering.c, at most 16 of them. The callback
  also reserves the window in the range list it is given.
\<close>

abbreviation (input) ARBITER_RANGE_BOOT_ALLOCATED :: u8 where "ARBITER_RANGE_BOOT_ALLOCATED \<equiv> 0x01"
abbreviation (input) ARBITER_RANGE_SHARED_DRIVER :: u8 where "ARBITER_RANGE_SHARED_DRIVER \<equiv> 0x02"
abbreviation (input) ARBITER_RANGE_PORT_ALIAS :: u8 where "ARBITER_RANGE_PORT_ALIAS \<equiv> 0x10"
abbreviation (input) ARBITER_RANGE_INACCESSIBLE :: u8 where "ARBITER_RANGE_INACCESSIBLE \<equiv> 0x40"
abbreviation (input) ARBP_MAX_MMCONFIG_RANGES :: nat where "ARBP_MAX_MMCONFIG_RANGES \<equiv> 16"

type_synonym mmconfig = "(u64 \<times> u64) list"

definition ArbpAddRangeCallback :: "nt_kernel \<Rightarrow> range_list \<Rightarrow> u64 \<Rightarrow> u64 \<Rightarrow> range_list" where
  "ArbpAddRangeCallback K rl Start End =
     k_RtlAddRange K rl Start End ARBITER_RANGE_INACCESSIBLE RTL_RANGE_LIST_ADD_IF_CONFLICT None"

definition ArbpMmConfigCallback ::
    "nt_kernel \<Rightarrow> mmconfig \<times> range_list \<Rightarrow> u64 \<Rightarrow> u64 \<Rightarrow> mmconfig \<times> range_list" where
  "ArbpMmConfigCallback K s Start End =
     (let (mc, rl) = s
      in (if length mc < ARBP_MAX_MMCONFIG_RANGES then mc @ [(Start, End)] else mc,
          k_RtlAddRange K rl Start End ARBITER_RANGE_BOOT_ALLOCATED
            RTL_RANGE_LIST_ADD_IF_CONFLICT None))"

definition ArbiterLibAddInaccessibleAllocationRange ::
    "nt_kernel \<Rightarrow> reg_policy \<Rightarrow> u8 \<Rightarrow> unpack_requirement \<Rightarrow> u16 list \<Rightarrow> range_list \<Rightarrow>
     ntstatus \<times> range_list" where
  "ArbiterLibAddInaccessibleAllocationRange K reg ty unpack OrderingName rl =
     ArbpForEachRegistryRange reg ty ''InaccessibleRange'' OrderingName None unpack
       (ArbpAddRangeCallback K) rl"

text \<open>The value name MmConfigRange, as the wide string the code passes.\<close>

definition wide :: "string \<Rightarrow> u16 list" where
  "wide s = map (\<lambda>c. of_nat (of_char c)) s"

definition ArbiterLibAddMmConfigRangeAsBootReserved ::
    "nt_kernel \<Rightarrow> reg_policy \<Rightarrow> u8 \<Rightarrow> unpack_requirement \<Rightarrow> mmconfig \<Rightarrow> range_list \<Rightarrow>
     ntstatus \<times> mmconfig \<times> range_list" where
  "ArbiterLibAddMmConfigRangeAsBootReserved K reg ty unpack mc rl =
     ArbpForEachRegistryRange reg ty ''ReservedResources'' (wide ''MmConfigRange'') None unpack
       (ArbpMmConfigCallback K) ([], rl)"

definition ArbiterLibIsConflictWithMmConfigRange :: "mmconfig \<Rightarrow> u64 \<Rightarrow> u64 \<Rightarrow> bool" where
  "ArbiterLibIsConflictWithMmConfigRange mc Start End \<longleftrightarrow>
     (\<exists>(s, e) \<in> set mc. Start \<le> e \<and> s \<le> End)"

section \<open>Well-formed ordering lists\<close>

text \<open>
  The capacity is 0 (never allocated) or 16 doubled up to six times; the slots in use are exactly
  the counted ones, and every window runs upwards.
\<close>

definition ol_capacity :: "u16 \<Rightarrow> bool" where
  "ol_capacity m \<longleftrightarrow> m = 0 \<or> m \<in> {16, 32, 64, 128, 256, 512, 1024}"

definition ol_wf :: "ordering_list \<Rightarrow> bool" where
  "ol_wf ol \<longleftrightarrow>
     length (ol_Orderings ol) = unat (ol_Count ol) \<and>
     ol_Count ol \<le> ol_Maximum ol \<and> ol_capacity (ol_Maximum ol) \<and>
     (\<forall>w \<in> set (ol_Orderings ol). ord_Start w \<le> ord_End w)"

lemma ol_capacity_le: "ol_capacity m \<Longrightarrow> unat m \<le> 1024"
  by (auto simp: ol_capacity_def)

lemma ol_windows_wf [simp]: "ol_wf ol \<Longrightarrow> ol_windows ol = ol_Orderings ol"
  by (simp add: ol_windows_def ol_wf_def)

lemma ol_windows_upward: "ol_wf ol \<Longrightarrow> w \<in> set (ol_windows ol) \<Longrightarrow> ord_Start w \<le> ord_End w"
  by (simp add: ol_wf_def ol_windows_def)

lemma ol_wf_empty [simp]:
  "ol_wf \<lparr>ol_Count = 0, ol_Maximum = 0, ol_Orderings = []\<rparr>"
  "ol_wf \<lparr>ol_Count = 0, ol_Maximum = ARBITER_ORDERING_GRANULARITY, ol_Orderings = []\<rparr>"
  by (simp_all add: ol_wf_def ol_capacity_def)

lemma ol_wf_create: "ol_wf (snd (ArbpCreateOrderingList pool))"
  by (simp add: ArbpCreateOrderingList_def)

lemma ol_count_le: "ol_wf ol \<Longrightarrow> length (ol_windows ol) \<le> 1024"
  using ol_capacity_le [of "ol_Maximum ol"] by (auto simp: ol_wf_def word_le_nat_alt ol_windows_def)

lemma ol_capacity_grow:
  assumes "ol_capacity m" and "(if m \<noteq> 0 then ucast m * 2 else 16) \<le> (1024 :: u32)"
  shows "ol_capacity (ucast (if m \<noteq> 0 then ucast m * 2 else 16 :: u32)) \<and>
         m < ucast (if m \<noteq> 0 then ucast m * 2 else 16 :: u32)"
  using assms by (auto simp: ol_capacity_def)

lemma ol_capacity_room:
  assumes "ol_capacity m" and "unat m < 1024"
  shows "(if m \<noteq> 0 then ucast m * 2 else 16) \<le> (1024 :: u32)"
  using assms by (auto simp: ol_capacity_def)

text \<open>What ArbiterLibAddOrdering does on each of its exits.\<close>

lemma AddOrdering_cases:
  assumes "ArbiterLibAddOrdering pool ol Start End = (Status, ol')"
  obtains (refused) "\<not> NT_SUCCESS Status" "ol' = ol"
      "End < Start \<and> Status = STATUS_INVALID_PARAMETER \<or>
       Start \<le> End \<and> ol_Count ol = ol_Maximum ol \<and> Status = STATUS_INSUFFICIENT_RESOURCES"
  | (added) "Status = STATUS_SUCCESS" "Start \<le> End"
      "ol_Orderings ol' = ol_windows ol @ [\<lparr>ord_Start = Start, ord_End = End\<rparr>]"
      "ol_Count ol' = ol_Count ol + 1"
      "ol_Count ol = ol_Maximum ol \<longrightarrow>
         (if ol_Maximum ol \<noteq> 0 then ucast (ol_Maximum ol) * 2 else 16) \<le> (1024 :: u32) \<and>
         ol_Maximum ol' =
           ucast (if ol_Maximum ol \<noteq> 0 then ucast (ol_Maximum ol) * 2 else 16 :: u32)"
      "ol_Count ol \<noteq> ol_Maximum ol \<longrightarrow> ol_Maximum ol' = ol_Maximum ol"
  using assms
  by (fastforce simp: ArbiterLibAddOrdering_def Let_def not_less split: if_splits)

lemma AddOrdering_wf:
  assumes "ol_wf ol" and "ArbiterLibAddOrdering pool ol Start End = (Status, ol')"
  shows "ol_wf ol'"
  using assms(2)
proof (cases rule: AddOrdering_cases)
  case refused
  with assms(1) show ?thesis by simp
next
  case added
  have cap: "ol_capacity (ol_Maximum ol') \<and> ol_Count ol < ol_Maximum ol'"
  proof (cases "ol_Count ol = ol_Maximum ol")
    case True
    with added(5) assms(1) show ?thesis
      using ol_capacity_grow [of "ol_Maximum ol"] by (simp add: ol_wf_def)
  next
    case False
    with added(6) assms(1) show ?thesis by (auto simp: ol_wf_def)
  qed
  from cap have "unat (ol_Count ol + 1) = Suc (unat (ol_Count ol))"
    by (blast intro: unat_succ)
  moreover have "ol_Count ol + 1 \<le> ol_Maximum ol'"
    using cap by (simp add: inc_le)
  ultimately show ?thesis
    using added(2-4) cap assms(1) by (auto simp: ol_wf_def)
qed

lemma AddOrdering_windows:
  assumes "ol_wf ol" and "ArbiterLibAddOrdering pool ol Start End = (Status, ol')"
    and "NT_SUCCESS Status"
  shows "ol_windows ol' = ol_windows ol @ [\<lparr>ord_Start = Start, ord_End = End\<rparr>]"
  using assms(2)
proof (cases rule: AddOrdering_cases)
  case refused
  with assms(3) show ?thesis by simp
next
  case added
  with assms(1) AddOrdering_wf [OF assms(1,2)] show ?thesis by simp
qed

lemma AddOrdering_succeeds:
  assumes "ol_wf ol" and "Start \<le> End" and "pool" and "length (ol_windows ol) < 1024"
  shows "fst (ArbiterLibAddOrdering pool ol Start End) = STATUS_SUCCESS"
proof -
  have room: "(if ol_Maximum ol \<noteq> 0 then ucast (ol_Maximum ol) * 2 else 16) \<le> (1024 :: u32)"
    if "ol_Count ol = ol_Maximum ol"
    using that assms(1,4) ol_capacity_room [of "ol_Maximum ol"] by (simp add: ol_wf_def)
  with assms(2,3) show ?thesis
    by (auto simp: ArbiterLibAddOrdering_def Let_def not_less)
qed

lemma AddOrdering_backwards:
  "\<not> Start \<le> End \<Longrightarrow> ArbiterLibAddOrdering pool ol Start End = (STATUS_INVALID_PARAMETER, ol)"
  by (simp add: ArbiterLibAddOrdering_def not_le)

section \<open>Pruning a window\<close>

text \<open>
  The reference: a window without the addresses of [Start, End], as at most two fragments.
\<close>

definition window_minus :: "u64 \<Rightarrow> u64 \<Rightarrow> ordering \<Rightarrow> ordering list" where
  "window_minus Start End w =
     (if ord_End w < Start \<or> End < ord_Start w then [w]
      else (if ord_Start w < Start then [\<lparr>ord_Start = ord_Start w, ord_End = Start - 1\<rparr>] else []) @
           (if End < ord_End w then [\<lparr>ord_Start = End + 1, ord_End = ord_End w\<rparr>] else []))"

definition covered :: "ordering list \<Rightarrow> u64 set" where
  "covered ws = (\<Union>w \<in> set ws. window (ord_Start w) (ord_End w))"

lemma covered_simps [simp]:
  "covered [] = {}"
  "covered (w # ws) = window (ord_Start w) (ord_End w) \<union> covered ws"
  "covered (us @ ws) = covered us \<union> covered ws"
  by (auto simp: covered_def)

lemma covered_window_minus:
  assumes "Start \<le> End"
  shows "covered (window_minus Start End w) = window (ord_Start w) (ord_End w) - window Start End"
proof -
  have l: "a \<le> Start - 1 \<longleftrightarrow> a < Start" if "ord_Start w < Start" for a
    using that by (rule word_pred_le)
  have r: "End + 1 \<le> a \<longleftrightarrow> End < a" if "End < ord_End w" for a
    using that by (rule word_succ_le)
  show ?thesis
    using assms l r by (auto simp: window_minus_def not_le not_less)
qed

lemma covered_prune:
  "Start \<le> End \<Longrightarrow>
   covered (concat (map (window_minus Start End) ws)) = covered ws - window Start End"
  by (induction ws) (auto simp: covered_window_minus)

lemma length_window_minus: "length (window_minus Start End w) \<le> 2"
  by (simp add: window_minus_def)

lemma ExcludeStep_windows:
  assumes "ol_wf P" and "ArbpExcludeStep p1 p2 Start End w P = (Status, P')"
    and "NT_SUCCESS Status"
  shows "ol_wf P' \<and> ol_windows P' = ol_windows P @ window_minus Start End w"
proof (cases "ord_End w < Start \<or> End < ord_Start w")
  case True
  with assms show ?thesis
    using AddOrdering_wf AddOrdering_windows by (force simp: ArbpExcludeStep_def window_minus_def)
next
  case out: False
  obtain St1 P1 where s1: "(if ord_Start w < Start
      then ArbiterLibAddOrdering p1 P (ord_Start w) (Start - 1) else (STATUS_SUCCESS, P)) = (St1, P1)"
    by fastforce
  show ?thesis
  proof (cases "NT_SUCCESS St1")
    case False
    with out s1 assms(2,3) show ?thesis by (auto simp: ArbpExcludeStep_def split: if_splits)
  next
    case True
    with s1 assms(1) have P1: "ol_wf P1 \<and> ol_windows P1 = ol_windows P @
        (if ord_Start w < Start then [\<lparr>ord_Start = ord_Start w, ord_End = Start - 1\<rparr>] else [])"
      using AddOrdering_wf AddOrdering_windows by (fastforce split: if_splits)
    from out s1 True assms(2) have "(if End < ord_End w
        then ArbiterLibAddOrdering p2 P1 (End + 1) (ord_End w) else (St1, P1)) = (Status, P')"
      by (simp add: ArbpExcludeStep_def split: if_splits)
    with P1 out assms(3) show ?thesis
      using AddOrdering_wf [of P1] AddOrdering_windows [of P1]
      by (auto simp: window_minus_def split: if_splits)
  qed
qed

lemma ExcludeLoop_windows:
  assumes "ol_wf P" and "ArbpExcludeLoop pool Start End i ws P = (Status, P')"
    and "NT_SUCCESS Status"
  shows "ol_wf P' \<and> ol_windows P' = ol_windows P @ concat (map (window_minus Start End) ws)"
  using assms
proof (induction ws arbitrary: i P)
  case Nil
  then show ?case by simp
next
  case (Cons w ws)
  obtain St1 P1 where s: "ArbpExcludeStep (pool (2 * i + 1)) (pool (2 * i + 2)) Start End w P = (St1, P1)"
    by fastforce
  with Cons.prems have ok: "NT_SUCCESS St1" by (auto split: if_splits)
  from ExcludeStep_windows [OF Cons.prems(1) s ok]
  have P1: "ol_wf P1" "ol_windows P1 = ol_windows P @ window_minus Start End w" by simp_all
  from Cons.prems(2) s ok have "ArbpExcludeLoop pool Start End (Suc i) ws P1 = (Status, P')" by simp
  from Cons.IH [OF P1(1) this Cons.prems(3)] P1(2) show ?case by simp
qed

text \<open>Without a failing allocation the loop succeeds when the pruned list fits the limit.\<close>

lemma ExcludeStep_fits:
  assumes "ol_wf P" and "Start \<le> End" and "ord_Start w \<le> ord_End w" and "p1" and "p2"
    and room: "length (ol_windows P) + length (window_minus Start End w) \<le> 1024"
  shows "NT_SUCCESS (fst (ArbpExcludeStep p1 p2 Start End w P))"
proof (cases "ord_End w < Start \<or> End < ord_Start w")
  case True
  with assms show ?thesis
    using AddOrdering_succeeds [of P] by (auto simp: ArbpExcludeStep_def window_minus_def)
next
  case out: False
  have l: "ord_Start w \<le> Start - 1" if "ord_Start w < Start"
    using that by (simp add: word_pred_le)
  have r: "End + 1 \<le> ord_End w" if "End < ord_End w"
    using that by (simp add: word_succ_le)
  show ?thesis
  proof (cases "ord_Start w < Start")
    case True
    obtain St1 P1 where s1: "ArbiterLibAddOrdering p1 P (ord_Start w) (Start - 1) = (St1, P1)"
      by fastforce
    with AddOrdering_succeeds [OF assms(1) l [OF True] assms(4)] room out True
    have St1: "St1 = STATUS_SUCCESS" by (simp add: window_minus_def del: ol_windows_wf split: if_splits)
    with s1 assms(1) have P1: "ol_wf P1" "length (ol_windows P1) = Suc (length (ol_windows P))"
      using AddOrdering_wf AddOrdering_windows by force+
    show ?thesis
      using out True s1 St1 AddOrdering_succeeds [OF P1(1) r assms(5)] P1(2) room
      by (auto simp: ArbpExcludeStep_def window_minus_def simp del: ol_windows_wf)
  next
    case False
    with out show ?thesis
      using AddOrdering_succeeds [OF assms(1) r assms(5)] room
      by (auto simp: ArbpExcludeStep_def window_minus_def simp del: ol_windows_wf)
  qed
qed

lemma ExcludeLoop_fits:
  assumes "ol_wf P" and "Start \<le> End" and "\<forall>w \<in> set ws. ord_Start w \<le> ord_End w"
    and "\<And>n. pool n"
    and "length (ol_windows P) + length (concat (map (window_minus Start End) ws)) \<le> 1024"
  shows "NT_SUCCESS (fst (ArbpExcludeLoop pool Start End i ws P))"
  using assms
proof (induction ws arbitrary: i P)
  case Nil
  then show ?case by simp
next
  case (Cons w ws)
  obtain St1 P1 where s: "ArbpExcludeStep (pool (2 * i + 1)) (pool (2 * i + 2)) Start End w P = (St1, P1)"
    by fastforce
  have "NT_SUCCESS (fst (ArbpExcludeStep (pool (2 * i + 1)) (pool (2 * i + 2)) Start End w P))"
    using Cons.prems by (intro ExcludeStep_fits) simp_all
  with s have ok: "NT_SUCCESS St1" by simp
  from ExcludeStep_windows [OF Cons.prems(1) s ok] Cons.prems(5)
  have "ol_wf P1" "length (ol_windows P1) + length (concat (map (window_minus Start End) ws)) \<le> 1024"
    by auto
  with Cons.IH [of P1 "Suc i"] Cons.prems(2-4) s ok show ?case by simp
qed

lemma Exclude_result:
  assumes "ol_wf ol" and "ArbpExcludeOrderingRange pool ol Start End = (Status, ol')"
  shows "ol_wf ol'"
    and "\<not> NT_SUCCESS Status \<Longrightarrow> ol' = ol"
    and "NT_SUCCESS Status \<Longrightarrow>
      Start \<le> End \<and> ol_windows ol' = concat (map (window_minus Start End) (ol_windows ol))"
proof -
  obtain St P where c: "ArbpCreateOrderingList (pool 0) = (St, P)" by fastforce
  then have P: "ol_wf P" "ol_windows P = []"
    by (auto simp: ArbpCreateOrderingList_def ol_windows_def split: if_splits)
  obtain St2 P2 where l: "ArbpExcludeLoop pool Start End 0 (ol_windows ol) P = (St2, P2)" by fastforce
  note facts = assms c l P ExcludeLoop_windows [OF P(1) l]
  show "ol_wf ol'"
    using facts by (auto simp: ArbpExcludeOrderingRange_def Let_def simp del: ol_windows_wf split: if_splits)
  show "\<not> NT_SUCCESS Status \<Longrightarrow> ol' = ol"
    using facts by (auto simp: ArbpExcludeOrderingRange_def Let_def simp del: ol_windows_wf split: if_splits)
  show "NT_SUCCESS Status \<Longrightarrow>
      Start \<le> End \<and> ol_windows ol' = concat (map (window_minus Start End) (ol_windows ol))"
    using facts by (auto simp: ArbpExcludeOrderingRange_def Let_def simp del: ol_windows_wf split: if_splits)
qed

lemma Exclude_fits:
  assumes "ol_wf ol" and "Start \<le> End" and "\<And>n. pool n"
    and "length (concat (map (window_minus Start End) (ol_windows ol))) \<le> 1024"
  shows "NT_SUCCESS (fst (ArbpExcludeOrderingRange pool ol Start End))"
proof -
  let ?P = "\<lparr>ol_Count = 0, ol_Maximum = ARBITER_ORDERING_GRANULARITY, ol_Orderings = []\<rparr> :: ordering_list"
  have "NT_SUCCESS (fst (ArbpExcludeLoop pool Start End 0 (ol_windows ol) ?P))"
    using assms by (intro ExcludeLoop_fits) (auto intro: ol_windows_upward simp: ol_windows_def)
  with assms(2,3) show ?thesis
    by (cases "ArbpExcludeLoop pool Start End 0 (ol_windows ol) ?P")
      (simp add: ArbpExcludeOrderingRange_def ArbpCreateOrderingList_def Let_def not_less)
qed

section \<open>The registry walk as a fold\<close>

text \<open>
  The windows a walk delivers to its callback, in order: the reference the walk is compared to.
\<close>

fun policy_ranges ::
    "u8 \<Rightarrow> (io_desc \<Rightarrow> ntstatus \<times> io_desc) option \<Rightarrow> unpack_requirement \<Rightarrow> nat \<Rightarrow> io_desc list \<Rightarrow>
     (u64 \<times> u64) list"
where
  "policy_ranges ty tr unpack 0 ds = []"
| "policy_ranges ty tr unpack (Suc n) [] = []"
| "policy_ranges ty tr unpack (Suc n) (d # ds) =
     (let (Status, Window) = (case tr of Some t \<Rightarrow> t d | None \<Rightarrow> (STATUS_SUCCESS, d));
          (Status2, (Minimum, Maximum, Length, Alignment)) = unpack Window
      in if \<not> NT_SUCCESS Status then []
         else if \<not> ArbpDescriptorMatchesArbiter ty (io_Type Window) then policy_ranges ty tr unpack n ds
         else if \<not> NT_SUCCESS Status2 then []
         else (Minimum, Maximum) # policy_ranges ty tr unpack n ds)"

definition registry_ranges ::
    "reg_policy \<Rightarrow> u8 \<Rightarrow> string \<Rightarrow> u16 list \<Rightarrow> (io_desc \<Rightarrow> ntstatus \<times> io_desc) option \<Rightarrow>
     unpack_requirement \<Rightarrow> (u64 \<times> u64) list"
where
  "registry_ranges reg ty Subkey ValueName tr unpack =
     snd (ArbpForEachRegistryRange reg ty Subkey ValueName tr unpack (\<lambda>rs a b. rs @ [(a, b)]) [])"

abbreviation run_callback :: "('s \<Rightarrow> u64 \<Rightarrow> u64 \<Rightarrow> 's) \<Rightarrow> 's \<Rightarrow> (u64 \<times> u64) list \<Rightarrow> 's" where
  "run_callback cb \<equiv> foldl (\<lambda>s (a, b). cb s a b)"

lemma ForEachDescriptor_fold:
  "ArbpForEachDescriptor ty tr unpack cb n ds s = run_callback cb s (policy_ranges ty tr unpack n ds)"
proof (induction n arbitrary: ds s)
  case 0
  then show ?case by simp
next
  case (Suc n)
  show ?case
  proof (cases ds)
    case Nil
    then show ?thesis by simp
  next
    case (Cons d ds')
    obtain St W where t: "(case tr of Some t \<Rightarrow> t d | None \<Rightarrow> (STATUS_SUCCESS, d)) = (St, W)"
      by fastforce
    obtain St2 lo hi len al where u: "unpack W = (St2, lo, hi, len, al)" by (metis prod.exhaust)
    from Cons t u Suc.IH show ?thesis by simp
  qed
qed

lemma foldl_snoc_collect: "run_callback (\<lambda>rs a b. rs @ [(a, b)]) rs xs = rs @ xs"
  by (induction xs arbitrary: rs) auto

lemma ForEachRegistryRange_fold:
  "ArbpForEachRegistryRange reg ty Subkey ValueName tr unpack cb s =
   (STATUS_SUCCESS, run_callback cb s (registry_ranges reg ty Subkey ValueName tr unpack))"
  by (simp add: ArbpForEachRegistryRange_def registry_ranges_def ForEachDescriptor_fold
      foldl_snoc_collect Let_def split: prod.split)

text \<open>
  The contract of a range callback: an invariant of the state it threads. Every walk keeps it.
\<close>

locale range_callback =
  fixes cb :: "'s \<Rightarrow> u64 \<Rightarrow> u64 \<Rightarrow> 's" and inv :: "'s \<Rightarrow> bool"
  assumes callback_keeps: "inv s \<Longrightarrow> inv (cb s a b)"
begin

lemma run_keeps: "inv s \<Longrightarrow> inv (run_callback cb s rs)"
  by (induction rs arbitrary: s) (auto simp: callback_keeps)

lemma walk_keeps:
  "inv s \<Longrightarrow> inv (snd (ArbpForEachRegistryRange reg ty Subkey ValueName tr unpack cb s))"
  by (simp add: ForEachRegistryRange_fold run_keeps)

end

definition os_wf :: "ordering_state \<Rightarrow> bool" where
  "os_wf s \<longleftrightarrow> ol_wf (os_OrderingList s) \<and> ol_wf (os_ReservedList s)"

lemma snd_AddOrdering_wf: "ol_wf ol \<Longrightarrow> ol_wf (snd (ArbiterLibAddOrdering pool ol a b))"
  by (metis AddOrdering_wf prod.collapse)

lemma snd_Exclude_wf: "ol_wf ol \<Longrightarrow> ol_wf (snd (ArbpExcludeOrderingRange pool ol a b))"
  by (metis Exclude_result(1) prod.collapse)

interpretation ordering_cb: range_callback "ArbpAddOrderingCallback pool" os_wf for pool
  by unfold_locales (simp add: os_wf_def ArbpAddOrderingCallback_def snd_AddOrdering_wf)

interpretation reserved_cb: range_callback "ArbpAddReservedCallback pool" os_wf for pool
  by unfold_locales
    (simp add: os_wf_def ArbpAddReservedCallback_def Let_def split_beta snd_AddOrdering_wf snd_Exclude_wf)

definition mc_wf :: "mmconfig \<times> range_list \<Rightarrow> bool" where
  "mc_wf s \<longleftrightarrow> length (fst s) \<le> ARBP_MAX_MMCONFIG_RANGES"

interpretation mmconfig_cb: range_callback "ArbpMmConfigCallback K" mc_wf for K
  by unfold_locales (auto simp: mc_wf_def ArbpMmConfigCallback_def split: prod.splits)

section \<open>The assignment ordering\<close>

text \<open>
  Reference for ArbiterLibDefaultAssignmentOrdering: the upward windows of the policy, in policy
  order, and those of the ordering with every reserved window pruned out, one after the other.
\<close>

definition upward :: "(u64 \<times> u64) list \<Rightarrow> (u64 \<times> u64) list" where
  "upward = filter (\<lambda>(a, b). a \<le> b)"

definition to_windows :: "(u64 \<times> u64) list \<Rightarrow> ordering list" where
  "to_windows = map (\<lambda>(a, b). \<lparr>ord_Start = a, ord_End = b\<rparr>)"

definition prune_all :: "ordering list \<Rightarrow> (u64 \<times> u64) list \<Rightarrow> ordering list" where
  "prune_all = foldl (\<lambda>ws (a, b). concat (map (window_minus a b) ws))"

lemma covered_prune_all:
  "\<forall>(a, b) \<in> set rs. a \<le> b \<Longrightarrow>
   covered (prune_all ws rs) = covered ws - (\<Union>(a, b) \<in> set rs. window a b)"
proof (induction rs arbitrary: ws)
  case Nil
  then show ?case by (simp add: prune_all_def)
next
  case (Cons r rs)
  obtain a b where r: "r = (a, b)" by fastforce
  with Cons.IH [of "concat (map (window_minus a b) ws)"] Cons.prems covered_prune [of a b ws]
  show ?case by (auto simp: prune_all_def)
qed

lemma covered_to_windows: "covered (to_windows rs) = (\<Union>(a, b) \<in> set rs. window a b)"
  by (induction rs) (auto simp: to_windows_def)

lemma ordering_run:
  assumes "os_wf s" and "\<And>n m. pool n m"
    and "length (ol_windows (os_OrderingList s)) + length (upward rs) \<le> 1024"
  shows "ol_windows (os_OrderingList (run_callback (ArbpAddOrderingCallback pool) s rs)) =
           ol_windows (os_OrderingList s) @ to_windows (upward rs) \<and>
         os_ReservedList (run_callback (ArbpAddOrderingCallback pool) s rs) = os_ReservedList s"
  using assms
proof (induction rs arbitrary: s)
  case Nil
  then show ?case by (simp add: upward_def to_windows_def)
next
  case (Cons r rs)
  obtain a b where r: "r = (a, b)" by fastforce
  let ?s = "ArbpAddOrderingCallback pool s a b"
  have wf: "os_wf ?s" using Cons.prems(1) by (rule ordering_cb.callback_keeps)
  show ?case
  proof (cases "a \<le> b")
    case True
    have "fst (ArbiterLibAddOrdering (pool (os_Calls s) 0) (os_OrderingList s) a b) = STATUS_SUCCESS"
      using Cons.prems True r by (intro AddOrdering_succeeds) (auto simp: os_wf_def upward_def)
    then have "ol_windows (os_OrderingList ?s) =
        ol_windows (os_OrderingList s) @ [\<lparr>ord_Start = a, ord_End = b\<rparr>]"
      using Cons.prems(1) AddOrdering_windows [of "os_OrderingList s"]
      by (simp add: ArbpAddOrderingCallback_def os_wf_def del: ol_windows_wf)
        (metis NT_SUCCESS_statuses(1) prod.collapse)
    with Cons.IH [OF wf Cons.prems(2)] Cons.prems(3) True r show ?thesis
      by (auto simp: upward_def to_windows_def ArbpAddOrderingCallback_def simp del: ol_windows_wf)
  next
    case False
    then have "os_OrderingList ?s = os_OrderingList s"
      by (simp add: ArbpAddOrderingCallback_def AddOrdering_backwards)
    with Cons.IH [OF wf Cons.prems(2)] Cons.prems(3) False r show ?thesis
      by (simp add: upward_def ArbpAddOrderingCallback_def del: ol_windows_wf)
  qed
qed

lemma reserved_step:
  assumes "os_wf s" and "\<And>n m. pool n m" and "a \<le> b"
    and "length (ol_windows (os_ReservedList s)) < 1024"
    and "length (concat (map (window_minus a b) (ol_windows (os_OrderingList s)))) \<le> 1024"
  shows "ol_windows (os_ReservedList (ArbpAddReservedCallback pool s a b)) =
           ol_windows (os_ReservedList s) @ [\<lparr>ord_Start = a, ord_End = b\<rparr>]"
    and "ol_windows (os_OrderingList (ArbpAddReservedCallback pool s a b)) =
           concat (map (window_minus a b) (ol_windows (os_OrderingList s)))"
proof -
  obtain St R where R: "ArbiterLibAddOrdering (pool (os_Calls s) 0) (os_ReservedList s) a b = (St, R)"
    by fastforce
  with assms have St: "St = STATUS_SUCCESS"
    using AddOrdering_succeeds [of "os_ReservedList s" a b "pool (os_Calls s) 0"] by (simp add: os_wf_def)
  obtain St2 O2 where E: "ArbpExcludeOrderingRange (\<lambda>m. pool (os_Calls s) (Suc m))
      (os_OrderingList s) a b = (St2, O2)" by fastforce
  with assms have "NT_SUCCESS St2"
    using Exclude_fits [of "os_OrderingList s" a b "\<lambda>m. pool (os_Calls s) (Suc m)"]
    by (simp add: os_wf_def)
  with assms(1) E have O2: "ol_windows O2 = concat (map (window_minus a b) (ol_windows (os_OrderingList s)))"
    using Exclude_result(3) [of "os_OrderingList s"] by (simp add: os_wf_def del: ol_windows_wf)
  from R St assms(1) have "ol_windows R = ol_windows (os_ReservedList s) @ [\<lparr>ord_Start = a, ord_End = b\<rparr>]"
    using AddOrdering_windows [of "os_ReservedList s"] by (simp add: os_wf_def del: ol_windows_wf)
  with R St E O2 show
    "ol_windows (os_ReservedList (ArbpAddReservedCallback pool s a b)) =
       ol_windows (os_ReservedList s) @ [\<lparr>ord_Start = a, ord_End = b\<rparr>]"
    "ol_windows (os_OrderingList (ArbpAddReservedCallback pool s a b)) =
       concat (map (window_minus a b) (ol_windows (os_OrderingList s)))"
    by (simp_all add: ArbpAddReservedCallback_def del: ol_windows_wf)
qed

lemma reserved_run:
  assumes "os_wf s" and "\<And>n m. pool n m"
    and "length (ol_windows (os_ReservedList s)) + length (upward rs) \<le> 1024"
    and "\<forall>k \<le> length (upward rs).
           length (prune_all (ol_windows (os_OrderingList s)) (take k (upward rs))) \<le> 1024"
  shows "ol_windows (os_OrderingList (run_callback (ArbpAddReservedCallback pool) s rs)) =
           prune_all (ol_windows (os_OrderingList s)) (upward rs) \<and>
         ol_windows (os_ReservedList (run_callback (ArbpAddReservedCallback pool) s rs)) =
           ol_windows (os_ReservedList s) @ to_windows (upward rs)"
  using assms
proof (induction rs arbitrary: s)
  case Nil
  then show ?case by (simp add: upward_def to_windows_def prune_all_def)
next
  case (Cons r rs)
  obtain a b where r: "r = (a, b)" by fastforce
  let ?s = "ArbpAddReservedCallback pool s a b"
  have wf: "os_wf ?s" using Cons.prems(1) by (rule reserved_cb.callback_keeps)
  show ?case
  proof (cases "a \<le> b")
    case True
    then have up: "upward (r # rs) = (a, b) # upward rs" using r by (simp add: upward_def)
    have take_Suc_up: "length (prune_all (concat (map (window_minus a b) (ol_windows (os_OrderingList s))))
        (take k (upward rs))) \<le> 1024" if "k \<le> length (upward rs)" for k
      using Cons.prems(4) that unfolding up
      by (auto dest!: spec [of _ "Suc k"] simp: prune_all_def simp del: ol_windows_wf)
    have now: "length (concat (map (window_minus a b) (ol_windows (os_OrderingList s)))) \<le> 1024"
      using take_Suc_up [of 0] by (simp add: prune_all_def del: ol_windows_wf)
    have room: "length (ol_windows (os_ReservedList s)) < 1024"
      using Cons.prems(3) up by (simp del: ol_windows_wf)
    note step = reserved_step [OF Cons.prems(1,2) True room now]
    show ?thesis
      using Cons.IH [OF wf Cons.prems(2)] Cons.prems(3) take_Suc_up step r up
      by (simp add: prune_all_def to_windows_def del: ol_windows_wf)
  next
    case False
    then have "os_OrderingList ?s = os_OrderingList s" "os_ReservedList ?s = os_ReservedList s"
      by (simp_all add: ArbpAddReservedCallback_def AddOrdering_backwards)
    moreover from False r have "upward (r # rs) = upward rs" by (simp add: upward_def)
    ultimately show ?thesis
      using Cons.IH [OF wf Cons.prems(2)] Cons.prems(3,4) r by (simp del: ol_windows_wf)
  qed
qed

section \<open>Properties\<close>

text \<open>
  C16: Pruning a reserved window: when ArbpExcludeOrderingRange succeeds, the list it leaves is
  well formed and covers exactly the addresses the old list covered outside [Start, End], with the
  surviving windows and fragments in their old order of preference; when it fails for any reason
  (a backwards range, an allocation, the 1024 limit), the list is left as it was.
\<close>

theorem ExcludeOrderingRange_correct:
  assumes "ol_wf ol" and "ArbpExcludeOrderingRange pool ol Start End = (Status, ol')"
  shows "ol_wf ol' \<and>
    (NT_SUCCESS Status \<longrightarrow>
       covered (ol_windows ol') = covered (ol_windows ol) - window Start End \<and>
       ol_windows ol' = concat (map (window_minus Start End) (ol_windows ol))) \<and>
    (\<not> NT_SUCCESS Status \<longrightarrow> ol' = ol)"
  using Exclude_result [OF assms] by (auto simp: covered_prune simp del: ol_windows_wf)

theorem ExcludeOrderingRange_correct_witness:
  "ol_windows (snd (ArbpExcludeOrderingRange (\<lambda>_. True)
     \<lparr>ol_Count = 1, ol_Maximum = 16, ol_Orderings = [\<lparr>ord_Start = 0, ord_End = 0xFFFF\<rparr>]\<rparr> 0x3F8 0x3FF)) =
   [\<lparr>ord_Start = 0, ord_End = 0x3F7\<rparr>, \<lparr>ord_Start = 0x400, ord_End = 0xFFFF\<rparr>]"
proof -
  let ?ol = "\<lparr>ol_Count = 1, ol_Maximum = 16, ol_Orderings = [\<lparr>ord_Start = 0, ord_End = 0xFFFF\<rparr>]\<rparr> :: ordering_list"
  have wf: "ol_wf ?ol" by (simp add: ol_wf_def ol_capacity_def)
  have ok: "NT_SUCCESS (fst (ArbpExcludeOrderingRange (\<lambda>_. True) ?ol 0x3F8 0x3FF))" by code_simp
  show ?thesis
    using ExcludeOrderingRange_correct [OF wf prod.collapse [symmetric], of "\<lambda>_. True" "0x3F8" "0x3FF"] ok
    by (simp add: ol_windows_def window_minus_def)
qed

text \<open>
  The assignment ordering keeps reserved windows out of reach of the ordering pass: with the
  allocations succeeding and every intermediate list within the 1024 limit,
  ArbiterLibDefaultAssignmentOrdering succeeds, its ReservedList is the policy's reserved windows,
  its OrderingList is the policy's preferred windows with each reserved window pruned out in turn,
  and no address of a reserved window is covered by an ordering window.
\<close>

theorem DefaultAssignmentOrdering_reserved_disjoint:
  fixes reg ty ordn resn tr unpack
  defines "os \<equiv> upward (registry_ranges reg ty ''AllocationOrder'' ordn tr unpack)"
    and "rs \<equiv> upward (registry_ranges reg ty ''ReservedResources'' resn tr unpack)"
  assumes pool: "\<And>n m. pool n m" and "length os \<le> 1024" and "length rs \<le> 1024"
    and fit: "\<forall>k \<le> length rs. length (prune_all (to_windows os) (take k rs)) \<le> 1024"
    and run: "ArbiterLibDefaultAssignmentOrdering pool reg ty ordn resn tr unpack ol rl = (Status, ol', rl')"
  shows "Status = STATUS_SUCCESS \<and> ol_wf ol' \<and> ol_wf rl' \<and>
    ol_windows ol' = prune_all (to_windows os) rs \<and> ol_windows rl' = to_windows rs \<and>
    covered (ol_windows ol') \<inter> covered (ol_windows rl') = {}"
proof -
  let ?e = "\<lparr>ol_Count = 0, ol_Maximum = ARBITER_ORDERING_GRANULARITY, ol_Orderings = []\<rparr> :: ordering_list"
  let ?s0 = "\<lparr>os_Calls = 2, os_OrderingList = ?e, os_ReservedList = ?e\<rparr>"
  let ?s1 = "run_callback (ArbpAddOrderingCallback pool) ?s0
    (registry_ranges reg ty ''AllocationOrder'' ordn tr unpack)"
  let ?s2 = "run_callback (ArbpAddReservedCallback pool) ?s1
    (registry_ranges reg ty ''ReservedResources'' resn tr unpack)"
  have e: "ol_windows ?e = []" by (simp add: ol_windows_def)
  have wf0: "os_wf ?s0" by (simp add: os_wf_def)
  then have wf1: "os_wf ?s1" by (rule ordering_cb.run_keeps)
  then have wf2: "os_wf ?s2" by (rule reserved_cb.run_keeps)
  from run pool have res: "Status = STATUS_SUCCESS" "ol' = os_OrderingList ?s2" "rl' = os_ReservedList ?s2"
    by (simp_all add: ArbiterLibDefaultAssignmentOrdering_def ArbpCreateOrderingList_def
        ForEachRegistryRange_fold Let_def)
  have s1: "ol_windows (os_OrderingList ?s1) = to_windows os" "ol_windows (os_ReservedList ?s1) = []"
    using ordering_run [OF wf0 pool] assms(4) e by (simp_all add: os_def del: ol_windows_wf)
  have s2: "ol_windows ol' = prune_all (to_windows os) rs" "ol_windows rl' = to_windows rs"
    using reserved_run [OF wf1 pool] assms(5) fit s1 res by (simp_all add: rs_def del: ol_windows_wf)
  have "covered (ol_windows ol') \<inter> covered (ol_windows rl') = {}"
    unfolding s2 by (subst covered_prune_all) (auto simp: covered_to_windows rs_def upward_def)
  with res s2 wf2 show ?thesis by (simp add: os_wf_def del: ol_windows_wf)
qed

definition sample_desc :: "u64 \<Rightarrow> u64 \<Rightarrow> io_desc" where
  "sample_desc lo hi =
     \<lparr>io_Option = 0, io_Type = CmResourceTypePort, io_ShareDisposition = 0, io_Flags = 0,
      io_Length = 0, io_Alignment = 0, io_MinimumAddress = lo, io_MaximumAddress = hi,
      io_BusLength = 0, io_MinBusNumber = 0, io_MaxBusNumber = 0,
      io_MinimumVector = 0, io_MaximumVector = 0, io_TargetedProcessors = 0\<rparr>"

definition sample_policy :: reg_policy where
  "sample_policy =
     \<lparr>reg_open = (\<lambda>_. True),
      reg_read = (\<lambda>sub _. (STATUS_SUCCESS,
        \<lparr>rv_Type = REG_RESOURCE_REQUIREMENTS_LIST, rv_DataLength = 72, rv_Text = [], rv_Count = 1,
         rv_Descriptors =
           [if sub = ''AllocationOrder'' then sample_desc 0 0xFFFF else sample_desc 0x3F8 0x3FF]\<rparr>))\<rparr>"

theorem DefaultAssignmentOrdering_reserved_disjoint_witness:
  "ol_windows (fst (snd (ArbiterLibDefaultAssignmentOrdering (\<lambda>_ _. True) sample_policy
     CmResourceTypePort [] [] None
     (\<lambda>d. (STATUS_SUCCESS, io_MinimumAddress d, io_MaximumAddress d, 0, 1))
     \<lparr>ol_Count = 0, ol_Maximum = 0, ol_Orderings = []\<rparr>
     \<lparr>ol_Count = 0, ol_Maximum = 0, ol_Orderings = []\<rparr>))) =
   [\<lparr>ord_Start = 0, ord_End = 0x3F7\<rparr>, \<lparr>ord_Start = 0x400, ord_End = 0xFFFF\<rparr>]"
proof -
  let ?u = "\<lambda>d. (STATUS_SUCCESS, io_MinimumAddress d, io_MaximumAddress d, 0 :: u64, 1 :: u64)"
  let ?o = "upward (registry_ranges sample_policy CmResourceTypePort ''AllocationOrder'' [] None ?u)"
  let ?r = "upward (registry_ranges sample_policy CmResourceTypePort ''ReservedResources'' [] None ?u)"
  let ?e = "\<lparr>ol_Count = 0, ol_Maximum = 0, ol_Orderings = []\<rparr> :: ordering_list"
  have o: "?o = [(0, 0xFFFF)]" and r: "?r = [(0x3F8, 0x3FF)]"
    by (simp_all add: registry_ranges_def ArbpForEachRegistryRange_def sample_policy_def sample_desc_def
        ForEachDescriptor_fold ArbpDescriptorMatchesArbiter_def upward_def)
  obtain St ol' rl' where run: "ArbiterLibDefaultAssignmentOrdering (\<lambda>_ _. True) sample_policy
      CmResourceTypePort [] [] None ?u ?e ?e = (St, ol', rl')" by (rule prod_cases3)
  have "ol_windows ol' = prune_all (to_windows ?o) ?r"
    by (rule DefaultAssignmentOrdering_reserved_disjoint
        [of "\<lambda>_ _. True", OF TrueI _ _ _ run, THEN conjunct2, THEN conjunct2, THEN conjunct2, THEN conjunct1])
      (auto simp: o r le_Suc_eq prune_all_def to_windows_def window_minus_def)
  with run show ?thesis
    by (simp add: o r prune_all_def to_windows_def window_minus_def)
qed

text \<open>
  The MMCONFIG table: re-reading the policy never records more than the table's 16 windows,
  and ArbiterLibIsConflictWithMmConfigRange answers yes for a range exactly when it shares an
  address with a recorded window (for upward ranges).
\<close>

theorem MmConfig_conflict_correct:
  assumes "ArbiterLibAddMmConfigRangeAsBootReserved K reg ty unpack mc rl = (Status, mc', rl')"
    and "Start \<le> End" and "\<forall>(s, e) \<in> set mc'. s \<le> e"
  shows "Status = STATUS_SUCCESS \<and> length mc' \<le> 16 \<and>
    (ArbiterLibIsConflictWithMmConfigRange mc' Start End \<longleftrightarrow>
       window Start End \<inter> (\<Union>(s, e) \<in> set mc'. window s e) \<noteq> {})"
proof -
  have "mc_wf ([], rl)" by (simp add: mc_wf_def)
  then have "mc_wf (snd (ArbpForEachRegistryRange reg ty ''ReservedResources'' (wide ''MmConfigRange'')
      None unpack (ArbpMmConfigCallback K) ([], rl)))"
    by (rule mmconfig_cb.walk_keeps)
  with assms(1) have "length mc' \<le> 16"
    by (simp add: ArbiterLibAddMmConfigRangeAsBootReserved_def mc_wf_def)
  moreover have "ArbiterLibIsConflictWithMmConfigRange mc' Start End \<longleftrightarrow>
      (\<exists>(s, e) \<in> set mc'. overlaps Start End s e)"
    by (simp add: ArbiterLibIsConflictWithMmConfigRange_def overlaps_def)
  moreover have "(\<exists>(s, e) \<in> set mc'. overlaps Start End s e) \<longleftrightarrow>
      (\<exists>(s, e) \<in> set mc'. window Start End \<inter> window s e \<noteq> {})"
    using assms(2,3) overlaps_iff by (fastforce simp del: mem_window)
  moreover from assms(1) have "Status = STATUS_SUCCESS"
    by (simp add: ArbiterLibAddMmConfigRangeAsBootReserved_def ForEachRegistryRange_fold)
  ultimately show ?thesis by (auto simp del: mem_window)
qed

definition sample_kernel :: nt_kernel where
  "sample_kernel =
     \<lparr>k_RtlFindRange = (\<lambda>rl lo hi len al fl at. (STATUS_UNSUCCESSFUL, 0)),
      k_RtlIsRangeAvailable = (\<lambda>rl s e fl at. \<forall>r \<in> set rl. \<not> overlaps s e (rr_Start r) (rr_End r)),
      k_RtlAddRange = (\<lambda>rl s e at fl ow.
        rl @ [\<lparr>rr_Start = s, rr_End = e, rr_Owner = ow, rr_Attributes = at, rr_Flags = 0\<rparr>]),
      k_RtlDeleteRange = (\<lambda>rl s e ow.
        filter (\<lambda>r. \<not> (rr_Start r = s \<and> rr_End r = e \<and> rr_Owner r = ow)) rl),
      k_RtlDeleteOwnersRanges = (\<lambda>rl ow. (STATUS_SUCCESS, filter (\<lambda>r. rr_Owner r \<noteq> ow) rl)),
      k_RtlCopyRangeList = (\<lambda>rl. (STATUS_SUCCESS, rl)),
      k_EnumeratorName = (\<lambda>d. None), k_EqualString = (=), k_AttachedDrivers = (\<lambda>d. []),
      k_Clock = of_nat\<rparr>"

theorem MmConfig_conflict_correct_witness:
  "ArbiterLibIsConflictWithMmConfigRange (fst (snd (ArbiterLibAddMmConfigRangeAsBootReserved
     sample_kernel sample_policy CmResourceTypePort
     (\<lambda>d. (STATUS_SUCCESS, io_MinimumAddress d, io_MaximumAddress d, 0, 1)) [] []))) 0x3FF 0x500"
proof -
  let ?u = "\<lambda>d. (STATUS_SUCCESS, io_MinimumAddress d, io_MaximumAddress d, 0 :: u64, 1 :: u64)"
  obtain St mc' rl' where run: "ArbiterLibAddMmConfigRangeAsBootReserved sample_kernel sample_policy
      CmResourceTypePort ?u [] [] = (St, mc', rl')" by (rule prod_cases3)
  then have mc: "mc' = [(0x3F8, 0x3FF)]"
    by (simp add: ArbiterLibAddMmConfigRangeAsBootReserved_def ArbpForEachRegistryRange_def
        sample_policy_def sample_desc_def ForEachDescriptor_fold ArbpDescriptorMatchesArbiter_def
        ArbpMmConfigCallback_def)
  have "0x3FF \<in> window 0x3FF 0x500 \<inter> (\<Union>(s, e) \<in> set mc'. window s e)"
    by (simp add: mc)
  then have "window 0x3FF 0x500 \<inter> (\<Union>(s, e) \<in> set mc'. window s e) \<noteq> {}" by blast
  then show ?thesis
    using MmConfig_conflict_correct [OF run, of "0x3FF" "0x500"] run mc by simp
qed

end
