(* ===== verification/Arbiter_Range.thy ===== *)
theory Arbiter_Range
  imports Arbiter_Ordering
begin

text \<open>
  The range walker of the arbiter library (reactos-libs/arbiter/range.c): the priorities of an
  entry's alternatives, the choice of the next candidate window, the search for a free range in
  it with the driver-exclusive and self-conflict escapes, and the bookkeeping of a placement. The
  main facts: the walk always ends, and the window it offers lies inside the alternative's own
  window and fits an aligned placement.
\<close>

section \<open>Data\<close>

abbreviation (input) ARBITER_PRIORITY_NULL :: "32 word" where "ARBITER_PRIORITY_NULL \<equiv> 0"
abbreviation (input) ARBITER_PRIORITY_PREFERRED_RESERVED :: "32 word"
  where "ARBITER_PRIORITY_PREFERRED_RESERVED \<equiv> 0x7FFFFFFD"
abbreviation (input) ARBITER_PRIORITY_RESERVED :: "32 word"
  where "ARBITER_PRIORITY_RESERVED \<equiv> 0x7FFFFFFE"
abbreviation (input) ARBITER_PRIORITY_EXHAUSTED :: "32 word"
  where "ARBITER_PRIORITY_EXHAUSTED \<equiv> 0x7FFFFFFF"

abbreviation (input) ALTERNATIVE_FLAG_SHARED :: u32 where "ALTERNATIVE_FLAG_SHARED \<equiv> 1"
abbreviation (input) ALTERNATIVE_FLAG_FIXED :: u32 where "ALTERNATIVE_FLAG_FIXED \<equiv> 2"
abbreviation (input) ALTERNATIVE_FLAG_BADRANGE :: u32 where "ALTERNATIVE_FLAG_BADRANGE \<equiv> 4"
abbreviation (input) ALTERNATIVE_FLAG_INACCESSIBLE_OK :: u32
  where "ALTERNATIVE_FLAG_INACCESSIBLE_OK \<equiv> 8"

abbreviation (input) STATE_FLAG_BOOT :: u16 where "STATE_FLAG_BOOT \<equiv> 0x4"
abbreviation (input) STATE_FLAG_NULL_CONFLICT_OK :: u16 where "STATE_FLAG_NULL_CONFLICT_OK \<equiv> 0x8"
abbreviation (input) STATE_FLAG_WORKSPACE :: u16 where "STATE_FLAG_WORKSPACE \<equiv> 0x10"
abbreviation (input) STATE_FLAG_MCFG_CONFLICT :: u16 where "STATE_FLAG_MCFG_CONFLICT \<equiv> 0x20"
abbreviation (input) STATE_FLAG_NO_RETRY :: u16 where "STATE_FLAG_NO_RETRY \<equiv> 0x40"

text \<open>ARBITER_ALTERNATIVE, in its Vista layout (64-bit Length and Alignment). Priority is an INT32.\<close>

record alternative =
  alt_Minimum :: u64
  alt_Maximum :: u64
  alt_Length :: u64
  alt_Alignment :: u64
  alt_Priority :: "32 word"
  alt_Flags :: u32
  alt_Descriptor :: io_desc

text \<open>
  ARBITER_ALLOCATION_STATE. A state's alternatives are its own slice of the flattened array, so
  they are a list of the state, and CurrentAlternative is an index into it.
\<close>

record alloc_state =
  st_Start :: u64
  st_End :: u64
  st_CurrentMinimum :: u64
  st_CurrentMaximum :: u64
  st_Entry :: "list_entry option"
  st_CurrentAlternative :: "nat option"
  st_Alternatives :: "alternative list"
  st_Flags :: u16
  st_RangeAttributes :: u8
  st_RangeAvailableAttributes :: u8
  st_WorkSpace :: u64

definition current_alternative :: "alloc_state \<Rightarrow> alternative option" where
  "current_alternative st =
     (case st_CurrentAlternative st of
        None \<Rightarrow> None
      | Some i \<Rightarrow> if i < length (st_Alternatives st) then Some (st_Alternatives st ! i) else None)"

definition requester :: "alloc_state \<Rightarrow> device option" where
  "requester st = (case st_Entry st of None \<Rightarrow> None | Some e \<Rightarrow> le_PhysicalDeviceObject e)"

section \<open>Priorities\<close>

text \<open>
  The scan of ArbpWritePriority over the orderings from a given index on: the index of the first
  window that intersects the alternative's and leaves room for its length.
\<close>

fun ArbpNextOrdering :: "alternative \<Rightarrow> nat \<Rightarrow> ordering list \<Rightarrow> nat option" where
  "ArbpNextOrdering alt i [] = None"
| "ArbpNextOrdering alt i (w # ws) =
     (if ord_Start w > alt_Maximum alt \<or> alt_Minimum alt > ord_End w
      then ArbpNextOrdering alt (Suc i) ws
      else if min (alt_Maximum alt) (ord_End w) - max (alt_Minimum alt) (ord_Start w) + 1 \<ge> alt_Length alt
      then Some i
      else ArbpNextOrdering alt (Suc i) ws)"

definition priority_index :: "32 word \<Rightarrow> u32" where
  "priority_index p = (if sint p < 0 then - (p + 1) else p - 1)"

definition alt_preferred :: "alternative \<Rightarrow> bool" where
  "alt_preferred alt \<longleftrightarrow> io_Option (alt_Descriptor alt) AND IO_RESOURCE_PREFERRED \<noteq> 0"

text \<open>The priority of the final pass over the alternative's own window.\<close>

definition last_pass :: "alternative \<Rightarrow> 32 word" where
  "last_pass alt =
     (if alt_preferred alt then ARBITER_PRIORITY_PREFERRED_RESERVED else ARBITER_PRIORITY_RESERVED)"

definition scan_priority :: "ordering_list \<Rightarrow> alternative \<Rightarrow> nat \<Rightarrow> 32 word" where
  "scan_priority ol alt first =
     (case ArbpNextOrdering alt first (drop first (ol_windows ol)) of
        Some i \<Rightarrow> (let NewPriority = of_nat i + 1
                  in if alt_preferred alt then - NewPriority else NewPriority)
      | None \<Rightarrow> last_pass alt)"

definition ArbpWritePriority :: "ordering_list \<Rightarrow> alternative \<Rightarrow> alternative" where
  "ArbpWritePriority ol alt =
     (let Priority = alt_Priority alt
      in if Priority = ARBITER_PRIORITY_EXHAUSTED then alt
         else if Priority = ARBITER_PRIORITY_RESERVED \<or> Priority = ARBITER_PRIORITY_PREFERRED_RESERVED
         then alt\<lparr>alt_Priority := ARBITER_PRIORITY_EXHAUSTED\<rparr>
         else if Priority = ARBITER_PRIORITY_NULL
         then alt\<lparr>alt_Priority := scan_priority ol alt 0\<rparr>
         else if alt_Flags alt AND ALTERNATIVE_FLAG_FIXED \<noteq> 0
         then alt\<lparr>alt_Priority := ARBITER_PRIORITY_EXHAUSTED\<rparr>
         else if priority_index Priority \<ge> ucast (ol_Count ol)
         then alt\<lparr>alt_Priority := last_pass alt\<rparr>
         else alt\<lparr>alt_Priority := scan_priority ol alt (unat (priority_index Priority) + 1)\<rparr>)"

section \<open>The next candidate window\<close>

text \<open>The lowest-priority alternative: the first one whose (signed) priority is least.\<close>

fun ArbpLowest :: "alternative list \<Rightarrow> nat \<Rightarrow> nat \<Rightarrow> 32 word \<Rightarrow> nat" where
  "ArbpLowest [] i lowest p = lowest"
| "ArbpLowest (a # as) i lowest p =
     (if sint (alt_Priority a) < sint p then ArbpLowest as (Suc i) i (alt_Priority a)
      else ArbpLowest as (Suc i) lowest p)"

definition lowest_index :: "alternative list \<Rightarrow> nat" where
  "lowest_index alts = ArbpLowest (tl alts) 1 0 (alt_Priority (hd alts))"

text \<open>The trimming of a window: Some of the aligned window, None when no aligned placement fits.\<close>

definition ArbpTrimWindow :: "alternative \<Rightarrow> u64 \<Rightarrow> u64 \<Rightarrow> (u64 \<times> u64) option" where
  "ArbpTrimWindow alt Minimum Maximum =
     (if alt_Length alt = 0 then Some (Minimum, Maximum)
      else
        let Alignment = (if alt_Alignment alt \<noteq> 0 then alt_Alignment alt else 1);
            LengthMinusOne = alt_Length alt - 1;
            Minimum = Minimum + (Alignment - 1);
            Minimum = Minimum - Minimum mod Alignment
        in if Minimum > Maximum \<or> LengthMinusOne > Maximum - Minimum then None
           else
             let AlignedMax = Maximum - LengthMinusOne;
                 AlignedMax = AlignedMax - AlignedMax mod Alignment
             in if AlignedMax < Minimum then None
                else Some (Minimum, AlignedMax + LengthMinusOne))"

text \<open>The alternatives after the first step of a round: the current one advanced, or all seeded.\<close>

definition advanced :: "ordering_list \<Rightarrow> alloc_state \<Rightarrow> alternative list" where
  "advanced ol st =
     (case st_CurrentAlternative st of
        Some c \<Rightarrow> (st_Alternatives st)[c := ArbpWritePriority ol (st_Alternatives st ! c)]
      | None \<Rightarrow> map (\<lambda>a. ArbpWritePriority ol (a\<lparr>alt_Priority := ARBITER_PRIORITY_NULL\<rparr>)) (st_Alternatives st))"

text \<open>
  One round of the loop of ArbiterLibGetNextAllocationRange: \<open>Inr b\<close> is a return of \<open>b\<close>,
  \<open>Inl ()\<close> a further round.
\<close>

definition next_range_round :: "ordering_list \<Rightarrow> alloc_state \<Rightarrow> (unit + bool) \<times> alloc_state" where
  "next_range_round ol st =
     (let alts = advanced ol st;
          st = st\<lparr>st_Alternatives := alts\<rparr>;
          l = lowest_index alts;
          Lowest = alts ! l
      in if alt_Priority Lowest = ARBITER_PRIORITY_EXHAUSTED then (Inr False, st)
         else
           let reserved = (alt_Priority Lowest = ARBITER_PRIORITY_RESERVED \<or>
                           alt_Priority Lowest = ARBITER_PRIORITY_PREFERRED_RESERVED);
               Index = priority_index (alt_Priority Lowest)
           in if \<not> reserved \<and> Index \<ge> ucast (ol_Count ol)
              then (Inl (), st\<lparr>st_Alternatives :=
                       alts[l := Lowest\<lparr>alt_Priority := ARBITER_PRIORITY_EXHAUSTED\<rparr>],
                     st_CurrentAlternative := Some l\<rparr>)
              else
                let Ordering = ol_windows ol ! unat Index;
                    Minimum = (if reserved then alt_Minimum Lowest
                               else max (alt_Minimum Lowest) (ord_Start Ordering));
                    Maximum = (if reserved then alt_Maximum Lowest
                               else min (alt_Maximum Lowest) (ord_End Ordering))
                in case ArbpTrimWindow Lowest Minimum Maximum of
                     None \<Rightarrow> (Inl (), st\<lparr>st_CurrentAlternative := Some l\<rparr>)
                   | Some (Minimum, Maximum) \<Rightarrow>
                       if Minimum \<noteq> st_CurrentMinimum st \<or> Maximum \<noteq> st_CurrentMaximum st \<or>
                          st_CurrentAlternative st \<noteq> Some l
                       then (Inr True, st\<lparr>st_CurrentMinimum := Minimum, st_CurrentMaximum := Maximum,
                                          st_CurrentAlternative := Some l\<rparr>)
                       else (Inl (), st\<lparr>st_CurrentAlternative := Some l\<rparr>))"

fun next_range_loop :: "nat \<Rightarrow> ordering_list \<Rightarrow> alloc_state \<Rightarrow> (bool \<times> alloc_state) option" where
  "next_range_loop 0 ol st = None"
| "next_range_loop (Suc fuel) ol st =
     (case next_range_round ol st of
        (Inr b, st') \<Rightarrow> Some (b, st')
      | (Inl _, st') \<Rightarrow> next_range_loop fuel ol st')"

text \<open>
  The loop runs on fuel; \<open>next_range_fuel\<close> is proved to be enough below.
\<close>

definition next_range_fuel :: "ordering_list \<Rightarrow> alloc_state \<Rightarrow> nat" where
  "next_range_fuel ol st = 2 * length (st_Alternatives st) * (unat (ol_Count ol) + 3) + 3"

definition ArbiterLibGetNextAllocationRange ::
    "ordering_list \<Rightarrow> alloc_state \<Rightarrow> (bool \<times> alloc_state) option" where
  "ArbiterLibGetNextAllocationRange ol st =
     (if st_Alternatives st = [] then Some (False, st)
      else next_range_loop (next_range_fuel ol st) ol st)"

section \<open>Conflict escapes\<close>

text \<open>A range of the tentative list that overlaps the working window and is not made available.\<close>

definition blocks_window :: "alloc_state \<Rightarrow> rtl_range \<Rightarrow> bool" where
  "blocks_window st r \<longleftrightarrow>
     rr_Start r \<le> st_CurrentMaximum st \<and> rr_End r \<ge> st_CurrentMinimum st \<and>
     rr_Attributes r AND st_RangeAvailableAttributes st = 0"

fun override_walk :: "device \<Rightarrow> range_list \<Rightarrow> bool \<Rightarrow> alloc_state \<Rightarrow> bool \<times> alloc_state" where
  "override_walk pdo [] SelfConflictOnly st = (SelfConflictOnly, st)"
| "override_walk pdo (r # rs) SelfConflictOnly st =
     (if blocks_window st r
      then if rr_Owner r \<noteq> Some pdo then (False, st)
           else override_walk pdo rs True
                  (st\<lparr>st_Start := st_CurrentMinimum st, st_End := st_CurrentMaximum st\<rparr>)
      else override_walk pdo rs SelfConflictOnly st)"

definition ArbiterLibOverrideConflict :: "range_list \<Rightarrow> alloc_state \<Rightarrow> bool \<times> alloc_state" where
  "ArbiterLibOverrideConflict possible st =
     (case current_alternative st of
        None \<Rightarrow> (False, st)
      | Some alt \<Rightarrow>
          if alt_Flags alt AND ALTERNATIVE_FLAG_FIXED = 0 then (False, st)
          else case requester st of
                 None \<Rightarrow> (False, st)
               | Some pdo \<Rightarrow> override_walk pdo possible False st)"

definition ArbpReadRootEnumerated :: "nt_kernel \<Rightarrow> device option \<Rightarrow> bool option" where
  "ArbpReadRootEnumerated K d =
     (case d of
        None \<Rightarrow> None
      | Some dev \<Rightarrow> map_option (k_EqualString K ''ROOT'') (k_EnumeratorName K dev))"

definition ArbpSharesDriverStack :: "nt_kernel \<Rightarrow> device \<Rightarrow> device \<Rightarrow> bool" where
  "ArbpSharesDriverStack K a b \<longleftrightarrow>
     (\<exists>x \<in> set (k_AttachedDrivers K a). \<exists>y \<in> set (k_AttachedDrivers K b). x = y)"

fun share_walk ::
    "nt_kernel \<Rightarrow> device \<Rightarrow> alternative \<Rightarrow> range_list \<Rightarrow> bool \<Rightarrow> alloc_state \<Rightarrow> bool \<times> alloc_state" where
  "share_walk K Requester alt [] RootPathOpen st = (False, st)"
| "share_walk K Requester alt (r # rs) RootPathOpen st =
     (let exclusive = (io_ShareDisposition (alt_Descriptor alt) = CmResourceShareDriverExclusive)
      in case rr_Owner r of
           Some Owner \<Rightarrow>
             if blocks_window st r \<and>
                (exclusive \<or> rr_Attributes r AND ARBITER_RANGE_SHARED_DRIVER \<noteq> 0)
             then
               let closes = (RootPathOpen \<and> ArbpReadRootEnumerated K (Some Owner) = Some False);
                   RootPathOpen' = (RootPathOpen \<and> \<not> closes);
                   Share = (RootPathOpen' \<or> ArbpSharesDriverStack K Requester Owner)
               in if Share
                  then (True, st\<lparr>st_Start := st_CurrentMinimum st, st_End := st_CurrentMaximum st,
                                 st_RangeAttributes :=
                                   (if exclusive
                                    then st_RangeAttributes st OR ARBITER_RANGE_SHARED_DRIVER
                                    else st_RangeAttributes st)\<rparr>)
                  else share_walk K Requester alt rs RootPathOpen' st
             else share_walk K Requester alt rs RootPathOpen st
         | None \<Rightarrow> share_walk K Requester alt rs RootPathOpen st)"

definition ArbpShareDriverExclusive :: "nt_kernel \<Rightarrow> range_list \<Rightarrow> alloc_state \<Rightarrow> bool \<times> alloc_state" where
  "ArbpShareDriverExclusive K possible st =
     (case (requester st, current_alternative st) of
        (Some Requester, Some alt) \<Rightarrow>
          share_walk K Requester alt possible
            (ArbpReadRootEnumerated K (Some Requester) = Some True) st
      | _ \<Rightarrow> (False, st))"

section \<open>Finding and recording a placement\<close>

text \<open>
  The OverrideConflict callback of the instance is an argument; the library's default is
  \<open>ArbiterLibOverrideConflict\<close>. \<open>mc\<close> is the MMCONFIG table.
\<close>

type_synonym override_conflict = "range_list \<Rightarrow> alloc_state \<Rightarrow> bool \<times> alloc_state"

text \<open>The attributes the search treats as available, and the flags it passes to RtlFindRange.\<close>

definition available_attributes :: "alloc_state \<Rightarrow> alternative \<Rightarrow> u8" where
  "available_attributes st alt =
     (let legacy = (case st_Entry st of
                      None \<Rightarrow> False
                    | Some e \<Rightarrow> le_RequestSource e = ArbiterRequestLegacyReported \<or>
                               le_RequestSource e = ArbiterRequestLegacyAssigned);
          avail = (if legacy then st_RangeAvailableAttributes st OR ARBITER_RANGE_BOOT_ALLOCATED
                   else st_RangeAvailableAttributes st)
      in if alt_Flags alt AND ALTERNATIVE_FLAG_INACCESSIBLE_OK \<noteq> 0
         then avail OR ARBITER_RANGE_INACCESSIBLE else avail)"

definition find_flags :: "alloc_state \<Rightarrow> alternative \<Rightarrow> u32" where
  "find_flags st alt =
     (let Flags = (if st_Flags st AND STATE_FLAG_NULL_CONFLICT_OK \<noteq> 0
                   then RTL_RANGE_LIST_NULL_CONFLICT_OK else 0)
      in if alt_Flags alt AND ALTERNATIVE_FLAG_SHARED \<noteq> 0
         then Flags OR RTL_RANGE_LIST_SHARED_OK else Flags)"

definition ArbiterLibFindSuitableRange ::
    "nt_kernel \<Rightarrow> mmconfig \<Rightarrow> override_conflict option \<Rightarrow> range_list \<Rightarrow> alloc_state \<Rightarrow> bool \<times> alloc_state"
where
  "ArbiterLibFindSuitableRange K mc ovr possible st =
     (case current_alternative st of
        None \<Rightarrow> (False, st)
      | Some alt \<Rightarrow>
          if st_CurrentMinimum st > st_CurrentMaximum st then (False, st)
          else if alt_Length alt = 0
          then (True, st\<lparr>st_Start := st_CurrentMinimum st, st_End := st_CurrentMinimum st\<rparr>)
          else
            let avail = available_attributes st alt;
                Flags = find_flags st alt;
                st = st\<lparr>st_RangeAvailableAttributes := avail\<rparr>;
                (Status, Start) =
                  k_RtlFindRange K possible (st_CurrentMinimum st) (st_CurrentMaximum st)
                    (alt_Length alt) (max (alt_Alignment alt) 1) Flags avail
            in if NT_SUCCESS Status
               then (True, st\<lparr>st_Start := Start, st_End := Start + alt_Length alt - 1\<rparr>)
               else
                 let (shared, st) = ArbpShareDriverExclusive K possible st
                 in if shared then (True, st)
                    else
                      let (over, st) = (case ovr of None \<Rightarrow> (False, st) | Some f \<Rightarrow> f possible st)
                      in if over then (True, st)
                         else if ArbiterLibIsConflictWithMmConfigRange mc
                                   (st_CurrentMinimum st) (st_CurrentMaximum st)
                         then (False, st\<lparr>st_Flags := st_Flags st OR STATE_FLAG_MCFG_CONFLICT\<rparr>)
                         else (False, st))"

definition ArbiterLibAddAllocation :: "nt_kernel \<Rightarrow> range_list \<Rightarrow> alloc_state \<Rightarrow> range_list" where
  "ArbiterLibAddAllocation K possible st =
     (let Flags = (case current_alternative st of
                     Some alt \<Rightarrow> if alt_Flags alt AND ALTERNATIVE_FLAG_SHARED \<noteq> 0
                                then RTL_RANGE_LIST_ADD_IF_CONFLICT OR RTL_RANGE_LIST_ADD_SHARED
                                else RTL_RANGE_LIST_ADD_IF_CONFLICT
                   | None \<Rightarrow> RTL_RANGE_LIST_ADD_IF_CONFLICT)
      in k_RtlAddRange K possible (st_Start st) (st_End st) (st_RangeAttributes st) Flags (requester st))"

definition ArbiterLibBacktrackAllocation :: "nt_kernel \<Rightarrow> range_list \<Rightarrow> alloc_state \<Rightarrow> range_list" where
  "ArbiterLibBacktrackAllocation K possible st =
     k_RtlDeleteRange K possible (st_Start st) (st_End st) (requester st)"

section \<open>Trimming\<close>

definition alt_align :: "alternative \<Rightarrow> u64" where
  "alt_align alt = (if alt_Alignment alt \<noteq> 0 then alt_Alignment alt else 1)"

text \<open>
  A placement of the alternative at \<open>a\<close> inside [Minimum, Maximum]: aligned, with its whole
  length below Maximum (read on naturals, so nothing wraps).
\<close>

definition placeable :: "alternative \<Rightarrow> u64 \<Rightarrow> u64 \<Rightarrow> u64 \<Rightarrow> bool" where
  "placeable alt lo hi a \<longleftrightarrow>
     lo \<le> a \<and> unat (alt_align alt) dvd unat a \<and> unat a + (unat (alt_Length alt) - 1) \<le> unat hi"

lemma alt_align_pos: "0 < unat (alt_align alt)" "0 < alt_align alt"
  by (auto simp: alt_align_def unat_gt_0 word_neq_0_conv)

text \<open>The trimmed window in naturals, when rounding the minimum up does not wrap.\<close>

lemma TrimWindow_nat:
  fixes lo hi :: u64
  assumes len: "alt_Length alt \<noteq> 0"
    and nowrap: "unat lo + (unat (alt_align alt) - 1) < 2 ^ 64"
  defines "A \<equiv> unat (alt_align alt)" and "L \<equiv> unat (alt_Length alt) - 1"
  defines "m \<equiv> unat lo + (A - 1) - (unat lo + (A - 1)) mod A"
  defines "M \<equiv> (unat hi - L) - (unat hi - L) mod A"
  shows "(\<exists>r. ArbpTrimWindow alt lo hi = Some r) \<longleftrightarrow> m + L \<le> unat hi \<and> m \<le> M"
    and "ArbpTrimWindow alt lo hi = Some (lo', hi') \<Longrightarrow> unat lo' = m \<and> unat hi' = M + L"
proof -
  let ?al = "alt_align alt"
  let ?lo = "lo + (?al - 1) - (lo + (?al - 1)) mod ?al"
  let ?L = "alt_Length alt - 1"
  let ?x = "hi - ?L"
  let ?M = "?x - ?x mod ?al"
  have lo: "unat ?lo = m"
    unfolding m_def A_def using alt_align_pos(2) nowrap by (intro unat_align_up) simp_all
  have L: "unat ?L = L" unfolding L_def using len by unat_arith
  have guard: "?lo > hi \<or> ?L > hi - ?lo \<longleftrightarrow> \<not> m + L \<le> unat hi"
  proof (cases "?lo > hi")
    case True
    then show ?thesis using lo by (auto simp: word_less_nat_alt)
  next
    case False
    then have "unat (hi - ?lo) = unat hi - m" using lo by (simp add: unat_sub not_less)
    with False lo L show ?thesis by (auto simp: word_less_nat_alt)
  qed
  have M: "unat ?M = M" if "m + L \<le> unat hi"
  proof -
    from that L have "?L \<le> hi" by (simp add: word_le_nat_alt)
    then have "unat ?x = unat hi - L" by (simp add: unat_sub L)
    then show ?thesis by (simp add: unat_align_down M_def A_def)
  qed
  have top: "unat (?M + ?L) = M + L" if "m + L \<le> unat hi"
  proof -
    have "M + L \<le> unat hi" using that unfolding M_def by (metis add.commute add_leD2 diff_le_self
          le_diff_conv2 order.trans)
    then have "M + L < 2 ^ 64" using unsigned_less [of hi] by (auto intro: le_less_trans)
    then show ?thesis using M [OF that] L unat_add_nowrap [of ?M ?L] by simp
  qed
  have unfold: "ArbpTrimWindow alt lo hi =
     (if \<not> m + L \<le> unat hi then None else if ?M < ?lo then None else Some (?lo, ?M + ?L))"
    using len guard by (simp add: ArbpTrimWindow_def Let_def alt_align_def)
  show "(\<exists>r. ArbpTrimWindow alt lo hi = Some r) \<longleftrightarrow> m + L \<le> unat hi \<and> m \<le> M"
    using unfold M lo by (auto simp: word_less_nat_alt not_less)
  show "ArbpTrimWindow alt lo hi = Some (lo', hi') \<Longrightarrow> unat lo' = m \<and> unat hi' = M + L"
    using unfold top lo by (auto split: if_splits)
qed

lemma TrimWindow_sound:
  assumes "alt_Length alt \<noteq> 0"
    and "unat lo + (unat (alt_align alt) - 1) < 2 ^ 64"
    and "ArbpTrimWindow alt lo hi = Some (lo', hi')"
  shows "lo \<le> lo' \<and> hi' \<le> hi \<and> placeable alt lo' hi' lo' \<and>
         (\<forall>a. placeable alt lo hi a \<longrightarrow> placeable alt lo' hi' a)"
proof -
  let ?A = "unat (alt_align alt)" and ?L = "unat (alt_Length alt) - 1"
  let ?m = "unat lo + (?A - 1) - (unat lo + (?A - 1)) mod ?A"
  let ?M = "(unat hi - ?L) - (unat hi - ?L) mod ?A"
  note up = align_up_nat [where m = "unat lo", OF alt_align_pos(1) [of alt]]
  note down = align_down_nat [where x = "unat hi - ?L", OF alt_align_pos(1) [of alt]]
  from TrimWindow_nat(1) [OF assms(1,2)] assms(3) have ok: "?m + ?L \<le> unat hi" "?m \<le> ?M" by auto
  from TrimWindow_nat(2) [OF assms] have eq: "unat lo' = ?m" "unat hi' = ?M + ?L" by simp_all
  have hi': "?M + ?L \<le> unat hi" using ok(1) down(1) by linarith
  have all: "placeable alt lo' hi' a" if "placeable alt lo hi a" for a
  proof -
    from that have a: "unat lo \<le> unat a" "?A dvd unat a" "unat a + ?L \<le> unat hi"
      by (auto simp: placeable_def word_le_nat_alt)
    have "?m \<le> unat a" using a(2,1) by (rule up(3))
    moreover have "unat a \<le> ?M" using a(2) by (rule down(3)) (use a(3) in linarith)
    ultimately show ?thesis
      using a(2) unfolding placeable_def word_le_nat_alt eq by simp
  qed
  have "placeable alt lo' hi' lo'"
    using up(2) add_le_mono1 [OF ok(2), of ?L] unfolding placeable_def word_le_nat_alt eq
    by (blast intro: order_refl)
  with up(1) hi' all show ?thesis unfolding word_le_nat_alt [of lo] word_le_nat_alt [of hi'] eq by blast
qed

lemma TrimWindow_complete:
  assumes "alt_Length alt \<noteq> 0"
    and "unat lo + (unat (alt_align alt) - 1) < 2 ^ 64"
    and "ArbpTrimWindow alt lo hi = None"
  shows "\<not> placeable alt lo hi a"
proof
  let ?A = "unat (alt_align alt)" and ?L = "unat (alt_Length alt) - 1"
  assume "placeable alt lo hi a"
  then have a: "unat lo \<le> unat a" "?A dvd unat a" "unat a + ?L \<le> unat hi"
    by (auto simp: placeable_def word_le_nat_alt)
  let ?m = "unat lo + (?A - 1) - (unat lo + (?A - 1)) mod ?A"
  let ?M = "(unat hi - ?L) - (unat hi - ?L) mod ?A"
  have "?m \<le> unat a" using a(2,1) by (rule align_up_nat(3) [OF alt_align_pos(1)])
  moreover have "unat a \<le> ?M"
    using a(2) by (rule align_down_nat(3) [OF alt_align_pos(1)]) (use a(3) in linarith)
  ultimately have "?m + ?L \<le> unat hi \<and> ?m \<le> ?M" using a(3) by linarith
  with TrimWindow_nat(1) [OF assms(1,2), of hi] assms(3)
  show False by auto
qed

section \<open>The priority walk ends\<close>

text \<open>
  How many more windows an alternative can still offer: an ordinary priority leaves the later
  orderings, then the whole-window pass, then exhaustion.
\<close>

definition rank :: "ordering_list \<Rightarrow> alternative \<Rightarrow> nat" where
  "rank ol alt =
     (if alt_Priority alt = ARBITER_PRIORITY_EXHAUSTED then 0
      else if alt_Priority alt = ARBITER_PRIORITY_RESERVED \<or>
              alt_Priority alt = ARBITER_PRIORITY_PREFERRED_RESERVED then 1
      else if alt_Priority alt = ARBITER_PRIORITY_NULL then unat (ol_Count ol) + 3
      else 2 + (unat (ol_Count ol) - unat (priority_index (alt_Priority alt))))"

lemma NextOrdering_Some:
  "ArbpNextOrdering alt i ws = Some j \<Longrightarrow>
   i \<le> j \<and> j < i + length ws \<and>
   (let w = ws ! (j - i) in ord_Start w \<le> alt_Maximum alt \<and> alt_Minimum alt \<le> ord_End w \<and>
      alt_Length alt \<le> min (alt_Maximum alt) (ord_End w) - max (alt_Minimum alt) (ord_Start w) + 1)"
proof (induction alt i ws rule: ArbpNextOrdering.induct)
  case (2 alt i w ws)
  have later: ?case if "ArbpNextOrdering alt (Suc i) ws = Some j" and
    IH: "Suc i \<le> j \<and> j < Suc i + length ws \<and>
      (let w = ws ! (j - Suc i) in ord_Start w \<le> alt_Maximum alt \<and> alt_Minimum alt \<le> ord_End w \<and>
        alt_Length alt \<le> min (alt_Maximum alt) (ord_End w) - max (alt_Minimum alt) (ord_Start w) + 1)"
  proof -
    from IH have "j - i = Suc (j - Suc i)" by linarith
    with IH show ?thesis by (auto simp: Let_def)
  qed
  from 2 later show ?case by (auto simp: not_less split: if_splits)
qed simp

text \<open>A written ordinary priority reads back as its ordering index.\<close>

lemma sint_priority:
  assumes "j < 65536"
  shows "sint (of_nat j + 1 :: 32 word) = int j + 1"
    and "sint (- (of_nat j + 1) :: 32 word) = - (int j + 1)"
proof -
  have "of_nat j + 1 = (word_of_int (int j + 1) :: 32 word)" by simp
  then show "sint (of_nat j + 1 :: 32 word) = int j + 1"
    using assms by (simp add: sint_sbintrunc' signed_take_bit_int_eq_self del: of_int_add)
  have "- (of_nat j + 1) = (word_of_int (- (int j + 1)) :: 32 word)" by simp
  then show "sint (- (of_nat j + 1) :: 32 word) = - (int j + 1)"
    using assms by (simp add: sint_sbintrunc' signed_take_bit_int_eq_self del: of_int_add of_int_minus of_int_diff)
qed

lemma priority_written:
  assumes "j < 65536" and "p = of_nat j + 1 \<or> p = - (of_nat j + 1)"
  shows "unat (priority_index p) = j" and "p \<noteq> 0" and "p \<noteq> 0x7FFFFFFD" and "p \<noteq> 0x7FFFFFFE"
    and "p \<noteq> 0x7FFFFFFF"
proof -
  have "priority_index p = of_nat j"
    using assms sint_priority [OF assms(1)] by (auto simp: priority_index_def)
  then show "unat (priority_index p) = j"
    using assms(1) by (simp add: unat_of_nat)
  have "sint p = int j + 1 \<or> sint p = - (int j + 1)"
    using assms sint_priority [OF assms(1)] by auto
  then show "p \<noteq> 0" "p \<noteq> 0x7FFFFFFD" "p \<noteq> 0x7FFFFFFE" "p \<noteq> 0x7FFFFFFF"
    using assms(1) by auto
qed

lemma ol_wf_length: "ol_wf ol \<Longrightarrow> length (ol_windows ol) = unat (ol_Count ol)"
  by (simp add: ol_wf_def)

lemma unat_count_bound: "unat (ol_Count ol) < 65536"
  using unsigned_less [of "ol_Count ol"] by simp

text \<open>
  What the scan writes: an ordinary priority that reads back as a window index at or after
  \<open>first\<close>, or the whole-window pass.
\<close>

definition ordinary :: "32 word \<Rightarrow> bool" where
  "ordinary p \<longleftrightarrow> p \<noteq> ARBITER_PRIORITY_NULL \<and> p \<noteq> ARBITER_PRIORITY_EXHAUSTED \<and>
     p \<noteq> ARBITER_PRIORITY_RESERVED \<and> p \<noteq> ARBITER_PRIORITY_PREFERRED_RESERVED"

definition reserved_pass :: "32 word \<Rightarrow> bool" where
  "reserved_pass p \<longleftrightarrow> p = ARBITER_PRIORITY_RESERVED \<or> p = ARBITER_PRIORITY_PREFERRED_RESERVED"

lemma reserved_last_pass: "reserved_pass (last_pass alt)"
  by (simp add: reserved_pass_def last_pass_def)

lemma scan_priority_cases:
  assumes "ol_wf ol"
  shows "reserved_pass (scan_priority ol alt first) \<or>
    ordinary (scan_priority ol alt first) \<and>
    first \<le> unat (priority_index (scan_priority ol alt first)) \<and>
    unat (priority_index (scan_priority ol alt first)) < unat (ol_Count ol)"
proof (cases "ArbpNextOrdering alt first (drop first (ol_windows ol))")
  case None
  then show ?thesis by (simp add: scan_priority_def reserved_last_pass)
next
  case (Some i)
  then have i: "first \<le> i" "i < unat (ol_Count ol)"
    using NextOrdering_Some [OF Some] ol_wf_length [OF assms] by auto
  with unat_count_bound [of ol] have b: "i < 65536" by linarith
  with i Some priority_written [OF b, of "scan_priority ol alt first"] show ?thesis
    by (auto simp: scan_priority_def ordinary_def Let_def)
qed

lemma rank_reserved: "reserved_pass (alt_Priority alt) \<Longrightarrow> rank ol alt = 1"
  by (auto simp: rank_def reserved_pass_def)

lemma rank_ordinary:
  "ordinary (alt_Priority alt) \<Longrightarrow>
   rank ol alt = 2 + (unat (ol_Count ol) - unat (priority_index (alt_Priority alt)))"
  by (auto simp: rank_def ordinary_def)

lemma rank_zero: "rank ol alt = 0 \<longleftrightarrow> alt_Priority alt = ARBITER_PRIORITY_EXHAUSTED"
  by (simp add: rank_def)

lemma rank_scan:
  assumes "ol_wf ol"
  shows "rank ol (alt\<lparr>alt_Priority := scan_priority ol alt' first\<rparr>) \<le> 2 + (unat (ol_Count ol) - first)"
  using scan_priority_cases [OF assms, of alt' first]
  by (auto simp: rank_reserved rank_ordinary)

lemma WritePriority_decreases:
  assumes "ol_wf ol" and "alt_Priority alt \<noteq> ARBITER_PRIORITY_EXHAUSTED"
  shows "rank ol (ArbpWritePriority ol alt) < rank ol alt"
proof -
  consider "reserved_pass (alt_Priority alt)" | "alt_Priority alt = ARBITER_PRIORITY_NULL"
    | "ordinary (alt_Priority alt)"
    using assms(2) by (auto simp: ordinary_def reserved_pass_def)
  then show ?thesis
  proof cases
    case 1
    then show ?thesis by (auto simp: ArbpWritePriority_def reserved_pass_def rank_def)
  next
    case 2
    then show ?thesis
      using rank_scan [OF assms(1), where alt = alt and alt' = alt and first = 0] by (auto simp: ArbpWritePriority_def rank_def)
  next
    case 3
    let ?i = "unat (priority_index (alt_Priority alt))"
    have r: "rank ol alt = 2 + (unat (ol_Count ol) - ?i)" using 3 by (rule rank_ordinary)
    have c: "priority_index (alt_Priority alt) \<ge> ucast (ol_Count ol) \<longleftrightarrow> unat (ol_Count ol) \<le> ?i"
      by (simp add: word_le_nat_alt unat_ucast_widen)
    from 3 have "ArbpWritePriority ol alt =
      (if alt_Flags alt AND ALTERNATIVE_FLAG_FIXED \<noteq> 0
       then alt\<lparr>alt_Priority := ARBITER_PRIORITY_EXHAUSTED\<rparr>
       else if unat (ol_Count ol) \<le> ?i then alt\<lparr>alt_Priority := last_pass alt\<rparr>
       else alt\<lparr>alt_Priority := scan_priority ol alt (?i + 1)\<rparr>)"
      by (simp add: ArbpWritePriority_def ordinary_def c)
    with r rank_scan [OF assms(1), where alt = alt and alt' = alt and first = "?i + 1"] rank_reserved [of "alt\<lparr>alt_Priority := last_pass alt\<rparr>"]
    show ?thesis by (auto simp: rank_zero reserved_last_pass) (simp_all add: rank_def)
  qed
qed

lemma WritePriority_bound:
  assumes "ol_wf ol"
  shows "rank ol (ArbpWritePriority ol (alt\<lparr>alt_Priority := ARBITER_PRIORITY_NULL\<rparr>)) \<le> unat (ol_Count ol) + 2"
  using WritePriority_decreases [OF assms, of "alt\<lparr>alt_Priority := ARBITER_PRIORITY_NULL\<rparr>"]
  by (simp add: rank_def [of ol "alt\<lparr>alt_Priority := 0\<rparr>"])

text \<open>Only the priority changes.\<close>

lemma WritePriority_frame [simp]:
  "alt_Minimum (ArbpWritePriority ol alt) = alt_Minimum alt"
  "alt_Maximum (ArbpWritePriority ol alt) = alt_Maximum alt"
  "alt_Length (ArbpWritePriority ol alt) = alt_Length alt"
  "alt_Alignment (ArbpWritePriority ol alt) = alt_Alignment alt"
  "alt_Flags (ArbpWritePriority ol alt) = alt_Flags alt"
  "alt_Descriptor (ArbpWritePriority ol alt) = alt_Descriptor alt"
  by (simp_all add: ArbpWritePriority_def Let_def)

lemma Lowest_least:
  assumes "l < i" and "i \<le> length alts" and "p = alt_Priority (alts ! l)"
    and "\<forall>k < i. sint p \<le> sint (alt_Priority (alts ! k))"
  shows "ArbpLowest (drop i alts) i l p < length alts \<and>
    (\<forall>k < length alts. sint (alt_Priority (alts ! ArbpLowest (drop i alts) i l p)) \<le>
       sint (alt_Priority (alts ! k)))"
  using assms
proof (induction "length alts - i" arbitrary: i l p)
  case 0
  then show ?case by simp
next
  case (Suc n)
  then have i: "i < length alts" by simp
  then have d: "drop i alts = alts ! i # drop (Suc i) alts" by (simp add: Cons_nth_drop_Suc)
  show ?case
  proof (cases "sint (alt_Priority (alts ! i)) < sint p")
    case True
    have "\<forall>k < Suc i. sint (alt_Priority (alts ! i)) \<le> sint (alt_Priority (alts ! k))"
      using True Suc.prems(4) by (auto simp: less_Suc_eq intro: order_trans [OF less_imp_le])
    with Suc.hyps(1) [of "Suc i" i] Suc.hyps(2) i True show ?thesis unfolding d by simp
  next
    case False
    then have "\<forall>k < Suc i. sint p \<le> sint (alt_Priority (alts ! k))"
      using Suc.prems(4) by (auto simp: less_Suc_eq)
    with Suc.hyps(1) [of "Suc i" l p] Suc.hyps(2) Suc.prems(1,3) i False show ?thesis unfolding d by simp
  qed
qed

lemma lowest_index:
  assumes "alts \<noteq> []"
  shows "lowest_index alts < length alts"
    and "a \<in> set alts \<Longrightarrow> sint (alt_Priority (alts ! lowest_index alts)) \<le> sint (alt_Priority a)"
proof -
  from assms have "lowest_index alts = ArbpLowest (drop 1 alts) 1 0 (alt_Priority (alts ! 0))"
    by (simp add: lowest_index_def hd_conv_nth drop_Suc)
  with assms Lowest_least [of 0 1 alts "alt_Priority (alts ! 0)"]
  have "lowest_index alts < length alts \<and> (\<forall>k < length alts.
      sint (alt_Priority (alts ! lowest_index alts)) \<le> sint (alt_Priority (alts ! k)))"
    by (simp add: Suc_le_eq)
  then show "lowest_index alts < length alts"
    and "a \<in> set alts \<Longrightarrow> sint (alt_Priority (alts ! lowest_index alts)) \<le> sint (alt_Priority a)"
    by (auto simp: in_set_conv_nth)
qed

definition state_ok :: "alloc_state \<Rightarrow> bool" where
  "state_ok st \<longleftrightarrow> (case st_CurrentAlternative st of None \<Rightarrow> True | Some c \<Rightarrow> c < length (st_Alternatives st))"

definition total_rank :: "ordering_list \<Rightarrow> alternative list \<Rightarrow> nat" where
  "total_rank ol alts = sum_list (map (rank ol) alts)"

definition walk_measure :: "ordering_list \<Rightarrow> alloc_state \<Rightarrow> nat" where
  "walk_measure ol st =
     2 * total_rank ol (st_Alternatives st) +
     (case st_CurrentAlternative st of
        None \<Rightarrow> 0
      | Some c \<Rightarrow> if alt_Priority (st_Alternatives st ! c) = ARBITER_PRIORITY_EXHAUSTED then 1 else 0)"

lemma total_rank_update:
  assumes "c < length alts"
  shows "total_rank ol (alts[c := a]) + rank ol (alts ! c) = total_rank ol alts + rank ol a"
proof -
  have "rank ol (alts ! c) \<le> total_rank ol alts"
    using assms by (simp add: total_rank_def member_le_sum_list)
  then show ?thesis
    using assms by (simp add: total_rank_def map_update sum_list_update)
qed

lemma total_rank_bound: "(\<And>a. a \<in> set alts \<Longrightarrow> rank ol a \<le> b) \<Longrightarrow> total_rank ol alts \<le> length alts * b"
  by (induction alts) (auto simp: total_rank_def add_mono)

lemma length_advanced [simp]: "length (advanced ol st) = length (st_Alternatives st)"
  by (simp add: advanced_def split: option.split)

text \<open>The exits of a round that goes on: all make the picked alternative current.\<close>

lemma round_continues:
  assumes "ol_wf ol" and "st_Alternatives st \<noteq> []" and "next_range_round ol st = (Inl u, st')"
  defines "alts \<equiv> advanced ol st"
  defines "l \<equiv> lowest_index alts"
  shows "st_CurrentAlternative st' = Some l \<and> l < length alts \<and>
    alt_Priority (alts ! l) \<noteq> ARBITER_PRIORITY_EXHAUSTED \<and>
    (st_Alternatives st' = alts \<or>
     \<not> reserved_pass (alt_Priority (alts ! l)) \<and>
     st_Alternatives st' = alts[l := (alts ! l)\<lparr>alt_Priority := ARBITER_PRIORITY_EXHAUSTED\<rparr>])"
proof -
  have "alts \<noteq> []" using assms(2) by (metis alts_def length_advanced length_0_conv)
  then have "l < length alts" unfolding l_def by (rule lowest_index(1))
  then show ?thesis
    using assms(3) unfolding next_range_round_def Let_def alts_def [symmetric] l_def [symmetric]
    by (auto simp: reserved_pass_def split: if_splits option.splits)
qed

lemma advanced_rank:
  assumes wf: "ol_wf ol" and c: "st_CurrentAlternative st = Some c" "c < length (st_Alternatives st)"
  shows "total_rank ol (advanced ol st) +
      (if alt_Priority (st_Alternatives st ! c) = ARBITER_PRIORITY_EXHAUSTED then 0 else 1)
    \<le> total_rank ol (st_Alternatives st)"
proof -
  let ?old = "st_Alternatives st" and ?alts = "advanced ol st"
  have alts: "?alts = ?old[c := ArbpWritePriority ol (?old ! c)]" using c by (simp add: advanced_def)
  have "total_rank ol ?alts + rank ol (?old ! c) = total_rank ol ?old + rank ol (ArbpWritePriority ol (?old ! c))"
    unfolding alts using c(2) by (rule total_rank_update)
  moreover have "rank ol (ArbpWritePriority ol (?old ! c)) + (if alt_Priority (?old ! c) = ARBITER_PRIORITY_EXHAUSTED then 0 else 1)
      \<le> rank ol (?old ! c)"
    using WritePriority_decreases [OF wf, of "?old ! c"] by (auto simp: ArbpWritePriority_def Suc_le_eq)
  ultimately show ?thesis by linarith
qed

lemma round_decreases:
  assumes wf: "ol_wf ol" and c: "st_CurrentAlternative st = Some c" "c < length (st_Alternatives st)"
    and go: "next_range_round ol st = (Inl u, st')"
  shows "walk_measure ol st' < walk_measure ol st"
proof -
  let ?old = "st_Alternatives st" and ?alts = "advanced ol st"
  let ?l = "lowest_index ?alts"
  from c have ne: "?old \<noteq> []" by auto
  note R = round_continues [OF wf ne go]
  note T = advanced_rank [OF wf c]
  from R have l: "?l < length ?alts" "alt_Priority (?alts ! ?l) \<noteq> ARBITER_PRIORITY_EXHAUSTED"
    "st_CurrentAlternative st' = Some ?l" by auto
  consider "st_Alternatives st' = ?alts"
    | (x) "\<not> reserved_pass (alt_Priority (?alts ! ?l))"
        "st_Alternatives st' = ?alts[?l := (?alts ! ?l)\<lparr>alt_Priority := ARBITER_PRIORITY_EXHAUSTED\<rparr>]"
    using R by auto
  then show ?thesis
  proof cases
    case 1
    with T l c show ?thesis by (auto simp: walk_measure_def split: if_splits)
  next
    case x
    have "2 \<le> rank ol (?alts ! ?l)" using x(1) l(2) by (auto simp: rank_def reserved_pass_def)
    moreover have "total_rank ol (st_Alternatives st') + rank ol (?alts ! ?l) = total_rank ol ?alts"
      unfolding x(2) using total_rank_update [OF l(1), of ol] by (simp add: rank_def)
    ultimately have "2 * total_rank ol (st_Alternatives st') + 4 \<le> 2 * total_rank ol ?alts" by linarith
    with T l c show ?thesis by (auto simp: walk_measure_def split: if_splits)
  qed
qed

lemma round_offers:
  assumes "st_Alternatives st \<noteq> []" and "next_range_round ol st = (Inr True, st')"
  shows "st_Alternatives st' = advanced ol st" and "state_ok st'"
    and "st_CurrentAlternative st' = Some (lowest_index (advanced ol st))"
    and "alt_Priority (advanced ol st ! lowest_index (advanced ol st)) \<noteq> ARBITER_PRIORITY_EXHAUSTED"
proof -
  have "advanced ol st \<noteq> []" using assms(1) by (metis length_advanced length_0_conv)
  from lowest_index(1) [OF this] assms(2)
  show "st_Alternatives st' = advanced ol st" and "state_ok st'"
    and "st_CurrentAlternative st' = Some (lowest_index (advanced ol st))"
    and "alt_Priority (advanced ol st ! lowest_index (advanced ol st)) \<noteq> ARBITER_PRIORITY_EXHAUSTED"
    by (auto simp: next_range_round_def Let_def state_ok_def split: if_splits option.splits)
qed

lemma round_offers_decreases:
  assumes wf: "ol_wf ol" and c: "st_CurrentAlternative st = Some c" "c < length (st_Alternatives st)"
    and r: "next_range_round ol st = (Inr True, st')"
  shows "walk_measure ol st' < walk_measure ol st"
proof -
  from c have "st_Alternatives st \<noteq> []" by auto
  with advanced_rank [OF wf c] round_offers [OF this r] c show ?thesis
    by (auto simp: walk_measure_def split: if_splits)
qed

text \<open>What a round leaves of the state alone.\<close>

definition walk_frame :: "alloc_state \<Rightarrow> alloc_state \<Rightarrow> bool" where
  "walk_frame st st' \<longleftrightarrow>
     st_Entry st' = st_Entry st \<and> st_Flags st' = st_Flags st \<and> st_Start st' = st_Start st \<and>
     st_End st' = st_End st \<and> st_RangeAttributes st' = st_RangeAttributes st \<and>
     st_WorkSpace st' = st_WorkSpace st \<and>
     length (st_Alternatives st') = length (st_Alternatives st)"

lemma walk_frame_refl [simp]: "walk_frame st st"
  by (simp add: walk_frame_def)

lemma walk_frame_trans: "walk_frame a b \<Longrightarrow> walk_frame b c \<Longrightarrow> walk_frame a c"
  by (simp add: walk_frame_def)

lemma round_frame: "next_range_round ol st = (r, st') \<Longrightarrow> walk_frame st st'"
  by (auto simp: next_range_round_def walk_frame_def Let_def split: if_splits option.splits)

lemma loop_frame: "next_range_loop fuel ol st = Some (b, st') \<Longrightarrow> walk_frame st st'"
  by (induction fuel arbitrary: st)
    (auto split: prod.splits sum.splits dest: round_frame intro: walk_frame_trans)

lemma loop_true:
  assumes "ol_wf ol" and "state_ok st" and "st_Alternatives st \<noteq> []"
    and "next_range_loop fuel ol st = Some (True, st')"
  shows "state_ok st' \<and> st_CurrentAlternative st' \<noteq> None \<and>
    (st_CurrentAlternative st \<noteq> None \<longrightarrow> walk_measure ol st' < walk_measure ol st)"
  using assms
proof (induction fuel arbitrary: st)
  case 0
  then show ?case by simp
next
  case (Suc fuel)
  obtain r st1 where r: "next_range_round ol st = (r, st1)" by fastforce
  show ?case
  proof (cases r)
    case (Inr b)
    with r Suc.prems have t: "next_range_round ol st = (Inr True, st')" by simp
    from round_offers [OF Suc.prems(3) t] round_offers_decreases [OF Suc.prems(1) _ _ t] Suc.prems(2)
    show ?thesis by (auto simp: state_ok_def)
  next
    case (Inl u)
    with r have go: "next_range_round ol st = (Inl u, st1)" by simp
    note R = round_continues [OF Suc.prems(1,3) go]
    have "length (st_Alternatives st1) = length (st_Alternatives st)"
      using round_frame [OF go] by (simp add: walk_frame_def)
    with Suc.prems(3) have ne: "st_Alternatives st1 \<noteq> []" by auto
    from R ne have 1: "state_ok st1" "st_Alternatives st1 \<noteq> []" "st_CurrentAlternative st1 \<noteq> None"
      by (auto simp: state_ok_def)
    from Suc.IH [OF Suc.prems(1) 1(1,2)] Suc.prems(4) go 1(3)
    have "state_ok st'" "st_CurrentAlternative st' \<noteq> None" "walk_measure ol st' < walk_measure ol st1"
      by auto
    moreover have "walk_measure ol st1 < walk_measure ol st" if "st_CurrentAlternative st \<noteq> None"
      using that round_decreases [OF Suc.prems(1) _ _ go] Suc.prems(2) by (auto simp: state_ok_def)
    ultimately show ?thesis by (meson less_trans)
  qed
qed

lemma GetNext_true:
  assumes "ol_wf ol" and "state_ok st" and "ArbiterLibGetNextAllocationRange ol st = Some (True, st')"
  shows "state_ok st' \<and> st_CurrentAlternative st' \<noteq> None \<and>
    (st_CurrentAlternative st \<noteq> None \<longrightarrow> walk_measure ol st' < walk_measure ol st)"
  using assms loop_true [OF assms(1,2)]
  by (auto simp: ArbiterLibGetNextAllocationRange_def split: if_splits)

lemma GetNext_frame: "ArbiterLibGetNextAllocationRange ol st = Some (b, st') \<Longrightarrow> walk_frame st st'"
  using loop_frame [of _ ol st b st']
  by (auto simp: ArbiterLibGetNextAllocationRange_def split: if_splits)

lemma loop_terminates:
  assumes "ol_wf ol" and "st_CurrentAlternative st = Some c" and "c < length (st_Alternatives st)"
    and "walk_measure ol st < fuel"
  shows "\<exists>r. next_range_loop fuel ol st = Some r"
  using assms
proof (induction fuel arbitrary: st c)
  case 0
  then show ?case by simp
next
  case (Suc fuel)
  obtain r st' where r: "next_range_round ol st = (r, st')" by fastforce
  show ?case
  proof (cases r)
    case (Inr b)
    with r show ?thesis by simp
  next
    case (Inl u)
    with r have go: "next_range_round ol st = (Inl u, st')" by simp
    have ne: "st_Alternatives st \<noteq> []" using Suc.prems by auto
    note R = round_continues [OF Suc.prems(1) ne go]
    have "walk_measure ol st' < fuel"
      using round_decreases [OF Suc.prems(1-3) go] Suc.prems(4) by linarith
    with Suc.IH [OF Suc.prems(1)] R go show ?thesis by fastforce
  qed
qed

lemma rank_le: "rank ol a \<le> unat (ol_Count ol) + 3"
  by (auto simp: rank_def intro: le_SucI)

lemma walk_measure_bound:
  "walk_measure ol st \<le> 2 * length (st_Alternatives st) * (unat (ol_Count ol) + 3) + 1"
  using total_rank_bound [of "st_Alternatives st" ol "unat (ol_Count ol) + 3"] rank_le [of ol]
  by (auto simp: walk_measure_def split: option.split)

lemma GetNextAllocationRange_total:
  assumes "ol_wf ol" and "state_ok st"
  shows "\<exists>b st'. ArbiterLibGetNextAllocationRange ol st = Some (b, st')"
proof (cases "st_Alternatives st = []")
  case True
  then show ?thesis by (auto simp: ArbiterLibGetNextAllocationRange_def)
next
  case ne: False
  have "\<exists>r. next_range_loop (next_range_fuel ol st) ol st = Some r"
  proof (cases "st_CurrentAlternative st")
    case (Some c)
    with assms(2) have "c < length (st_Alternatives st)" by (simp add: state_ok_def)
    with assms(1) Some show ?thesis
      using walk_measure_bound [of ol st] by (intro loop_terminates) (auto simp: next_range_fuel_def)
  next
    case None
    obtain n where n: "next_range_fuel ol st = Suc n"
      "n = 2 * length (st_Alternatives st) * (unat (ol_Count ol) + 3) + 2"
      by (simp add: next_range_fuel_def)
    obtain r st' where r: "next_range_round ol st = (r, st')" by fastforce
    show ?thesis
    proof (cases r)
      case (Inr b)
      with r n show ?thesis by simp
    next
      case (Inl u)
      with r have go: "next_range_round ol st = (Inl u, st')" by simp
      note R = round_continues [OF assms(1) ne go]
      then have len: "length (st_Alternatives st') = length (st_Alternatives st)" by auto
      have "\<exists>r. next_range_loop n ol st' = Some r"
        using assms(1) R len walk_measure_bound [of ol st'] n(2) by (intro loop_terminates) auto
      with go n(1) show ?thesis by simp
    qed
  qed
  with ne show ?thesis by (auto simp: ArbiterLibGetNextAllocationRange_def)
qed

section \<open>What the walk offers\<close>

text \<open>
  The untrimmed window a priority stands for: the alternative's own, or its intersection with the
  ordering window the priority names.
\<close>

definition source_window :: "ordering_list \<Rightarrow> alternative \<Rightarrow> u64 \<Rightarrow> u64 \<Rightarrow> bool" where
  "source_window ol alt lo hi \<longleftrightarrow>
     (if reserved_pass (alt_Priority alt) then lo = alt_Minimum alt \<and> hi = alt_Maximum alt
      else unat (priority_index (alt_Priority alt)) < length (ol_windows ol) \<and>
           (let w = ol_windows ol ! unat (priority_index (alt_Priority alt))
            in lo = max (alt_Minimum alt) (ord_Start w) \<and> hi = min (alt_Maximum alt) (ord_End w)))"

lemma source_window_inside:
  "source_window ol alt lo hi \<Longrightarrow> alt_Minimum alt \<le> lo \<and> hi \<le> alt_Maximum alt"
  by (auto simp: source_window_def Let_def split: if_splits)

text \<open>The alternatives up to their priorities, which nothing in the walk changes.\<close>

definition shape :: "alternative list \<Rightarrow> alternative list" where
  "shape = map (alt_Priority_update (\<lambda>_. 0))"

lemma shape_WritePriority:
  "(ArbpWritePriority ol a)\<lparr>alt_Priority := 0\<rparr> = a\<lparr>alt_Priority := 0\<rparr>"
  by (simp add: ArbpWritePriority_def Let_def)

lemma shape_update:
  "a\<lparr>alt_Priority := 0\<rparr> = (alts ! c)\<lparr>alt_Priority := 0\<rparr> \<Longrightarrow> shape (alts[c := a]) = shape alts"
  by (cases "c < length alts") (simp_all add: shape_def map_update list_update_same_conv list_update_beyond)

lemma shape_advanced: "shape (advanced ol st) = shape (st_Alternatives st)"
  by (auto simp: advanced_def shape_update shape_WritePriority split: option.split)
    (simp add: shape_def shape_WritePriority)

lemma shape_round: "next_range_round ol st = (r, st') \<Longrightarrow> shape (st_Alternatives st') = shape (st_Alternatives st)"
  using shape_advanced [of ol st]
  by (auto simp: next_range_round_def Let_def shape_update split: if_splits option.splits)

text \<open>The two returns of a round.\<close>

lemma round_true:
  assumes "ol_wf ol" and "st_Alternatives st \<noteq> []" and "next_range_round ol st = (Inr True, st')"
  shows "\<exists>alt lo hi. current_alternative st' = Some alt \<and>
    (\<forall>a \<in> set (st_Alternatives st'). sint (alt_Priority alt) \<le> sint (alt_Priority a)) \<and>
    source_window ol alt lo hi \<and>
    ArbpTrimWindow alt lo hi = Some (st_CurrentMinimum st', st_CurrentMaximum st')"
proof -
  let ?alts = "advanced ol st"
  let ?l = "lowest_index ?alts"
  have "?alts \<noteq> []" using assms(2) by (metis length_advanced length_0_conv)
  note low = lowest_index [OF this]
  have c: "ucast (ol_Count ol) \<le> x \<longleftrightarrow> length (ol_windows ol) \<le> unat x" for x :: u32
    by (simp add: word_le_nat_alt unat_ucast_widen ol_wf_length [OF assms(1)])
  from assms(3) obtain lo hi where
    "source_window ol (?alts ! ?l) lo hi"
    "ArbpTrimWindow (?alts ! ?l) lo hi = Some (st_CurrentMinimum st', st_CurrentMaximum st')"
    "st_Alternatives st' = ?alts" "st_CurrentAlternative st' = Some ?l"
    unfolding next_range_round_def Let_def c
    by (auto simp: source_window_def reserved_pass_def Let_def not_le
        split: if_splits option.splits)
  with low show ?thesis by (auto simp: current_alternative_def)
qed

lemma round_false:
  assumes "st_Alternatives st \<noteq> []" and "next_range_round ol st = (Inr False, st')"
  shows "\<forall>a \<in> set (st_Alternatives st'). alt_Priority a = ARBITER_PRIORITY_EXHAUSTED"
proof -
  let ?alts = "advanced ol st"
  have "?alts \<noteq> []" using assms(1) by (metis length_advanced length_0_conv)
  note low = lowest_index(2) [OF this]
  from assms(2) have e: "st_Alternatives st' = ?alts"
    "alt_Priority (?alts ! lowest_index ?alts) = ARBITER_PRIORITY_EXHAUSTED"
    by (auto simp: next_range_round_def Let_def split: if_splits option.splits)
  have top: "p = 0x7FFFFFFF" if "sint (0x7FFFFFFF :: 32 word) \<le> sint p" for p :: "32 word"
  proof -
    have "sint p < 2 ^ 31" using sint_lt [of p] by simp
    with that have "sint p = sint (0x7FFFFFFF :: 32 word)" by simp
    then show ?thesis by (metis signed_word_eqI)
  qed
  show ?thesis using low e top by auto
qed

lemma loop_result:
  assumes "ol_wf ol" and "st_Alternatives st \<noteq> []" and "next_range_loop fuel ol st = Some (b, st')"
  obtains st0 where "next_range_round ol st0 = (Inr b, st')" and "st_Alternatives st0 \<noteq> []"
    and "shape (st_Alternatives st') = shape (st_Alternatives st)"
  using assms
proof (induction fuel arbitrary: st thesis)
  case 0
  then show ?case by simp
next
  case (Suc fuel)
  obtain r st1 where r: "next_range_round ol st = (r, st1)" by fastforce
  note sh = shape_round [OF r]
  show ?case
  proof (cases r)
    case (Inr x)
    with r Suc.prems sh show ?thesis by auto
  next
    case (Inl u)
    with sh Suc.prems have "st_Alternatives st1 \<noteq> []" by (metis shape_def Nil_is_map_conv)
    with Suc.IH [OF _ Suc.prems(2) this] Suc.prems r Inl sh show ?thesis by auto
  qed
qed

lemma GetNext_result:
  assumes "ol_wf ol" and "ArbiterLibGetNextAllocationRange ol st = Some (b, st')"
  shows "shape (st_Alternatives st') = shape (st_Alternatives st)"
    and "b \<Longrightarrow> \<exists>alt lo hi. current_alternative st' = Some alt \<and>
      (\<forall>a \<in> set (st_Alternatives st'). sint (alt_Priority alt) \<le> sint (alt_Priority a)) \<and>
      source_window ol alt lo hi \<and>
      ArbpTrimWindow alt lo hi = Some (st_CurrentMinimum st', st_CurrentMaximum st')"
    and "\<not> b \<Longrightarrow> \<forall>a \<in> set (st_Alternatives st'). alt_Priority a = ARBITER_PRIORITY_EXHAUSTED"
proof -
  have "shape (st_Alternatives st') = shape (st_Alternatives st) \<and>
    (b \<longrightarrow> (\<exists>alt lo hi. current_alternative st' = Some alt \<and>
      (\<forall>a \<in> set (st_Alternatives st'). sint (alt_Priority alt) \<le> sint (alt_Priority a)) \<and>
      source_window ol alt lo hi \<and>
      ArbpTrimWindow alt lo hi = Some (st_CurrentMinimum st', st_CurrentMaximum st'))) \<and>
    (\<not> b \<longrightarrow> (\<forall>a \<in> set (st_Alternatives st'). alt_Priority a = ARBITER_PRIORITY_EXHAUSTED))"
  proof (cases "st_Alternatives st = []")
    case True
    with assms(2) show ?thesis by (simp add: ArbiterLibGetNextAllocationRange_def)
  next
    case False
    with assms(2) have "next_range_loop (next_range_fuel ol st) ol st = Some (b, st')"
      by (simp add: ArbiterLibGetNextAllocationRange_def)
    from loop_result [OF assms(1) False this] obtain st0
      where s: "next_range_round ol st0 = (Inr b, st')" "st_Alternatives st0 \<noteq> []"
        "shape (st_Alternatives st') = shape (st_Alternatives st)" by metis
    show ?thesis
    proof (cases b)
      case True
      with s round_true [OF assms(1) s(2)] show ?thesis by simp
    next
      case False
      with s round_false [OF s(2)] show ?thesis by simp
    qed
  qed
  then show "shape (st_Alternatives st') = shape (st_Alternatives st)"
    and "b \<Longrightarrow> \<exists>alt lo hi. current_alternative st' = Some alt \<and>
      (\<forall>a \<in> set (st_Alternatives st'). sint (alt_Priority alt) \<le> sint (alt_Priority a)) \<and>
      source_window ol alt lo hi \<and>
      ArbpTrimWindow alt lo hi = Some (st_CurrentMinimum st', st_CurrentMaximum st')"
    and "\<not> b \<Longrightarrow> \<forall>a \<in> set (st_Alternatives st'). alt_Priority a = ARBITER_PRIORITY_EXHAUSTED"
    by blast+
qed

section \<open>What a granted placement is\<close>

text \<open>
  RtlFindRange as the kernel documents it: on success the start it reports is aligned, lies in
  the window with the whole length, and the range conflicts with nothing that the flags, the
  available attributes and the arbiter's ConflictCallback \<open>exc\<close> do not excuse. An arbiter without a
  callback excuses nothing by it.
\<close>

definition range_free_but :: "(rtl_range \<Rightarrow> bool) \<Rightarrow> range_list \<Rightarrow> u64 \<Rightarrow> u64 \<Rightarrow> u32 \<Rightarrow> u8 \<Rightarrow> bool" where
  "range_free_but exc rl s e fl avail \<longleftrightarrow>
     (\<forall>r \<in> set rl. overlaps s e (rr_Start r) (rr_End r) \<longrightarrow>
        rr_Attributes r AND avail \<noteq> 0 \<or>
        fl AND RTL_RANGE_LIST_SHARED_OK \<noteq> 0 \<and> rr_Flags r AND 1 \<noteq> 0 \<or>
        fl AND RTL_RANGE_LIST_NULL_CONFLICT_OK \<noteq> 0 \<and> rr_Owner r = None \<or> exc r)"

definition FindRange_contract_but :: "(rtl_range \<Rightarrow> bool) \<Rightarrow> nt_kernel \<Rightarrow> bool" where
  "FindRange_contract_but exc K \<longleftrightarrow>
     (\<forall>rl lo hi len al fl avail st s.
        k_RtlFindRange K rl lo hi len al fl avail = (st, s) \<longrightarrow> NT_SUCCESS st \<longrightarrow> len \<noteq> 0 \<longrightarrow>
          lo \<le> s \<and> unat s + (unat len - 1) \<le> unat hi \<and> unat al dvd unat s \<and>
          range_free_but exc rl s (s + len - 1) fl avail)"

abbreviation FindRange_contract :: "nt_kernel \<Rightarrow> bool" where
  "FindRange_contract \<equiv> FindRange_contract_but (\<lambda>_. False)"

lemma blocks_window_placed [simp]:
  "blocks_window (st\<lparr>st_Start := s\<rparr>) = blocks_window st"
  "blocks_window (st\<lparr>st_End := e\<rparr>) = blocks_window st"
  by (auto simp: blocks_window_def fun_eq_iff)

lemma override_walk_true:
  assumes "override_walk pdo rl f st = (True, st')"
  shows "(\<forall>r \<in> set rl. blocks_window st r \<longrightarrow> rr_Owner r = Some pdo) \<and>
    (f \<and> st' = st \<or> (\<exists>r \<in> set rl. blocks_window st r) \<and>
     st' = st\<lparr>st_Start := st_CurrentMinimum st, st_End := st_CurrentMaximum st\<rparr>)"
  using assms
proof (induction pdo rl f st rule: override_walk.induct)
  case (2 pdo r rs f st)
  show ?case
  proof (cases "blocks_window st r")
    case True
    with "2.prems" have "rr_Owner r = Some pdo" by (auto split: if_splits)
    with True 2 show ?thesis by auto
  next
    case False
    with 2 show ?thesis by auto
  qed
qed simp

lemma override_walk_false:
  "override_walk pdo rl f st = (False, st') \<Longrightarrow>
   st' = st \<or> st' = st\<lparr>st_Start := st_CurrentMinimum st, st_End := st_CurrentMaximum st\<rparr>"
  by (induction pdo rl f st rule: override_walk.induct) (auto split: if_splits)

lemma share_walk_true:
  assumes "share_walk K rq alt rl ro st = (True, st')"
  shows "\<exists>r \<in> set rl. \<exists>ow. rr_Owner r = Some ow \<and> blocks_window st r \<and>
      (io_ShareDisposition (alt_Descriptor alt) = CmResourceShareDriverExclusive \<or>
       rr_Attributes r AND ARBITER_RANGE_SHARED_DRIVER \<noteq> 0) \<and>
      (ro \<and> ArbpReadRootEnumerated K (Some ow) \<noteq> Some False \<or> ArbpSharesDriverStack K rq ow) \<and>
      st_Start st' = st_CurrentMinimum st \<and> st_End st' = st_CurrentMaximum st"
  using assms
proof (induction K rq alt rl ro st rule: share_walk.induct)
  case (2 K rq alt r rs ro st)
  then show ?case by (fastforce simp: Let_def split: option.splits if_splits)
qed simp

lemma share_walk_false: "share_walk K rq alt rl ro st = (False, st') \<Longrightarrow> st' = st"
  by (induction K rq alt rl ro st rule: share_walk.induct)
    (auto simp: Let_def split: option.splits if_splits)

text \<open>The ways a conflict is excused once RtlFindRange has reported one.\<close>

definition self_conflict_grant :: "range_list \<Rightarrow> alloc_state \<Rightarrow> alternative \<Rightarrow> bool" where
  "self_conflict_grant rl st alt \<longleftrightarrow>
     alt_Flags alt AND ALTERNATIVE_FLAG_FIXED \<noteq> 0 \<and>
     (\<exists>pdo. requester st = Some pdo \<and> (\<exists>r \<in> set rl. blocks_window st r) \<and>
        (\<forall>r \<in> set rl. blocks_window st r \<longrightarrow> rr_Owner r = Some pdo))"

definition driver_share_grant :: "nt_kernel \<Rightarrow> range_list \<Rightarrow> alloc_state \<Rightarrow> alternative \<Rightarrow> bool" where
  "driver_share_grant K rl st alt \<longleftrightarrow>
     (\<exists>rq r ow. requester st = Some rq \<and> r \<in> set rl \<and> rr_Owner r = Some ow \<and> blocks_window st r \<and>
        (io_ShareDisposition (alt_Descriptor alt) = CmResourceShareDriverExclusive \<or>
         rr_Attributes r AND ARBITER_RANGE_SHARED_DRIVER \<noteq> 0) \<and>
        (ArbpReadRootEnumerated K (Some rq) = Some True \<and> ArbpReadRootEnumerated K (Some ow) \<noteq> Some False \<or>
         ArbpSharesDriverStack K rq ow))"

lemma OverrideConflict_true:
  assumes "ArbiterLibOverrideConflict rl st = (True, st')"
  shows "\<exists>alt. current_alternative st = Some alt \<and> self_conflict_grant rl st alt \<and>
    st_Start st' = st_CurrentMinimum st \<and> st_End st' = st_CurrentMaximum st"
  using assms
  by (auto simp: ArbiterLibOverrideConflict_def self_conflict_grant_def
      split: option.splits if_splits dest!: override_walk_true)

lemma ShareDriverExclusive_true:
  assumes "ArbpShareDriverExclusive K rl st = (True, st')"
  shows "\<exists>alt. current_alternative st = Some alt \<and> driver_share_grant K rl st alt \<and>
    st_Start st' = st_CurrentMinimum st \<and> st_End st' = st_CurrentMaximum st"
  using assms share_walk_true [of K _ _ rl _ st st']
  by (fastforce simp: ArbpShareDriverExclusive_def driver_share_grant_def split: option.splits)

lemma ShareDriverExclusive_false: "ArbpShareDriverExclusive K rl st = (False, st') \<Longrightarrow> st' = st"
  by (auto simp: ArbpShareDriverExclusive_def dest: share_walk_false split: option.splits)

text \<open>A placement the library grants, in a working window [lo, hi].\<close>

definition granted_but ::
    "(rtl_range \<Rightarrow> bool) \<Rightarrow> nt_kernel \<Rightarrow> range_list \<Rightarrow> alloc_state \<Rightarrow> alternative \<Rightarrow> u64 \<Rightarrow> u64 \<Rightarrow> bool" where
  "granted_but exc K rl st alt s e \<longleftrightarrow>
     (let lo = st_CurrentMinimum st; hi = st_CurrentMaximum st;
          avail = available_attributes st alt;
          st2 = st\<lparr>st_RangeAvailableAttributes := avail\<rparr>
      in s = lo \<and> e = lo \<and> alt_Length alt = 0 \<or>
         (alt_Length alt \<noteq> 0 \<and> e = s + alt_Length alt - 1 \<and> unat (alt_align alt) dvd unat s \<and>
          range_free_but exc rl s e (find_flags st alt) avail) \<or>
         (s = lo \<and> e = hi \<and> (driver_share_grant K rl st2 alt \<or> self_conflict_grant rl st2 alt)))"

abbreviation granted ::
    "nt_kernel \<Rightarrow> range_list \<Rightarrow> alloc_state \<Rightarrow> alternative \<Rightarrow> u64 \<Rightarrow> u64 \<Rightarrow> bool" where
  "granted \<equiv> granted_but (\<lambda>_. False)"

lemma max_align: "max (alt_Alignment alt) 1 = alt_align alt"
proof (cases "alt_Alignment alt = 0")
  case False
  then have "1 \<le> alt_Alignment alt" by (simp add: word_le_nat_alt unat_gt_0 Suc_le_eq)
  with False show ?thesis by (simp add: alt_align_def max_def)
qed (simp add: alt_align_def)

lemma current_alternative_frame [simp]:
  "current_alternative (st\<lparr>st_RangeAvailableAttributes := x\<rparr>) = current_alternative st"
  unfolding current_alternative_def by (simp split: option.split)

lemma requester_frame [simp]: "requester (st\<lparr>st_RangeAvailableAttributes := x\<rparr>) = requester st"
  unfolding requester_def by simp

lemma FindSuitable_granted:
  assumes K: "FindRange_contract_but exc K"
    and run: "ArbiterLibFindSuitableRange K mc (Some ArbiterLibOverrideConflict) rl st = (True, st')"
  shows "\<exists>alt. current_alternative st = Some alt \<and> granted_but exc K rl st alt (st_Start st') (st_End st') \<and>
    st_CurrentMinimum st \<le> st_Start st' \<and> st_Start st' \<le> st_End st' \<and>
    st_End st' \<le> st_CurrentMaximum st"
proof (cases "current_alternative st")
  case None
  with run show ?thesis by (simp add: ArbiterLibFindSuitableRange_def)
next
  case alt: (Some alt)
  let ?lo = "st_CurrentMinimum st" and ?hi = "st_CurrentMaximum st"
  let ?av = "available_attributes st alt" and ?fl = "find_flags st alt"
  let ?st = "st\<lparr>st_RangeAvailableAttributes := ?av\<rparr>"
  have cur: "current_alternative ?st = Some alt" using alt by simp
  from alt run have le: "?lo \<le> ?hi" by (auto simp: ArbiterLibFindSuitableRange_def split: if_splits)
  then have nl: "\<not> ?hi < ?lo" by simp
  show ?thesis
  proof (cases "alt_Length alt = 0")
    case True
    with alt run nl have "st' = st\<lparr>st_Start := ?lo, st_End := ?lo\<rparr>"
      by (simp add: ArbiterLibFindSuitableRange_def)
    with alt le True show ?thesis by (simp add: granted_but_def)
  next
    case len: False
    obtain St s where f: "k_RtlFindRange K rl ?lo ?hi (alt_Length alt) (alt_align alt) ?fl ?av = (St, s)"
      by fastforce
    obtain sh st1 where sh: "ArbpShareDriverExclusive K rl ?st = (sh, st1)" by fastforce
    obtain ov st2 where ov: "ArbiterLibOverrideConflict rl st1 = (ov, st2)" by fastforce
    have run2: "(if NT_SUCCESS St then (True, ?st\<lparr>st_Start := s, st_End := s + alt_Length alt - 1\<rparr>)
      else if sh then (True, st1) else if ov then (True, st2) else (False, undefined)) = (True, st')
      \<and> (NT_SUCCESS St \<or> sh \<or> ov)"
      using run unfolding ArbiterLibFindSuitableRange_def
      by (simp add: alt nl len f sh ov max_align Let_def split: if_splits)
    consider "NT_SUCCESS St" | "\<not> NT_SUCCESS St" "sh" | "\<not> NT_SUCCESS St" "\<not> sh" "ov"
      using run2 by blast
    then show ?thesis
    proof cases
      case 1
      with run2 have st': "st' = ?st\<lparr>st_Start := s, st_End := s + alt_Length alt - 1\<rparr>" by simp
      from K f 1 len have c: "?lo \<le> s" "unat s + (unat (alt_Length alt) - 1) \<le> unat ?hi"
        "unat (alt_align alt) dvd unat s" "range_free_but exc rl s (s + alt_Length alt - 1) ?fl ?av"
        unfolding FindRange_contract_but_def by blast+
      have "unat (s + (alt_Length alt - 1)) = unat s + (unat (alt_Length alt) - 1)"
        using c(2) unat_u64_lt [of ?hi] len
        by (subst unat_add_nowrap) (auto simp: unat_minus_one)
      then have "s \<le> s + alt_Length alt - 1" "s + alt_Length alt - 1 \<le> ?hi"
        using c(2) by (simp_all add: word_le_nat_alt add_diff_eq)
      with alt st' c len show ?thesis by (auto simp: granted_but_def Let_def)
    next
      case 2
      with run2 ShareDriverExclusive_true [of K rl ?st] sh cur alt le show ?thesis
        by (auto simp: granted_but_def Let_def)
    next
      case 3
      with sh have "st1 = ?st" by (auto dest: ShareDriverExclusive_false)
      with 3 run2 OverrideConflict_true [of rl ?st] ov cur alt le show ?thesis
        by (auto simp: granted_but_def Let_def)
    qed
  qed
qed


section \<open>Properties\<close>

text \<open>Rounding a minimum of the walk up to the alignment of an alternative stays in 64 bits.\<close>

definition rounds_in_range :: "ordering_list \<Rightarrow> alternative \<Rightarrow> bool" where
  "rounds_in_range ol alt \<longleftrightarrow>
     unat (alt_Minimum alt) + (unat (alt_align alt) - 1) < 2 ^ 64 \<and>
     (\<forall>w \<in> set (ol_windows ol). unat (ord_Start w) + (unat (alt_align alt) - 1) < 2 ^ 64)"

lemma rounds_in_range_shape [simp]:
  "rounds_in_range ol (alt\<lparr>alt_Priority := p\<rparr>) = rounds_in_range ol alt"
  by (simp add: rounds_in_range_def alt_align_def)

lemma shape_mem:
  assumes "shape as = shape bs" and "a \<in> set as"
  obtains b where "b \<in> set bs" and "a\<lparr>alt_Priority := 0\<rparr> = b\<lparr>alt_Priority := 0\<rparr>"
proof -
  from assms have "a\<lparr>alt_Priority := 0\<rparr> \<in> set (shape bs)" by (metis shape_def image_eqI list.set_map)
  with that show ?thesis by (auto simp: shape_def)
qed

lemma shape_inherits:
  assumes "shape as = shape bs" and "a \<in> set as"
    and "\<forall>b \<in> set bs. rounds_in_range ol b \<and> alt_Length b \<noteq> 0"
  shows "rounds_in_range ol a" and "alt_Length a \<noteq> 0"
proof -
  obtain b where "b \<in> set bs" and b: "a\<lparr>alt_Priority := 0\<rparr> = b\<lparr>alt_Priority := 0\<rparr>"
    using shape_mem [OF assms(1,2)] by blast
  with assms(3) have B: "rounds_in_range ol b" "alt_Length b \<noteq> 0" by blast+
  from arg_cong [OF b, of "rounds_in_range ol"] arg_cong [OF b, of alt_Length] B
  show "rounds_in_range ol a" and "alt_Length a \<noteq> 0" by simp_all
qed

lemma source_window_rounds:
  assumes "source_window ol alt lo hi" and "rounds_in_range ol alt"
  shows "unat lo + (unat (alt_align alt) - 1) < 2 ^ 64"
  using assms by (auto simp: source_window_def rounds_in_range_def Let_def max_def split: if_splits)

lemma current_alternative_mem: "current_alternative st = Some alt \<Longrightarrow> alt \<in> set (st_Alternatives st)"
  by (auto simp: current_alternative_def split: option.splits if_splits)

section \<open>What the walk passes over\<close>

text \<open>
  The window of ordering \<open>i\<close> for an alternative, and when the first walk may pass it over: nothing
  of the alternative can be placed in it, or it is the window the state already held, or it is the
  whole 64-bit space, whose length wraps to 0 in ArbpWritePriority.
\<close>

definition ordering_window :: "ordering_list \<Rightarrow> alternative \<Rightarrow> nat \<Rightarrow> u64 \<times> u64" where
  "ordering_window ol alt i =
     (max (alt_Minimum alt) (ord_Start (ol_windows ol ! i)), min (alt_Maximum alt) (ord_End (ol_windows ol ! i)))"

definition passed_over :: "ordering_list \<Rightarrow> u64 \<times> u64 \<Rightarrow> alternative \<Rightarrow> nat \<Rightarrow> bool" where
  "passed_over ol held alt i \<longleftrightarrow>
     (let (lo, hi) = ordering_window ol alt i
      in (\<forall>a. \<not> placeable alt lo hi a) \<or> ArbpTrimWindow alt lo hi = Some held \<or> lo = 0 \<and> hi = - 1)"

text \<open>How many orderings an alternative has behind it: those before its own, or all on its last pass.\<close>

definition orderings_behind :: "ordering_list \<Rightarrow> alternative \<Rightarrow> nat" where
  "orderings_behind ol alt =
     (if reserved_pass (alt_Priority alt) then length (ol_windows ol)
      else unat (priority_index (alt_Priority alt)))"

definition preference_kept :: "ordering_list \<Rightarrow> u64 \<times> u64 \<Rightarrow> alternative \<Rightarrow> bool" where
  "preference_kept ol held alt \<longleftrightarrow> alt_Priority alt = ARBITER_PRIORITY_EXHAUSTED \<or>
     (\<forall>i < orderings_behind ol alt. i < length (ol_windows ol) \<longrightarrow> passed_over ol held alt i)"

text \<open>The alternative the walk just left: its own ordering is behind it too.\<close>

definition left_behind :: "ordering_list \<Rightarrow> u64 \<times> u64 \<Rightarrow> alternative \<Rightarrow> bool" where
  "left_behind ol held alt \<longleftrightarrow> alt_Priority alt = ARBITER_PRIORITY_EXHAUSTED \<or>
     reserved_pass (alt_Priority alt) \<or>
     ordinary (alt_Priority alt) \<and> orderings_behind ol alt < length (ol_windows ol) \<and>
       passed_over ol held alt (orderings_behind ol alt)"

lemma NextOrdering_skips:
  assumes "k < length ws" and "case ArbpNextOrdering alt i ws of None \<Rightarrow> True | Some j \<Rightarrow> i + k < j"
  shows "\<not> (ord_Start (ws ! k) \<le> alt_Maximum alt \<and> alt_Minimum alt \<le> ord_End (ws ! k) \<and>
    alt_Length alt \<le> min (alt_Maximum alt) (ord_End (ws ! k)) - max (alt_Minimum alt) (ord_Start (ws ! k)) + 1)"
  using assms
proof (induction alt i ws arbitrary: k rule: ArbpNextOrdering.induct)
  case (2 alt i w ws)
  show ?case
  proof (cases k)
    case 0
    with 2(4) show ?thesis by (auto simp: not_less not_le split: if_splits)
  next
    case (Suc k')
    with 2(4) have tail: "case ArbpNextOrdering alt (Suc i) ws of None \<Rightarrow> True | Some j \<Rightarrow> Suc i + k' < j"
      by (auto split: if_splits option.splits)
    from 2(3) Suc have k': "k' < length ws" by simp
    show ?thesis
    proof (cases "ord_Start w > alt_Maximum alt \<or> alt_Minimum alt > ord_End w")
      case True
      from 2(1) [OF True k' tail] Suc show ?thesis by simp
    next
      case False
      with 2(4) Suc have "\<not> alt_Length alt
          \<le> min (alt_Maximum alt) (ord_End w) - max (alt_Minimum alt) (ord_Start w) + 1"
        by (auto split: if_splits)
      from 2(2) [OF False this k' tail] Suc show ?thesis by simp
    qed
  qed
qed simp

lemma skipped_passed_over:
  assumes "\<not> (ord_Start w \<le> alt_Maximum alt \<and> alt_Minimum alt \<le> ord_End w \<and>
    alt_Length alt \<le> min (alt_Maximum alt) (ord_End w) - max (alt_Minimum alt) (ord_Start w) + 1)"
    and "alt_Length alt \<noteq> 0" and "placeable alt (max (alt_Minimum alt) (ord_Start w)) (min (alt_Maximum alt) (ord_End w)) a"
  shows "max (alt_Minimum alt) (ord_Start w) = 0 \<and> min (alt_Maximum alt) (ord_End w) = - 1"
proof -
  define lo where "lo = max (alt_Minimum alt) (ord_Start w)"
  define hi where "hi = min (alt_Maximum alt) (ord_End w)"
  from assms(3) have p: "unat lo \<le> unat a" "unat a + (unat (alt_Length alt) - 1) \<le> unat hi"
    unfolding lo_def [symmetric] hi_def [symmetric] by (auto simp: placeable_def word_le_nat_alt)
  then have le: "lo \<le> hi" by (simp add: word_le_nat_alt)
  then have "ord_Start w \<le> alt_Maximum alt" "alt_Minimum alt \<le> ord_End w"
    unfolding lo_def hi_def by auto
  with assms(1) have short: "hi - lo + 1 < alt_Length alt" by (simp add: lo_def hi_def)
  have d: "unat (hi - lo) = unat hi - unat lo" using le by (rule unat_sub)
  have "hi - lo = - 1"
  proof (rule ccontr)
    assume "hi - lo \<noteq> - 1"
    then have "unat (hi - lo + 1) = unat (hi - lo) + 1"
      by (metis add.commute add_eq_0_iff unatSuc Suc_eq_plus1)
    with short d p assms(2) show False by (simp add: word_less_nat_alt)
  qed
  then have "unat hi - unat lo = 2 ^ 64 - 1" using d by (simp add: unsigned_minus_1_eq_mask mask_eq_exp_minus_1)
  moreover have "unat hi < 2 ^ 64" by (rule unat_u64_lt)
  ultimately have "unat lo = 0" by simp
  then have "lo = 0" by (simp add: unat_eq_zero)
  with \<open>hi - lo = - 1\<close> show ?thesis by (simp add: lo_def hi_def)
qed

lemma passed_over_priority [simp]: "passed_over ol held (alt\<lparr>alt_Priority := p\<rparr>) i = passed_over ol held alt i"
  by (simp add: passed_over_def ordering_window_def placeable_def alt_align_def ArbpTrimWindow_def)

lemma scan_keeps_preference:
  assumes "ol_wf ol" and "alt_Length alt \<noteq> 0"
    and "\<forall>i < first. i < length (ol_windows ol) \<longrightarrow> passed_over ol held alt i"
  shows "preference_kept ol held (alt\<lparr>alt_Priority := scan_priority ol alt first\<rparr>)"
proof -
  let ?r = "ArbpNextOrdering alt first (drop first (ol_windows ol))"
  let ?a = "alt\<lparr>alt_Priority := scan_priority ol alt first\<rparr>"
  have behind: "case ?r of None \<Rightarrow> True | Some j \<Rightarrow> i < j"
    if "i < orderings_behind ol ?a" for i
  proof (cases ?r)
    case (Some j)
    then have "j < unat (ol_Count ol)"
      using NextOrdering_Some [OF Some] ol_wf_length [OF assms(1)] by auto
    with unat_count_bound [of ol] have b: "j < 65536" by linarith
    from Some priority_written [OF b, of "scan_priority ol alt first"] that show ?thesis
      by (auto simp: scan_priority_def orderings_behind_def reserved_pass_def Let_def split: if_splits)
  qed simp
  have "passed_over ol held alt i" if i: "i < orderings_behind ol ?a" "i < length (ol_windows ol)" for i
  proof (cases "i < first")
    case True
    with assms(3) i(2) show ?thesis by blast
  next
    case False
    with i(2) have k: "i - first < length (drop first (ol_windows ol))"
      and nth: "drop first (ol_windows ol) ! (i - first) = ol_windows ol ! i" by simp_all
    from NextOrdering_skips [OF k, where alt = alt and i = first] behind [OF i(1)] False
    show ?thesis using skipped_passed_over [OF _ assms(2), of "ol_windows ol ! i"]
      by (auto simp: passed_over_def ordering_window_def nth split: option.splits)
  qed
  then show ?thesis by (simp add: preference_kept_def)
qed

lemma WritePriority_keeps_preference:
  assumes "ol_wf ol" and "alt_Length alt \<noteq> 0" and "preference_kept ol held alt" and "left_behind ol held alt"
  shows "preference_kept ol held (ArbpWritePriority ol alt)"
proof -
  have "passed_over ol held alt i" if "ordinary (alt_Priority alt)"
    "i < unat (priority_index (alt_Priority alt)) + 1" "i < length (ol_windows ol)" for i
    using that assms(3,4)
    by (auto simp: preference_kept_def left_behind_def ordinary_def reserved_pass_def orderings_behind_def less_Suc_eq)
  with scan_keeps_preference [OF assms(1,2), of "unat (priority_index (alt_Priority alt)) + 1" held]
  have next_scan: "ordinary (alt_Priority alt) \<Longrightarrow> preference_kept ol held
      (alt\<lparr>alt_Priority := scan_priority ol alt (unat (priority_index (alt_Priority alt)) + 1)\<rparr>)" by blast
  have "\<not> ucast (ol_Count ol) \<le> priority_index (alt_Priority alt)" if "ordinary (alt_Priority alt)"
    using assms(4) that ol_wf_length [OF assms(1)]
    by (auto simp: left_behind_def ordinary_def reserved_pass_def orderings_behind_def word_le_nat_alt unat_ucast_widen)
  with next_scan assms(4) show ?thesis
    by (auto simp: ArbpWritePriority_def left_behind_def ordinary_def reserved_pass_def preference_kept_def Let_def)
qed

definition walk_kept :: "ordering_list \<Rightarrow> u64 \<times> u64 \<Rightarrow> alloc_state \<Rightarrow> bool" where
  "walk_kept ol held st \<longleftrightarrow> held = (st_CurrentMinimum st, st_CurrentMaximum st) \<and>
     (\<forall>a \<in> set (st_Alternatives st). alt_Length a \<noteq> 0 \<and> rounds_in_range ol a) \<and>
     (case st_CurrentAlternative st of None \<Rightarrow> True | Some c \<Rightarrow>
        c < length (st_Alternatives st) \<and> left_behind ol held (st_Alternatives st ! c) \<and>
        (\<forall>a \<in> set (st_Alternatives st). preference_kept ol held a))"

lemma advanced_keeps_preference:
  assumes "ol_wf ol" and "walk_kept ol held st" and "a \<in> set (advanced ol st)"
  shows "preference_kept ol held a" and "alt_Length a \<noteq> 0" and "rounds_in_range ol a"
proof -
  have seeded: "preference_kept ol held (ArbpWritePriority ol (b\<lparr>alt_Priority := 0\<rparr>))"
    if "alt_Length b \<noteq> 0" for b
    using scan_keeps_preference [OF assms(1), of "b\<lparr>alt_Priority := 0\<rparr>" 0 held] that
    by (simp add: ArbpWritePriority_def)
  have keep: "rounds_in_range ol (ArbpWritePriority ol b) = rounds_in_range ol b" for b
    by (simp add: rounds_in_range_def alt_align_def)
  from assms(2,3) seeded WritePriority_keeps_preference [OF assms(1)] keep
  show "preference_kept ol held a" and "alt_Length a \<noteq> 0" and "rounds_in_range ol a"
    by (auto simp: walk_kept_def advanced_def set_conv_nth nth_list_update split: option.splits if_splits; fastforce)+
qed

lemma round_leaves_behind:
  assumes wf: "ol_wf ol" and kept: "walk_kept ol held st" and ne: "st_Alternatives st \<noteq> []"
    and go: "next_range_round ol st = (Inl u, st')"
  defines "l \<equiv> lowest_index (advanced ol st)"
  shows "left_behind ol held (st_Alternatives st' ! l)"
proof -
  let ?a = "advanced ol st ! l"
  have "advanced ol st \<noteq> []" using ne by (metis length_advanced length_0_conv)
  then have l: "l < length (advanced ol st)" unfolding l_def by (rule lowest_index(1))
  from advanced_keeps_preference [OF wf kept nth_mem [OF l]]
  have len: "alt_Length ?a \<noteq> 0" and rounds: "rounds_in_range ol ?a" by blast+
  have c: "ucast (ol_Count ol) \<le> x \<longleftrightarrow> length (ol_windows ol) \<le> unat x" for x :: u32
    by (simp add: word_le_nat_alt unat_ucast_widen ol_wf_length [OF wf])
  have none: "passed_over ol held ?a i"
    if "case ordering_window ol ?a i of (lo, hi) \<Rightarrow> ArbpTrimWindow ?a lo hi = None" and i: "i < length (ol_windows ol)" for i
  proof -
    from rounds nth_mem [OF i]
    have "unat (fst (ordering_window ol ?a i)) + (unat (alt_align ?a) - 1) < 2 ^ 64"
      by (auto simp: rounds_in_range_def ordering_window_def max_def)
    with TrimWindow_complete [OF len] that show ?thesis
      by (auto simp: passed_over_def split: prod.splits)
  qed
  have held: "held = (st_CurrentMinimum st, st_CurrentMaximum st)" using kept by (simp add: walk_kept_def)
  have null: "length (ol_windows ol) \<le> unat (priority_index 0)"
    using unat_count_bound [of ol] by (simp add: ol_wf_length [OF wf] priority_index_def unsigned_minus_1_eq_mask mask_eq_exp_minus_1)
  show ?thesis
    using go l none [of "unat (priority_index (alt_Priority ?a))"] null
    unfolding next_range_round_def Let_def l_def [symmetric] c
    by (auto simp: left_behind_def reserved_pass_def ordinary_def orderings_behind_def ordering_window_def
        passed_over_def held not_le split: if_splits option.splits)
qed

lemma round_kept:
  assumes wf: "ol_wf ol" and kept: "walk_kept ol held st" and ne: "st_Alternatives st \<noteq> []"
    and go: "next_range_round ol st = (Inl u, st')"
  shows "walk_kept ol held st'"
proof -
  note R = round_continues [OF wf ne go]
  have window: "st_CurrentMinimum st' = st_CurrentMinimum st" "st_CurrentMaximum st' = st_CurrentMaximum st"
    using go by (auto simp: next_range_round_def Let_def split: if_splits option.splits)
  have spent: "preference_kept ol held (b\<lparr>alt_Priority := ARBITER_PRIORITY_EXHAUSTED\<rparr>)" for b
    by (simp add: preference_kept_def)
  have "preference_kept ol held a \<and> alt_Length a \<noteq> 0 \<and> rounds_in_range ol a"
    if "a \<in> set (st_Alternatives st')" for a
    using that R advanced_keeps_preference [OF wf kept] spent
    by (auto dest!: set_update_subset_insert [THEN subsetD])
  with round_leaves_behind [OF wf kept ne go] R kept window show ?thesis
    by (auto simp: walk_kept_def)
qed

lemma loop_keeps_preference:
  assumes "ol_wf ol" and "walk_kept ol held st" and "st_Alternatives st \<noteq> []"
    and "next_range_loop fuel ol st = Some (True, st')" and "current_alternative st' = Some alt"
  shows "preference_kept ol held alt"
  using assms
proof (induction fuel arbitrary: st)
  case (Suc fuel)
  obtain r st1 where r: "next_range_round ol st = (r, st1)" by fastforce
  show ?case
  proof (cases r)
    case (Inr b)
    with r Suc.prems have t: "next_range_round ol st = (Inr True, st')" by simp
    from round_offers [OF Suc.prems(3) t] Suc.prems(5) advanced_keeps_preference(1) [OF Suc.prems(1,2)]
    show ?thesis by (auto simp: current_alternative_def split: if_splits)
  next
    case (Inl u)
    with r have go: "next_range_round ol st = (Inl u, st1)" by simp
    have "length (st_Alternatives st1) = length (st_Alternatives st)"
      using round_frame [OF go] by (simp add: walk_frame_def)
    with Suc.prems(3) have ne: "st_Alternatives st1 \<noteq> []" by auto
    from Suc.IH [OF Suc.prems(1) round_kept [OF Suc.prems(1-3) go] ne] Suc.prems(4,5) go
    show ?thesis by simp
  qed
qed simp

lemma GetNext_keeps_preference:
  assumes "ol_wf ol" and "\<forall>a \<in> set (st_Alternatives st). rounds_in_range ol a \<and> alt_Length a \<noteq> 0"
    and "st_CurrentAlternative st = None"
    and "ArbiterLibGetNextAllocationRange ol st = Some (True, st')" and "current_alternative st' = Some alt"
  shows "preference_kept ol (st_CurrentMinimum st, st_CurrentMaximum st) alt"
proof -
  from assms(2,3) have "walk_kept ol (st_CurrentMinimum st, st_CurrentMaximum st) st"
    by (auto simp: walk_kept_def)
  from loop_keeps_preference [OF assms(1) this] assms(4,5) show ?thesis
    by (auto simp: ArbiterLibGetNextAllocationRange_def split: if_splits)
qed

lemma GetNext_not_exhausted:
  assumes "ol_wf ol" and "ArbiterLibGetNextAllocationRange ol st = Some (True, st')"
    and "current_alternative st' = Some alt"
  shows "alt_Priority alt \<noteq> ARBITER_PRIORITY_EXHAUSTED"
proof -
  from assms(2) have ne: "st_Alternatives st \<noteq> []"
    and run: "next_range_loop (next_range_fuel ol st) ol st = Some (True, st')"
    by (auto simp: ArbiterLibGetNextAllocationRange_def split: if_splits)
  from loop_result [OF assms(1) ne run] obtain st0
    where "next_range_round ol st0 = (Inr True, st')" "st_Alternatives st0 \<noteq> []" by metis
  from round_offers [OF this(2,1)] assms(3) show ?thesis
    by (auto simp: current_alternative_def split: if_splits)
qed

definition sample_alt :: alternative where
  "sample_alt = \<lparr>alt_Minimum = 0x1003, alt_Maximum = 0x10FF, alt_Length = 8, alt_Alignment = 16,
     alt_Priority = 0, alt_Flags = 0, alt_Descriptor = sample_desc 0x1003 0x10FF\<rparr>"

definition sample_state :: alloc_state where
  "sample_state = \<lparr>st_Start = 0, st_End = 0, st_CurrentMinimum = 0, st_CurrentMaximum = 0,
     st_Entry = None, st_CurrentAlternative = None, st_Alternatives = [sample_alt], st_Flags = 0,
     st_RangeAttributes = 0, st_RangeAvailableAttributes = 0, st_WorkSpace = 0\<rparr>"

definition sample_orderings :: ordering_list where
  "sample_orderings = \<lparr>ol_Count = 1, ol_Maximum = 16, ol_Orderings = [\<lparr>ord_Start = 0, ord_End = 0xFFFF\<rparr>]\<rparr>"

text \<open>
  C11: for alternatives that have a length and whose minimum, and that of every ordering window,
  rounds up to the alignment inside 64 bits, ArbiterLibGetNextAllocationRange always returns.
  When it returns TRUE the current alternative has the least priority of all, and the working window
  is the trimmed window that its priority names: its intersection with that ordering window, or the
  whole alternative on the last pass; the window's first address is an aligned placement of the
  whole length. On the first call no ordering window before the named one (none at all on the last
  pass) could hold the alternative, unless it is the window the state already held or the whole
  64-bit space. On a later call the walk has moved forward: fewer windows are left to offer.
  When it returns FALSE every alternative is exhausted. The alternatives only change in their
  priorities.
\<close>
theorem GetNextAllocationRange_correct:
  assumes wf: "ol_wf ol" and ok: "state_ok st"
    and rounds: "\<forall>a \<in> set (st_Alternatives st). rounds_in_range ol a \<and> alt_Length a \<noteq> 0"
  shows "\<exists>b st'. ArbiterLibGetNextAllocationRange ol st = Some (b, st') \<and>
    shape (st_Alternatives st') = shape (st_Alternatives st) \<and>
    (if b then
       (\<exists>alt lo hi. current_alternative st' = Some alt \<and>
          (\<forall>a \<in> set (st_Alternatives st'). sint (alt_Priority alt) \<le> sint (alt_Priority a)) \<and>
          source_window ol alt lo hi \<and>
          ArbpTrimWindow alt lo hi = Some (st_CurrentMinimum st', st_CurrentMaximum st') \<and>
          placeable alt (st_CurrentMinimum st') (st_CurrentMaximum st') (st_CurrentMinimum st') \<and>
          (if st_CurrentAlternative st = None
           then (\<forall>i < orderings_behind ol alt. i < length (ol_windows ol) \<longrightarrow>
                   passed_over ol (st_CurrentMinimum st, st_CurrentMaximum st) alt i)
           else walk_measure ol st' < walk_measure ol st))
     else \<forall>a \<in> set (st_Alternatives st'). alt_Priority a = ARBITER_PRIORITY_EXHAUSTED)"
proof -
  from GetNextAllocationRange_total [OF wf ok] obtain b st'
    where run: "ArbiterLibGetNextAllocationRange ol st = Some (b, st')" by blast
  note res = GetNext_result [OF wf run]
  show ?thesis
  proof (cases b)
    case False
    with run have "ArbiterLibGetNextAllocationRange ol st = Some (False, st')" by simp
    with res(1,3) False show ?thesis by (intro exI [of _ False] exI [of _ st']) (simp only: if_False, blast)
  next
    case True
    from res(2) [OF this] obtain alt lo hi where alt: "current_alternative st' = Some alt"
      "\<forall>a \<in> set (st_Alternatives st'). sint (alt_Priority alt) \<le> sint (alt_Priority a)"
      "source_window ol alt lo hi"
      "ArbpTrimWindow alt lo hi = Some (st_CurrentMinimum st', st_CurrentMaximum st')" by blast
    have mem: "alt \<in> set (st_Alternatives st')" using alt(1) by (rule current_alternative_mem)
    note inh = shape_inherits [OF res(1) mem rounds]
    from source_window_rounds [OF alt(3) inh(1)]
    have nowrap: "unat lo + (unat (alt_align alt) - 1) < 2 ^ 64" .
    from TrimWindow_sound [OF inh(2) nowrap alt(4)]
    have fit: "placeable alt (st_CurrentMinimum st') (st_CurrentMaximum st') (st_CurrentMinimum st')" by blast
    have first: "\<forall>i < orderings_behind ol alt. i < length (ol_windows ol) \<longrightarrow>
        passed_over ol (st_CurrentMinimum st, st_CurrentMaximum st) alt i"
      if "st_CurrentAlternative st = None"
      using GetNext_keeps_preference [OF wf rounds that _ alt(1)] run True
        GetNext_not_exhausted [OF wf _ alt(1), of st] by (auto simp: preference_kept_def)
    have later: "walk_measure ol st' < walk_measure ol st" if "st_CurrentAlternative st \<noteq> None"
      using GetNext_true [OF wf ok, of st'] run True that by simp
    have offer: "current_alternative st' = Some alt \<and>
          (\<forall>a \<in> set (st_Alternatives st'). sint (alt_Priority alt) \<le> sint (alt_Priority a)) \<and>
          source_window ol alt lo hi \<and>
          ArbpTrimWindow alt lo hi = Some (st_CurrentMinimum st', st_CurrentMaximum st') \<and>
          placeable alt (st_CurrentMinimum st') (st_CurrentMaximum st') (st_CurrentMinimum st') \<and>
          (if st_CurrentAlternative st = None
           then (\<forall>i < orderings_behind ol alt. i < length (ol_windows ol) \<longrightarrow>
                   passed_over ol (st_CurrentMinimum st, st_CurrentMaximum st) alt i)
           else walk_measure ol st' < walk_measure ol st)"
      using alt fit first later by presburger
    from run True have "ArbiterLibGetNextAllocationRange ol st = Some (True, st')" by simp
    with res(1) offer show ?thesis by (intro exI [of _ True] exI [of _ st']) (simp only: if_True, blast)
  qed
qed

lemma GetNextAllocationRange_correct_witness:
  "(\<exists>b st'. ArbiterLibGetNextAllocationRange sample_orderings sample_state = Some (b, st') \<and>
    shape (st_Alternatives st') = shape (st_Alternatives sample_state) \<and>
    (if b then
       (\<exists>alt lo hi. current_alternative st' = Some alt \<and>
          (\<forall>a \<in> set (st_Alternatives st'). sint (alt_Priority alt) \<le> sint (alt_Priority a)) \<and>
          source_window sample_orderings alt lo hi \<and>
          ArbpTrimWindow alt lo hi = Some (st_CurrentMinimum st', st_CurrentMaximum st') \<and>
          placeable alt (st_CurrentMinimum st') (st_CurrentMaximum st') (st_CurrentMinimum st') \<and>
          (if st_CurrentAlternative sample_state = None
           then (\<forall>i < orderings_behind sample_orderings alt. i < length (ol_windows sample_orderings) \<longrightarrow>
                   passed_over sample_orderings (st_CurrentMinimum sample_state, st_CurrentMaximum sample_state) alt i)
           else walk_measure sample_orderings st' < walk_measure sample_orderings sample_state))
     else \<forall>a \<in> set (st_Alternatives st'). alt_Priority a = ARBITER_PRIORITY_EXHAUSTED)) \<and>
   map_option (\<lambda>(b, s). (b, st_CurrentMinimum s, st_CurrentMaximum s))
     (ArbiterLibGetNextAllocationRange sample_orderings sample_state) = Some (True, 0x1010, 0x10F7)"
proof
  show "map_option (\<lambda>(b, s). (b, st_CurrentMinimum s, st_CurrentMaximum s))
     (ArbiterLibGetNextAllocationRange sample_orderings sample_state) = Some (True, 0x1010, 0x10F7)"
    by code_simp
qed (rule GetNextAllocationRange_correct,
     simp_all add: sample_orderings_def sample_state_def sample_alt_def ol_wf_def ol_capacity_def ol_windows_def state_ok_def
       rounds_in_range_def alt_align_def)

text \<open>
  C17: trimming a candidate window loses no placement and adds none. Where it gives up, no
  aligned placement of the length fits the window; otherwise the trimmed window holds exactly the
  placements the untrimmed one held. The hypothesis is that rounding the minimum up stays in 64 bits.
\<close>
theorem TrimWindow_exact:
  assumes "alt_Length alt \<noteq> 0" and "unat lo + (unat (alt_align alt) - 1) < 2 ^ 64"
  shows "case ArbpTrimWindow alt lo hi of
           None \<Rightarrow> (\<forall>a. \<not> placeable alt lo hi a)
         | Some (lo', hi') \<Rightarrow> (\<forall>a. placeable alt lo hi a \<longleftrightarrow> placeable alt lo' hi' a)"
proof (cases "ArbpTrimWindow alt lo hi")
  case None
  with TrimWindow_complete [OF assms] show ?thesis by simp
next
  case (Some w)
  then obtain lo' hi' where w: "ArbpTrimWindow alt lo hi = Some (lo', hi')" by (cases w) simp
  from TrimWindow_sound [OF assms w] have "lo \<le> lo'" "hi' \<le> hi"
    and all: "\<forall>a. placeable alt lo hi a \<longrightarrow> placeable alt lo' hi' a" by blast+
  then have "placeable alt lo hi a" if "placeable alt lo' hi' a" for a
    using that unfolding placeable_def word_le_nat_alt by linarith
  with w all show ?thesis by auto
qed

lemma TrimWindow_exact_witness:
  "(case ArbpTrimWindow sample_alt 0x1003 0x10FF of
      None \<Rightarrow> (\<forall>a. \<not> placeable sample_alt 0x1003 0x10FF a)
    | Some (lo', hi') \<Rightarrow> (\<forall>a. placeable sample_alt 0x1003 0x10FF a \<longleftrightarrow> placeable sample_alt lo' hi' a)) \<and>
   ArbpTrimWindow sample_alt 0x1003 0x10FF = Some (0x1010, 0x10F7)"
proof
  show "ArbpTrimWindow sample_alt 0x1003 0x10FF = Some (0x1010, 0x10F7)" by code_simp
qed (rule TrimWindow_exact, simp_all add: sample_alt_def alt_align_def)

text \<open>
  Without that hypothesis the trim is wrong. A minimum within one alignment step of the top
  of the address space rounds up past it and wraps to 0, and the trimmed window starts below the
  minimum the requester asked for.
\<close>
theorem TrimWindow_wraps_below_minimum:
  "ArbpTrimWindow (sample_alt\<lparr>alt_Minimum := 0xFFFFFFFFFFFFFFF8, alt_Maximum := - 1, alt_Length := 4\<rparr>)
     0xFFFFFFFFFFFFFFF8 (- 1) = Some (0, 0xFFFFFFFFFFFFFFF3)"
  by code_simp

text \<open>A kernel whose RtlFindRange tries only the first address of the window.\<close>

definition fit_kernel :: nt_kernel where
  "fit_kernel = sample_kernel\<lparr>k_RtlFindRange := (\<lambda>rl lo hi len al fl at.
     if unat lo + (unat len - 1) \<le> unat hi \<and> unat lo mod unat al = 0 \<and>
        list_all (\<lambda>r. \<not> overlaps lo (lo + len - 1) (rr_Start r) (rr_End r)) rl
     then (STATUS_SUCCESS, lo) else (STATUS_UNSUCCESSFUL, 0))\<rparr>"

lemma fit_kernel_contract: "FindRange_contract fit_kernel"
  by (auto simp: FindRange_contract_but_def fit_kernel_def range_free_but_def list_all_iff split: if_splits)

text \<open>
  C12: ArbiterLibFindSuitableRange only places a request in its working window, and only where
  one of four reasons allows it: the request has no length; the range it found is aligned, has the
  requested length and conflicts with nothing but ranges the request may share or that its
  attributes make available; a blocking owner shares the requester's driver stack or root
  enumeration; or every blocking range belongs to the requester of a fixed window.
  \<open>FindRange_contract\<close> is the documented behaviour of RtlFindRange.
\<close>
theorem FindSuitableRange_sound:
  assumes "FindRange_contract K"
    and "ArbiterLibFindSuitableRange K mc (Some ArbiterLibOverrideConflict) rl st = (True, st')"
  shows "\<exists>alt. current_alternative st = Some alt \<and> granted K rl st alt (st_Start st') (st_End st') \<and>
    st_CurrentMinimum st \<le> st_Start st' \<and> st_Start st' \<le> st_End st' \<and>
    st_End st' \<le> st_CurrentMaximum st"
  using assms by (rule FindSuitable_granted)

definition sample_window :: alloc_state where
  "sample_window = sample_state\<lparr>st_CurrentAlternative := Some 0, st_CurrentMinimum := 0x1010,
     st_CurrentMaximum := 0x10F7\<rparr>"

lemma FindSuitableRange_sound_witness:
  "\<exists>alt. current_alternative sample_window = Some alt \<and>
    granted fit_kernel [] sample_window alt 0x1010 0x1017 \<and> (0x1017 :: u64) \<le> 0x10F7"
proof -
  have run: "ArbiterLibFindSuitableRange fit_kernel [] (Some ArbiterLibOverrideConflict) [] sample_window =
      (True, sample_window\<lparr>st_Start := 0x1010, st_End := 0x1017\<rparr>)"
    by (simp add: ArbiterLibFindSuitableRange_def sample_window_def sample_state_def sample_alt_def
        current_alternative_def fit_kernel_def available_attributes_def Let_def)
  show ?thesis using FindSuitableRange_sound [OF fit_kernel_contract run]
    by (simp add: sample_window_def)
qed

end
