(* ===== verification/Arbiter_Entry.thy ===== *)
theory Arbiter_Entry
  imports Arbiter_Range "HOL-Library.Multiset"
begin

text \<open>
  The entry allocation pipeline of the arbiter library (reactos-libs/arbiter/entry.c): the sort of
  the arbitration list, the backtracking search that places a stack of entries, and the report of
  its solution. The search is stated over the instance's callbacks; the locale
  \<open>arbiter_walker\<close> collects what it relies on, and is interpreted on the library's own callbacks.
\<close>

section \<open>Callbacks of an instance\<close>

text \<open>
  The callback slots of ARBITER_INSTANCE that placing entries uses. PossibleAllocation is the
  range list argument. \<open>None\<close> as the result of a walker callback is a call that does not return.
\<close>

record codec =
  cb_UnpackRequirement :: unpack_requirement
  cb_PackResource :: "(io_desc \<Rightarrow> u64 \<Rightarrow> cm_desc \<Rightarrow> ntstatus \<times> cm_desc) option"
  cb_UnpackResource :: "(cm_desc \<Rightarrow> ntstatus \<times> u64 \<times> u64) option"
  cb_ScoreRequirement :: "(io_desc \<Rightarrow> 32 word) option"

record arb_callbacks = codec +
  cb_PreprocessEntry :: "alloc_state \<Rightarrow> ntstatus \<times> alloc_state"
  cb_GetNextAllocationRange :: "alloc_state \<Rightarrow> (bool \<times> alloc_state) option"
  cb_FindSuitableRange :: "range_list \<Rightarrow> alloc_state \<Rightarrow> (bool \<times> alloc_state) option"
  cb_AddAllocation :: "range_list \<Rightarrow> alloc_state \<Rightarrow> range_list"
  cb_BacktrackAllocation :: "range_list \<Rightarrow> alloc_state \<Rightarrow> range_list \<times> alloc_state"

definition ArbiterLibPreprocessEntry :: "alloc_state \<Rightarrow> ntstatus \<times> alloc_state" where
  "ArbiterLibPreprocessEntry st = (STATUS_SUCCESS, st)"

text \<open>
  The defaults ArbiterLibInitializeInstance fills the slots with, for an arbiter that brings only
  its codec.
\<close>

definition library_callbacks :: "codec \<Rightarrow> nt_kernel \<Rightarrow> ordering_list \<Rightarrow> mmconfig \<Rightarrow> arb_callbacks" where
  "library_callbacks cd K ol mc =
     \<lparr>cb_UnpackRequirement = cb_UnpackRequirement cd, cb_PackResource = cb_PackResource cd,
      cb_UnpackResource = cb_UnpackResource cd, cb_ScoreRequirement = cb_ScoreRequirement cd,
      cb_PreprocessEntry = ArbiterLibPreprocessEntry,
      cb_GetNextAllocationRange = ArbiterLibGetNextAllocationRange ol,
      cb_FindSuitableRange = (\<lambda>possible st.
        Some (ArbiterLibFindSuitableRange K mc (Some ArbiterLibOverrideConflict) possible st)),
      cb_AddAllocation = ArbiterLibAddAllocation K,
      cb_BacktrackAllocation = (\<lambda>possible st. (ArbiterLibBacktrackAllocation K possible st, st))\<rparr>"

section \<open>Sorting the arbitration list\<close>

text \<open>WorkSpace is a LONG_PTR, compared signed: an entry goes before the first greater one.\<close>

fun insert_before :: "list_entry \<Rightarrow> list_entry list \<Rightarrow> list_entry list" where
  "insert_before e [] = [e]"
| "insert_before e (p # ps) =
     (if sint (le_WorkSpace p) > sint (le_WorkSpace e) then e # p # ps else p # insert_before e ps)"

fun sort_loop :: "list_entry list \<Rightarrow> list_entry list \<Rightarrow> list_entry list" where
  "sort_loop [] Sorted = Sorted"
| "sort_loop (e # es) Sorted = sort_loop es (insert_before e Sorted)"

definition ArbiterLibSortArbitrationList :: "list_entry list \<Rightarrow> list_entry list" where
  "ArbiterLibSortArbitrationList es = sort_loop es []"

section \<open>The search\<close>

abbreviation (input) ARBITER_ALLOCATE_DEADLINE :: u64 where "ARBITER_ALLOCATE_DEADLINE \<equiv> 10000000"
abbreviation (input) ARBITER_ALLOCATE_HARD_DEADLINE :: u64
  where "ARBITER_ALLOCATE_HARD_DEADLINE \<equiv> 100000000"

definition free_work_space :: "alloc_state \<Rightarrow> alloc_state" where
  "free_work_space st =
     (if st_Flags st AND STATE_FLAG_WORKSPACE \<noteq> 0
      then st\<lparr>st_WorkSpace := 0, st_Flags := st_Flags st AND NOT STATE_FLAG_WORKSPACE\<rparr> else st)"

definition ArbpFreeAllocationWorkSpaces :: "alloc_state list \<Rightarrow> alloc_state list" where
  "ArbpFreeAllocationWorkSpaces = map free_work_space"

definition set_result :: "arbiter_result \<Rightarrow> alloc_state \<Rightarrow> alloc_state" where
  "set_result r st = st\<lparr>st_Entry := map_option (\<lambda>e. e\<lparr>le_Result := r\<rparr>) (st_Entry st)\<rparr>"

text \<open>
  The inner loop: windows are taken from GetNextAllocationRange (at first not, when the same
  window is tried again) until FindSuitableRange accepts one or there is none left.
\<close>

partial_function (option) placement_loop ::
    "arb_callbacks \<Rightarrow> range_list \<Rightarrow> bool \<Rightarrow> alloc_state \<Rightarrow> (bool \<times> alloc_state) option" where
  "placement_loop cb possible RetrySameRange st =
     (case (if RetrySameRange then Some (True, st) else cb_GetNextAllocationRange cb st) of
        None \<Rightarrow> None
      | Some (offered, st) \<Rightarrow>
          if \<not> offered then Some (False, st)
          else case cb_FindSuitableRange cb possible st of
                 None \<Rightarrow> None
               | Some (found, st) \<Rightarrow>
                   if found then Some (True, st) else placement_loop cb possible False st)"

text \<open>
  The locals of ArbiterLibAllocateEntry, the stack (without its terminator: \<open>Current\<close> stands on
  the terminator when it equals the length) and PossibleAllocation. \<open>sr_Clock\<close> counts the calls
  of KeQueryInterruptTime.
\<close>

record search =
  sr_Stack :: "alloc_state list"
  sr_Current :: nat
  sr_Possible :: range_list
  sr_Backtracking :: bool
  sr_McfgConflict :: bool
  sr_Clock :: nat

type_synonym allocate_result = "ntstatus \<times> alloc_state list \<times> range_list"

text \<open>The code at the label Backtrack: give up at the first entry, else step back to the previous one.\<close>

definition backtrack_or_fail :: "search \<Rightarrow> allocate_result + search" where
  "backtrack_or_fail s =
     (let Current = sr_Stack s ! sr_Current s;
          Mcfg = (sr_McfgConflict s \<or> st_Flags Current AND STATE_FLAG_MCFG_CONFLICT \<noteq> 0)
      in if sr_Current s = 0
         then Inl (if Mcfg then STATUS_BAD_MCFG_TABLE else STATUS_UNSUCCESSFUL,
                   ArbpFreeAllocationWorkSpaces
                     ((sr_Stack s)[0 := set_result ArbiterResultExternalConflict Current]),
                   sr_Possible s)
         else Inr (s\<lparr>sr_McfgConflict := Mcfg, sr_Backtracking := True, sr_Current := sr_Current s - 1\<rparr>))"

text \<open>The part of an iteration from the inner loop on.\<close>

definition place_current :: "arb_callbacks \<Rightarrow> bool \<Rightarrow> search \<Rightarrow> (allocate_result + search) option" where
  "place_current cb RetrySameRange s =
     (case placement_loop cb (sr_Possible s) RetrySameRange (sr_Stack s ! sr_Current s) of
        None \<Rightarrow> None
      | Some (Found, st) \<Rightarrow>
          let s = s\<lparr>sr_Stack := (sr_Stack s)[sr_Current s := st]\<rparr>
          in if \<not> Found then Some (backtrack_or_fail s)
             else case current_alternative st of
                    None \<Rightarrow> None
                  | Some alt \<Rightarrow>
                      Some (Inr (if alt_Length alt \<noteq> 0
                        then s\<lparr>sr_Possible := cb_AddAllocation cb (sr_Possible s) st,
                               sr_Current := sr_Current s + 1\<rparr>
                        else s\<lparr>sr_Stack := (sr_Stack s)[sr_Current s := set_result ArbiterResultNullRequest st],
                               sr_Current := sr_Current s + 1\<rparr>)))"

text \<open>
  The backtracking part of an iteration: None when there is nothing to vary, else the search with
  the tentative choice withdrawn and whether the same window is tried again.
\<close>

definition vary_current ::
    "arb_callbacks \<Rightarrow> nt_kernel \<Rightarrow> u64 \<Rightarrow> search \<Rightarrow> search \<times> bool option" where
  "vary_current cb K Deadline s =
     (let c = sr_Current s;
          FailedAlternative = current_alternative (sr_Stack s ! c);
          s = s\<lparr>sr_Stack := (sr_Stack s)[Suc c := (sr_Stack s ! Suc c)\<lparr>st_CurrentAlternative := None\<rparr>],
                sr_Backtracking := False\<rparr>
      in case FailedAlternative of
           None \<Rightarrow> (s, None)
         | Some alt \<Rightarrow>
             if alt_Length alt = 0 then (s, None)
             else
               let (possible, st) = cb_BacktrackAllocation cb (sr_Possible s) (sr_Stack s ! c);
                   s = s\<lparr>sr_Possible := possible\<rparr>
               in if st_Flags st AND STATE_FLAG_NO_RETRY \<noteq> 0
                  then (s\<lparr>sr_Stack := (sr_Stack s)[c := st\<lparr>st_Flags := st_Flags st AND NOT STATE_FLAG_NO_RETRY\<rparr>]\<rparr>, None)
                  else if st_Start st > st_CurrentMinimum st \<and> alt_Flags alt AND ALTERNATIVE_FLAG_FIXED = 0
                  then
                    if k_Clock K (sr_Clock s) \<le> Deadline
                    then (s\<lparr>sr_Stack := (sr_Stack s)[c := st\<lparr>st_CurrentMaximum := st_Start st - 1\<rparr>],
                            sr_Clock := Suc (sr_Clock s)\<rparr>, Some True)
                    else (s\<lparr>sr_Stack := (sr_Stack s)[c := st], sr_Clock := Suc (sr_Clock s)\<rparr>, Some False)
                  else (s\<lparr>sr_Stack := (sr_Stack s)[c := st]\<rparr>, Some False))"

text \<open>The report of a complete solution, entry by entry, up to the first one that cannot be packed.\<close>

definition report_entry :: "arb_callbacks \<Rightarrow> alloc_state \<Rightarrow> ntstatus \<times> alloc_state" where
  "report_entry cb st =
     (case (st_Entry st, current_alternative st) of
        (Some e, Some alt) \<Rightarrow>
          let e = e\<lparr>le_SelectedAlternative := Some (alt_Descriptor alt)\<rparr>;
              (Status, Assignment) =
                (case (le_Assignment e, cb_PackResource cb) of
                   (Some cm, Some pack) \<Rightarrow> map_prod id Some (pack (alt_Descriptor alt) (st_Start st) cm)
                 | _ \<Rightarrow> (STATUS_SUCCESS, le_Assignment e));
              e = e\<lparr>le_Assignment := Assignment\<rparr>
          in if \<not> NT_SUCCESS Status then (Status, st\<lparr>st_Entry := Some e\<rparr>)
             else (STATUS_SUCCESS,
                   st\<lparr>st_Entry := Some (if le_Result e \<noteq> ArbiterResultNullRequest
                                        then e\<lparr>le_Result := ArbiterResultSuccess\<rparr> else e)\<rparr>)
      | _ \<Rightarrow> (STATUS_SUCCESS, st))"

fun report_loop :: "arb_callbacks \<Rightarrow> alloc_state list \<Rightarrow> ntstatus \<times> alloc_state list" where
  "report_loop cb [] = (STATUS_SUCCESS, [])"
| "report_loop cb (st # sts) =
     (let (Status, st) = report_entry cb st
      in if \<not> NT_SUCCESS Status then (Status, st # sts)
         else let (Status, sts) = report_loop cb sts in (Status, st # sts))"

text \<open>One iteration of the outer loop, its exit to the report included.\<close>

definition allocate_step ::
    "arb_callbacks \<Rightarrow> nt_kernel \<Rightarrow> u64 \<Rightarrow> u64 \<Rightarrow> search \<Rightarrow> (allocate_result + search) option" where
  "allocate_step cb K Deadline HardDeadline s =
     (let c = sr_Current s
      in if c \<ge> length (sr_Stack s)
         then let (Status, stack) = report_loop cb (sr_Stack s)
              in Some (Inl (Status, ArbpFreeAllocationWorkSpaces stack, sr_Possible s))
         else if k_Clock K (sr_Clock s) > HardDeadline
         then Some (Inl (STATUS_UNSUCCESSFUL,
                ArbpFreeAllocationWorkSpaces
                  ((sr_Stack s)[0 := set_result ArbiterResultExternalConflict (sr_Stack s ! 0)]),
                sr_Possible s))
         else
           let (Status, st) = cb_PreprocessEntry cb (sr_Stack s ! c);
               s = s\<lparr>sr_Stack := (sr_Stack s)[c := st], sr_Clock := Suc (sr_Clock s)\<rparr>
           in if \<not> NT_SUCCESS Status
              then Some (Inl (Status, ArbpFreeAllocationWorkSpaces (sr_Stack s), sr_Possible s))
              else if \<not> sr_Backtracking s then place_current cb False s
              else case vary_current cb K Deadline s of
                     (s, None) \<Rightarrow> Some (backtrack_or_fail s)
                   | (s, Some RetrySameRange) \<Rightarrow> place_current cb RetrySameRange s)"

partial_function (option) allocate_loop ::
    "arb_callbacks \<Rightarrow> nt_kernel \<Rightarrow> u64 \<Rightarrow> u64 \<Rightarrow> search \<Rightarrow> allocate_result option" where
  "allocate_loop cb K Deadline HardDeadline s =
     (case allocate_step cb K Deadline HardDeadline s of
        None \<Rightarrow> None
      | Some (Inl r) \<Rightarrow> Some r
      | Some (Inr s) \<Rightarrow> allocate_loop cb K Deadline HardDeadline s)"

definition ArbiterLibAllocateEntry ::
    "arb_callbacks \<Rightarrow> nt_kernel \<Rightarrow> range_list \<Rightarrow> alloc_state list \<Rightarrow> allocate_result option" where
  "ArbiterLibAllocateEntry cb K possible stack =
     allocate_loop cb K (k_Clock K 0 + ARBITER_ALLOCATE_DEADLINE) (k_Clock K 1 + ARBITER_ALLOCATE_HARD_DEADLINE)
       \<lparr>sr_Stack = stack, sr_Current = 0, sr_Possible = possible, sr_Backtracking = False,
        sr_McfgConflict = False, sr_Clock = 2\<rparr>"

declare placement_loop.simps [code] allocate_loop.simps [code]

section \<open>The sort is the stable sort\<close>

lemma mset_insert_before [simp]: "mset (insert_before e ps) = add_mset e (mset ps)"
  by (induction ps) auto

lemma set_insert_before [simp]: "set (insert_before e ps) = insert e (set ps)"
  by (induction ps) auto

abbreviation entry_score :: "list_entry \<Rightarrow> int" where "entry_score e \<equiv> sint (le_WorkSpace e)"

lemma sorted_insert_before:
  "sorted (map entry_score ps) \<Longrightarrow> sorted (map entry_score (insert_before e ps))"
  by (induction ps) auto

lemma filter_insert_before:
  "sorted (map entry_score ps) \<Longrightarrow>
   filter (\<lambda>x. k = entry_score x) (insert_before e ps) =
     filter (\<lambda>x. k = entry_score x) ps @ (if k = entry_score e then [e] else [])"
proof (induction ps)
  case (Cons p ps)
  show ?case
  proof (cases "entry_score p > entry_score e")
    case True
    with Cons.prems have "filter (\<lambda>x. entry_score e = entry_score x) (p # ps) = []"
      by (auto simp: filter_empty_conv)
    with True show ?thesis by auto
  qed (use Cons in auto)
qed simp

lemma sort_loop_invariant:
  assumes "sorted (map entry_score acc)"
  shows "sorted (map entry_score (sort_loop es acc))"
    and "mset (sort_loop es acc) = mset es + mset acc"
    and "filter (\<lambda>x. k = entry_score x) (sort_loop es acc) =
      filter (\<lambda>x. k = entry_score x) acc @ filter (\<lambda>x. k = entry_score x) es"
  using assms
  by (induction es arbitrary: acc) (simp_all add: sorted_insert_before filter_insert_before)

lemma SortArbitrationList_sort_key:
  "ArbiterLibSortArbitrationList es = sort_key entry_score es"
  unfolding ArbiterLibSortArbitrationList_def
  by (rule sym, rule properties_for_sort_key)
    (simp_all add: sort_loop_invariant(2) sort_loop_invariant(3) sort_loop_invariant(1))

text \<open>
  ArbiterLibSortArbitrationList orders the entries by ascending score, keeps every entry,
  and keeps equally scored entries in their order.
\<close>
theorem SortArbitrationList_stable:
  "sorted (map (\<lambda>e. sint (le_WorkSpace e)) (ArbiterLibSortArbitrationList es)) \<and>
   mset (ArbiterLibSortArbitrationList es) = mset es \<and>
   filter (\<lambda>e. sint (le_WorkSpace e) = k) (ArbiterLibSortArbitrationList es) =
     filter (\<lambda>e. sint (le_WorkSpace e) = k) es"
  by (simp add: SortArbitrationList_sort_key sort_key_stable [unfolded o_def])

section \<open>What the search relies on\<close>

text \<open>
  The parts of a state that a callback leaves alone, and the parts that a recorded placement
  consists of. An arbiter with a walk of its own keeps a cursor in the low byte of WorkSpace.
\<close>

definition walk_cursor :: "alloc_state \<Rightarrow> u64" where
  "walk_cursor st = st_WorkSpace st AND 0xFF"

lemma walk_cursor_updates [simp]:
  "walk_cursor (st\<lparr>st_Start := a\<rparr>) = walk_cursor st" "walk_cursor (st\<lparr>st_End := a\<rparr>) = walk_cursor st"
  "walk_cursor (st\<lparr>st_CurrentMinimum := a\<rparr>) = walk_cursor st" "walk_cursor (st\<lparr>st_CurrentMaximum := a\<rparr>) = walk_cursor st"
  "walk_cursor (st\<lparr>st_Entry := e\<rparr>) = walk_cursor st" "walk_cursor (st\<lparr>st_CurrentAlternative := c\<rparr>) = walk_cursor st"
  "walk_cursor (st\<lparr>st_Alternatives := as\<rparr>) = walk_cursor st" "walk_cursor (st\<lparr>st_Flags := f\<rparr>) = walk_cursor st"
  "walk_cursor (st\<lparr>st_RangeAttributes := r\<rparr>) = walk_cursor st"
  "walk_cursor (st\<lparr>st_RangeAvailableAttributes := r\<rparr>) = walk_cursor st"
  by (simp_all add: walk_cursor_def)

definition find_frame :: "alloc_state \<Rightarrow> alloc_state \<Rightarrow> bool" where
  "find_frame st st' \<longleftrightarrow>
     st_Entry st' = st_Entry st \<and> st_CurrentAlternative st' = st_CurrentAlternative st \<and>
     st_Alternatives st' = st_Alternatives st \<and> st_CurrentMaximum st' = st_CurrentMaximum st \<and>
     walk_cursor st' = walk_cursor st"

definition same_placement :: "alloc_state \<Rightarrow> alloc_state \<Rightarrow> bool" where
  "same_placement st st' \<longleftrightarrow> find_frame st st' \<and> st_Start st' = st_Start st \<and> st_End st' = st_End st"

lemma find_frame_current: "find_frame st st' \<Longrightarrow> current_alternative st' = current_alternative st"
  unfolding find_frame_def current_alternative_def by (simp split: option.split)

lemma find_frame_ok: "find_frame st st' \<Longrightarrow> state_ok st' = state_ok st"
  unfolding find_frame_def state_ok_def by (simp split: option.split)

lemma find_frame_refl [simp]: "find_frame st st"
  by (simp add: find_frame_def)

text \<open>
  What a state keeps for good: its alternatives up to their priorities, and its entry up to the
  result.
\<close>

definition origin :: "alloc_state \<Rightarrow> alternative list \<times> list_entry option" where
  "origin st =
     (shape (st_Alternatives st), map_option (\<lambda>e. e\<lparr>le_Result := ArbiterResultUndefined\<rparr>) (st_Entry st))"

lemma find_frame_origin: "find_frame st st' \<Longrightarrow> origin st' = origin st"
  by (simp add: find_frame_def origin_def)

lemma origin_set_result [simp]: "origin (set_result r st) = origin st"
  by (simp add: origin_def set_result_def option.map_comp comp_def)

lemma origin_updates [simp]:
  "origin (st\<lparr>st_CurrentMaximum := x\<rparr>) = origin st" "origin (st\<lparr>st_Flags := y\<rparr>) = origin st"
  "origin (st\<lparr>st_CurrentAlternative := c\<rparr>) = origin st"
  by (simp_all add: origin_def)

lemma map_origin_update:
  "origin x = origin (xs ! i) \<Longrightarrow> map origin (xs[i := x]) = map origin xs"
  by (cases "i < length xs") (simp_all add: map_update list_update_same_conv list_update_beyond)

text \<open>
  RtlDeleteRange takes back what the matching RtlAddRange added, and deleting one range does not
  depend on another one being added before or after.
\<close>

definition DeleteRange_contract :: "nt_kernel \<Rightarrow> bool" where
  "DeleteRange_contract K \<longleftrightarrow>
     (\<forall>rl s e at fl ow. k_RtlDeleteRange K (k_RtlAddRange K rl s e at fl ow) s e ow = rl) \<and>
     (\<forall>rl s e at fl ow s' e' ow'. (s, e, ow) \<noteq> (s', e', ow') \<longrightarrow>
        k_RtlDeleteRange K (k_RtlAddRange K rl s e at fl ow) s' e' ow' =
        k_RtlAddRange K (k_RtlDeleteRange K rl s' e' ow') s e at fl ow)"

text \<open>How far a state's walk is from its end: a state with no current alternative starts over.\<close>

definition walk_level :: "ordering_list \<Rightarrow> alloc_state \<Rightarrow> nat" where
  "walk_level ol st =
     (if st_CurrentAlternative st = None
      then 2 * length (st_Alternatives st) * (unat (ol_Count ol) + 3) + 2
      else walk_measure ol st)"

text \<open>
  What is left of the walk of an arbiter that offers windows of its own before the library's:
  \<open>steps\<close> counts them from the cursor, and each of them is worth a whole library walk.
\<close>

definition walk_left :: "(u64 \<Rightarrow> nat) \<Rightarrow> ordering_list \<Rightarrow> alloc_state \<Rightarrow> nat" where
  "walk_left steps ol st =
     steps (walk_cursor st) * (2 * length (st_Alternatives st) * (unat (ol_Count ol) + 3) + 3) + walk_level ol st"

lemma walk_level_bound: "walk_level ol st < 2 * length (st_Alternatives st) * (unat (ol_Count ol) + 3) + 3"
  using walk_measure_bound [of ol st] by (simp add: walk_level_def)

lemma walk_left_steps:
  assumes "length (st_Alternatives st') = length (st_Alternatives st)" and "steps (walk_cursor st') < steps (walk_cursor st)"
  shows "walk_left steps ol st' < walk_left steps ol st"
proof -
  let ?B = "2 * length (st_Alternatives st) * (unat (ol_Count ol) + 3) + 3"
  have "Suc (steps (walk_cursor st')) * ?B \<le> steps (walk_cursor st) * ?B"
    using assms(2) by (intro mult_le_mono1) simp
  then show ?thesis
    using assms(1) walk_level_bound [of ol st'] by (simp add: walk_left_def)
qed

lemma walk_left_level:
  assumes "length (st_Alternatives st') = length (st_Alternatives st)" and "walk_cursor st' = walk_cursor st"
    and "walk_level ol st' < walk_level ol st"
  shows "walk_left steps ol st' < walk_left steps ol st"
  using assms by (simp add: walk_left_def)

lemma find_frame_level: "find_frame st st' \<Longrightarrow> walk_left steps ol st' = walk_left steps ol st"
  unfolding find_frame_def walk_left_def walk_level_def walk_measure_def walk_cursor_def by (simp split: option.split)

text \<open>
  The search's progress: one number per level of the stack, compared lexicographically. A level
  above the current one is counted as used up while the search backtracks.
\<close>

definition level_measure :: "(u64 \<Rightarrow> nat) \<Rightarrow> ordering_list \<Rightarrow> alloc_state \<Rightarrow> nat" where
  "level_measure steps ol st = Suc (walk_left steps ol st * 2 ^ 64 + unat (st_CurrentMaximum st))"

definition search_measure :: "(u64 \<Rightarrow> nat) \<Rightarrow> ordering_list \<Rightarrow> search \<Rightarrow> nat list" where
  "search_measure steps ol s =
     map (\<lambda>j. if sr_Backtracking s \<and> sr_Current s < j then 0 else level_measure steps ol (sr_Stack s ! j))
       [0..<length (sr_Stack s)]"

lemma lex_at:
  assumes "length xs = length ys" and "i < length ys" and "\<And>j. j < i \<Longrightarrow> xs ! j = ys ! j"
    and "xs ! i < (ys ! i :: nat)"
  shows "(xs, ys) \<in> lex less_than"
proof -
  have "xs = take i xs @ xs ! i # drop (Suc i) xs" "ys = take i ys @ ys ! i # drop (Suc i) ys"
    using assms(1,2) by (simp_all add: id_take_nth_drop)
  moreover have "take i xs = take i ys"
    using assms(1-3) by (intro nth_equalityI) auto
  ultimately show ?thesis using assms(1,4) by (auto simp: lex_conv)
qed

lemma level_less:
  assumes "walk_left steps ol st' < walk_left steps ol st \<or>
    walk_left steps ol st' = walk_left steps ol st \<and> st_CurrentMaximum st' < st_CurrentMaximum st"
  shows "level_measure steps ol st' < level_measure steps ol st"
  using assms
proof
  assume "walk_left steps ol st' < walk_left steps ol st"
  then have "Suc (walk_left steps ol st') * 2 ^ 64 \<le> walk_left steps ol st * 2 ^ 64"
    by (intro mult_le_mono1) simp
  with unat_u64_lt [of "st_CurrentMaximum st'"] show ?thesis by (simp add: level_measure_def)
qed (simp add: level_measure_def word_less_nat_alt)

lemma step_progress:
  assumes "length (sr_Stack s') = length (sr_Stack s)" and "sr_Current s < length (sr_Stack s)"
    and "\<And>j. j < sr_Current s \<Longrightarrow> sr_Stack s' ! j = sr_Stack s ! j"
    and "sr_Backtracking s' \<and> Suc (sr_Current s') = sr_Current s \<or>
      \<not> sr_Backtracking s' \<and>
      level_measure steps ol (sr_Stack s' ! sr_Current s) < level_measure steps ol (sr_Stack s ! sr_Current s)"
  shows "(search_measure steps ol s', search_measure steps ol s) \<in> lex less_than"
proof (rule lex_at [where i = "sr_Current s"])
  show "search_measure steps ol s' ! sr_Current s < search_measure steps ol s ! sr_Current s"
    using assms(1,2,4) by (auto simp: search_measure_def level_measure_def)
  show "search_measure steps ol s' ! j = search_measure steps ol s ! j" if "j < sr_Current s" for j
    using that assms by (auto simp: search_measure_def)
qed (use assms in \<open>simp_all add: search_measure_def\<close>)

text \<open>
  The placements: the first states of the stack are placed one after the other, each where
  FindSuitableRange accepted it in the list that holds the earlier ones.
\<close>

definition add_placed :: "arb_callbacks \<Rightarrow> range_list \<Rightarrow> alloc_state \<Rightarrow> range_list" where
  "add_placed cb rl st =
     (case current_alternative st of
        None \<Rightarrow> rl
      | Some alt \<Rightarrow> if alt_Length alt \<noteq> 0 then cb_AddAllocation cb rl st else rl)"

definition found_in :: "arb_callbacks \<Rightarrow> range_list \<Rightarrow> alloc_state \<Rightarrow> bool" where
  "found_in cb rl st \<longleftrightarrow>
     (\<exists>st0 st1 alt. cb_FindSuitableRange cb rl st0 = Some (True, st1) \<and> current_alternative st1 = Some alt \<and>
        (if alt_Length alt \<noteq> 0 then st = st1 else st = set_result ArbiterResultNullRequest st1))"

definition placed_prefix :: "arb_callbacks \<Rightarrow> range_list \<Rightarrow> nat \<Rightarrow> alloc_state list \<Rightarrow> range_list \<Rightarrow> bool" where
  "placed_prefix cb rl0 n stack rl \<longleftrightarrow>
     rl = foldl (add_placed cb) rl0 (take n stack) \<and>
     (\<forall>j < n. found_in cb (foldl (add_placed cb) rl0 (take j stack)) (stack ! j))"

definition placed :: "search \<Rightarrow> nat" where
  "placed s = (if sr_Backtracking s then Suc (sr_Current s) else sr_Current s)"

definition search_ok :: "search \<Rightarrow> bool" where
  "search_ok s \<longleftrightarrow>
     placed s \<le> length (sr_Stack s) \<and> (sr_Backtracking s \<longrightarrow> placed s < length (sr_Stack s)) \<and>
     (\<forall>j < length (sr_Stack s). state_ok (sr_Stack s ! j) \<or> sr_Backtracking s \<and> j = Suc (sr_Current s)) \<and>
     (\<forall>j < placed s. st_Start (sr_Stack s ! j) \<le> st_CurrentMaximum (sr_Stack s ! j))"

lemma set_result_frame [simp]:
  "state_ok (set_result r st) = state_ok st" "walk_left steps ol (set_result r st) = walk_left steps ol st"
  "st_CurrentMaximum (set_result r st) = st_CurrentMaximum st" "st_Start (set_result r st) = st_Start st"
  "st_End (set_result r st) = st_End st"
  "current_alternative (set_result r st) = current_alternative st"
  unfolding set_result_def state_ok_def walk_left_def walk_level_def walk_measure_def walk_cursor_def current_alternative_def
  by (simp_all split: option.split)

lemma placed_prefix_take:
  "take n stack' = take n stack \<Longrightarrow> n \<le> length stack \<Longrightarrow> length stack' = length stack \<Longrightarrow>
   placed_prefix cb rl0 n stack rl \<Longrightarrow> placed_prefix cb rl0 n stack' rl"
  unfolding placed_prefix_def by (metis min.absorb1 nat_less_le nth_take take_take)

lemma placed_prefix_Suc:
  assumes "n < length stack"
  shows "placed_prefix cb rl0 (Suc n) stack rl \<longleftrightarrow>
    (\<exists>rl1. placed_prefix cb rl0 n stack rl1 \<and> rl = add_placed cb rl1 (stack ! n) \<and> found_in cb rl1 (stack ! n))"
  using assms by (auto simp: placed_prefix_def take_Suc_conv_app_nth less_Suc_eq)

text \<open>What a successful search returns: all entries placed, and reported.\<close>

definition solved ::
    "arb_callbacks \<Rightarrow> range_list \<Rightarrow> alloc_state list \<Rightarrow> alloc_state list \<Rightarrow> range_list \<Rightarrow> bool" where
  "solved cb rl0 stack0 stack' rl \<longleftrightarrow>
     (\<exists>stack reported. map origin stack = map origin stack0 \<and>
        placed_prefix cb rl0 (length stack) stack rl \<and>
        report_loop cb stack = (STATUS_SUCCESS, reported) \<and>
        stack' = ArbpFreeAllocationWorkSpaces reported)"

lemma report_loop_status:
  assumes "report_loop cb stack = (Status, reported)" and "NT_SUCCESS Status"
  shows "Status = STATUS_SUCCESS"
  using assms
  by (induction stack arbitrary: Status reported) (auto simp: Let_def split: prod.splits if_splits)

text \<open>Giving a level up.\<close>

lemma backtrack_or_fail_Inr:
  assumes "backtrack_or_fail s = Inr s'" and c: "sr_Current s < length (sr_Stack s)"
    and ok: "\<forall>j < length (sr_Stack s). j \<noteq> sr_Current s \<longrightarrow> state_ok (sr_Stack s ! j)"
    and max: "\<forall>j < sr_Current s. st_Start (sr_Stack s ! j) \<le> st_CurrentMaximum (sr_Stack s ! j)"
  shows "search_ok s'" and "placed s' = sr_Current s" and "sr_Stack s' = sr_Stack s"
    and "sr_Possible s' = sr_Possible s" and "sr_Backtracking s'" and "Suc (sr_Current s') = sr_Current s"
  using assms by (auto simp: backtrack_or_fail_def search_ok_def placed_def Let_def split: if_splits)

lemma backtrack_or_fail_Inl: "backtrack_or_fail s = Inl (Status, r) \<Longrightarrow> \<not> NT_SUCCESS Status"
  by (auto simp: backtrack_or_fail_def Let_def split: if_splits)

text \<open>One iteration keeps the invariant, makes progress, and ends only with a solution or a failure.\<close>

definition search_inv :: "nt_kernel \<Rightarrow> arb_callbacks \<Rightarrow> range_list \<Rightarrow> search \<Rightarrow> bool" where
  "search_inv K cb rl0 s \<longleftrightarrow>
     search_ok s \<and>
     (DeleteRange_contract K \<longrightarrow> placed_prefix cb rl0 (placed s) (sr_Stack s) (sr_Possible s))"

definition step_good ::
    "(u64 \<Rightarrow> nat) \<Rightarrow> nt_kernel \<Rightarrow> arb_callbacks \<Rightarrow> ordering_list \<Rightarrow> range_list \<Rightarrow> search \<Rightarrow> allocate_result + search \<Rightarrow> bool" where
  "step_good steps K cb ol rl0 s r \<longleftrightarrow>
     (case r of
        Inl (Status, stack, rl) \<Rightarrow>
          NT_SUCCESS Status \<longrightarrow> DeleteRange_contract K \<longrightarrow> solved cb rl0 (sr_Stack s) stack rl
      | Inr s' \<Rightarrow> search_inv K cb rl0 s' \<and> map origin (sr_Stack s') = map origin (sr_Stack s) \<and>
          (search_measure steps ol s', search_measure steps ol s) \<in> lex less_than)"

text \<open>What PreprocessEntry leaves: the current state with the same placement, all else the same.\<close>

definition restaged :: "search \<Rightarrow> search \<Rightarrow> bool" where
  "restaged s s1 \<longleftrightarrow>
     sr_Current s1 = sr_Current s \<and> map origin (sr_Stack s1) = map origin (sr_Stack s) \<and>
     sr_Possible s1 = sr_Possible s \<and> sr_Backtracking s1 = sr_Backtracking s \<and>
     (\<forall>j. j \<noteq> sr_Current s \<longrightarrow> sr_Stack s1 ! j = sr_Stack s ! j) \<and>
     same_placement (sr_Stack s ! sr_Current s) (sr_Stack s1 ! sr_Current s)"

lemma restagedD:
  assumes "restaged s s1"
  shows "sr_Current s1 = sr_Current s" "length (sr_Stack s1) = length (sr_Stack s)"
    "sr_Possible s1 = sr_Possible s" "sr_Backtracking s1 = sr_Backtracking s"
    "\<forall>j < sr_Current s. sr_Stack s1 ! j = sr_Stack s ! j"
    "same_placement (sr_Stack s ! sr_Current s) (sr_Stack s1 ! sr_Current s)"
    "map origin (sr_Stack s1) = map origin (sr_Stack s)"
  using assms by (auto simp: restaged_def dest: map_eq_imp_length_eq)

lemma restaged_ok: "restaged s s1 \<Longrightarrow> state_ok (sr_Stack s1 ! j) = state_ok (sr_Stack s ! j)"
  by (cases "j = sr_Current s") (auto simp: restaged_def same_placement_def find_frame_ok)

lemma restaged_level:
  "restaged s s1 \<Longrightarrow> walk_left steps ol (sr_Stack s1 ! sr_Current s) = walk_left steps ol (sr_Stack s ! sr_Current s)"
  by (auto simp: restaged_def same_placement_def find_frame_level)

lemma restaged_prefix:
  assumes "restaged s s1" and "sr_Current s < length (sr_Stack s)"
    and "placed_prefix cb rl0 (sr_Current s) (sr_Stack s) rl"
  shows "placed_prefix cb rl0 (sr_Current s) (sr_Stack s1) rl"
proof -
  have "take (sr_Current s) (sr_Stack s1) = take (sr_Current s) (sr_Stack s)"
    using assms(2) restagedD [OF assms(1)] by (intro nth_equalityI) auto
  moreover have "length (sr_Stack s1) = length (sr_Stack s)" by (rule restagedD [OF assms(1)])
  ultimately show ?thesis using assms(2,3) by (metis less_imp_le placed_prefix_take)
qed

locale arbiter_walker =
  fixes walker :: "nt_kernel \<Rightarrow> ordering_list \<Rightarrow> mmconfig \<Rightarrow> arb_callbacks"
    and steps :: "u64 \<Rightarrow> nat"
    and kernel_ok :: "nt_kernel \<Rightarrow> bool"
  assumes preprocess_frame:
    "cb_PreprocessEntry (walker K ol mc) st = (s, st') \<Longrightarrow> same_placement st st'"
  and next_total:
    "ol_wf ol \<Longrightarrow> state_ok st \<Longrightarrow>
     \<exists>b st'. cb_GetNextAllocationRange (walker K ol mc) st = Some (b, st')"
  and next_offers:
    "ol_wf ol \<Longrightarrow> state_ok st \<Longrightarrow> cb_GetNextAllocationRange (walker K ol mc) st = Some (True, st') \<Longrightarrow>
     state_ok st' \<and> st_CurrentAlternative st' \<noteq> None \<and> walk_left steps ol st' < walk_left steps ol st"
  and next_origin:
    "ol_wf ol \<Longrightarrow> cb_GetNextAllocationRange (walker K ol mc) st = Some (b, st') \<Longrightarrow> origin st' = origin st"
  and find_total:
    "kernel_ok K \<Longrightarrow> \<exists>b st'. cb_FindSuitableRange (walker K ol mc) rl st = Some (b, st')"
  and find_placed:
    "kernel_ok K \<Longrightarrow> cb_FindSuitableRange (walker K ol mc) rl st = Some (b, st') \<Longrightarrow>
     find_frame st st' \<and> (b \<longrightarrow> st_Start st' \<le> st_CurrentMaximum st')"
  and backtrack_frame:
    "cb_BacktrackAllocation (walker K ol mc) rl st = (rl', st') \<Longrightarrow> same_placement st st'"
  and backtrack_undoes:
    "DeleteRange_contract K \<Longrightarrow> same_placement st0 st \<Longrightarrow>
     fst (cb_BacktrackAllocation (walker K ol mc) (cb_AddAllocation (walker K ol mc) rl st0) st) = rl"
begin

lemma placement_loop_total:
  assumes wf: "ol_wf ol" and K: "kernel_ok K" and ok: "state_ok st"
    and retry: "retry \<Longrightarrow> st_CurrentAlternative st \<noteq> None"
  shows "\<exists>b st'. placement_loop (walker K ol mc) rl retry st = Some (b, st') \<and>
    origin st' = origin st \<and>
    (b \<longrightarrow> state_ok st' \<and> st_CurrentAlternative st' \<noteq> None \<and>
       st_Start st' \<le> st_CurrentMaximum st' \<and>
       (\<exists>st0. cb_FindSuitableRange (walker K ol mc) rl st0 = Some (True, st')) \<and>
       (walk_left steps ol st' < walk_left steps ol st \<or>
        retry \<and> walk_left steps ol st' = walk_left steps ol st \<and> st_CurrentMaximum st' = st_CurrentMaximum st))"
  using ok retry
proof (induction "2 * walk_left steps ol st + (if retry then 1 else 0)" arbitrary: st retry
    rule: less_induct)
  case (less st retry)
  note 1 = less
  let ?W = "walker K ol mc"
  obtain off st1 where n: "(if retry then Some (True, st) else cb_GetNextAllocationRange ?W st) = Some (off, st1)"
    using next_total [OF wf 1(2), of K mc] by (cases retry) auto
  have e1: "origin st1 = origin st" using n next_origin [OF wf] by (auto split: if_splits)
  show ?case
  proof (cases off)
    case False
    with n e1 show ?thesis by (subst placement_loop.simps) auto
  next
    case True
    from n True 1(2,3) next_offers [OF wf 1(2)]
    have s1: "state_ok st1" "st_CurrentAlternative st1 \<noteq> None"
      "retry \<and> st1 = st \<or> walk_left steps ol st1 < walk_left steps ol st"
      by (auto split: if_splits)
    obtain b st2 where f: "cb_FindSuitableRange ?W rl st1 = Some (b, st2)"
      using find_total [OF K] by blast
    note fp = find_placed [OF K f]
    then have fr: "find_frame st1 st2" by blast
    have l2: "walk_left steps ol st2 = walk_left steps ol st1" "state_ok st2" "origin st2 = origin st"
      "st_CurrentAlternative st2 \<noteq> None"
      using s1(1,2) e1 find_frame_level [OF fr] find_frame_ok [OF fr] find_frame_origin [OF fr] fr
      by (simp_all add: find_frame_def)
    show ?thesis
    proof (cases b)
      case True
      with n f \<open>off\<close> have run: "placement_loop ?W rl retry st = Some (True, st2)"
        by (subst placement_loop.simps) simp
      have "walk_left steps ol st2 < walk_left steps ol st \<or>
          retry \<and> walk_left steps ol st2 = walk_left steps ol st \<and> st_CurrentMaximum st2 = st_CurrentMaximum st"
        using fp s1(3) l2(1) by (auto simp: find_frame_def)
      moreover have "cb_FindSuitableRange ?W rl st1 = Some (True, st2)" using f True by simp
      moreover have "st_Start st2 \<le> st_CurrentMaximum st2" using fp True by blast
      ultimately show ?thesis using run l2(2-4) by blast
    next
      case False
      have less: "2 * walk_left steps ol st2 + (if False then 1 else 0) < 2 * walk_left steps ol st + (if retry then 1 else 0)"
        using s1(3) l2(1) by auto
      have "placement_loop ?W rl retry st = placement_loop ?W rl False st2"
        using n f False \<open>off\<close> by (subst placement_loop.simps) simp
      moreover obtain b' st' where "placement_loop ?W rl False st2 = Some (b', st')"
        "origin st' = origin st2"
        "b' \<longrightarrow> state_ok st' \<and> st_CurrentAlternative st' \<noteq> None \<and> st_Start st' \<le> st_CurrentMaximum st' \<and>
           (\<exists>st0. cb_FindSuitableRange ?W rl st0 = Some (True, st')) \<and> walk_left steps ol st' < walk_left steps ol st2"
        using 1(1) [OF less l2(2)] by auto
      ultimately show ?thesis using l2 s1(3) by auto
    qed
  qed
qed

text \<open>Withdrawing the current placement.\<close>

lemma vary_current_frame:
  assumes v: "vary_current (walker K ol mc) K dl s = (s', r)"
    and c: "Suc (sr_Current s) < length (sr_Stack s)"
    and ok: "\<forall>j < length (sr_Stack s). j \<noteq> Suc (sr_Current s) \<longrightarrow> state_ok (sr_Stack s ! j)"
    and max: "st_Start (sr_Stack s ! sr_Current s) \<le> st_CurrentMaximum (sr_Stack s ! sr_Current s)"
  shows "map origin (sr_Stack s') = map origin (sr_Stack s) \<and> sr_Current s' = sr_Current s \<and> \<not> sr_Backtracking s' \<and>
    (\<forall>j < sr_Current s. sr_Stack s' ! j = sr_Stack s ! j) \<and>
    (\<forall>j < length (sr_Stack s). state_ok (sr_Stack s' ! j)) \<and>
    walk_left steps ol (sr_Stack s' ! sr_Current s) = walk_left steps ol (sr_Stack s ! sr_Current s) \<and>
    (r = Some True \<longrightarrow> st_CurrentAlternative (sr_Stack s' ! sr_Current s) \<noteq> None \<and>
       st_CurrentMaximum (sr_Stack s' ! sr_Current s) < st_CurrentMaximum (sr_Stack s ! sr_Current s))"
proof -
  let ?W = "walker K ol mc" and ?c = "sr_Current s" and ?st = "sr_Stack s ! sr_Current s"
  obtain rl' st' where b: "cb_BacktrackAllocation ?W (sr_Possible s) ?st = (rl', st')" by fastforce
  have sp: "same_placement ?st st'" using b by (rule backtrack_frame)
  then have fr: "find_frame ?st st'" by (simp add: same_placement_def)
  note st' = find_frame_ok [OF fr] find_frame_level [OF fr, of steps ol] find_frame_origin [OF fr]
  have up: "walk_left steps ol (st'\<lparr>st_CurrentMaximum := x\<rparr>) = walk_left steps ol st'"
    "walk_left steps ol (st'\<lparr>st_Flags := y\<rparr>) = walk_left steps ol st'"
    "state_ok (st'\<lparr>st_CurrentMaximum := x\<rparr>) = state_ok st'" "state_ok (st'\<lparr>st_Flags := y\<rparr>) = state_ok st'"
    "state_ok (st''\<lparr>st_CurrentAlternative := None\<rparr>)" for x y st''
    by (simp_all add: walk_left_def walk_level_def walk_measure_def walk_cursor_def state_ok_def split: option.split)
  have okc: "state_ok ?st" using ok c by auto
  have cur: "st_CurrentAlternative st' \<noteq> None" if "current_alternative ?st \<noteq> None"
    using that fr by (auto simp: current_alternative_def find_frame_def split: option.splits)
  have lower: "st_Start st' - 1 < st_CurrentMaximum ?st" if "st_Start st' > st_CurrentMinimum st'"
  proof -
    have "st_Start st' - 1 < st_Start st'" using that by (metis word_pred_le leD linorder_not_le order_refl)
    also have "\<dots> \<le> st_CurrentMaximum ?st" using sp max by (simp add: same_placement_def)
    finally show ?thesis .
  qed
  show ?thesis
    using v c ok okc st' cur lower unfolding vary_current_def
    by (auto simp: Let_def b up nth_list_update map_origin_update split: option.splits if_splits)
qed

lemma vary_current_possible:
  assumes v: "vary_current (walker K ol mc) K dl s = (s', r)" and D: "DeleteRange_contract K"
    and c: "sr_Current s < length (sr_Stack s)"
    and sp: "same_placement st0 (sr_Stack s ! sr_Current s)"
    and pos: "sr_Possible s = add_placed (walker K ol mc) rl st0"
  shows "sr_Possible s' = rl"
proof -
  let ?W = "walker K ol mc" and ?st = "sr_Stack s ! sr_Current s"
  obtain rl' st' where b: "cb_BacktrackAllocation ?W (sr_Possible s) ?st = (rl', st')" by fastforce
  have ca: "current_alternative ?st = current_alternative st0"
    using sp find_frame_current by (auto simp: same_placement_def)
  show ?thesis
  proof (cases "current_alternative st0")
    case None
    with v ca pos show ?thesis by (auto simp: vary_current_def add_placed_def Let_def)
  next
    case (Some alt)
    show ?thesis
    proof (cases "alt_Length alt = 0")
      case True
      with v ca pos Some show ?thesis by (auto simp: vary_current_def add_placed_def Let_def)
    next
      case False
      with pos Some have "sr_Possible s = cb_AddAllocation ?W rl st0" by (simp add: add_placed_def)
      with backtrack_undoes [OF D sp, of ol mc rl] b have "rl' = rl" by simp
      with v ca b Some False c show ?thesis
        by (auto simp: vary_current_def Let_def split: if_splits)
    qed
  qed
qed

text \<open>Placing the current entry, from the inner loop on.\<close>

lemma place_current_total:
  assumes wf: "ol_wf ol" and K: "kernel_ok K"
    and c: "sr_Current s < length (sr_Stack s)" "\<not> sr_Backtracking s"
    and ok: "\<forall>j < length (sr_Stack s). state_ok (sr_Stack s ! j)"
    and max: "\<forall>j < sr_Current s. st_Start (sr_Stack s ! j) \<le> st_CurrentMaximum (sr_Stack s ! j)"
    and retry: "retry \<Longrightarrow> st_CurrentAlternative (sr_Stack s ! sr_Current s) \<noteq> None"
    and prefix: "D \<Longrightarrow> placed_prefix (walker K ol mc) rl0 (sr_Current s) (sr_Stack s) (sr_Possible s)"
  shows "\<exists>r. place_current (walker K ol mc) retry s = Some r \<and>
    (\<forall>Status x. r = Inl (Status, x) \<longrightarrow> \<not> NT_SUCCESS Status) \<and>
    (\<forall>s'. r = Inr s' \<longrightarrow>
       search_ok s' \<and> map origin (sr_Stack s') = map origin (sr_Stack s) \<and>
       (D \<longrightarrow> placed_prefix (walker K ol mc) rl0 (placed s') (sr_Stack s') (sr_Possible s')) \<and>
       (\<forall>j < sr_Current s. sr_Stack s' ! j = sr_Stack s ! j) \<and>
       (sr_Backtracking s' \<and> Suc (sr_Current s') = sr_Current s \<or>
        \<not> sr_Backtracking s' \<and>
        (walk_left steps ol (sr_Stack s' ! sr_Current s) < walk_left steps ol (sr_Stack s ! sr_Current s) \<or>
         retry \<and> walk_left steps ol (sr_Stack s' ! sr_Current s) = walk_left steps ol (sr_Stack s ! sr_Current s) \<and>
         st_CurrentMaximum (sr_Stack s' ! sr_Current s) = st_CurrentMaximum (sr_Stack s ! sr_Current s))))"
proof -
  let ?W = "walker K ol mc" and ?c = "sr_Current s" and ?stack = "sr_Stack s"
  have "state_ok (?stack ! ?c)" using ok c by blast
  from placement_loop_total [OF wf K this, of retry mc "sr_Possible s"] retry obtain b st where
    run: "placement_loop ?W (sr_Possible s) retry (?stack ! ?c) = Some (b, st)" and
    org: "origin st = origin (?stack ! ?c)" and
    st: "b \<Longrightarrow> state_ok st \<and> st_CurrentAlternative st \<noteq> None \<and> st_Start st \<le> st_CurrentMaximum st \<and>
       (\<exists>st0. cb_FindSuitableRange ?W (sr_Possible s) st0 = Some (True, st)) \<and>
       (walk_left steps ol st < walk_left steps ol (?stack ! ?c) \<or>
        retry \<and> walk_left steps ol st = walk_left steps ol (?stack ! ?c) \<and>
        st_CurrentMaximum st = st_CurrentMaximum (?stack ! ?c))" by blast
  let ?s = "s\<lparr>sr_Stack := ?stack[?c := st]\<rparr>"
  have keep: "placed_prefix ?W rl0 ?c (?stack[?c := x]) (sr_Possible s)" if D for x
    using prefix [OF that] by (rule placed_prefix_take [rotated 3]) (use c in simp_all)
  show ?thesis
  proof (cases b)
    case False
    with run have r: "place_current ?W retry s = Some (backtrack_or_fail ?s)" by (simp add: place_current_def)
    have c': "sr_Current ?s < length (sr_Stack ?s)"
      "\<forall>j < length (sr_Stack ?s). j \<noteq> sr_Current ?s \<longrightarrow> state_ok (sr_Stack ?s ! j)"
      "\<forall>j < sr_Current ?s. st_Start (sr_Stack ?s ! j) \<le> st_CurrentMaximum (sr_Stack ?s ! j)"
      using c ok max by simp_all
    have "search_ok s' \<and> map origin (sr_Stack s') = map origin ?stack \<and>
       (D \<longrightarrow> placed_prefix ?W rl0 (placed s') (sr_Stack s') (sr_Possible s')) \<and>
       (\<forall>j < ?c. sr_Stack s' ! j = ?stack ! j) \<and> sr_Backtracking s' \<and> Suc (sr_Current s') = ?c"
      if "backtrack_or_fail ?s = Inr s'" for s'
      using backtrack_or_fail_Inr [OF that c'] keep map_origin_update [OF org] by simp
    with r backtrack_or_fail_Inl show ?thesis by blast
  next
    case True
    note st = st [OF True]
    then obtain alt where alt: "current_alternative st = Some alt"
      by (auto simp: current_alternative_def state_ok_def)
    let ?st = "if alt_Length alt \<noteq> 0 then st else set_result ArbiterResultNullRequest st"
    define s' where "s' = s\<lparr>sr_Stack := ?stack[?c := ?st],
      sr_Possible := add_placed ?W (sr_Possible s) st, sr_Current := Suc ?c\<rparr>"
    have r: "place_current ?W retry s = Some (Inr s')"
      using run True alt by (simp add: place_current_def s'_def add_placed_def)
    have "add_placed ?W (sr_Possible s) ?st = add_placed ?W (sr_Possible s) st"
      using alt by (simp add: add_placed_def)
    moreover have "found_in ?W (sr_Possible s) ?st" using st alt unfolding found_in_def by auto
    ultimately have "placed_prefix ?W rl0 (placed s') (sr_Stack s') (sr_Possible s')" if D
      using keep [OF that, of ?st] c by (auto simp: s'_def placed_def placed_prefix_Suc)
    moreover have "search_ok s'"
      using c ok max st by (auto simp: s'_def search_ok_def placed_def nth_list_update less_Suc_eq)
    moreover have "map origin (sr_Stack s') = map origin ?stack" "\<forall>j < ?c. sr_Stack s' ! j = ?stack ! j"
      "\<not> sr_Backtracking s'" "sr_Stack s' ! ?c = ?st"
      using c org by (simp_all add: s'_def map_origin_update)
    ultimately show ?thesis using r st by auto
  qed
qed

lemma place_good:
  assumes wf: "ol_wf ol" and K: "kernel_ok K"
    and c: "sr_Current s2 < length (sr_Stack s2)" "\<not> sr_Backtracking s2"
    and ok: "\<forall>j < length (sr_Stack s2). state_ok (sr_Stack s2 ! j)"
    and max: "\<forall>j < sr_Current s2. st_Start (sr_Stack s2 ! j) \<le> st_CurrentMaximum (sr_Stack s2 ! j)"
    and prefix: "DeleteRange_contract K \<Longrightarrow>
      placed_prefix (walker K ol mc) rl0 (sr_Current s2) (sr_Stack s2) (sr_Possible s2)"
    and base: "map origin (sr_Stack s2) = map origin (sr_Stack s)" "sr_Current s2 = sr_Current s"
      "\<forall>j < sr_Current s. sr_Stack s2 ! j = sr_Stack s ! j"
      "walk_left steps ol (sr_Stack s2 ! sr_Current s) = walk_left steps ol (sr_Stack s ! sr_Current s)"
    and retry: "retry \<Longrightarrow> st_CurrentAlternative (sr_Stack s2 ! sr_Current s) \<noteq> None \<and>
      st_CurrentMaximum (sr_Stack s2 ! sr_Current s) < st_CurrentMaximum (sr_Stack s ! sr_Current s)"
  shows "\<exists>r. place_current (walker K ol mc) retry s2 = Some r \<and> step_good steps K (walker K ol mc) ol rl0 s r"
proof -
  let ?W = "walker K ol mc"
  from place_current_total [OF wf K c ok max, of retry "DeleteRange_contract K" mc rl0] retry prefix base(2)
  obtain r where run: "place_current ?W retry s2 = Some r" and
    fail: "\<And>Status x. r = Inl (Status, x) \<Longrightarrow> \<not> NT_SUCCESS Status" and
    go: "\<And>s'. r = Inr s' \<Longrightarrow>
       search_ok s' \<and> map origin (sr_Stack s') = map origin (sr_Stack s2) \<and>
       (DeleteRange_contract K \<longrightarrow> placed_prefix ?W rl0 (placed s') (sr_Stack s') (sr_Possible s')) \<and>
       (\<forall>j < sr_Current s2. sr_Stack s' ! j = sr_Stack s2 ! j) \<and>
       (sr_Backtracking s' \<and> Suc (sr_Current s') = sr_Current s2 \<or>
        \<not> sr_Backtracking s' \<and>
        (walk_left steps ol (sr_Stack s' ! sr_Current s2) < walk_left steps ol (sr_Stack s2 ! sr_Current s2) \<or>
         retry \<and> walk_left steps ol (sr_Stack s' ! sr_Current s2) = walk_left steps ol (sr_Stack s2 ! sr_Current s2) \<and>
         st_CurrentMaximum (sr_Stack s' ! sr_Current s2) = st_CurrentMaximum (sr_Stack s2 ! sr_Current s2)))"
    by auto
  have "step_good steps K ?W ol rl0 s r"
  proof (cases r)
    case (Inl x)
    with fail show ?thesis by (cases x) (auto simp: step_good_def)
  next
    case (Inr s')
    note g = go [OF Inr, unfolded base(2)]
    note len = map_eq_imp_length_eq [OF base(1)]
    have "(search_measure steps ol s', search_measure steps ol s) \<in> lex less_than"
    proof (rule step_progress)
      show "sr_Backtracking s' \<and> Suc (sr_Current s') = sr_Current s \<or> \<not> sr_Backtracking s' \<and>
          level_measure steps ol (sr_Stack s' ! sr_Current s) < level_measure steps ol (sr_Stack s ! sr_Current s)"
        using g base(4) retry level_less [of steps ol "sr_Stack s' ! sr_Current s" "sr_Stack s ! sr_Current s"] by auto
    qed (use g c base len in \<open>auto dest: map_eq_imp_length_eq\<close>)
    with g base Inr show ?thesis by (simp add: step_good_def search_inv_def)
  qed
  with run show ?thesis by blast
qed

lemma give_up_good:
  assumes c: "sr_Current s2 < length (sr_Stack s2)"
    and ok: "\<forall>j < length (sr_Stack s2). state_ok (sr_Stack s2 ! j)"
    and max: "\<forall>j < sr_Current s2. st_Start (sr_Stack s2 ! j) \<le> st_CurrentMaximum (sr_Stack s2 ! j)"
    and prefix: "DeleteRange_contract K \<Longrightarrow>
      placed_prefix (walker K ol mc) rl0 (sr_Current s2) (sr_Stack s2) (sr_Possible s2)"
    and base: "map origin (sr_Stack s2) = map origin (sr_Stack s)" "sr_Current s2 = sr_Current s"
      "\<forall>j < sr_Current s. sr_Stack s2 ! j = sr_Stack s ! j"
  shows "step_good steps K (walker K ol mc) ol rl0 s (backtrack_or_fail s2)"
proof (cases "backtrack_or_fail s2")
  case (Inl x)
  with backtrack_or_fail_Inl show ?thesis by (cases x) (auto simp: step_good_def)
next
  case (Inr s')
  have ok': "\<forall>j < length (sr_Stack s2). j \<noteq> sr_Current s2 \<longrightarrow> state_ok (sr_Stack s2 ! j)" using ok by blast
  note g = backtrack_or_fail_Inr [OF Inr c ok' max]
  have "(search_measure steps ol s', search_measure steps ol s) \<in> lex less_than"
    by (rule step_progress) (use g c base map_eq_imp_length_eq [OF base(1)] in auto)
  with g prefix base Inr show ?thesis by (simp add: step_good_def search_inv_def)
qed

lemma forward_good:
  assumes wf: "ol_wf ol" and K: "kernel_ok K" and inv: "search_inv K (walker K ol mc) rl0 s"
    and c: "sr_Current s < length (sr_Stack s)" and bt: "\<not> sr_Backtracking s" and s1: "restaged s s1"
  shows "\<exists>r. place_current (walker K ol mc) False s1 = Some r \<and> step_good steps K (walker K ol mc) ol rl0 s r"
proof (rule place_good [OF wf K])
  note facts = restagedD [OF s1]
  show "\<forall>j < length (sr_Stack s1). state_ok (sr_Stack s1 ! j)"
    using inv bt restaged_ok [OF s1] facts(2) by (simp add: search_inv_def search_ok_def)
  show "placed_prefix (walker K ol mc) rl0 (sr_Current s1) (sr_Stack s1) (sr_Possible s1)"
    if "DeleteRange_contract K"
    using inv that bt restaged_prefix [OF s1] facts c by (simp add: search_inv_def placed_def)
  show "\<forall>j < sr_Current s1. st_Start (sr_Stack s1 ! j) \<le> st_CurrentMaximum (sr_Stack s1 ! j)"
    using inv bt facts by (simp add: search_inv_def search_ok_def placed_def)
  show "walk_left steps ol (sr_Stack s1 ! sr_Current s) = walk_left steps ol (sr_Stack s ! sr_Current s)"
    by (rule restaged_level [OF s1])
qed (use restagedD [OF s1] c bt in simp_all)

lemma backward_good:
  assumes wf: "ol_wf ol" and K: "kernel_ok K" and inv: "search_inv K (walker K ol mc) rl0 s"
    and bt: "sr_Backtracking s" and s1: "restaged s s1"
    and v: "vary_current (walker K ol mc) K dl s1 = (s2, r)"
  shows "\<exists>r'. (case r of None \<Rightarrow> Some (backtrack_or_fail s2)
        | Some retry \<Rightarrow> place_current (walker K ol mc) retry s2) = Some r' \<and>
      step_good steps K (walker K ol mc) ol rl0 s r'"
proof -
  let ?W = "walker K ol mc" and ?c = "sr_Current s" and ?D = "DeleteRange_contract K"
  note facts = restagedD [OF s1]
  from inv bt have sok: "Suc ?c < length (sr_Stack s)"
    "\<forall>j < length (sr_Stack s). j \<noteq> Suc ?c \<longrightarrow> state_ok (sr_Stack s ! j)"
    "\<forall>j < Suc ?c. st_Start (sr_Stack s ! j) \<le> st_CurrentMaximum (sr_Stack s ! j)"
    and pre: "?D \<Longrightarrow> placed_prefix ?W rl0 (Suc ?c) (sr_Stack s) (sr_Possible s)"
    by (auto simp: search_inv_def search_ok_def placed_def)
  have c: "Suc (sr_Current s1) < length (sr_Stack s1)" using sok facts by simp
  have okj: "\<forall>j < length (sr_Stack s1). j \<noteq> Suc (sr_Current s1) \<longrightarrow> state_ok (sr_Stack s1 ! j)"
    using sok facts(1,2) restaged_ok [OF s1] by simp
  have top: "st_Start (sr_Stack s1 ! sr_Current s1) \<le> st_CurrentMaximum (sr_Stack s1 ! sr_Current s1)"
    using sok facts by (simp add: same_placement_def find_frame_def)
  note f = vary_current_frame [OF v c okj top]
  then have len: "length (sr_Stack s2) = length (sr_Stack s)"
    using facts(2) by (metis length_map)
  have prefix: "placed_prefix ?W rl0 (sr_Current s2) (sr_Stack s2) (sr_Possible s2)" if ?D
  proof -
    from pre [OF that] sok(1) obtain rl where rl: "placed_prefix ?W rl0 ?c (sr_Stack s) rl"
      "sr_Possible s = add_placed ?W rl (sr_Stack s ! ?c)" by (auto simp: placed_prefix_Suc)
    have "sr_Possible s2 = rl"
      by (rule vary_current_possible [OF v that, of "sr_Stack s ! ?c"]) (use rl facts sok in simp_all)
    moreover have "take ?c (sr_Stack s2) = take ?c (sr_Stack s)"
      using f len facts sok(1) by (intro nth_equalityI) auto
    ultimately show ?thesis
      using rl(1) f len facts sok(1) by (metis Suc_lessD less_imp_le placed_prefix_take)
  qed
  have max2: "\<forall>j < sr_Current s2. st_Start (sr_Stack s2 ! j) \<le> st_CurrentMaximum (sr_Stack s2 ! j)"
    using sok(3) f facts by simp
  have st2: "sr_Current s2 < length (sr_Stack s2)" "\<not> sr_Backtracking s2"
    "\<forall>j < length (sr_Stack s2). state_ok (sr_Stack s2 ! j)"
    "map origin (sr_Stack s2) = map origin (sr_Stack s)" "sr_Current s2 = ?c"
    "\<forall>j < ?c. sr_Stack s2 ! j = sr_Stack s ! j"
    using f len facts sok(1) by simp_all
  show ?thesis
  proof (cases r)
    case None
    with give_up_good [OF st2(1,3) max2 prefix st2(4-6)] show ?thesis by simp
  next
    case (Some retry)
    have "walk_left steps ol (sr_Stack s2 ! ?c) = walk_left steps ol (sr_Stack s ! ?c)"
      using f facts restaged_level [OF s1] by simp
    moreover have "retry \<Longrightarrow> st_CurrentAlternative (sr_Stack s2 ! ?c) \<noteq> None \<and>
        st_CurrentMaximum (sr_Stack s2 ! ?c) < st_CurrentMaximum (sr_Stack s ! ?c)"
      using f facts Some by (simp add: same_placement_def find_frame_def)
    ultimately show ?thesis using Some place_good [OF wf K st2(1-3) max2 prefix st2(4-6)] by simp
  qed
qed

lemma allocate_step_good:
  assumes wf: "ol_wf ol" and K: "kernel_ok K" and inv: "search_inv K (walker K ol mc) rl0 s"
  shows "\<exists>r. allocate_step (walker K ol mc) K dl hdl s = Some r \<and> step_good steps K (walker K ol mc) ol rl0 s r"
proof -
  let ?W = "walker K ol mc" and ?c = "sr_Current s"
  consider (fin) "?c \<ge> length (sr_Stack s)" | (late) "?c < length (sr_Stack s)" "k_Clock K (sr_Clock s) > hdl"
    | (run) "?c < length (sr_Stack s)" "\<not> k_Clock K (sr_Clock s) > hdl" by linarith
  then show ?thesis
  proof cases
    case fin
    with inv have "?c = length (sr_Stack s)" "placed s = length (sr_Stack s)"
      by (auto simp: search_inv_def search_ok_def placed_def split: if_splits)
    moreover obtain Status rep where r: "report_loop ?W (sr_Stack s) = (Status, rep)" by fastforce
    ultimately have "step_good steps K ?W ol rl0 s (Inl (Status, ArbpFreeAllocationWorkSpaces rep, sr_Possible s))"
      using inv report_loop_status [OF r] by (auto simp: search_inv_def step_good_def solved_def)
    with fin r show ?thesis by (simp add: allocate_step_def)
  next
    case late
    then show ?thesis by (simp add: allocate_step_def step_good_def Let_def)
  next
    case run
    obtain Status st where p: "cb_PreprocessEntry ?W (sr_Stack s ! ?c) = (Status, st)" by fastforce
    define s1 where "s1 = s\<lparr>sr_Stack := (sr_Stack s)[?c := st], sr_Clock := Suc (sr_Clock s)\<rparr>"
    have s1: "restaged s s1"
      using preprocess_frame [OF p] run
      by (simp add: s1_def restaged_def same_placement_def find_frame_origin map_origin_update)
    obtain s2 r where v: "vary_current ?W K dl s1 = (s2, r)" by fastforce
    have step: "allocate_step ?W K dl hdl s =
       (if \<not> NT_SUCCESS Status then Some (Inl (Status, ArbpFreeAllocationWorkSpaces (sr_Stack s1), sr_Possible s))
        else if \<not> sr_Backtracking s then place_current ?W False s1
        else case r of None \<Rightarrow> Some (backtrack_or_fail s2) | Some retry \<Rightarrow> place_current ?W retry s2)"
      using run p v by (simp add: allocate_step_def s1_def)
    show ?thesis
      using step forward_good [OF wf K inv run(1) _ s1] backward_good [OF wf K inv _ s1 v]
      by (auto simp: step_good_def)
  qed
qed

text \<open>The whole search: it returns, and on success it returns a solution.\<close>

lemma allocate_loop_good:
  assumes wf: "ol_wf ol" and K: "kernel_ok K" and inv: "search_inv K (walker K ol mc) rl0 s"
  shows "\<exists>Status stack rl. allocate_loop (walker K ol mc) K dl hdl s = Some (Status, stack, rl) \<and>
    (NT_SUCCESS Status \<longrightarrow> DeleteRange_contract K \<longrightarrow>
       solved (walker K ol mc) rl0 (sr_Stack s) stack rl)"
  using inv
proof (induction "search_measure steps ol s" arbitrary: s rule: wf_induct_rule [OF wf_lex [OF wf_less_than]])
  case (1 s)
  let ?W = "walker K ol mc"
  from allocate_step_good [OF wf K 1(2), of dl hdl] obtain r
    where r: "allocate_step ?W K dl hdl s = Some r" and g: "step_good steps K ?W ol rl0 s r" by blast
  show ?case
  proof (cases r)
    case (Inl x)
    with r g show ?thesis by (cases x) (simp add: allocate_loop.simps step_good_def)
  next
    case (Inr s')
    with g have s': "search_inv K ?W rl0 s'" "map origin (sr_Stack s') = map origin (sr_Stack s)"
      "(search_measure steps ol s', search_measure steps ol s) \<in> lex less_than" by (simp_all add: step_good_def)
    have "allocate_loop ?W K dl hdl s = allocate_loop ?W K dl hdl s'"
      using r Inr by (subst allocate_loop.simps) simp
    with 1(1) [OF s'(3,1)] s'(2) show ?thesis by (simp add: solved_def)
  qed
qed

lemma AllocateEntry_good:
  assumes "ol_wf ol" and "kernel_ok K" and "\<forall>st \<in> set stack. state_ok st"
  shows "\<exists>Status stack' rl. ArbiterLibAllocateEntry (walker K ol mc) K rl0 stack = Some (Status, stack', rl) \<and>
    (NT_SUCCESS Status \<longrightarrow> DeleteRange_contract K \<longrightarrow>
       solved (walker K ol mc) rl0 stack stack' rl)"
proof -
  have "search_inv K (walker K ol mc) rl0 \<lparr>sr_Stack = stack, sr_Current = 0, sr_Possible = rl0,
      sr_Backtracking = False, sr_McfgConflict = False, sr_Clock = 2\<rparr>"
    using assms(3) by (auto simp: search_inv_def search_ok_def placed_def placed_prefix_def)
  from allocate_loop_good [OF assms(1,2) this] show ?thesis by (simp add: ArbiterLibAllocateEntry_def)
qed

end

section \<open>The library's own callbacks\<close>

lemma override_walk_frame: "override_walk pdo rl b st = (r, st') \<Longrightarrow> find_frame st st'"
  by (induction pdo rl b st rule: override_walk.induct) (auto simp: find_frame_def split: if_splits)

lemma share_walk_frame: "share_walk K rq alt rl b st = (r, st') \<Longrightarrow> find_frame st st'"
  by (induction K rq alt rl b st rule: share_walk.induct)
    (auto simp: find_frame_def Let_def split: if_splits option.splits)

lemma OverrideConflict_frame: "ArbiterLibOverrideConflict rl st = (r, st') \<Longrightarrow> find_frame st st'"
  by (auto simp: ArbiterLibOverrideConflict_def dest: override_walk_frame split: option.splits if_splits)

lemma ShareDriverExclusive_frame: "ArbpShareDriverExclusive K rl st = (r, st') \<Longrightarrow> find_frame st st'"
  by (auto simp: ArbpShareDriverExclusive_def dest: share_walk_frame split: option.splits)

lemma find_frame_trans: "find_frame a b \<Longrightarrow> find_frame b c \<Longrightarrow> find_frame a c"
  by (simp add: find_frame_def)

lemma find_frame_flags [simp]:
  "find_frame st (st'\<lparr>st_Flags := x\<rparr>) = find_frame st st'"
  "find_frame (st\<lparr>st_RangeAvailableAttributes := y\<rparr>) st' = find_frame st st'"
  by (simp_all add: find_frame_def)

lemma FindSuitableRange_frame:
  assumes "ArbiterLibFindSuitableRange K mc (Some ArbiterLibOverrideConflict) rl st = (b, st')"
  shows "find_frame st st'"
proof (cases "current_alternative st")
  case None
  with assms show ?thesis by (simp add: ArbiterLibFindSuitableRange_def)
next
  case (Some alt)
  let ?st = "st\<lparr>st_RangeAvailableAttributes := available_attributes st alt\<rparr>"
  obtain sh st1 where sh: "ArbpShareDriverExclusive K rl ?st = (sh, st1)" by fastforce
  obtain ov st2 where ov: "ArbiterLibOverrideConflict rl st1 = (ov, st2)" by fastforce
  from ShareDriverExclusive_frame [OF sh] OverrideConflict_frame [OF ov]
  have 1: "find_frame st st1" "find_frame st st2" using find_frame_trans by auto
  show ?thesis
    using assms 1 unfolding ArbiterLibFindSuitableRange_def
    by (auto simp: Some sh ov Let_def find_frame_def [of st "st\<lparr>st_Start := _, st_End := _\<rparr>"]
        find_frame_def [of st "st\<lparr>st_RangeAvailableAttributes := _, st_Start := _, st_End := _\<rparr>"]
        split: if_splits prod.splits)
qed

interpretation library: arbiter_walker "library_callbacks cd" "\<lambda>_. 0" FindRange_contract for cd
proof
  fix K ol mc st s st' b rl rl' st0
  let ?W = "library_callbacks cd K ol mc"
  show "cb_PreprocessEntry ?W st = (s, st') \<Longrightarrow> same_placement st st'"
    by (simp add: library_callbacks_def ArbiterLibPreprocessEntry_def same_placement_def)
  show "ol_wf ol \<Longrightarrow> state_ok st \<Longrightarrow> \<exists>b st'. cb_GetNextAllocationRange ?W st = Some (b, st')"
    by (simp add: library_callbacks_def GetNextAllocationRange_total)
  show "state_ok st' \<and> st_CurrentAlternative st' \<noteq> None \<and> walk_left (\<lambda>_. 0) ol st' < walk_left (\<lambda>_. 0) ol st"
    if "ol_wf ol" "state_ok st" "cb_GetNextAllocationRange ?W st = Some (True, st')"
  proof -
    from that(3) have n: "ArbiterLibGetNextAllocationRange ol st = Some (True, st')"
      by (simp add: library_callbacks_def)
    from GetNext_true [OF that(1,2) n] GetNext_frame [OF n] walk_measure_bound [of ol st']
    show ?thesis by (auto simp: walk_left_def walk_level_def walk_frame_def)
  qed
  show "ol_wf ol \<Longrightarrow> cb_GetNextAllocationRange ?W st = Some (b, st') \<Longrightarrow> origin st' = origin st"
    using GetNext_frame [of ol st b st'] GetNext_result(1) [of ol st b st']
    by (simp add: library_callbacks_def walk_frame_def origin_def)
  show "\<exists>b st'. cb_FindSuitableRange ?W rl st = Some (b, st')"
    by (simp add: library_callbacks_def)
  show "find_frame st st' \<and> (b \<longrightarrow> st_Start st' \<le> st_CurrentMaximum st')"
    if "FindRange_contract K" "cb_FindSuitableRange ?W rl st = Some (b, st')"
  proof -
    from that(2) have f: "ArbiterLibFindSuitableRange K mc (Some ArbiterLibOverrideConflict) rl st = (b, st')"
      by (simp add: library_callbacks_def)
    note fr = FindSuitableRange_frame [OF f]
    have "st_Start st' \<le> st_CurrentMaximum st'" if b
      using FindSuitable_granted [OF \<open>FindRange_contract K\<close>] f that fr
      by (fastforce simp: find_frame_def intro: order_trans)
    with fr show ?thesis by blast
  qed
  show "cb_BacktrackAllocation ?W rl st = (rl', st') \<Longrightarrow> same_placement st st'"
    by (simp add: library_callbacks_def same_placement_def)
  show "fst (cb_BacktrackAllocation ?W (cb_AddAllocation ?W rl st0) st) = rl"
    if "DeleteRange_contract K" "same_placement st0 st"
    using that
    by (simp add: library_callbacks_def ArbiterLibBacktrackAllocation_def ArbiterLibAddAllocation_def
        DeleteRange_contract_def same_placement_def find_frame_def requester_def Let_def)
qed

section \<open>Properties of the search\<close>

text \<open>A placement granted, as in \<open>granted\<close>, in some working window of the state's current alternative.\<close>

definition granted_at_but :: "(rtl_range \<Rightarrow> bool) \<Rightarrow> nt_kernel \<Rightarrow> range_list \<Rightarrow> alloc_state \<Rightarrow> bool" where
  "granted_at_but exc K rl st \<longleftrightarrow>
     (\<exists>st0 alt. current_alternative st0 = Some alt \<and> current_alternative st = Some alt \<and>
        granted_but exc K rl st0 alt (st_Start st) (st_End st) \<and>
        st_CurrentMinimum st0 \<le> st_Start st \<and> st_Start st \<le> st_End st \<and> st_End st \<le> st_CurrentMaximum st0)"

abbreviation granted_at :: "nt_kernel \<Rightarrow> range_list \<Rightarrow> alloc_state \<Rightarrow> bool" where
  "granted_at \<equiv> granted_at_but (\<lambda>_. False)"

lemma found_granted:
  assumes K: "FindRange_contract K" and f: "found_in (library_callbacks cd K ol mc) rl st"
  shows "granted_at K rl st"
proof -
  from f obtain st0 st1 alt where
    run: "ArbiterLibFindSuitableRange K mc (Some ArbiterLibOverrideConflict) rl st0 = (True, st1)"
    and alt: "current_alternative st1 = Some alt"
    and st: "if alt_Length alt \<noteq> 0 then st = st1 else st = set_result ArbiterResultNullRequest st1"
    by (auto simp: found_in_def library_callbacks_def)
  have same: "st_Start st = st_Start st1 \<and> st_End st = st_End st1 \<and> current_alternative st = Some alt"
    using st alt by (auto split: if_splits)
  have "current_alternative st0 = Some alt"
    using find_frame_current [OF FindSuitableRange_frame [OF run]] alt by simp
  with FindSuitable_granted [OF K run] same show ?thesis by (auto simp: granted_at_but_def)
qed

fun delete_first :: "(rtl_range \<Rightarrow> bool) \<Rightarrow> range_list \<Rightarrow> range_list" where
  "delete_first P [] = []"
| "delete_first P (r # rs) = (if P r then rs else r # delete_first P rs)"

definition entry_kernel :: nt_kernel where
  "entry_kernel = fit_kernel\<lparr>
     k_RtlAddRange := (\<lambda>rl s e at fl ow.
       \<lparr>rr_Start = s, rr_End = e, rr_Owner = ow, rr_Attributes = at, rr_Flags = 0\<rparr> # rl),
     k_RtlDeleteRange := (\<lambda>rl s e ow.
       delete_first (\<lambda>r. rr_Start r = s \<and> rr_End r = e \<and> rr_Owner r = ow) rl)\<rparr>"

lemma entry_kernel_contracts: "FindRange_contract entry_kernel" "DeleteRange_contract entry_kernel"
  using fit_kernel_contract
  by (simp_all add: FindRange_contract_but_def DeleteRange_contract_def entry_kernel_def)

definition sample_codec :: codec where
  "sample_codec = \<lparr>cb_UnpackRequirement = (\<lambda>d. (STATUS_SUCCESS, io_MinimumAddress d, io_MaximumAddress d, 8, 16)),
     cb_PackResource = None, cb_UnpackResource = None, cb_ScoreRequirement = None\<rparr>"

definition sample_entry :: list_entry where
  "sample_entry = \<lparr>le_Alternatives = [sample_desc 0x1003 0x10FF], le_PhysicalDeviceObject = Some 7,
     le_RequestSource = ArbiterRequestPnpEnumerated, le_Flags = 0, le_WorkSpace = 0,
     le_SelectedAlternative = None, le_Assignment = None, le_Result = ArbiterResultUndefined\<rparr>"

text \<open>
  C2: ArbiterLibAllocateEntry with the library's callbacks always returns: the backtracking
  search ends even if the clock never reaches a deadline. When it succeeds, every entry of the
  stack is placed in one of its own alternatives, each placement is granted by
  ArbiterLibFindSuitableRange against the range list that holds all the placements before it, and the
  tentative list it leaves is the original one with exactly these placements recorded.
\<close>
theorem AllocateEntry_sound:
  assumes "ol_wf ol" and "FindRange_contract K" and "DeleteRange_contract K"
    and "\<forall>st \<in> set stack. state_ok st"
  shows "\<exists>Status stack' rl.
    ArbiterLibAllocateEntry (library_callbacks cd K ol mc) K rl0 stack = Some (Status, stack', rl) \<and>
    (NT_SUCCESS Status \<longrightarrow>
      (\<exists>sol reported. map origin sol = map origin stack \<and>
         rl = foldl (add_placed (library_callbacks cd K ol mc)) rl0 sol \<and>
         (\<forall>j < length sol.
            granted_at K (foldl (add_placed (library_callbacks cd K ol mc)) rl0 (take j sol)) (sol ! j)) \<and>
         report_loop (library_callbacks cd K ol mc) sol = (STATUS_SUCCESS, reported) \<and>
         stack' = ArbpFreeAllocationWorkSpaces reported))"
proof -
  let ?W = "library_callbacks cd K ol mc"
  from library.AllocateEntry_good [OF assms(1,2,4), of cd mc rl0] obtain Status stack' rl where
    run: "ArbiterLibAllocateEntry ?W K rl0 stack = Some (Status, stack', rl)" and
    ok: "NT_SUCCESS Status \<Longrightarrow> solved ?W rl0 stack stack' rl" using assms(3) by auto
  have "\<exists>sol reported. map origin sol = map origin stack \<and> rl = foldl (add_placed ?W) rl0 sol \<and>
      (\<forall>j < length sol. granted_at K (foldl (add_placed ?W) rl0 (take j sol)) (sol ! j)) \<and>
      report_loop ?W sol = (STATUS_SUCCESS, reported) \<and> stack' = ArbpFreeAllocationWorkSpaces reported"
    if "NT_SUCCESS Status"
  proof -
    from ok [OF that] obtain sol reported where "map origin sol = map origin stack"
      and "placed_prefix ?W rl0 (length sol) sol rl" and "report_loop ?W sol = (STATUS_SUCCESS, reported)"
      and "stack' = ArbpFreeAllocationWorkSpaces reported" unfolding solved_def by blast
    moreover from this(2) have "rl = foldl (add_placed ?W) rl0 sol"
      and "\<forall>j < length sol. granted_at K (foldl (add_placed ?W) rl0 (take j sol)) (sol ! j)"
      using found_granted [OF assms(2), of cd ol mc] by (auto simp: placed_prefix_def)
    ultimately show ?thesis by blast
  qed
  with run show ?thesis by blast
qed

definition sample_stack :: "alloc_state list" where
  "sample_stack = [sample_state\<lparr>st_Entry := Some sample_entry\<rparr>,
     sample_state\<lparr>st_Entry := Some sample_entry, st_Alternatives := [sample_alt\<lparr>alt_Minimum := 0x1030\<rparr>]\<rparr>]"

lemma AllocateEntry_sound_witness:
  "\<exists>Status stack' rl.
    ArbiterLibAllocateEntry (library_callbacks sample_codec entry_kernel sample_orderings []) entry_kernel [] sample_stack =
      Some (Status, stack', rl) \<and>
    (NT_SUCCESS Status \<longrightarrow>
      (\<exists>sol reported. map origin sol = map origin sample_stack \<and>
         rl = foldl (add_placed (library_callbacks sample_codec entry_kernel sample_orderings [])) [] sol \<and>
         (\<forall>j < length sol. granted_at entry_kernel
            (foldl (add_placed (library_callbacks sample_codec entry_kernel sample_orderings [])) [] (take j sol)) (sol ! j)) \<and>
         report_loop (library_callbacks sample_codec entry_kernel sample_orderings []) sol = (STATUS_SUCCESS, reported) \<and>
         stack' = ArbpFreeAllocationWorkSpaces reported))"
  by (rule AllocateEntry_sound [OF _ entry_kernel_contracts])
    (simp_all add: sample_orderings_def ol_wf_def ol_capacity_def sample_stack_def sample_state_def state_ok_def)

lemma AllocateEntry_sample:
  "map_option (\<lambda>(Status, stack, rl). (Status, map (\<lambda>st. (st_Start st, st_End st)) stack, length rl))
    (ArbiterLibAllocateEntry (library_callbacks sample_codec entry_kernel sample_orderings []) entry_kernel [] sample_stack)
   = Some (STATUS_SUCCESS, [(0x1010, 0x1017), (0x1030, 0x1037)], 2)"
  by code_simp

end
