(* ===== verification/Arbiter_Seed.thy ===== *)
theory Arbiter_Seed
  imports Arbiter_Entry
begin

text \<open>
  Seeding a range list with the windows a bus decodes (the startup half of
  reactos-libs/arbiter/handler.c). A range list records what may not be handed out, so seeding
  must leave exactly the addresses outside the decoded windows in it.
\<close>

section \<open>Model\<close>

abbreviation (input) ARBITER_MAXIMUM_ADDRESS :: u64 where "ARBITER_MAXIMUM_ADDRESS \<equiv> - 1"

text \<open>
  The array of windows is sorted by insertion from its end. \<open>insert_window\<close> works on the array
  read backwards, so the list it returns has the highest window first.
\<close>

fun insert_window :: "u64 \<times> u64 \<Rightarrow> (u64 \<times> u64) list \<Rightarrow> (u64 \<times> u64) list" where
  "insert_window w [] = [w]"
| "insert_window w (v # vs) = (if fst v \<le> fst w then w # v # vs else v # insert_window w vs)"

definition seeds_type :: "u8 \<Rightarrow> cm_desc \<Rightarrow> bool" where
  "seeds_type ResourceType d \<longleftrightarrow>
     cm_Type d = ResourceType \<or>
     cm_Type d = CmResourceTypeMemoryLarge \<and> ResourceType = CmResourceTypeMemory"

text \<open>The status of UnpackResource is not looked at.\<close>

fun collect_windows ::
    "(cm_desc \<Rightarrow> ntstatus \<times> u64 \<times> u64) \<Rightarrow> u8 \<Rightarrow> cm_desc list \<Rightarrow> (u64 \<times> u64) list \<Rightarrow> (u64 \<times> u64) list" where
  "collect_windows unpack ResourceType [] ws = ws"
| "collect_windows unpack ResourceType (d # ds) ws =
     (if \<not> seeds_type ResourceType d then collect_windows unpack ResourceType ds ws
      else
        let (_, Start, Length) = unpack d
        in if Length = 0 then collect_windows unpack ResourceType ds ws
           else collect_windows unpack ResourceType ds (insert_window (Start, Start + Length - 1) ws))"

fun seed_gaps :: "nt_kernel \<Rightarrow> range_list \<Rightarrow> u64 \<Rightarrow> (u64 \<times> u64) list \<Rightarrow> range_list" where
  "seed_gaps K rl Next [] =
     k_RtlAddRange K rl Next ARBITER_MAXIMUM_ADDRESS 0 RTL_RANGE_LIST_ADD_IF_CONFLICT None"
| "seed_gaps K rl Next (w # ws) =
     (let rl = (if fst w > Next
                then k_RtlAddRange K rl Next (fst w - 1) 0 RTL_RANGE_LIST_ADD_IF_CONFLICT None else rl);
          Next = (if snd w \<ge> Next then snd w + 1 else Next)
      in if snd w = ARBITER_MAXIMUM_ADDRESS then rl else seed_gaps K rl Next ws)"

definition ArbpSeedRangeList ::
    "bool \<Rightarrow> nt_kernel \<Rightarrow> codec \<Rightarrow> u8 \<Rightarrow> cm_desc list \<Rightarrow> ntstatus \<times> range_list" where
  "ArbpSeedRangeList pool K cd ResourceType Resources =
     (case cb_UnpackResource cd of
        None \<Rightarrow> (STATUS_SUCCESS, [])
      | Some unpack \<Rightarrow>
          if Resources = [] then (STATUS_SUCCESS, [])
          else if \<not> pool then (STATUS_INSUFFICIENT_RESOURCES, [])
          else
            let Windows = rev (collect_windows unpack ResourceType Resources [])
            in if Windows = [] then (STATUS_SUCCESS, [])
               else (STATUS_SUCCESS, seed_gaps K [] 0 Windows))"

definition ArbiterLibInitializeRangeList ::
    "bool \<Rightarrow> nt_kernel \<Rightarrow> codec \<Rightarrow> u8 \<Rightarrow> cm_desc list \<Rightarrow> ntstatus \<times> range_list" where
  "ArbiterLibInitializeRangeList = ArbpSeedRangeList"

section \<open>The windows\<close>

lemma set_insert_window [simp]: "set (insert_window w vs) = insert w (set vs)"
  by (induction vs) auto

lemma sorted_insert_window:
  "sorted_wrt (\<lambda>a b. fst b \<le> fst a) vs \<Longrightarrow> sorted_wrt (\<lambda>a b. fst b \<le> fst a) (insert_window w vs)"
  by (induction vs) (auto intro: order_trans)

text \<open>The windows the descriptors of the arbiter's type stand for.\<close>

definition seed_windows :: "(cm_desc \<Rightarrow> ntstatus \<times> u64 \<times> u64) \<Rightarrow> u8 \<Rightarrow> cm_desc list \<Rightarrow> (u64 \<times> u64) set" where
  "seed_windows unpack ty ds =
     {(s, s + n - 1) | d st s n. d \<in> set ds \<and> seeds_type ty d \<and> unpack d = (st, s, n) \<and> n \<noteq> 0}"

lemma collect_windows_set:
  "set (collect_windows unpack ty ds ws) = set ws \<union> seed_windows unpack ty ds"
proof (induction ds arbitrary: ws)
  case (Cons d ds)
  obtain st s n where u: "unpack d = (st, s, n)" by (rule prod_cases3)
  have "seed_windows unpack ty (d # ds) =
      (if seeds_type ty d \<and> n \<noteq> 0 then insert (s, s + n - 1) (seed_windows unpack ty ds)
       else seed_windows unpack ty ds)"
    using u by (auto simp: seed_windows_def)
  with u show ?case by (simp add: Cons.IH)
qed (simp add: seed_windows_def)

lemma collect_windows_sorted:
  "sorted_wrt (\<lambda>a b. fst b \<le> fst a) ws \<Longrightarrow>
   sorted_wrt (\<lambda>a b. fst b \<le> fst a) (collect_windows unpack ty ds ws)"
  by (induction ds arbitrary: ws) (simp_all add: sorted_insert_window Let_def split: prod.split)

section \<open>The gaps\<close>

definition blocked :: "range_list \<Rightarrow> u64 set" where
  "blocked rl = (\<Union>r \<in> set rl. window (rr_Start r) (rr_End r))"

text \<open>RtlAddRange with RTL_RANGE_LIST_ADD_IF_CONFLICT records the range it is given.\<close>

definition AddRange_contract :: "nt_kernel \<Rightarrow> bool" where
  "AddRange_contract K \<longleftrightarrow>
     (\<forall>rl s e at fl ow. s \<le> e \<longrightarrow> fl AND RTL_RANGE_LIST_ADD_IF_CONFLICT \<noteq> 0 \<longrightarrow>
        blocked (k_RtlAddRange K rl s e at fl ow) = blocked rl \<union> window s e)"

abbreviation windows_of :: "(u64 \<times> u64) set \<Rightarrow> u64 set" where
  "windows_of ws \<equiv> (\<Union>w \<in> ws. window (fst w) (snd w))"

lemma seed_gaps_blocked:
  assumes K: "AddRange_contract K" and "sorted_wrt (\<lambda>a b. fst a \<le> fst b) ws"
  shows "blocked (seed_gaps K rl Next ws) = blocked rl \<union> {a. Next \<le> a \<and> a \<notin> windows_of (set ws)}"
  using assms(2)
proof (induction ws arbitrary: rl Next)
  case Nil
  have "Next \<le> (- 1 :: u64)" by simp
  with K show ?case by (auto simp: AddRange_contract_def window_def)
next
  case (Cons w ws)
  let ?rl = "if fst w > Next
    then k_RtlAddRange K rl Next (fst w - 1) 0 RTL_RANGE_LIST_ADD_IF_CONFLICT None else rl"
  let ?Next = "if snd w \<ge> Next then snd w + 1 else Next"
  have low: "a \<notin> windows_of (set ws)" if "a < fst w" for a
    using that Cons.prems by (fastforce simp: window_def)
  have rl: "blocked ?rl = blocked rl \<union> {a. Next \<le> a \<and> a < fst w}"
  proof (cases "fst w > Next")
    case True
    then have "Next \<le> fst w - 1" by (simp add: word_pred_le)
    with K True have "blocked ?rl = blocked rl \<union> window Next (fst w - 1)"
      by (simp add: AddRange_contract_def)
    with True show ?thesis by (auto simp: window_def word_pred_le)
  qed auto
  show ?case
  proof (cases "snd w = - 1")
    case True
    then have "{a. Next \<le> a \<and> a \<notin> windows_of (set (w # ws))} = {a. Next \<le> a \<and> a < fst w}"
      using low by (auto simp: window_def not_le)
    with True rl show ?thesis by simp
  next
    case False
    then have top: "snd w < - 1" by (simp add: less_le)
    have "{a. ?Next \<le> a \<and> a \<notin> windows_of (set ws)} \<union> {a. Next \<le> a \<and> a < fst w} =
        {a. Next \<le> a \<and> a \<notin> windows_of (set (w # ws))}"
      using low word_succ_le [OF top] by (auto simp: window_def not_le)
    with False rl Cons show ?thesis by auto
  qed
qed

section \<open>Properties\<close>

text \<open>
  C15: ArbpSeedRangeList blocks exactly the complement of the windows the bus decodes: when it
  finds at least one window of the arbiter's type, an address is blocked by the seeded list if and
  only if no such window contains it, however the windows are ordered or overlap. With no window
  of the type it leaves everything available. \<open>AddRange_contract\<close> is what RtlAddRange documents.
\<close>
theorem SeedRangeList_complement:
  assumes K: "AddRange_contract K" and u: "cb_UnpackResource cd = Some unpack"
  shows "ArbpSeedRangeList True K cd ty Resources = (Status, rl) \<Longrightarrow>
    NT_SUCCESS Status \<and>
    blocked rl = (if seed_windows unpack ty Resources = {} then {}
                  else - windows_of (seed_windows unpack ty Resources))"
proof -
  assume run: "ArbpSeedRangeList True K cd ty Resources = (Status, rl)"
  let ?ws = "collect_windows unpack ty Resources []"
  have set: "set ?ws = seed_windows unpack ty Resources" by (simp add: collect_windows_set)
  have "sorted_wrt (\<lambda>a b. fst a \<le> fst b) (rev ?ws)"
    using collect_windows_sorted [of "[]" unpack ty Resources] by (simp add: sorted_wrt_rev)
  note gaps = seed_gaps_blocked [OF K this, of "[]" 0]
  show ?thesis
  proof (cases "?ws = []")
    case True
    with run u set show ?thesis
      by (auto simp: ArbpSeedRangeList_def blocked_def seed_windows_def split: if_splits)
  next
    case False
    then have "Resources \<noteq> []" by auto
    with False run u have "Status = STATUS_SUCCESS" "rl = seed_gaps K [] 0 (rev ?ws)"
      by (simp_all add: ArbpSeedRangeList_def)
    moreover have "seed_windows unpack ty Resources \<noteq> {}" using set False by (metis set_empty)
    moreover have "blocked [] = {}" by (simp add: blocked_def)
    ultimately show ?thesis using gaps set by (simp add: Compl_eq)
  qed
qed

definition seed_desc :: "u64 \<Rightarrow> u32 \<Rightarrow> cm_desc" where
  "seed_desc s n = \<lparr>cm_Type = CmResourceTypeMemory, cm_ShareDisposition = 0, cm_Flags = 0,
     cm_Start = s, cm_Length = n, cm_BusStart = 0, cm_BusLength = 0, cm_Vector = 0, cm_Level = 0, cm_Affinity = 0\<rparr>"

definition seed_codec :: codec where
  "seed_codec = sample_codec\<lparr>cb_UnpackResource := Some (\<lambda>d. (STATUS_SUCCESS, cm_Start d, ucast (cm_Length d)))\<rparr>"

lemma SeedRangeList_complement_witness:
  "let rl = snd (ArbpSeedRangeList True sample_kernel seed_codec CmResourceTypeMemory
              [seed_desc 0x8000 0x1000, seed_desc 0x2000 0x1000])
   in blocked rl = - windows_of {(0x2000, 0x2FFF), (0x8000, 0x8FFF)} \<and>
      map (\<lambda>r. (rr_Start r, rr_End r)) rl = [(0, 0x1FFF), (0x3000, 0x7FFF), (0x9000, - 1)]"
proof -
  let ?ds = "[seed_desc 0x8000 0x1000, seed_desc 0x2000 0x1000]"
  let ?u = "\<lambda>d. (STATUS_SUCCESS, cm_Start d, ucast (cm_Length d) :: u64)"
  have K: "AddRange_contract sample_kernel"
    by (auto simp: AddRange_contract_def sample_kernel_def blocked_def)
  have u: "cb_UnpackResource seed_codec = Some ?u" by (simp add: seed_codec_def)
  have ws: "seed_windows ?u CmResourceTypeMemory ?ds = {(0x2000, 0x2FFF), (0x8000, 0x8FFF)}"
  proof -
    have "collect_windows ?u CmResourceTypeMemory ?ds [] = [(0x8000, 0x8FFF), (0x2000, 0x2FFF)]" by code_simp
    with collect_windows_set [of ?u CmResourceTypeMemory ?ds "[]"] show ?thesis by (simp add: insert_commute)
  qed
  obtain Status rl where run: "ArbpSeedRangeList True sample_kernel seed_codec CmResourceTypeMemory ?ds = (Status, rl)"
    by fastforce
  have "map (\<lambda>r. (rr_Start r, rr_End r))
      (snd (ArbpSeedRangeList True sample_kernel seed_codec CmResourceTypeMemory ?ds)) =
      [(0, 0x1FFF), (0x3000, 0x7FFF), (0x9000, - 1)]"
    by code_simp
  with SeedRangeList_complement [OF K u run] ws run show ?thesis by simp
qed

end
