(* ===== verification/Arbiter_Transaction.thy ===== *)
theory Arbiter_Transaction
  imports Arbiter_Seed
begin

text \<open>
  The transactions of an arbiter instance (reactos-libs/arbiter/transaction.c): testing an
  arbitration list into the tentative allocation, retesting, committing, rolling back, boot
  reservations and conflict queries.
\<close>

section \<open>The instance\<close>

text \<open>
  The state of ARBITER_INSTANCE that the transactions and the dispatcher change. The events are
  their signal states. The callback slots are a separate argument, since no operation changes
  them after initialization.
\<close>

record arbiter =
  ai_ResourceType :: u8
  ai_Allocation :: range_list
  ai_PossibleAllocation :: range_list
  ai_OrderingList :: ordering_list
  ai_ReservedList :: ordering_list
  ai_AllocationStackMaxSize :: u32
  ai_TransactionInProgress :: bool
  ai_TransactionEvent :: bool
  ai_MutexEvent :: bool

section \<open>Alternatives and the allocation stack\<close>

definition ArbpBuildAlternative :: "codec \<Rightarrow> io_desc \<Rightarrow> ntstatus \<times> alternative" where
  "ArbpBuildAlternative cd Descriptor =
     (let (Status, Minimum, Maximum, Length, Alignment) = cb_UnpackRequirement cd Descriptor;
          shared = (if io_ShareDisposition Descriptor = CmResourceShareShared
                    then ALTERNATIVE_FLAG_SHARED else 0);
          fixed = (if Maximum - Minimum + 1 = Length then ALTERNATIVE_FLAG_FIXED else 0);
          inaccessible =
            (if (io_Type Descriptor = CmResourceTypeMemory \<or> io_Type Descriptor = CmResourceTypeMemoryLarge) \<and>
                io_Flags Descriptor AND CM_RESOURCE_MEMORY_COMPAT_FOR_INACCESSIBLE_RANGE \<noteq> 0
             then ALTERNATIVE_FLAG_INACCESSIBLE_OK else 0);
          bad = (if Maximum < Minimum then ALTERNATIVE_FLAG_BADRANGE else 0)
      in (if NT_SUCCESS Status then STATUS_SUCCESS else Status,
          \<lparr>alt_Minimum = Minimum, alt_Maximum = Maximum, alt_Length = Length, alt_Alignment = Alignment,
           alt_Priority = ARBITER_PRIORITY_NULL,
           alt_Flags = shared OR fixed OR inaccessible OR bad,
           alt_Descriptor = Descriptor\<rparr>))"

fun build_alternatives :: "codec \<Rightarrow> io_desc list \<Rightarrow> ntstatus + alternative list" where
  "build_alternatives cd [] = Inr []"
| "build_alternatives cd (d # ds) =
     (let (Status, alt) = ArbpBuildAlternative cd d
      in if \<not> NT_SUCCESS Status then Inl Status
         else case build_alternatives cd ds of Inl s \<Rightarrow> Inl s | Inr alts \<Rightarrow> Inr (alt # alts))"

text \<open>A zeroed state, and a state of the stack: Start(1) > End(0) says nothing is chosen yet.\<close>

definition zero_state :: alloc_state where
  "zero_state = \<lparr>st_Start = 0, st_End = 0, st_CurrentMinimum = 0, st_CurrentMaximum = 0,
     st_Entry = None, st_CurrentAlternative = None, st_Alternatives = [], st_Flags = 0,
     st_RangeAttributes = 0, st_RangeAvailableAttributes = 0, st_WorkSpace = 0\<rparr>"

fun build_states :: "codec \<Rightarrow> list_entry list \<Rightarrow> ntstatus + alloc_state list" where
  "build_states cd [] = Inr []"
| "build_states cd (e # es) =
     (if le_Alternatives e = [] then build_states cd es
      else case build_alternatives cd (le_Alternatives e) of
             Inl s \<Rightarrow> Inl s
           | Inr alts \<Rightarrow>
               (case build_states cd es of
                  Inl s \<Rightarrow> Inl s
                | Inr sts \<Rightarrow> Inr (zero_state\<lparr>st_Entry := Some e, st_Alternatives := alts, st_Start := 1\<rparr> # sts)))"

text \<open>Sizes of the two structures on a 64-bit target, as 32-bit ULONG arithmetic uses them.\<close>

abbreviation (input) sizeof_ARBITER_ALLOCATION_STATE :: u32 where "sizeof_ARBITER_ALLOCATION_STATE \<equiv> 80"
abbreviation (input) sizeof_ARBITER_ALTERNATIVE :: u32 where "sizeof_ARBITER_ALTERNATIVE \<equiv> 64"

definition ArbpBuildAllocationStack ::
    "bool \<Rightarrow> codec \<Rightarrow> arbiter \<Rightarrow> list_entry list \<Rightarrow> u32 \<Rightarrow> ntstatus \<times> arbiter \<times> alloc_state list" where
  "ArbpBuildAllocationStack pool cd a es EntryCount =
     (let StateCount = EntryCount + 1 - of_nat (length (filter (\<lambda>e. le_Alternatives e = []) es));
          AlternativeCount = of_nat (sum_list (map (\<lambda>e. length (le_Alternatives e)) es)) :: u32;
          Size = StateCount * sizeof_ARBITER_ALLOCATION_STATE + AlternativeCount * sizeof_ARBITER_ALTERNATIVE;
          grow = (ai_AllocationStackMaxSize a < Size)
      in if grow \<and> \<not> pool then (STATUS_INSUFFICIENT_RESOURCES, a, [])
         else
           let a = (if grow then a\<lparr>ai_AllocationStackMaxSize := Size\<rparr> else a)
           in case build_states cd es of
                Inl s \<Rightarrow> (s, a, [])
              | Inr sts \<Rightarrow> (STATUS_SUCCESS, a, sts))"

section \<open>Test\<close>

text \<open>
  The score of one entry: the sum of its alternatives' scores, sign-extended into WorkSpace, or
  None at the first negative one.
\<close>

fun score_alternatives :: "(io_desc \<Rightarrow> 32 word) \<Rightarrow> u64 \<Rightarrow> io_desc list \<Rightarrow> bool \<times> u64" where
  "score_alternatives score w [] = (True, w)"
| "score_alternatives score w (d # ds) =
     (if sint (score d) < 0 then (False, w) else score_alternatives score (w + scast (score d)) ds)"

fun score_loop ::
    "nt_kernel \<Rightarrow> codec \<Rightarrow> bool \<Rightarrow> device option \<Rightarrow> range_list \<Rightarrow> list_entry list \<Rightarrow>
     ntstatus \<times> range_list \<times> list_entry list" where
  "score_loop K cd FromNull PreviousOwner possible [] = (STATUS_SUCCESS, possible, [])"
| "score_loop K cd FromNull PreviousOwner possible (e # es) =
     (let withdraw = (FromNull \<and> le_PhysicalDeviceObject e \<noteq> PreviousOwner);
          PreviousOwner = (if withdraw then le_PhysicalDeviceObject e else PreviousOwner);
          possible = (if withdraw then snd (k_RtlDeleteOwnersRanges K possible (le_PhysicalDeviceObject e))
                      else possible);
          (ok, w) = (case cb_ScoreRequirement cd of
                       None \<Rightarrow> (True, 0)
                     | Some score \<Rightarrow> score_alternatives score 0 (le_Alternatives e));
          e = e\<lparr>le_WorkSpace := w\<rparr>
      in if \<not> ok then (STATUS_DEVICE_CONFIGURATION_ERROR, possible, e # es)
         else let (Status, possible, es) = score_loop K cd FromNull PreviousOwner possible es
              in (Status, possible, e # es))"

text \<open>The entries of the list after the search: the states' entries, in the list's places.\<close>

fun merge_entries :: "list_entry list \<Rightarrow> alloc_state list \<Rightarrow> list_entry list" where
  "merge_entries [] sts = []"
| "merge_entries (e # es) [] = e # es"
| "merge_entries (e # es) (st # sts) =
     (if le_Alternatives e = [] then e # merge_entries es (st # sts)
      else (case st_Entry st of Some e' \<Rightarrow> e' | None \<Rightarrow> e) # merge_entries es sts)"

definition discard :: "arbiter \<Rightarrow> arbiter" where
  "discard a = a\<lparr>ai_PossibleAllocation := []\<rparr>"

text \<open>
  \<open>pool\<close> gives the outcomes of the seeding allocation and of the stack allocation. The result is
  None only if AllocateEntry does not return.
\<close>

definition ArbpTestAllocation ::
    "bool \<times> bool \<Rightarrow> nt_kernel \<Rightarrow> arb_callbacks \<Rightarrow> arbiter \<Rightarrow> list_entry list \<Rightarrow> cm_desc list option \<Rightarrow>
     (ntstatus \<times> arbiter \<times> list_entry list) option" where
  "ArbpTestAllocation pool K cb a es AllocateFrom =
     (let (Status, possible) =
            (case AllocateFrom of
               Some ds \<Rightarrow> ArbiterLibInitializeRangeList (fst pool) K (codec.truncate cb) (ai_ResourceType a) ds
             | None \<Rightarrow> k_RtlCopyRangeList K (ai_Allocation a))
      in if \<not> NT_SUCCESS Status then Some (Status, discard a, es)
         else
           let (Status, possible, es) =
                 score_loop K (codec.truncate cb) (AllocateFrom = None) None possible es
           in if \<not> NT_SUCCESS Status then Some (Status, discard a, es)
              else
                let es = ArbiterLibSortArbitrationList es;
                    (Status, a, stack) =
                      ArbpBuildAllocationStack (snd pool) (codec.truncate cb) a es (of_nat (length es))
                in if \<not> NT_SUCCESS Status then Some (Status, discard a, es)
                   else case ArbiterLibAllocateEntry cb K possible stack of
                          None \<Rightarrow> None
                        | Some (Status, stack, possible) \<Rightarrow>
                            Some (if \<not> NT_SUCCESS Status then (Status, discard a, merge_entries es stack)
                                  else (STATUS_SUCCESS, a\<lparr>ai_PossibleAllocation := possible\<rparr>,
                                        merge_entries es stack)))"

definition ArbiterLibTestAllocation ::
    "bool \<times> bool \<Rightarrow> nt_kernel \<Rightarrow> arb_callbacks \<Rightarrow> arbiter \<Rightarrow> list_entry list \<Rightarrow> cm_desc list option \<Rightarrow>
     (ntstatus \<times> arbiter \<times> list_entry list) option" where
  "ArbiterLibTestAllocation = ArbpTestAllocation"

section \<open>Retest\<close>

fun delete_owners :: "nt_kernel \<Rightarrow> range_list \<Rightarrow> list_entry list \<Rightarrow> ntstatus \<times> range_list" where
  "delete_owners K possible [] = (STATUS_SUCCESS, possible)"
| "delete_owners K possible (e # es) =
     (let (Status, possible) = k_RtlDeleteOwnersRanges K possible (le_PhysicalDeviceObject e)
      in if \<not> NT_SUCCESS Status then (Status, possible) else delete_owners K possible es)"

text \<open>
  The second loop of ArbpRetestAllocation. \<open>st\<close> is the one state it reuses for every entry. A call
  through a null UnpackResource does not return (None).
\<close>

fun retest_loop ::
    "arb_callbacks \<Rightarrow> range_list \<Rightarrow> alloc_state \<Rightarrow> list_entry list \<Rightarrow> (ntstatus \<times> range_list) option" where
  "retest_loop cb possible st [] = Some (STATUS_SUCCESS, possible)"
| "retest_loop cb possible st (e # es) =
     (if le_Result e = ArbiterResultNullRequest then retest_loop cb possible st es
      else case (le_SelectedAlternative e, le_Assignment e) of
             (Some d, Some cm) \<Rightarrow>
               (let (Status, alt) = ArbpBuildAlternative (codec.truncate cb) d
                in if \<not> NT_SUCCESS Status then Some (Status, possible)
                   else case cb_UnpackResource cb of
                          None \<Rightarrow> None
                        | Some unpack \<Rightarrow>
                            let (Status, Start, Length) = unpack cm
                            in if \<not> NT_SUCCESS Status then Some (Status, possible)
                               else
                                 let (Status, st) = cb_PreprocessEntry cb
                                       (st\<lparr>st_Alternatives := [alt], st_CurrentAlternative := Some 0,
                                          st_Entry := Some e, st_WorkSpace := 0, st_Start := Start,
                                          st_End := Start + Length - 1\<rparr>)
                                 in if \<not> NT_SUCCESS Status then Some (Status, possible)
                                    else retest_loop cb
                                           (if Length \<noteq> 0 then cb_AddAllocation cb possible st else possible)
                                           (free_work_space st) es)
           | _ \<Rightarrow> Some (STATUS_INVALID_PARAMETER, possible))"

definition ArbpRetestAllocation ::
    "nt_kernel \<Rightarrow> arb_callbacks \<Rightarrow> arbiter \<Rightarrow> list_entry list \<Rightarrow> (ntstatus \<times> arbiter) option" where
  "ArbpRetestAllocation K cb a es =
     (let (Status, possible) = k_RtlCopyRangeList K (ai_Allocation a)
      in if \<not> NT_SUCCESS Status then Some (Status, discard a)
         else
           let (Status, possible) = delete_owners K possible es
           in if \<not> NT_SUCCESS Status then Some (Status, discard a)
              else case retest_loop cb possible zero_state es of
                     None \<Rightarrow> None
                   | Some (Status, possible) \<Rightarrow>
                       Some (if \<not> NT_SUCCESS Status then (Status, discard a)
                             else (STATUS_SUCCESS, a\<lparr>ai_PossibleAllocation := possible\<rparr>)))"

definition ArbiterLibRetestAllocation ::
    "nt_kernel \<Rightarrow> arb_callbacks \<Rightarrow> arbiter \<Rightarrow> list_entry list \<Rightarrow> (ntstatus \<times> arbiter) option" where
  "ArbiterLibRetestAllocation = ArbpRetestAllocation"

section \<open>Commit and rollback\<close>

definition ArbiterLibCommitAllocation :: "arbiter \<Rightarrow> ntstatus \<times> arbiter" where
  "ArbiterLibCommitAllocation a =
     (STATUS_SUCCESS, a\<lparr>ai_Allocation := ai_PossibleAllocation a, ai_PossibleAllocation := []\<rparr>)"

definition ArbiterLibRollbackAllocation :: "arbiter \<Rightarrow> ntstatus \<times> arbiter" where
  "ArbiterLibRollbackAllocation a = (STATUS_SUCCESS, discard a)"

section \<open>Boot reservations\<close>

text \<open>Only sane, fixed, aligned single placements are reserved.\<close>

definition boot_reservable :: "alternative \<Rightarrow> bool" where
  "boot_reservable alt \<longleftrightarrow>
     \<not> (alt_Length alt = 0 \<or> alt_Alignment alt = 0 \<or>
        alt_Flags alt AND ALTERNATIVE_FLAG_BADRANGE \<noteq> 0 \<or>
        alt_Flags alt AND ALTERNATIVE_FLAG_FIXED = 0 \<or>
        alt_Minimum alt mod alt_Alignment alt \<noteq> 0)"

definition boot_state :: "list_entry \<Rightarrow> alternative \<Rightarrow> alloc_state" where
  "boot_state e alt =
     zero_state\<lparr>st_Entry := Some e, st_Alternatives := [alt], st_CurrentAlternative := Some 0,
       st_Flags := STATE_FLAG_BOOT, st_RangeAttributes := ARBITER_RANGE_BOOT_ALLOCATED,
       st_Start := alt_Minimum alt, st_CurrentMinimum := alt_Minimum alt,
       st_End := alt_Maximum alt, st_CurrentMaximum := alt_Maximum alt\<rparr>"

definition boot_pack :: "arb_callbacks \<Rightarrow> alternative \<Rightarrow> u64 \<Rightarrow> list_entry \<Rightarrow> list_entry" where
  "boot_pack cb alt Start e =
     (case (cb_PackResource cb, le_Assignment e) of
        (Some pack, Some cm) \<Rightarrow> e\<lparr>le_Assignment := Some (snd (pack (alt_Descriptor alt) Start cm))\<rparr>
      | _ \<Rightarrow> e)"

fun boot_loop ::
    "arb_callbacks \<Rightarrow> range_list \<Rightarrow> list_entry list \<Rightarrow> ntstatus \<times> range_list \<times> list_entry list" where
  "boot_loop cb possible [] = (STATUS_SUCCESS, possible, [])"
| "boot_loop cb possible (e # es) =
     (let skip = (let (Status, possible, es) = boot_loop cb possible es in (Status, possible, e # es))
      in case le_Alternatives e of
           [] \<Rightarrow> skip
         | d # _ \<Rightarrow>
             (let (Status, alt) = ArbpBuildAlternative (codec.truncate cb) d
              in if \<not> NT_SUCCESS Status \<or> \<not> boot_reservable alt then skip
                 else
                   let (Status, st) = cb_PreprocessEntry cb (boot_state e alt)
                   in if \<not> NT_SUCCESS Status then (Status, [], e # es)
                      else
                        let possible = cb_AddAllocation cb possible st;
                            e = boot_pack cb alt (st_Start st) e;
                            (Status, possible, es) = boot_loop cb possible es
                        in (Status, possible, e # es)))"

definition ArbpBootAllocation ::
    "nt_kernel \<Rightarrow> arb_callbacks \<Rightarrow> arbiter \<Rightarrow> list_entry list \<Rightarrow> ntstatus \<times> arbiter \<times> list_entry list" where
  "ArbpBootAllocation K cb a es =
     (let (Status, possible) = k_RtlCopyRangeList K (ai_Allocation a)
      in if \<not> NT_SUCCESS Status then (Status, discard a, es)
         else
           let (Status, possible, es) = boot_loop cb possible es
           in if \<not> NT_SUCCESS Status then (Status, discard a, es)
              else (STATUS_SUCCESS, a\<lparr>ai_Allocation := possible, ai_PossibleAllocation := []\<rparr>, es))"

definition ArbiterLibBootAllocation ::
    "nt_kernel \<Rightarrow> arb_callbacks \<Rightarrow> arbiter \<Rightarrow> list_entry list \<Rightarrow> ntstatus \<times> arbiter \<times> list_entry list" where
  "ArbiterLibBootAllocation = ArbpBootAllocation"

section \<open>Conflict queries\<close>

record conflict_info =
  ci_OwningObject :: "device option"
  ci_Start :: u64
  ci_End :: u64

text \<open>
  While a query runs the instance's conflict callback is ArbpQueryConflictCallback, which records
  the range it is called with and lets the conflict stand. \<open>recorded possible st\<close> is the range it
  was last called with during the FindSuitableRange call on that list and state, None if it was
  not called. \<open>grow n\<close> is the outcome of the n-th enlargement of the result array.
\<close>

definition conflict_step ::
    "arb_callbacks \<Rightarrow> nt_kernel \<Rightarrow> (range_list \<Rightarrow> alloc_state \<Rightarrow> rtl_range option) \<Rightarrow> (nat \<Rightarrow> bool) \<Rightarrow>
     nat \<Rightarrow> range_list \<Rightarrow> alloc_state \<Rightarrow> conflict_info list \<Rightarrow>
     (ntstatus \<times> conflict_info list + nat \<times> range_list \<times> alloc_state \<times> conflict_info list) option" where
  "conflict_step cb K recorded grow Capacity possible st conflicts =
     (let st = st\<lparr>st_CurrentMinimum := st_Start st, st_CurrentMaximum := st_End st\<rparr>
      in case cb_FindSuitableRange cb possible st of
           None \<Rightarrow> None
         | Some (found, st') \<Rightarrow>
             if found then Some (Inl (STATUS_SUCCESS, conflicts))
             else if length conflicts = Capacity \<and> \<not> grow Capacity
             then Some (Inl (STATUS_INSUFFICIENT_RESOURCES, []))
             else
               let Capacity = (if length conflicts = Capacity then Capacity + 5 else Capacity)
               in case recorded possible st of
                    None \<Rightarrow> Some (Inl (STATUS_SUCCESS,
                      conflicts @ [\<lparr>ci_OwningObject = None, ci_Start = 0, ci_End = ARBITER_MAXIMUM_ADDRESS\<rparr>]))
                  | Some r \<Rightarrow>
                      let conflicts = conflicts @
                            [\<lparr>ci_OwningObject = rr_Owner r, ci_Start = rr_Start r, ci_End = rr_End r\<rparr>];
                          (Status, possible) = k_RtlDeleteOwnersRanges K possible (rr_Owner r)
                      in Some (if \<not> NT_SUCCESS Status then Inl (Status, [])
                               else Inr (Capacity, possible, st', conflicts)))"

partial_function (option) conflict_loop ::
    "arb_callbacks \<Rightarrow> nt_kernel \<Rightarrow> (range_list \<Rightarrow> alloc_state \<Rightarrow> rtl_range option) \<Rightarrow> (nat \<Rightarrow> bool) \<Rightarrow>
     nat \<Rightarrow> range_list \<Rightarrow> alloc_state \<Rightarrow> conflict_info list \<Rightarrow> (ntstatus \<times> conflict_info list) option" where
  "conflict_loop cb K recorded grow Capacity possible st conflicts =
     (case conflict_step cb K recorded grow Capacity possible st conflicts of
        None \<Rightarrow> None
      | Some (Inl r) \<Rightarrow> Some r
      | Some (Inr (Capacity, possible, st, conflicts)) \<Rightarrow>
          conflict_loop cb K recorded grow Capacity possible st conflicts)"

declare conflict_loop.simps [code]

definition query_entry :: "device \<Rightarrow> list_entry" where
  "query_entry pdo = \<lparr>le_Alternatives = [], le_PhysicalDeviceObject = Some pdo,
     le_RequestSource = ArbiterRequestPnpEnumerated, le_Flags = 0, le_WorkSpace = 0,
     le_SelectedAlternative = None, le_Assignment = None, le_Result = ArbiterResultSuccess\<rparr>"

definition ArbpQueryConflict ::
    "bool \<Rightarrow> (nat \<Rightarrow> bool) \<Rightarrow> nt_kernel \<Rightarrow> arb_callbacks \<Rightarrow> (range_list \<Rightarrow> alloc_state \<Rightarrow> rtl_range option) \<Rightarrow>
     arbiter \<Rightarrow> device \<Rightarrow> io_desc \<Rightarrow> (ntstatus \<times> arbiter \<times> conflict_info list) option" where
  "ArbpQueryConflict pool grow K cb recorded a pdo d =
     (let (Status, possible) = k_RtlCopyRangeList K (ai_Allocation a)
      in if \<not> NT_SUCCESS Status then Some (Status, discard a, [])
         else
           let (Status, alt) = ArbpBuildAlternative (codec.truncate cb) d
           in if \<not> NT_SUCCESS Status then Some (Status, discard a, [])
              else if \<not> pool then Some (STATUS_INSUFFICIENT_RESOURCES, discard a, [])
              else
                let st = zero_state\<lparr>st_Start := alt_Minimum alt, st_CurrentMinimum := alt_Minimum alt,
                           st_End := alt_Maximum alt, st_CurrentMaximum := alt_Maximum alt,
                           st_Alternatives := [alt], st_CurrentAlternative := Some 0,
                           st_Entry := Some (query_entry pdo)\<rparr>;
                    (Status, st) = cb_PreprocessEntry cb st
                in if \<not> NT_SUCCESS Status then Some (Status, discard a, [])
                   else
                     let possible = snd (k_RtlDeleteOwnersRanges K possible (Some pdo))
                     in case conflict_loop cb K recorded grow 10 possible st [] of
                          None \<Rightarrow> None
                        | Some (Status, conflicts) \<Rightarrow> Some (Status, discard a, conflicts))"

definition ArbiterLibQueryConflict ::
    "bool \<Rightarrow> (nat \<Rightarrow> bool) \<Rightarrow> nt_kernel \<Rightarrow> arb_callbacks \<Rightarrow> (range_list \<Rightarrow> alloc_state \<Rightarrow> rtl_range option) \<Rightarrow>
     arbiter \<Rightarrow> device \<Rightarrow> io_desc \<Rightarrow> (ntstatus \<times> arbiter \<times> conflict_info list) option" where
  "ArbiterLibQueryConflict = ArbpQueryConflict"

section \<open>What the test finds\<close>

text \<open>RtlCopyRangeList copies, and RtlDeleteOwnersRanges deletes the ranges of one owner.\<close>

definition CopyRange_contract :: "nt_kernel \<Rightarrow> bool" where
  "CopyRange_contract K \<longleftrightarrow>
     (\<forall>rl st rl'. k_RtlCopyRangeList K rl = (st, rl') \<longrightarrow> NT_SUCCESS st \<longrightarrow> rl' = rl)"

definition DeleteOwners_contract :: "nt_kernel \<Rightarrow> bool" where
  "DeleteOwners_contract K \<longleftrightarrow>
     (\<forall>rl ow. k_RtlDeleteOwnersRanges K rl ow = (STATUS_SUCCESS, filter (\<lambda>r. rr_Owner r \<noteq> ow) rl))"

definition without_owners :: "device option set \<Rightarrow> range_list \<Rightarrow> range_list" where
  "without_owners ows rl = filter (\<lambda>r. rr_Owner r \<notin> ows) rl"

definition owners :: "list_entry list \<Rightarrow> device option set" where
  "owners es = le_PhysicalDeviceObject ` set es"

lemma score_loop_possible:
  assumes D: "DeleteOwners_contract K"
    and "score_loop K cd True p possible es = (Status, possible', es')" and "NT_SUCCESS Status"
    and "None \<notin> owners es" and "p \<noteq> None \<Longrightarrow> \<forall>r \<in> set possible. rr_Owner r \<noteq> p"
  shows "possible' = without_owners (owners es) possible"
  using assms(2-)
proof (induction es arbitrary: p possible Status possible' es')
  case (Cons e es)
  let ?o = "le_PhysicalDeviceObject e"
  let ?mid = "if ?o \<noteq> p then filter (\<lambda>r. rr_Owner r \<noteq> ?o) possible else possible"
  have mid: "?mid = filter (\<lambda>r. rr_Owner r \<noteq> ?o) possible"
  proof (cases "?o = p")
    case True
    with Cons.prems(3) have "p \<noteq> None" by (auto simp: owners_def)
    with Cons.prems(4) True show ?thesis by (auto simp: filter_id_conv)
  qed simp
  from Cons.prems(1,2) D obtain Status1 es1 where
    "score_loop K cd True ?o ?mid es = (Status1, possible', es1)" "NT_SUCCESS Status1"
    by (cases "?o = p")
      (auto simp: DeleteOwners_contract_def Let_def split: prod.splits if_splits)
  note 1 = this
  have "None \<notin> owners es" using Cons.prems(3) by (auto simp: owners_def)
  moreover have "\<forall>r \<in> set ?mid. rr_Owner r \<noteq> ?o" unfolding mid by simp
  ultimately have "possible' = without_owners (owners es) ?mid" using Cons.IH [OF 1] by blast
  then show ?case unfolding mid by (auto simp: without_owners_def owners_def intro: filter_cong)
qed (simp add: without_owners_def owners_def)

lemma score_loop_entries:
  "score_loop K cd b p possible es = (Status, possible', es') \<Longrightarrow>
   map (\<lambda>e. e\<lparr>le_WorkSpace := 0\<rparr>) es' = map (\<lambda>e. e\<lparr>le_WorkSpace := 0\<rparr>) es"
  by (induction es arbitrary: p possible Status possible' es')
    (auto simp: Let_def split: prod.splits if_splits)

lemma build_states_ok: "build_states cd es = Inr sts \<Longrightarrow> \<forall>st \<in> set sts. state_ok st"
  by (induction es arbitrary: sts) (auto simp: zero_state_def state_ok_def split: if_splits sum.splits)

text \<open>The parts of an instance that no test changes.\<close>

definition test_frame :: "arbiter \<Rightarrow> arbiter \<Rightarrow> bool" where
  "test_frame a a' \<longleftrightarrow>
     ai_ResourceType a' = ai_ResourceType a \<and> ai_Allocation a' = ai_Allocation a \<and>
     ai_OrderingList a' = ai_OrderingList a \<and> ai_ReservedList a' = ai_ReservedList a \<and>
     ai_TransactionInProgress a' = ai_TransactionInProgress a \<and>
     ai_TransactionEvent a' = ai_TransactionEvent a \<and> ai_MutexEvent a' = ai_MutexEvent a"

lemma test_frame_simps [simp]:
  "test_frame a a" "test_frame a (discard a') = test_frame a a'"
  "test_frame a (a'\<lparr>ai_PossibleAllocation := x\<rparr>) = test_frame a a'"
  "test_frame a (a'\<lparr>ai_AllocationStackMaxSize := m\<rparr>) = test_frame a a'"
  "ai_PossibleAllocation (discard a) = []"
  by (simp_all add: test_frame_def discard_def)

lemma build_alternatives_fails: "build_alternatives cd ds = Inl s \<Longrightarrow> \<not> NT_SUCCESS s"
  by (induction ds) (auto simp: Let_def split: prod.splits if_splits sum.splits)

lemma build_states_fails: "build_states cd es = Inl s \<Longrightarrow> \<not> NT_SUCCESS s"
  by (induction es) (auto dest: build_alternatives_fails split: if_splits sum.splits)

lemma build_stack:
  assumes "ArbpBuildAllocationStack pool cd a es n = (Status, a', stack)"
  shows "test_frame a a'" and "NT_SUCCESS Status \<Longrightarrow> build_states cd es = Inr stack"
  using assms
  by (auto simp: ArbpBuildAllocationStack_def Let_def dest: build_states_fails split: if_splits sum.splits)

text \<open>Whatever a test does, the committed allocation stays, and a failed one leaves nothing tentative.\<close>

lemma TestAllocation_frame:
  assumes "ArbpTestAllocation pool K cb a es from = Some (Status, a', es')"
  shows "test_frame a a'" and "\<not> NT_SUCCESS Status \<Longrightarrow> ai_PossibleAllocation a' = []"
  using assms unfolding ArbpTestAllocation_def
  by (auto simp: Let_def split: prod.splits if_splits option.splits dest: build_stack(1))

text \<open>
  The search of a test that gets as far: its start list, its stack and its result.
\<close>

lemma TestAllocation_search:
  assumes D: "DeleteOwners_contract K" and C: "CopyRange_contract K"
    and run: "ArbpTestAllocation pool K cb a es None = Some (Status, a', es')"
    and ok: "NT_SUCCESS Status" and own: "None \<notin> owners es"
  obtains scored stack stack' Status' where
    "map (\<lambda>e. e\<lparr>le_WorkSpace := 0\<rparr>) scored = map (\<lambda>e. e\<lparr>le_WorkSpace := 0\<rparr>) es"
    "build_states (codec.truncate cb) (ArbiterLibSortArbitrationList scored) = Inr stack"
    "ArbiterLibAllocateEntry cb K (without_owners (owners es) (ai_Allocation a)) stack =
       Some (Status', stack', ai_PossibleAllocation a')" "NT_SUCCESS Status'"
    "es' = merge_entries (ArbiterLibSortArbitrationList scored) stack'"
proof -
  obtain S1 p1 where c: "k_RtlCopyRangeList K (ai_Allocation a) = (S1, p1)" by fastforce
  with run ok have S1: "NT_SUCCESS S1" by (auto simp: ArbpTestAllocation_def split: if_splits)
  with C c have p1: "p1 = ai_Allocation a" by (auto simp: CopyRange_contract_def)
  obtain S2 p2 es2 where sc: "score_loop K (codec.truncate cb) True None p1 es = (S2, p2, es2)" by (rule prod_cases3)
  with run ok c S1 have S2: "NT_SUCCESS S2" by (auto simp: ArbpTestAllocation_def split: if_splits)
  have p2: "p2 = without_owners (owners es) (ai_Allocation a)"
    using score_loop_possible [OF D sc S2 own] p1 by simp
  let ?es = "ArbiterLibSortArbitrationList es2"
  obtain S3 a3 stack where b: "ArbpBuildAllocationStack (snd pool) (codec.truncate cb) a ?es
      (of_nat (length ?es)) = (S3, a3, stack)" by (rule prod_cases3)
  with run ok c S1 sc S2 have S3: "NT_SUCCESS S3"
    by (auto simp: ArbpTestAllocation_def Let_def split: if_splits)
  from run ok c S1 sc S2 b S3 obtain S4 stack' p4 where
    al: "ArbiterLibAllocateEntry cb K p2 stack = Some (S4, stack', p4)" "NT_SUCCESS S4"
    and r: "a' = a3\<lparr>ai_PossibleAllocation := p4\<rparr>" "es' = merge_entries ?es stack'"
    by (auto simp: ArbpTestAllocation_def Let_def split: if_splits option.splits)
  show thesis
    by (rule that [OF score_loop_entries [OF sc] build_stack(2) [OF b S3] _ al(2) r(2)])
      (use al(1) r(1) p2 in simp)
qed

lemma TestAllocation_total:
  assumes al: "\<And>possible stack. \<forall>st \<in> set stack. state_ok st \<Longrightarrow>
    \<exists>r. ArbiterLibAllocateEntry cb K possible stack = Some r"
  shows "\<exists>r. ArbpTestAllocation pool K cb a es from = Some r"
proof -
  let ?cd = "codec.truncate cb"
  obtain S1 p1 where c: "(case from of
      Some ds \<Rightarrow> ArbiterLibInitializeRangeList (fst pool) K ?cd (ai_ResourceType a) ds
    | None \<Rightarrow> k_RtlCopyRangeList K (ai_Allocation a)) = (S1, p1)" by fastforce
  obtain S2 p2 es2 where sc: "score_loop K ?cd (from = None) None p1 es = (S2, p2, es2)" by (rule prod_cases3)
  let ?es = "ArbiterLibSortArbitrationList es2"
  obtain S3 a3 stack where b: "ArbpBuildAllocationStack (snd pool) ?cd a ?es (of_nat (length ?es)) = (S3, a3, stack)"
    by (rule prod_cases3)
  show ?thesis
  proof (cases "NT_SUCCESS S1 \<and> NT_SUCCESS S2 \<and> NT_SUCCESS S3")
    case True
    then have "\<forall>st \<in> set stack. state_ok st" using build_stack(2) [OF b] build_states_ok by blast
    from al [OF this, of p2] obtain S4 st4 p4 where "ArbiterLibAllocateEntry cb K p2 stack = Some (S4, st4, p4)"
      by (metis prod_cases3)
    with True c sc b show ?thesis by (cases "NT_SUCCESS S4") (simp_all add: ArbpTestAllocation_def Let_def)
  next
    case False
    with c sc b show ?thesis by (cases "NT_SUCCESS S1"; cases "NT_SUCCESS S2") (simp_all add: ArbpTestAllocation_def Let_def)
  qed
qed

section \<open>What the other transactions do\<close>

text \<open>The ranges a retest lays down with the library's callbacks: no attributes, the tested placement.\<close>

definition retest_range :: "codec \<Rightarrow> list_entry \<Rightarrow> (u64 \<times> u64 \<times> u32 \<times> device option) option" where
  "retest_range cd e =
     (case (le_SelectedAlternative e, le_Assignment e, cb_UnpackResource cd) of
        (Some d, Some cm, Some unpack) \<Rightarrow>
          (let (_, Start, Length) = unpack cm
           in if le_Result e = ArbiterResultNullRequest \<or> Length = 0 then None
              else Some (Start, Start + Length - 1,
                     if io_ShareDisposition d = CmResourceShareShared
                     then RTL_RANGE_LIST_ADD_IF_CONFLICT OR RTL_RANGE_LIST_ADD_SHARED
                     else RTL_RANGE_LIST_ADD_IF_CONFLICT,
                     le_PhysicalDeviceObject e))
      | _ \<Rightarrow> None)"

definition lay_down :: "nt_kernel \<Rightarrow> codec \<Rightarrow> range_list \<Rightarrow> list_entry \<Rightarrow> range_list" where
  "lay_down K cd rl e =
     (case retest_range cd e of
        None \<Rightarrow> rl
      | Some (s, e', fl, ow) \<Rightarrow> k_RtlAddRange K rl s e' 0 fl ow)"

lemma BuildAlternative_shared:
  assumes "ArbpBuildAlternative cd d = (Status, alt)"
  shows "alt_Flags alt AND ALTERNATIVE_FLAG_SHARED \<noteq> 0 \<longleftrightarrow> io_ShareDisposition d = CmResourceShareShared"
    and "alt_Descriptor alt = d"
proof -
  obtain S mn mx ln al where u: "cb_UnpackRequirement cd d = (S, mn, mx, ln, al)"
    by (metis prod_cases5)
  define fx :: u32 where "fx = (if mx - mn + 1 = ln then 2 else 0)"
  define ia :: u32 where "ia = (if (io_Type d = 3 \<or> io_Type d = 7) \<and> io_Flags d AND 0x100 \<noteq> 0 then 8 else 0)"
  define bd :: u32 where "bd = (if mx < mn then 4 else 0)"
  have z: "fx AND 1 = 0" "ia AND 1 = 0" "bd AND 1 = 0" by (simp_all add: fx_def ia_def bd_def)
  have alt: "alt_Flags alt = (if io_ShareDisposition d = 3 then 1 else 0) OR fx OR ia OR bd"
    and "alt_Descriptor alt = d"
    using assms u by (auto simp: ArbpBuildAlternative_def Let_def fx_def ia_def bd_def)
  then show "alt_Descriptor alt = d" by simp
  show "alt_Flags alt AND ALTERNATIVE_FLAG_SHARED \<noteq> 0 \<longleftrightarrow> io_ShareDisposition d = CmResourceShareShared"
    unfolding alt by (simp add: bit.conj_disj_distrib2 z)
qed

lemma retest_loop_library:
  assumes "retest_loop (library_callbacks cd K ol mc) possible st es = Some (Status, possible')"
    and "NT_SUCCESS Status" and "st_RangeAttributes st = 0" and "st_Flags st AND STATE_FLAG_WORKSPACE = 0"
  shows "possible' = foldl (lay_down K cd) possible es"
  using assms
proof (induction es arbitrary: possible st)
  case (Cons e es)
  let ?W = "library_callbacks cd K ol mc"
  have cd: "codec.truncate ?W = cd" by (simp add: library_callbacks_def codec.truncate_def)
  have cbs: "cb_UnpackResource ?W = cb_UnpackResource cd" "cb_PreprocessEntry ?W = (\<lambda>st. (STATUS_SUCCESS, st))"
    "cb_AddAllocation ?W = ArbiterLibAddAllocation K"
    by (simp_all add: library_callbacks_def ArbiterLibPreprocessEntry_def fun_eq_iff)
  show ?case
  proof (cases "le_Result e = ArbiterResultNullRequest")
    case True
    with Cons show ?thesis by (auto simp: lay_down_def retest_range_def split: option.splits prod.splits)
  next
    case False
    with Cons.prems(1,2) obtain d cm where e: "le_SelectedAlternative e = Some d" "le_Assignment e = Some cm"
      by (auto split: option.splits)
    obtain S alt where b: "ArbpBuildAlternative cd d = (S, alt)" by fastforce
    with Cons.prems(1,2) False e cd obtain unpack where u: "cb_UnpackResource cd = Some unpack"
      by (auto simp: cbs split: if_splits option.splits)
    obtain S2 Start Length where l: "unpack cm = (S2, Start, Length)" by (rule prod_cases3)
    let ?st = "st\<lparr>st_Alternatives := [alt], st_CurrentAlternative := Some 0, st_Entry := Some e,
      st_WorkSpace := 0, st_Start := Start, st_End := Start + Length - 1\<rparr>"
    let ?p = "if Length \<noteq> 0 then ArbiterLibAddAllocation K possible ?st else possible"
    have fr: "free_work_space ?st = ?st" using Cons.prems(4) by (simp add: free_work_space_def)
    have next': "retest_loop ?W ?p ?st es = Some (Status, possible')"
      using Cons.prems(1,2) False e b u l by (auto simp: cd cbs fr split: if_splits)
    have "possible' = foldl (lay_down K cd) ?p es"
      by (rule Cons.IH [OF next' Cons.prems(2)]) (use Cons.prems(3,4) in simp_all)
    moreover have "?p = lay_down K cd possible e"
      using False e u l Cons.prems(3) BuildAlternative_shared(1) [OF b]
      by (simp add: lay_down_def retest_range_def ArbiterLibAddAllocation_def current_alternative_def
          requester_def Let_def)
    ultimately show ?thesis by simp
  qed
qed simp

text \<open>The reservation a boot configuration leads to with the library's callbacks.\<close>

definition boot_reserve :: "nt_kernel \<Rightarrow> codec \<Rightarrow> range_list \<Rightarrow> list_entry \<Rightarrow> range_list" where
  "boot_reserve K cd rl e =
     (case le_Alternatives e of
        [] \<Rightarrow> rl
      | d # _ \<Rightarrow>
          (let (Status, alt) = ArbpBuildAlternative cd d
           in if NT_SUCCESS Status \<and> boot_reservable alt
              then k_RtlAddRange K rl (alt_Minimum alt) (alt_Maximum alt) ARBITER_RANGE_BOOT_ALLOCATED
                     (if io_ShareDisposition d = CmResourceShareShared
                      then RTL_RANGE_LIST_ADD_IF_CONFLICT OR RTL_RANGE_LIST_ADD_SHARED
                      else RTL_RANGE_LIST_ADD_IF_CONFLICT)
                     (le_PhysicalDeviceObject e)
              else rl))"

lemma boot_loop_library:
  "\<exists>es'. boot_loop (library_callbacks cd K ol mc) possible es =
     (STATUS_SUCCESS, foldl (boot_reserve K cd) possible es, es')"
proof (induction es arbitrary: possible)
  case (Cons e es)
  let ?W = "library_callbacks cd K ol mc"
  have cd: "codec.truncate ?W = cd" by (simp add: library_callbacks_def codec.truncate_def)
  have cbs: "cb_PreprocessEntry ?W = (\<lambda>st. (STATUS_SUCCESS, st))" "cb_AddAllocation ?W = ArbiterLibAddAllocation K"
    by (simp_all add: library_callbacks_def ArbiterLibPreprocessEntry_def fun_eq_iff)
  show ?case
  proof (cases "le_Alternatives e")
    case Nil
    with Cons.IH [of possible] show ?thesis by (auto simp: boot_reserve_def)
  next
    case (Cons d ds)
    obtain S alt where b: "ArbpBuildAlternative cd d = (S, alt)" by fastforce
    show ?thesis
    proof (cases "NT_SUCCESS S \<and> boot_reservable alt")
      case False
      with Cons b Cons.IH [of possible] show ?thesis by (auto simp: boot_reserve_def cd)
    next
      case True
      have "ArbiterLibAddAllocation K possible (boot_state e alt) = boot_reserve K cd possible e"
        using True Cons b BuildAlternative_shared(1) [OF b]
        by (simp add: boot_reserve_def ArbiterLibAddAllocation_def boot_state_def zero_state_def
            current_alternative_def requester_def Let_def)
      with True Cons b Cons.IH [of "boot_reserve K cd possible e"] show ?thesis
        by (auto simp: cd cbs)
    qed
  qed
qed simp

text \<open>The conflict query ends, and reports ranges of the list it searches.\<close>

lemma conflict_loop_good:
  assumes D: "DeleteOwners_contract K"
    and R: "\<And>rl st r. recorded rl st = Some r \<Longrightarrow> r \<in> set rl"
    and "\<forall>c \<in> set conflicts. P c"
    and P: "\<And>r. r \<in> set possible \<Longrightarrow> P \<lparr>ci_OwningObject = rr_Owner r, ci_Start = rr_Start r, ci_End = rr_End r\<rparr>"
    and W: "P \<lparr>ci_OwningObject = None, ci_Start = 0, ci_End = - 1\<rparr>"
  shows "\<exists>Status conflicts'.
    conflict_loop (library_callbacks cd K ol mc) K recorded grow cap possible st conflicts =
      Some (Status, conflicts') \<and> (\<forall>c \<in> set conflicts'. P c)"
  using assms(3) P
proof (induction "length possible" arbitrary: possible st conflicts cap rule: less_induct)
  case less
  let ?W = "library_callbacks cd K ol mc"
  let ?st = "st\<lparr>st_CurrentMinimum := st_Start st, st_CurrentMaximum := st_End st\<rparr>"
  obtain b st' where "ArbiterLibFindSuitableRange K mc (Some ArbiterLibOverrideConflict) possible ?st = (b, st')"
    by (rule prod.exhaust)
  then have f: "cb_FindSuitableRange ?W possible ?st = Some (b, st')" by (simp add: library_callbacks_def)
  show ?case
  proof (cases "b \<or> length conflicts = cap \<and> \<not> grow cap \<or> recorded possible ?st = None")
    case True
    with f less.prems W show ?thesis
      by (subst conflict_loop.simps) (auto simp: conflict_step_def Let_def)
  next
    case False
    then obtain r where r: "recorded possible ?st = Some r" by auto
    then have mem: "r \<in> set possible" by (rule R)
    let ?p = "filter (\<lambda>x. rr_Owner x \<noteq> rr_Owner r) possible"
    let ?c = "conflicts @ [\<lparr>ci_OwningObject = rr_Owner r, ci_Start = rr_Start r, ci_End = rr_End r\<rparr>]"
    have shorter: "length ?p < length possible" using mem by (rule length_filter_less) simp
    have "conflict_loop ?W K recorded grow cap possible st conflicts =
        conflict_loop ?W K recorded grow (if length conflicts = cap then cap + 5 else cap) ?p st' ?c"
      using f r False D by (subst conflict_loop.simps) (auto simp: conflict_step_def DeleteOwners_contract_def Let_def)
    moreover have "\<forall>c \<in> set ?c. P c" using less.prems mem by auto
    ultimately show ?thesis using less.hyps [OF shorter] less.prems(2) by simp
  qed
qed

text \<open>What a test comes to, for every arbiter whose callbacks keep the contract of the search.\<close>

context arbiter_walker
begin

lemma TestAllocation_good:
  assumes wf: "ol_wf ol" and F: "kernel_ok K" and R: "DeleteRange_contract K"
    and D: "DeleteOwners_contract K" and C: "CopyRange_contract K" and own: "None \<notin> owners es"
  shows "\<exists>Status a' es'. ArbpTestAllocation pool K (walker K ol mc) a es None = Some (Status, a', es') \<and>
    ai_Allocation a' = ai_Allocation a \<and>
    (if NT_SUCCESS Status
     then \<exists>scored stack sol.
       map (\<lambda>e. e\<lparr>le_WorkSpace := 0\<rparr>) scored = map (\<lambda>e. e\<lparr>le_WorkSpace := 0\<rparr>) es \<and>
       build_states (codec.truncate (walker K ol mc)) (ArbiterLibSortArbitrationList scored) = Inr stack \<and>
       map origin sol = map origin stack \<and>
       ai_PossibleAllocation a' =
         foldl (add_placed (walker K ol mc)) (without_owners (owners es) (ai_Allocation a)) sol \<and>
       (\<forall>j < length sol. found_in (walker K ol mc)
          (foldl (add_placed (walker K ol mc)) (without_owners (owners es) (ai_Allocation a)) (take j sol)) (sol ! j))
     else ai_PossibleAllocation a' = [])"
proof -
  let ?W = "walker K ol mc" and ?rl = "without_owners (owners es) (ai_Allocation a)"
  have "\<exists>r. ArbpTestAllocation pool K ?W a es None = Some r"
    by (rule TestAllocation_total) (use AllocateEntry_good [OF wf F] in blast)
  then obtain Status a' es' where run: "ArbpTestAllocation pool K ?W a es None = Some (Status, a', es')"
    by (metis prod_cases3)
  have "\<exists>scored stack sol.
       map (\<lambda>e. e\<lparr>le_WorkSpace := 0\<rparr>) scored = map (\<lambda>e. e\<lparr>le_WorkSpace := 0\<rparr>) es \<and>
       build_states (codec.truncate ?W) (ArbiterLibSortArbitrationList scored) = Inr stack \<and>
       map origin sol = map origin stack \<and> ai_PossibleAllocation a' = foldl (add_placed ?W) ?rl sol \<and>
       (\<forall>j < length sol. found_in ?W (foldl (add_placed ?W) ?rl (take j sol)) (sol ! j))"
    if ok: "NT_SUCCESS Status"
  proof -
    obtain scored stack stack' Status' where
      s: "map (\<lambda>e. e\<lparr>le_WorkSpace := 0\<rparr>) scored = map (\<lambda>e. e\<lparr>le_WorkSpace := 0\<rparr>) es"
      "build_states (codec.truncate ?W) (ArbiterLibSortArbitrationList scored) = Inr stack"
      "ArbiterLibAllocateEntry ?W K ?rl stack = Some (Status', stack', ai_PossibleAllocation a')"
      "NT_SUCCESS Status'"
      using TestAllocation_search [OF D C run ok own] .
    have "solved ?W ?rl stack stack' (ai_PossibleAllocation a')"
      using AllocateEntry_good [OF wf F build_states_ok [OF s(2)], of mc ?rl] s(3,4) R by simp
    then obtain sol where "map origin sol = map origin stack"
      "placed_prefix ?W ?rl (length sol) sol (ai_PossibleAllocation a')" unfolding solved_def by blast
    with s(1,2) show ?thesis by (auto simp: placed_prefix_def)
  qed
  with run TestAllocation_frame [OF run] show ?thesis by (auto simp: test_frame_def)
qed

end

section \<open>Properties\<close>

text \<open>
  C1: testing an arbitration list against the committed allocation (library callbacks, every
  entry with a device). The test returns and never changes the committed allocation. If it fails,
  the tentative allocation is empty. If it succeeds, the tentative allocation is the committed one
  without the ranges of the listed devices, plus one placement for each entry that has
  alternatives, in the sorted order, each granted against the list that holds the earlier ones.
\<close>
theorem TestAllocation_sound:
  assumes wf: "ol_wf ol" and F: "FindRange_contract K" and R: "DeleteRange_contract K"
    and D: "DeleteOwners_contract K" and C: "CopyRange_contract K" and own: "None \<notin> owners es"
  shows "\<exists>Status a' es'.
    ArbiterLibTestAllocation pool K (library_callbacks cd K ol mc) a es None = Some (Status, a', es') \<and>
    ai_Allocation a' = ai_Allocation a \<and>
    (if NT_SUCCESS Status
     then \<exists>scored stack sol.
       map (\<lambda>e. e\<lparr>le_WorkSpace := 0\<rparr>) scored = map (\<lambda>e. e\<lparr>le_WorkSpace := 0\<rparr>) es \<and>
       build_states cd (ArbiterLibSortArbitrationList scored) = Inr stack \<and>
       map origin sol = map origin stack \<and>
       ai_PossibleAllocation a' =
         foldl (add_placed (library_callbacks cd K ol mc)) (without_owners (owners es) (ai_Allocation a)) sol \<and>
       (\<forall>j < length sol. granted_at K
          (foldl (add_placed (library_callbacks cd K ol mc)) (without_owners (owners es) (ai_Allocation a)) (take j sol))
          (sol ! j))
     else ai_PossibleAllocation a' = [])"
proof -
  let ?W = "library_callbacks cd K ol mc"
  have cd: "codec.truncate ?W = cd" by (simp add: library_callbacks_def codec.truncate_def)
  have g: "found_in ?W rl st \<Longrightarrow> granted_at K rl st" for rl st by (rule found_granted [OF F])
  note good = library.TestAllocation_good [OF wf F R D C own, where cd = cd and mc = mc and pool = pool and a = a, unfolded cd]
  then obtain Status a' es' where run: "ArbiterLibTestAllocation pool K ?W a es None = Some (Status, a', es')"
    and same: "ai_Allocation a' = ai_Allocation a" by (auto simp: ArbiterLibTestAllocation_def)
  show ?thesis
  proof (cases "NT_SUCCESS Status")
    case True
    with good run obtain scored stack sol where
      "map (\<lambda>e. e\<lparr>le_WorkSpace := 0\<rparr>) scored = map (\<lambda>e. e\<lparr>le_WorkSpace := 0\<rparr>) es"
      "build_states cd (ArbiterLibSortArbitrationList scored) = Inr stack" "map origin sol = map origin stack"
      "ai_PossibleAllocation a' = foldl (add_placed ?W) (without_owners (owners es) (ai_Allocation a)) sol"
      "\<forall>j < length sol. found_in ?W
         (foldl (add_placed ?W) (without_owners (owners es) (ai_Allocation a)) (take j sol)) (sol ! j)"
      by (auto simp: ArbiterLibTestAllocation_def)
    moreover from this(5) have "\<forall>j < length sol. granted_at K
        (foldl (add_placed ?W) (without_owners (owners es) (ai_Allocation a)) (take j sol)) (sol ! j)"
      using g by blast
    ultimately show ?thesis using True run same by auto
  next
    case False
    with good run same show ?thesis by (auto simp: ArbiterLibTestAllocation_def)
  qed
qed

definition sample_arbiter :: arbiter where
  "sample_arbiter = \<lparr>ai_ResourceType = CmResourceTypePort,
     ai_Allocation = [\<lparr>rr_Start = 0x1010, rr_End = 0x1017, rr_Owner = Some 7, rr_Attributes = 1, rr_Flags = 0\<rparr>,
                      \<lparr>rr_Start = 0x2000, rr_End = 0x20FF, rr_Owner = Some 9, rr_Attributes = 0, rr_Flags = 0\<rparr>],
     ai_PossibleAllocation = [], ai_OrderingList = sample_orderings, ai_ReservedList = sample_orderings,
     ai_AllocationStackMaxSize = 4096, ai_TransactionInProgress = False, ai_TransactionEvent = True,
     ai_MutexEvent = True\<rparr>"

abbreviation sample_walker :: arb_callbacks where
  "sample_walker \<equiv> library_callbacks sample_codec entry_kernel sample_orderings []"

lemma entry_kernel_owners: "DeleteOwners_contract entry_kernel" "CopyRange_contract entry_kernel"
  by (simp_all add: DeleteOwners_contract_def CopyRange_contract_def entry_kernel_def fit_kernel_def sample_kernel_def)

lemma sample_orderings_wf: "ol_wf sample_orderings"
  by (simp add: sample_orderings_def ol_wf_def ol_capacity_def)

lemma TestAllocation_sound_witness:
  "\<exists>Status a' es'.
    ArbiterLibTestAllocation (True, True) entry_kernel sample_walker sample_arbiter [sample_entry] None =
      Some (Status, a', es') \<and>
    ai_Allocation a' = ai_Allocation sample_arbiter \<and>
    map (\<lambda>r. (rr_Start r, rr_End r, rr_Owner r)) (ai_PossibleAllocation a') =
      [(0x1010, 0x1017, Some 7), (0x2000, 0x20FF, Some 9)]"
proof -
  have own: "None \<notin> owners [sample_entry]" by (simp add: owners_def sample_entry_def)
  note t = TestAllocation_sound [OF sample_orderings_wf entry_kernel_contracts entry_kernel_owners own,
      of "(True, True)" sample_codec "[]" sample_arbiter]
  have "map_option (\<lambda>(S, a', es'). map (\<lambda>r. (rr_Start r, rr_End r, rr_Owner r)) (ai_PossibleAllocation a'))
      (ArbiterLibTestAllocation (True, True) entry_kernel sample_walker sample_arbiter [sample_entry] None) =
      Some [(0x1010, 0x1017, Some 7), (0x2000, 0x20FF, Some 9)]" by code_simp
  with t show ?thesis by auto
qed

text \<open>
  C10: a retest with the library's callbacks never changes the committed allocation. If it
  succeeds, the tentative allocation is the committed one without the listed devices' ranges, plus,
  in list order, exactly the recorded assignments, each with no range attributes; if it fails, the
  tentative allocation is empty.
\<close>
theorem RetestAllocation_lays_down:
  assumes D: "DeleteOwners_contract K" and C: "CopyRange_contract K"
    and run: "ArbiterLibRetestAllocation K (library_callbacks cd K ol mc) a es = Some (Status, a')"
  shows "ai_Allocation a' = ai_Allocation a \<and>
    ai_PossibleAllocation a' =
      (if NT_SUCCESS Status then foldl (lay_down K cd) (without_owners (owners es) (ai_Allocation a)) es else [])"
proof -
  let ?W = "library_callbacks cd K ol mc"
  have del: "delete_owners K p es' = (STATUS_SUCCESS, without_owners (owners es') p)" for p es'
    using D
    by (induction es' arbitrary: p)
      (auto simp: DeleteOwners_contract_def without_owners_def owners_def intro: filter_cong)
  obtain S1 p1 where c: "k_RtlCopyRangeList K (ai_Allocation a) = (S1, p1)" by fastforce
  show ?thesis
  proof (cases "NT_SUCCESS S1")
    case False
    with run c show ?thesis by (auto simp: ArbiterLibRetestAllocation_def ArbpRetestAllocation_def discard_def)
  next
    case True
    with c C have p1: "p1 = ai_Allocation a" by (auto simp: CopyRange_contract_def)
    let ?p = "without_owners (owners es) (ai_Allocation a)"
    from run c True p1 del obtain S2 p2 where r: "retest_loop ?W ?p zero_state es = Some (S2, p2)"
      and res: "(Status, a') = (if \<not> NT_SUCCESS S2 then (S2, discard a)
        else (STATUS_SUCCESS, a\<lparr>ai_PossibleAllocation := p2\<rparr>))"
      by (auto simp: ArbiterLibRetestAllocation_def ArbpRetestAllocation_def split: option.splits)
    show ?thesis
    proof (cases "NT_SUCCESS S2")
      case True
      from retest_loop_library [OF r True] res True show ?thesis by (simp add: zero_state_def)
    qed (use res in \<open>simp add: discard_def\<close>)
  qed
qed

definition tested_entry :: list_entry where
  "tested_entry = sample_entry\<lparr>le_SelectedAlternative := Some (sample_desc 0x1003 0x10FF),
     le_Assignment := Some (seed_desc 0x1020 8), le_Result := ArbiterResultSuccess\<rparr>"

lemma RetestAllocation_lays_down_witness:
  "\<exists>a'. ArbiterLibRetestAllocation entry_kernel (library_callbacks seed_codec entry_kernel sample_orderings [])
      sample_arbiter [tested_entry] = Some (STATUS_SUCCESS, a') \<and>
    ai_Allocation a' = ai_Allocation sample_arbiter \<and>
    ai_PossibleAllocation a' = foldl (lay_down entry_kernel seed_codec)
      (without_owners (owners [tested_entry]) (ai_Allocation sample_arbiter)) [tested_entry]"
proof -
  have "map_option fst (ArbiterLibRetestAllocation entry_kernel
      (library_callbacks seed_codec entry_kernel sample_orderings []) sample_arbiter [tested_entry]) =
      Some STATUS_SUCCESS" by code_simp
  then obtain a' where run: "ArbiterLibRetestAllocation entry_kernel
      (library_callbacks seed_codec entry_kernel sample_orderings []) sample_arbiter [tested_entry] =
      Some (STATUS_SUCCESS, a')" by auto
  from RetestAllocation_lays_down [OF entry_kernel_owners run] run show ?thesis by simp
qed

text \<open>
  C13: a boot reservation with the library's callbacks commits, for every entry whose first
  alternative is one sane, fixed, aligned range, that range for the entry's device with the
  boot attribute, and nothing else; the other entries are skipped. If the staging copy fails, the
  committed allocation is unchanged.
\<close>
theorem BootAllocation_reserves:
  assumes C: "CopyRange_contract K"
    and run: "ArbiterLibBootAllocation K (library_callbacks cd K ol mc) a es = (Status, a', es')"
  shows "ai_PossibleAllocation a' = [] \<and>
    ai_Allocation a' = (if NT_SUCCESS Status then foldl (boot_reserve K cd) (ai_Allocation a) es else ai_Allocation a)"
proof -
  obtain S1 p1 where c: "k_RtlCopyRangeList K (ai_Allocation a) = (S1, p1)" by fastforce
  from boot_loop_library [of cd K ol mc p1 es] obtain es1 where
    b: "boot_loop (library_callbacks cd K ol mc) p1 es = (STATUS_SUCCESS, foldl (boot_reserve K cd) p1 es, es1)" by blast
  show ?thesis
  proof (cases "NT_SUCCESS S1")
    case True
    with c C have "p1 = ai_Allocation a" by (auto simp: CopyRange_contract_def)
    with run c True b show ?thesis by (auto simp: ArbiterLibBootAllocation_def ArbpBootAllocation_def)
  next
    case False
    with run c show ?thesis by (auto simp: ArbiterLibBootAllocation_def ArbpBootAllocation_def discard_def)
  qed
qed

definition boot_entry :: "u64 \<Rightarrow> list_entry" where
  "boot_entry s = sample_entry\<lparr>le_Alternatives := [sample_desc s (s + 7)]\<rparr>"

lemma BootAllocation_reserves_witness:
  "\<exists>Status a' es'. ArbiterLibBootAllocation entry_kernel sample_walker sample_arbiter
      [boot_entry 0x1020, boot_entry 0x1044] = (Status, a', es') \<and> ai_PossibleAllocation a' = [] \<and>
    map (\<lambda>r. (rr_Start r, rr_End r, rr_Attributes r)) (ai_Allocation a') =
      [(0x1020, 0x1027, 1), (0x1010, 0x1017, 1), (0x2000, 0x20FF, 0)]"
proof -
  obtain Status a' es' where run: "ArbiterLibBootAllocation entry_kernel sample_walker sample_arbiter
      [boot_entry 0x1020, boot_entry 0x1044] = (Status, a', es')" by (rule prod_cases3)
  have "map (\<lambda>r. (rr_Start r, rr_End r, rr_Attributes r)) (ai_Allocation (fst (snd
      (ArbiterLibBootAllocation entry_kernel sample_walker sample_arbiter [boot_entry 0x1020, boot_entry 0x1044])))) =
      [(0x1020, 0x1027, 1), (0x1010, 0x1017, 1), (0x2000, 0x20FF, 0)]" by code_simp
  with BootAllocation_reserves [OF entry_kernel_owners(2) run] run show ?thesis by simp
qed

text \<open>
  C14: a conflict query with the library's callbacks always returns, leaves the committed
  allocation alone and the tentative one empty, and every conflict it reports is a committed range
  of another owner, or the one whole-space conflict that stands for a blocked request with no
  blocking owner. The conflict callback is only called with ranges of the list being searched.
\<close>
theorem QueryConflict_sound:
  assumes D: "DeleteOwners_contract K" and C: "CopyRange_contract K"
    and R: "\<And>rl st r. recorded rl st = Some r \<Longrightarrow> r \<in> set rl"
  shows "\<exists>Status a' conflicts.
    ArbiterLibQueryConflict pool grow K (library_callbacks cd K ol mc) recorded a pdo d =
      Some (Status, a', conflicts) \<and>
    ai_Allocation a' = ai_Allocation a \<and> ai_PossibleAllocation a' = [] \<and>
    (\<forall>c \<in> set conflicts.
       c = \<lparr>ci_OwningObject = None, ci_Start = 0, ci_End = - 1\<rparr> \<or>
       (\<exists>r \<in> set (ai_Allocation a). rr_Owner r \<noteq> Some pdo \<and>
          c = \<lparr>ci_OwningObject = rr_Owner r, ci_Start = rr_Start r, ci_End = rr_End r\<rparr>))"
proof -
  let ?W = "library_callbacks cd K ol mc"
  let ?P = "\<lambda>c. c = \<lparr>ci_OwningObject = None, ci_Start = 0, ci_End = - 1\<rparr> \<or>
    (\<exists>r \<in> set (ai_Allocation a). rr_Owner r \<noteq> Some pdo \<and>
       c = \<lparr>ci_OwningObject = rr_Owner r, ci_Start = rr_Start r, ci_End = rr_End r\<rparr>)"
  have pre: "cb_PreprocessEntry ?W st = (STATUS_SUCCESS, st)" for st
    by (simp add: library_callbacks_def ArbiterLibPreprocessEntry_def)
  obtain S1 p1 where c: "k_RtlCopyRangeList K (ai_Allocation a) = (S1, p1)" by fastforce
  obtain S2 alt where b: "ArbpBuildAlternative (codec.truncate ?W) d = (S2, alt)" by fastforce
  show ?thesis
  proof (cases "NT_SUCCESS S1 \<and> NT_SUCCESS S2 \<and> pool")
    case False
    with c b show ?thesis
      by (auto simp: ArbiterLibQueryConflict_def ArbpQueryConflict_def discard_def)
  next
    case True
    with c C have p1: "p1 = ai_Allocation a" by (auto simp: CopyRange_contract_def)
    let ?p = "filter (\<lambda>r. rr_Owner r \<noteq> Some pdo) (ai_Allocation a)"
    let ?st = "zero_state\<lparr>st_Start := alt_Minimum alt, st_CurrentMinimum := alt_Minimum alt,
       st_End := alt_Maximum alt, st_CurrentMaximum := alt_Maximum alt, st_Alternatives := [alt],
       st_CurrentAlternative := Some 0, st_Entry := Some (query_entry pdo)\<rparr>"
    have "\<exists>Status conflicts. conflict_loop ?W K recorded grow 10 ?p ?st [] = Some (Status, conflicts) \<and>
        (\<forall>c \<in> set conflicts. ?P c)"
      by (rule conflict_loop_good [OF D R]) auto
    with True c b p1 D show ?thesis
      by (auto simp: ArbiterLibQueryConflict_def ArbpQueryConflict_def pre discard_def DeleteOwners_contract_def)
  qed
qed

lemma QueryConflict_sound_witness:
  "\<exists>Status a' conflicts.
    ArbiterLibQueryConflict True (\<lambda>n. True) entry_kernel sample_walker
      (\<lambda>rl st. find (\<lambda>r. overlaps (st_Start st) (st_End st) (rr_Start r) (rr_End r)) rl)
      sample_arbiter 7 (sample_desc 0x2010 0x2017) = Some (Status, a', conflicts) \<and>
    ai_Allocation a' = ai_Allocation sample_arbiter \<and> ai_PossibleAllocation a' = [] \<and>
    (\<forall>c \<in> set conflicts.
       c = \<lparr>ci_OwningObject = None, ci_Start = 0, ci_End = - 1\<rparr> \<or>
       (\<exists>r \<in> set (ai_Allocation sample_arbiter). rr_Owner r \<noteq> Some 7 \<and>
          c = \<lparr>ci_OwningObject = rr_Owner r, ci_Start = rr_Start r, ci_End = rr_End r\<rparr>))"
  by (rule QueryConflict_sound [OF entry_kernel_owners]) (auto simp: find_Some_iff)

end
