(* ===== verification/Arbiter_Handler.thy ===== *)
theory Arbiter_Handler
  imports Arbiter_Transaction
begin

text \<open>
  The dispatcher of an arbiter instance and its life cycle (reactos-libs/arbiter/handler.c and
  arbiter.c): the instance lock, the routing of actions to the instance's slots, the transaction
  flag, startup, external reservations, creation and deletion. The locale \<open>transaction_slots\<close> is
  the contract of the slots the dispatcher calls; it is interpreted on the library's defaults.
\<close>

section \<open>Slots\<close>

text \<open>
  The action slots of ARBITER_INSTANCE. ArbiterLibInitializeInstance fills the ones an arbiter
  leaves null with the library's.
\<close>

record arb_slots =
  sl_TestAllocation ::
    "arbiter \<Rightarrow> list_entry list \<Rightarrow> cm_desc list option \<Rightarrow> (ntstatus \<times> arbiter \<times> list_entry list) option"
  sl_RetestAllocation :: "arbiter \<Rightarrow> list_entry list \<Rightarrow> (ntstatus \<times> arbiter) option"
  sl_CommitAllocation :: "arbiter \<Rightarrow> ntstatus \<times> arbiter"
  sl_RollbackAllocation :: "arbiter \<Rightarrow> ntstatus \<times> arbiter"
  sl_BootAllocation :: "arbiter \<Rightarrow> list_entry list \<Rightarrow> ntstatus \<times> arbiter \<times> list_entry list"
  sl_QueryConflict :: "arbiter \<Rightarrow> device \<Rightarrow> io_desc \<Rightarrow> (ntstatus \<times> arbiter \<times> conflict_info list) option"
  sl_QueryArbitrate :: "arbiter \<Rightarrow> list_entry list \<Rightarrow> ntstatus"

definition ArbiterLibQueryArbitrate :: "arbiter \<Rightarrow> list_entry list \<Rightarrow> ntstatus" where
  "ArbiterLibQueryArbitrate a es = STATUS_SUCCESS"

definition ArbiterLibAddReserved :: "arbiter \<Rightarrow> io_desc option \<Rightarrow> cm_desc option \<Rightarrow> ntstatus" where
  "ArbiterLibAddReserved a Requirement Resource = STATUS_SUCCESS"

text \<open>The outcomes of pool allocations and the recording conflict callback that the defaults need.\<close>

record arb_env =
  env_pool :: "bool \<times> bool"
  env_query_pool :: bool
  env_grow :: "nat \<Rightarrow> bool"
  env_recorded :: "range_list \<Rightarrow> alloc_state \<Rightarrow> rtl_range option"

definition library_slots :: "arb_env \<Rightarrow> nt_kernel \<Rightarrow> arb_callbacks \<Rightarrow> arb_slots" where
  "library_slots env K cb =
     \<lparr>sl_TestAllocation = ArbiterLibTestAllocation (env_pool env) K cb,
      sl_RetestAllocation = ArbiterLibRetestAllocation K cb,
      sl_CommitAllocation = ArbiterLibCommitAllocation,
      sl_RollbackAllocation = ArbiterLibRollbackAllocation,
      sl_BootAllocation = ArbiterLibBootAllocation K cb,
      sl_QueryConflict =
        ArbiterLibQueryConflict (env_query_pool env) (env_grow env) K cb (env_recorded env),
      sl_QueryArbitrate = ArbiterLibQueryArbitrate\<rparr>"

section \<open>Dispatch\<close>

text \<open>
  The lock is a synchronization event: acquiring waits until it is signalled and resets it. In a
  sequential run a wait on a reset event never returns (None).
\<close>

definition ArbpAcquireLock :: "arbiter \<Rightarrow> arbiter option" where
  "ArbpAcquireLock a = (if ai_MutexEvent a then Some (a\<lparr>ai_MutexEvent := False\<rparr>) else None)"

definition ArbpReleaseLock :: "arbiter \<Rightarrow> arbiter" where
  "ArbpReleaseLock a = a\<lparr>ai_MutexEvent := True\<rparr>"

text \<open>ARBITER_ACTION with the parameters of the union member it selects.\<close>

datatype arb_action =
  ArbiterActionTestAllocation "list_entry list" "cm_desc list option"
| ArbiterActionRetestAllocation "list_entry list"
| ArbiterActionCommitAllocation
| ArbiterActionRollbackAllocation
| ArbiterActionQueryAllocatedResources
| ArbiterActionWriteReservedResources
| ArbiterActionQueryConflict device io_desc
| ArbiterActionQueryArbitrate "list_entry list"
| ArbiterActionAddReserved
| ArbiterActionBootAllocation "list_entry list"
| ArbiterActionUnrecognized

datatype arb_reply = NoReply | EntriesReply "list_entry list" | ConflictsReply "conflict_info list"

definition dispatch :: "arb_slots \<Rightarrow> arb_action \<Rightarrow> arbiter \<Rightarrow> (ntstatus \<times> arbiter \<times> arb_reply) option" where
  "dispatch sl Action a =
     (case Action of
        ArbiterActionTestAllocation es from \<Rightarrow>
          map_option (\<lambda>(s, a, es). (s, a, EntriesReply es)) (sl_TestAllocation sl a es from)
      | ArbiterActionRetestAllocation es \<Rightarrow>
          map_option (\<lambda>(s, a). (s, a, NoReply)) (sl_RetestAllocation sl a es)
      | ArbiterActionCommitAllocation \<Rightarrow> (let (s, a) = sl_CommitAllocation sl a in Some (s, a, NoReply))
      | ArbiterActionRollbackAllocation \<Rightarrow> (let (s, a) = sl_RollbackAllocation sl a in Some (s, a, NoReply))
      | ArbiterActionBootAllocation es \<Rightarrow>
          (let (s, a, es) = sl_BootAllocation sl a es in Some (s, a, EntriesReply es))
      | ArbiterActionQueryConflict pdo d \<Rightarrow>
          map_option (\<lambda>(s, a, cs). (s, a, ConflictsReply cs)) (sl_QueryConflict sl a pdo d)
      | ArbiterActionQueryArbitrate es \<Rightarrow> Some (sl_QueryArbitrate sl a es, a, NoReply)
      | ArbiterActionQueryAllocatedResources \<Rightarrow> Some (STATUS_NOT_IMPLEMENTED, a, NoReply)
      | ArbiterActionWriteReservedResources \<Rightarrow> Some (STATUS_NOT_IMPLEMENTED, a, NoReply)
      | ArbiterActionAddReserved \<Rightarrow> Some (STATUS_NOT_IMPLEMENTED, a, NoReply)
      | ArbiterActionUnrecognized \<Rightarrow> Some (STATUS_INVALID_PARAMETER, a, NoReply))"

definition track_transaction :: "arb_action \<Rightarrow> arbiter \<Rightarrow> arbiter" where
  "track_transaction Action a =
     (case Action of
        ArbiterActionTestAllocation _ _ \<Rightarrow> a\<lparr>ai_TransactionInProgress := True, ai_TransactionEvent := False\<rparr>
      | ArbiterActionRetestAllocation _ \<Rightarrow> a\<lparr>ai_TransactionInProgress := True, ai_TransactionEvent := False\<rparr>
      | ArbiterActionCommitAllocation \<Rightarrow> a\<lparr>ai_TransactionInProgress := False, ai_TransactionEvent := True\<rparr>
      | ArbiterActionRollbackAllocation \<Rightarrow> a\<lparr>ai_TransactionInProgress := False, ai_TransactionEvent := True\<rparr>
      | _ \<Rightarrow> a)"

definition ArbiterLibHandler ::
    "arb_slots \<Rightarrow> arb_action \<Rightarrow> arbiter \<Rightarrow> (ntstatus \<times> arbiter \<times> arb_reply) option" where
  "ArbiterLibHandler sl Action a =
     (case ArbpAcquireLock a of
        None \<Rightarrow> None
      | Some a \<Rightarrow>
          (case dispatch sl Action a of
             None \<Rightarrow> None
           | Some (Status, a, reply) \<Rightarrow>
               Some (Status,
                     ArbpReleaseLock (if NT_SUCCESS Status then track_transaction Action a else a),
                     reply)))"

section \<open>Startup and external reservations\<close>

definition ArbiterLibStartArbiter ::
    "bool \<Rightarrow> nt_kernel \<Rightarrow> codec \<Rightarrow> cm_desc list list option \<Rightarrow> arbiter \<Rightarrow> ntstatus \<times> arbiter" where
  "ArbiterLibStartArbiter pool K cd StartResources a =
     (case StartResources of
        Some (Full # _) \<Rightarrow>
          (let (Status, rl) = ArbiterLibInitializeRangeList pool K cd (ai_ResourceType a) Full
           in (Status, a\<lparr>ai_Allocation := rl\<rparr>))
      | _ \<Rightarrow> (STATUS_SUCCESS, a))"

definition ArbiterLibReserveRange ::
    "nt_kernel \<Rightarrow> u64 \<Rightarrow> u64 \<Rightarrow> device option \<Rightarrow> bool \<Rightarrow> arbiter \<Rightarrow> arbiter option" where
  "ArbiterLibReserveRange K Start End Owner Shared a =
     (case ArbpAcquireLock a of
        None \<Rightarrow> None
      | Some a \<Rightarrow>
          Some (ArbpReleaseLock (a\<lparr>ai_Allocation :=
            k_RtlAddRange K (ai_Allocation a) Start End 0
              (RTL_RANGE_LIST_ADD_IF_CONFLICT OR (if Shared then RTL_RANGE_LIST_ADD_SHARED else 0)) Owner\<rparr>)))"

definition ArbiterLibReleaseResources :: "nt_kernel \<Rightarrow> device option \<Rightarrow> arbiter \<Rightarrow> arbiter option" where
  "ArbiterLibReleaseResources K Owner a =
     (case ArbpAcquireLock a of
        None \<Rightarrow> None
      | Some a \<Rightarrow>
          Some (ArbpReleaseLock (a\<lparr>ai_Allocation := snd (k_RtlDeleteOwnersRanges K (ai_Allocation a) Owner)\<rparr>)))"

section \<open>Creation and deletion\<close>

text \<open>
  The pool blocks an instance owns: a field is True while the pointer is not null.
\<close>

record arb_blocks =
  ab_MutexEvent :: bool
  ab_TransactionEvent :: bool
  ab_AllocationStack :: bool
  ab_Allocation :: bool
  ab_PossibleAllocation :: bool

definition no_blocks :: arb_blocks where
  "no_blocks = \<lparr>ab_MutexEvent = False, ab_TransactionEvent = False, ab_AllocationStack = False,
     ab_Allocation = False, ab_PossibleAllocation = False\<rparr>"

definition ArbiterLibDeleteInstance :: "arb_blocks \<times> arbiter \<Rightarrow> arb_blocks \<times> arbiter" where
  "ArbiterLibDeleteInstance p =
     (let (b, a) = p;
          (b, a) = (if ab_PossibleAllocation b
                    then (b\<lparr>ab_PossibleAllocation := False\<rparr>, a\<lparr>ai_PossibleAllocation := []\<rparr>) else (b, a));
          (b, a) = (if ab_Allocation b
                    then (b\<lparr>ab_Allocation := False\<rparr>, a\<lparr>ai_Allocation := []\<rparr>) else (b, a));
          (b, a) = (if ab_AllocationStack b
                    then (b\<lparr>ab_AllocationStack := False\<rparr>, a\<lparr>ai_AllocationStackMaxSize := 0\<rparr>) else (b, a));
          a = a\<lparr>ai_OrderingList := ArbiterLibFreeOrderingList (ai_OrderingList a)\<rparr>;
          a = a\<lparr>ai_ReservedList := ArbiterLibFreeOrderingList (ai_ReservedList a)\<rparr>;
          b = (if ab_TransactionEvent b then b\<lparr>ab_TransactionEvent := False\<rparr> else b);
          b = (if ab_MutexEvent b then b\<lparr>ab_MutexEvent := False\<rparr> else b)
      in (b, a))"

text \<open>
  \<open>pool n\<close> is the outcome of the instance's own n-th allocation and \<open>opool\<close> those of the ordering
  lists. The instance comes zeroed but for its slots, which \<open>library_callbacks\<close> and
  \<open>library_slots\<close> stand for.
\<close>

definition ArbiterLibInitializeInstance ::
    "(nat \<Rightarrow> bool) \<Rightarrow> (nat \<Rightarrow> nat \<Rightarrow> bool) \<Rightarrow> reg_policy \<Rightarrow> codec \<Rightarrow> u8 \<Rightarrow> u16 list \<Rightarrow>
     (io_desc \<Rightarrow> ntstatus \<times> io_desc) option \<Rightarrow> arbiter \<Rightarrow> ntstatus \<times> arb_blocks \<times> arbiter" where
  "ArbiterLibInitializeInstance pool opool reg cd ResourceType OrderName tr a =
     (let a = a\<lparr>ai_ResourceType := ResourceType, ai_TransactionInProgress := False\<rparr>;
          b = no_blocks;
          fail = (\<lambda>Status b a. (Status, ArbiterLibDeleteInstance (b, a)))
      in if \<not> pool 0 then fail STATUS_INSUFFICIENT_RESOURCES b a
         else let b = b\<lparr>ab_MutexEvent := True\<rparr>; a = a\<lparr>ai_MutexEvent := True\<rparr>
         in if \<not> pool 1 then fail STATUS_INSUFFICIENT_RESOURCES b a
         else let b = b\<lparr>ab_TransactionEvent := True\<rparr>; a = a\<lparr>ai_TransactionEvent := True\<rparr>
         in if \<not> pool 2 then fail STATUS_INSUFFICIENT_RESOURCES b a
         else let b = b\<lparr>ab_AllocationStack := True\<rparr>; a = a\<lparr>ai_AllocationStackMaxSize := 4096\<rparr>
         in if \<not> pool 3 then fail STATUS_INSUFFICIENT_RESOURCES b a
         else let b = b\<lparr>ab_Allocation := True\<rparr>; a = a\<lparr>ai_Allocation := []\<rparr>
         in if \<not> pool 4 then fail STATUS_INSUFFICIENT_RESOURCES b a
         else let b = b\<lparr>ab_PossibleAllocation := True\<rparr>; a = a\<lparr>ai_PossibleAllocation := []\<rparr>;
                  (Status, ol, rl) = ArbiterLibDefaultAssignmentOrdering opool reg ResourceType OrderName OrderName
                     tr (cb_UnpackRequirement cd) (ai_OrderingList a) (ai_ReservedList a);
                  a = a\<lparr>ai_OrderingList := ol, ai_ReservedList := rl\<rparr>
         in if \<not> NT_SUCCESS Status then fail Status b a
         else (STATUS_SUCCESS, b, a))"

section \<open>The contract of the slots\<close>

locale transaction_slots =
  fixes sl :: arb_slots
  assumes test_slot: "sl_TestAllocation sl a es from = Some (Status, a', es') \<Longrightarrow>
      test_frame a a' \<and> (\<not> NT_SUCCESS Status \<longrightarrow> ai_PossibleAllocation a' = [])"
  and retest_slot: "sl_RetestAllocation sl a es = Some (Status, a') \<Longrightarrow>
      test_frame a a' \<and> (\<not> NT_SUCCESS Status \<longrightarrow> ai_PossibleAllocation a' = [])"
  and commit_slot: "sl_CommitAllocation sl a =
      (STATUS_SUCCESS, a\<lparr>ai_Allocation := ai_PossibleAllocation a, ai_PossibleAllocation := []\<rparr>)"
  and rollback_slot: "sl_RollbackAllocation sl a = (STATUS_SUCCESS, discard a)"
  and boot_slot: "sl_BootAllocation sl a es = (Status, a', es') \<Longrightarrow>
      \<exists>rl. a' = a\<lparr>ai_Allocation := rl, ai_PossibleAllocation := []\<rparr> \<and> (\<not> NT_SUCCESS Status \<longrightarrow> rl = ai_Allocation a)"
  and query_slot: "sl_QueryConflict sl a pdo d = Some (Status, a', cs) \<Longrightarrow> a' = discard a"
begin

text \<open>What a dispatched action may change: the two range lists, and the committed one only on Commit and Boot.\<close>

lemma dispatch_frame:
  assumes "dispatch sl Action a = Some (Status, a', r)"
  shows "test_frame (a\<lparr>ai_Allocation := ai_Allocation a'\<rparr>) a'"
    and "Action \<noteq> ArbiterActionCommitAllocation \<Longrightarrow> (\<And>es. Action \<noteq> ArbiterActionBootAllocation es) \<Longrightarrow>
      ai_Allocation a' = ai_Allocation a"
  using assms
  by (cases Action;
      auto simp: dispatch_def test_frame_def discard_def commit_slot rollback_slot
        dest!: test_slot retest_slot boot_slot query_slot split: prod.splits)+

lemma handler_result:
  assumes "ArbiterLibHandler sl Action a = Some (Status, a', r)"
  obtains a1 where "ai_MutexEvent a" and "dispatch sl Action (a\<lparr>ai_MutexEvent := False\<rparr>) = Some (Status, a1, r)"
    and "a' = ArbpReleaseLock (if NT_SUCCESS Status then track_transaction Action a1 else a1)"
  using assms
  by (auto simp: ArbiterLibHandler_def ArbpAcquireLock_def split: if_splits option.splits)

lemma track_simps [simp]:
  "ai_Allocation (track_transaction Action a) = ai_Allocation a"
  "ai_PossibleAllocation (track_transaction Action a) = ai_PossibleAllocation a"
  "ai_MutexEvent (track_transaction Action a) = ai_MutexEvent a"
  "ai_OrderingList (track_transaction Action a) = ai_OrderingList a"
  by (simp_all add: track_transaction_def split: arb_action.split)

lemma handler_lock: "ArbiterLibHandler sl Action a = Some (Status, a', r) \<Longrightarrow> ai_MutexEvent a \<and> ai_MutexEvent a'"
  by (erule handler_result) (simp add: ArbpReleaseLock_def)

lemma handler_flag:
  assumes "ArbiterLibHandler sl Action a = Some (Status, a', r)"
    and "ai_TransactionEvent a = (\<not> ai_TransactionInProgress a)"
  shows "ai_TransactionEvent a' = (\<not> ai_TransactionInProgress a')"
proof -
  from assms(1) obtain a1 where d: "dispatch sl Action (a\<lparr>ai_MutexEvent := False\<rparr>) = Some (Status, a1, r)"
    and a': "a' = ArbpReleaseLock (if NT_SUCCESS Status then track_transaction Action a1 else a1)"
    by (rule handler_result)
  from dispatch_frame(1) [OF d] assms(2) have "ai_TransactionEvent a1 = (\<not> ai_TransactionInProgress a1)"
    by (simp add: test_frame_def)
  then show ?thesis
    by (auto simp: a' ArbpReleaseLock_def track_transaction_def split: arb_action.split)
qed

lemma handler_committed:
  assumes "ArbiterLibHandler sl Action a = Some (Status, a', r)"
    and "Action \<noteq> ArbiterActionCommitAllocation" and "\<And>es. Action \<noteq> ArbiterActionBootAllocation es"
  shows "ai_Allocation a' = ai_Allocation a"
proof -
  from assms(1) obtain a1 where d: "dispatch sl Action (a\<lparr>ai_MutexEvent := False\<rparr>) = Some (Status, a1, r)"
    and a': "a' = ArbpReleaseLock (if NT_SUCCESS Status then track_transaction Action a1 else a1)"
    by (rule handler_result)
  from dispatch_frame(2) [OF d assms(2,3)] show ?thesis by (simp add: a' ArbpReleaseLock_def)
qed

text \<open>A commit and a rollback, whatever came before.\<close>

lemma handler_commit:
  "ArbiterLibHandler sl ArbiterActionCommitAllocation a = Some (Status, a', r) \<Longrightarrow>
   Status = STATUS_SUCCESS \<and> ai_Allocation a' = ai_PossibleAllocation a \<and> ai_PossibleAllocation a' = [] \<and>
   \<not> ai_TransactionInProgress a'"
  by (erule handler_result)
    (auto simp: dispatch_def commit_slot ArbpReleaseLock_def track_transaction_def)

lemma handler_query:
  "ArbiterLibHandler sl (ArbiterActionQueryConflict pdo d) a = Some (Status, a', r) \<Longrightarrow>
   ai_PossibleAllocation a' = [] \<and> ai_TransactionInProgress a' = ai_TransactionInProgress a"
  by (erule handler_result)
    (auto simp: dispatch_def ArbpReleaseLock_def track_transaction_def discard_def dest!: query_slot)

lemma handler_test_possible:
  assumes "ArbiterLibHandler sl (ArbiterActionTestAllocation es from) a = Some (Status, a', r)"
  shows "\<exists>a1 es'. sl_TestAllocation sl (a\<lparr>ai_MutexEvent := False\<rparr>) es from = Some (Status, a1, es') \<and>
    r = EntriesReply es' \<and> ai_PossibleAllocation a' = ai_PossibleAllocation a1 \<and>
    (NT_SUCCESS Status \<longrightarrow> ai_TransactionInProgress a')"
  using assms
  by (rule handler_result)
    (auto simp: dispatch_def ArbpReleaseLock_def track_transaction_def split: if_splits)

end

lemma RetestAllocation_frame:
  assumes "ArbpRetestAllocation K cb a es = Some (Status, a')"
  shows "test_frame a a' \<and> (\<not> NT_SUCCESS Status \<longrightarrow> ai_PossibleAllocation a' = [])"
  using assms by (auto simp: ArbpRetestAllocation_def Let_def split: prod.splits if_splits option.splits)

lemma BootAllocation_frame:
  assumes "ArbpBootAllocation K cb a es = (Status, a', es')"
  shows "\<exists>rl. a' = a\<lparr>ai_Allocation := rl, ai_PossibleAllocation := []\<rparr> \<and> (\<not> NT_SUCCESS Status \<longrightarrow> rl = ai_Allocation a)"
proof -
  have "discard a = a\<lparr>ai_Allocation := ai_Allocation a, ai_PossibleAllocation := []\<rparr>" by (simp add: discard_def)
  with assms show ?thesis
    by (auto simp: ArbpBootAllocation_def Let_def split: prod.splits if_splits)
qed

lemma QueryConflict_frame:
  "ArbpQueryConflict pool grow K cb recorded a pdo d = Some (Status, a', cs) \<Longrightarrow> a' = discard a"
  by (auto simp: ArbpQueryConflict_def Let_def split: prod.splits if_splits option.splits)

interpretation library_slots: transaction_slots "library_slots env K cb" for env K cb
  by unfold_locales
    (auto simp: library_slots_def ArbiterLibTestAllocation_def ArbiterLibRetestAllocation_def
      ArbiterLibCommitAllocation_def ArbiterLibRollbackAllocation_def ArbiterLibBootAllocation_def
      ArbiterLibQueryConflict_def
      dest: TestAllocation_frame RetestAllocation_frame BootAllocation_frame QueryConflict_frame)

section \<open>Sequences of actions\<close>

text \<open>A client's calls, one after the other; None if one of them does not return.\<close>

fun handle_all :: "arb_slots \<Rightarrow> arb_action list \<Rightarrow> arbiter \<Rightarrow> arbiter option" where
  "handle_all sl [] a = Some a"
| "handle_all sl (x # xs) a =
     (case ArbiterLibHandler sl x a of None \<Rightarrow> None | Some (_, a, _) \<Rightarrow> handle_all sl xs a)"

definition changes_committed :: "arb_action \<Rightarrow> bool" where
  "changes_committed x \<longleftrightarrow>
     (case x of ArbiterActionCommitAllocation \<Rightarrow> True | ArbiterActionBootAllocation _ \<Rightarrow> True | _ \<Rightarrow> False)"

lemma changes_committed_iff:
  "\<not> changes_committed x \<longleftrightarrow> x \<noteq> ArbiterActionCommitAllocation \<and> (\<forall>es. x \<noteq> ArbiterActionBootAllocation es)"
  by (cases x) (auto simp: changes_committed_def)

definition idle_slots :: arb_slots where
  "idle_slots = library_slots \<lparr>env_pool = (True, True), env_query_pool = True, env_grow = (\<lambda>n. True),
     env_recorded = (\<lambda>rl st. None)\<rparr> entry_kernel sample_walker"



text \<open>
  C7: a transaction. When a test with the library's slots succeeds and the next action is a
  commit, the committed allocation becomes exactly the tentative allocation the test computed;
  when the next action is a rollback instead, the committed allocation is the old one. Both end
  the transaction.
\<close>
theorem Handler_transaction:
  assumes t: "ArbiterLibHandler (library_slots env K cb) (ArbiterActionTestAllocation es from) a = Some (S, a1, r)"
    and ok: "NT_SUCCESS S"
  shows "\<exists>a0 es'. ArbiterLibTestAllocation (env_pool env) K cb (a\<lparr>ai_MutexEvent := False\<rparr>) es from = Some (S, a0, es') \<and>
    ai_TransactionInProgress a1 \<and>
    (\<exists>a2. ArbiterLibHandler (library_slots env K cb) ArbiterActionCommitAllocation a1 = Some (STATUS_SUCCESS, a2, NoReply) \<and>
       ai_Allocation a2 = ai_PossibleAllocation a0 \<and> ai_PossibleAllocation a2 = [] \<and> \<not> ai_TransactionInProgress a2) \<and>
    (\<exists>a2. ArbiterLibHandler (library_slots env K cb) ArbiterActionRollbackAllocation a1 = Some (STATUS_SUCCESS, a2, NoReply) \<and>
       ai_Allocation a2 = ai_Allocation a \<and> ai_PossibleAllocation a2 = [] \<and> \<not> ai_TransactionInProgress a2)"
proof -
  let ?sl = "library_slots env K cb"
  from library_slots.handler_test_possible [OF t] obtain a0 es' where
    run: "ArbiterLibTestAllocation (env_pool env) K cb (a\<lparr>ai_MutexEvent := False\<rparr>) es from = Some (S, a0, es')"
    and a1: "ai_PossibleAllocation a1 = ai_PossibleAllocation a0" "ai_TransactionInProgress a1"
    using ok by (auto simp: library_slots_def)
  have lock: "ai_MutexEvent a1" using library_slots.handler_lock [OF t] by simp
  have same: "ai_Allocation a1 = ai_Allocation a" using library_slots.handler_committed [OF t] by simp
  have "\<exists>a2. ArbiterLibHandler ?sl ArbiterActionCommitAllocation a1 = Some (STATUS_SUCCESS, a2, NoReply) \<and>
       ai_Allocation a2 = ai_PossibleAllocation a0 \<and> ai_PossibleAllocation a2 = [] \<and> \<not> ai_TransactionInProgress a2"
    using lock a1 by (simp add: ArbiterLibHandler_def ArbpAcquireLock_def dispatch_def library_slots_def
        ArbiterLibCommitAllocation_def ArbpReleaseLock_def track_transaction_def)
  moreover have "\<exists>a2. ArbiterLibHandler ?sl ArbiterActionRollbackAllocation a1 = Some (STATUS_SUCCESS, a2, NoReply) \<and>
       ai_Allocation a2 = ai_Allocation a \<and> ai_PossibleAllocation a2 = [] \<and> \<not> ai_TransactionInProgress a2"
    using lock same by (simp add: ArbiterLibHandler_def ArbpAcquireLock_def dispatch_def library_slots_def
        ArbiterLibRollbackAllocation_def ArbpReleaseLock_def track_transaction_def discard_def)
  ultimately show ?thesis using run a1(2) by blast
qed

lemma Handler_transaction_witness:
  "\<exists>a1 a2. ArbiterLibHandler idle_slots (ArbiterActionTestAllocation [] None) sample_arbiter =
      Some (STATUS_SUCCESS, a1, EntriesReply []) \<and>
    ArbiterLibHandler idle_slots ArbiterActionCommitAllocation a1 = Some (STATUS_SUCCESS, a2, NoReply) \<and>
    \<not> ai_TransactionInProgress a2"
proof -
  let ?t = "ArbiterActionTestAllocation [] None"
  have "map_option (\<lambda>(S, a, r). (S, r)) (ArbiterLibHandler idle_slots ?t sample_arbiter) =
      Some (STATUS_SUCCESS, EntriesReply [])" by code_simp
  then obtain a1 where run: "ArbiterLibHandler idle_slots ?t sample_arbiter = Some (STATUS_SUCCESS, a1, EntriesReply [])"
    by auto
  from Handler_transaction [OF run [unfolded idle_slots_def]] show ?thesis
    unfolding idle_slots_def [symmetric] using run by auto
qed

text \<open>
  The lock is released between a test and its commit, and nothing refuses an action in that
  window: a conflict query in it clears the tentative allocation while the transaction stays in
  progress, so the commit that follows succeeds and commits the empty allocation.
\<close>
theorem QueryConflict_drops_transaction:
  assumes "ArbiterLibHandler (library_slots env K cb) (ArbiterActionTestAllocation es from) a = Some (S, a1, r1)"
    and "NT_SUCCESS S"
    and "ArbiterLibHandler (library_slots env K cb) (ArbiterActionQueryConflict pdo d) a1 = Some (Sq, a2, r2)"
    and "ArbiterLibHandler (library_slots env K cb) ArbiterActionCommitAllocation a2 = Some (Sc, a3, r3)"
  shows "ai_TransactionInProgress a2 \<and> Sc = STATUS_SUCCESS \<and> ai_Allocation a3 = []"
  using library_slots.handler_test_possible [OF assms(1)] assms(2) library_slots.handler_query [OF assms(3)]
    library_slots.handler_commit [OF assms(4)] by auto

lemma QueryConflict_drops_transaction_witness:
  "\<exists>a3. handle_all idle_slots [ArbiterActionTestAllocation [] None,
      ArbiterActionQueryConflict 7 (sample_desc 0x1010 0x1017), ArbiterActionCommitAllocation] sample_arbiter = Some a3 \<and>
    ai_Allocation a3 = [] \<and> ai_Allocation sample_arbiter \<noteq> []"
proof -
  let ?t = "ArbiterActionTestAllocation [] None" and ?q = "ArbiterActionQueryConflict 7 (sample_desc 0x1010 0x1017)"
  have "map_option (\<lambda>(S, a, r). S) (ArbiterLibHandler idle_slots ?t sample_arbiter) = Some STATUS_SUCCESS" by code_simp
  then obtain a1 r1 where t: "ArbiterLibHandler idle_slots ?t sample_arbiter = Some (STATUS_SUCCESS, a1, r1)" by auto
  have "map_option (\<lambda>a. True) (handle_all idle_slots [?t, ?q] sample_arbiter) = Some True" by code_simp
  with t obtain S2 a2 r2 where q: "ArbiterLibHandler idle_slots ?q a1 = Some (S2, a2, r2)"
    by (auto split: option.splits)
  have "ai_MutexEvent a2" using library_slots.handler_lock [OF q [unfolded idle_slots_def]] by simp
  then obtain a3 r3 where c: "ArbiterLibHandler idle_slots ArbiterActionCommitAllocation a2 = Some (STATUS_SUCCESS, a3, r3)"
    by (simp add: ArbiterLibHandler_def ArbpAcquireLock_def dispatch_def idle_slots_def library_slots_def
        ArbiterLibCommitAllocation_def)
  show ?thesis
    using QueryConflict_drops_transaction [OF t [unfolded idle_slots_def] _ q [unfolded idle_slots_def]
        c [unfolded idle_slots_def]] t q c
    by (simp add: sample_arbiter_def)
qed

section \<open>Creation\<close>

lemma DefaultAssignmentOrdering_wf:
  assumes "ArbiterLibDefaultAssignmentOrdering pool reg ty ordn resn tr unpack ol rl = (Status, ol', rl')"
  shows "ol_wf ol' \<and> ol_wf rl'"
proof -
  let ?e = "\<lparr>ol_Count = 0, ol_Maximum = ARBITER_ORDERING_GRANULARITY, ol_Orderings = []\<rparr> :: ordering_list"
  let ?s0 = "\<lparr>os_Calls = 2, os_OrderingList = ?e, os_ReservedList = ?e\<rparr>"
  let ?s1 = "run_callback (ArbpAddOrderingCallback pool) ?s0
    (registry_ranges reg ty ''AllocationOrder'' ordn tr unpack)"
  let ?s2 = "run_callback (ArbpAddReservedCallback pool) ?s1
    (registry_ranges reg ty ''ReservedResources'' resn tr unpack)"
  have "os_wf ?s0" by (simp add: os_wf_def)
  then have "os_wf ?s2" by (intro reserved_cb.run_keeps ordering_cb.run_keeps)
  with assms show ?thesis
    by (auto simp: ArbiterLibDefaultAssignmentOrdering_def ArbpCreateOrderingList_def os_wf_def
        ArbiterLibFreeOrderingList_def ForEachRegistryRange_fold Let_def split: if_splits)
qed

text \<open>
  ArbiterLibInitializeInstance leaves a complete instance or nothing. On success every block
  is allocated, both allocations are empty, both ordering lists are well formed, the lock is free
  and no transaction is in progress; on any failure, at whatever point it happens, every block
  allocated until then is freed again and the lists are empty.
\<close>
theorem InitializeInstance_all_or_nothing:
  assumes "ArbiterLibInitializeInstance pool opool reg cd ty ordn tr a = (Status, b, a')"
  shows "if NT_SUCCESS Status
    then b = \<lparr>ab_MutexEvent = True, ab_TransactionEvent = True, ab_AllocationStack = True,
           ab_Allocation = True, ab_PossibleAllocation = True\<rparr> \<and>
         ai_Allocation a' = [] \<and> ai_PossibleAllocation a' = [] \<and> ol_wf (ai_OrderingList a') \<and>
         ol_wf (ai_ReservedList a') \<and> ai_MutexEvent a' \<and> ai_TransactionEvent a' \<and>
         \<not> ai_TransactionInProgress a' \<and> ai_ResourceType a' = ty
    else b = no_blocks \<and> ol_windows (ai_OrderingList a') = [] \<and> ol_windows (ai_ReservedList a') = []"
  using assms
  by (auto simp: ArbiterLibInitializeInstance_def ArbiterLibDeleteInstance_def no_blocks_def Let_def
      ArbiterLibFreeOrderingList_def ol_windows_def dest!: DefaultAssignmentOrdering_wf
      split: if_splits prod.splits)

lemma InitializeInstance_all_or_nothing_witness:
  "\<exists>b a'. ArbiterLibInitializeInstance (\<lambda>n. n < 3) (\<lambda>n m. True) sample_policy sample_codec CmResourceTypePort
      [] None sample_arbiter = (STATUS_INSUFFICIENT_RESOURCES, b, a') \<and> b = no_blocks"
proof -
  let ?i = "ArbiterLibInitializeInstance (\<lambda>n. n < 3) (\<lambda>n m. True) sample_policy sample_codec CmResourceTypePort
      [] None sample_arbiter"
  obtain S b a' where r: "?i = (S, b, a')" by (rule prod_cases3)
  have "S = STATUS_INSUFFICIENT_RESOURCES"
    using r by (simp add: ArbiterLibInitializeInstance_def)
  with InitializeInstance_all_or_nothing [OF r] r show ?thesis by simp
qed

end
