(* ===== verification/Resource_Codec.thy ===== *)
theory Resource_Codec
  imports Arbiter_Handler
begin

text \<open>
  The contract between an arbiter's descriptor codec and the transactions. A test reports a
  placement by packing it into the entry's assignment, and a retest unpacks that assignment to lay
  the placement down again. The locale \<open>resource_codec\<close> states the round trip; its lemma says
  what a retest of a reported entry lays down. The memory, port and bus number codec and the
  interrupt codec interpret it.
\<close>

locale resource_codec =
  fixes cd :: codec
    and placed_length :: "io_desc \<Rightarrow> u64"
    and encodable :: "io_desc \<Rightarrow> u64 \<Rightarrow> bool"
  assumes round_trip:
    "fst (cb_UnpackRequirement cd d) = STATUS_SUCCESS \<Longrightarrow> encodable d start \<Longrightarrow>
     \<exists>pack unpack cm'. cb_PackResource cd = Some pack \<and> cb_UnpackResource cd = Some unpack \<and>
       pack d start cm = (STATUS_SUCCESS, cm') \<and> unpack cm' = (STATUS_SUCCESS, start, placed_length d)"
begin

text \<open>
  The entry of a state after the report of a solution, and the range its retest lays down.
\<close>

lemma retest_of_report:
  assumes cb: "cb_PackResource cb = cb_PackResource cd"
    and st: "st_Entry st = Some e" "current_alternative st = Some alt" "le_Assignment e = Some cm"
    and ok: "fst (cb_UnpackRequirement cd (alt_Descriptor alt)) = STATUS_SUCCESS"
      "encodable (alt_Descriptor alt) (st_Start st)"
    and len: "placed_length (alt_Descriptor alt) \<noteq> 0" and res: "le_Result e \<noteq> ArbiterResultNullRequest"
  shows "\<exists>e'. report_entry cb st = (STATUS_SUCCESS, st\<lparr>st_Entry := Some e'\<rparr>) \<and>
    retest_range cd e' = Some (st_Start st, st_Start st + placed_length (alt_Descriptor alt) - 1,
      if io_ShareDisposition (alt_Descriptor alt) = CmResourceShareShared
      then RTL_RANGE_LIST_ADD_IF_CONFLICT OR RTL_RANGE_LIST_ADD_SHARED
      else RTL_RANGE_LIST_ADD_IF_CONFLICT, le_PhysicalDeviceObject e)"
proof -
  from round_trip [OF ok, of cm] obtain pack unpack cm' where
    r: "cb_PackResource cd = Some pack" "cb_UnpackResource cd = Some unpack"
      "pack (alt_Descriptor alt) (st_Start st) cm = (STATUS_SUCCESS, cm')"
      "unpack cm' = (STATUS_SUCCESS, st_Start st, placed_length (alt_Descriptor alt))" by blast
  let ?e = "e\<lparr>le_SelectedAlternative := Some (alt_Descriptor alt), le_Assignment := Some cm',
    le_Result := ArbiterResultSuccess\<rparr>"
  have "report_entry cb st = (STATUS_SUCCESS, st\<lparr>st_Entry := Some ?e\<rparr>)"
    using st r res cb by (simp add: report_entry_def Let_def)
  moreover have "retest_range cd ?e = Some (st_Start st, st_Start st + placed_length (alt_Descriptor alt) - 1,
      if io_ShareDisposition (alt_Descriptor alt) = CmResourceShareShared
      then RTL_RANGE_LIST_ADD_IF_CONFLICT OR RTL_RANGE_LIST_ADD_SHARED
      else RTL_RANGE_LIST_ADD_IF_CONFLICT, le_PhysicalDeviceObject e)"
    using r len by (simp add: retest_range_def)
  ultimately show ?thesis by blast
qed

end

end
