(* ===== verification/Irq_Codec.thy ===== *)
theory Irq_Codec
  imports Resource_Codec "HOL-Library.AList"
begin

text \<open>
  The codec of the interrupt arbiter (sys/irqarb.c). A wired line is placed at its GSIV; a message
  request is placed at one slot of a window above every GSIV, and the number of its messages goes
  into a table of records and into the packed descriptor, from which it is read back.
\<close>

abbreviation (input) UACPINT_MSI_GSIV_BASE :: u64 where "UACPINT_MSI_GSIV_BASE \<equiv> 0xFFF00000"
abbreviation (input) UACPINT_MSI_GSIV_LAST :: u64 where "UACPINT_MSI_GSIV_LAST \<equiv> 0xFFFFFFFE"
abbreviation (input) UACPINT_MSI_MAX_COUNT :: u32 where "UACPINT_MSI_MAX_COUNT \<equiv> 32"
abbreviation (input) UACPINT_MSI_RECORD_MAX :: nat where "UACPINT_MSI_RECORD_MAX \<equiv> 64"
abbreviation (input) UACPINT_ISA_GSIV_COUNT :: u32 where "UACPINT_ISA_GSIV_COUNT \<equiv> 16"
abbreviation (input) CM_RESOURCE_INTERRUPT_LATCHED :: u16 where "CM_RESOURCE_INTERRUPT_LATCHED \<equiv> 1"
abbreviation (input) CM_RESOURCE_INTERRUPT_MESSAGE :: u16 where "CM_RESOURCE_INTERRUPT_MESSAGE \<equiv> 2"

section \<open>Message records\<close>

text \<open>The used part of UacpiNtMsiRecords: the slot of a placement and its message count.\<close>

type_synonym msi_records = "(u64 \<times> u32) list"

definition UacpiNtMsiCountRecord :: "u64 \<Rightarrow> u32 \<Rightarrow> msi_records \<Rightarrow> msi_records" where
  "UacpiNtMsiCountRecord Start Count Records =
     (if Start \<in> fst ` set Records then AList.update Start Count Records
      else if length Records \<ge> UACPINT_MSI_RECORD_MAX then Records
      else Records @ [(Start, Count)])"

definition UacpiNtMsiCountLookup :: "msi_records \<Rightarrow> u64 \<Rightarrow> ntstatus \<times> u32" where
  "UacpiNtMsiCountLookup Records Start =
     (case map_of Records Start of Some Count \<Rightarrow> (STATUS_SUCCESS, Count) | None \<Rightarrow> (STATUS_NOT_FOUND, 0))"

section \<open>Requirements and resources\<close>

definition message_request :: "io_desc \<Rightarrow> bool" where
  "message_request d \<longleftrightarrow> io_Flags d AND CM_RESOURCE_INTERRUPT_MESSAGE \<noteq> 0"

definition UacpiNtMsiCountFromRequirement :: "io_desc \<Rightarrow> u32" where
  "UacpiNtMsiCountFromRequirement d =
     (if io_MaximumVector d < io_MinimumVector d then 1
      else
        let Span = ucast (io_MaximumVector d) - ucast (io_MinimumVector d) + 1 :: u64
        in if Span = 0 \<or> Span > ucast UACPINT_MSI_MAX_COUNT then 1 else ucast Span)"

text \<open>\<open>model\<close> is GlobalAcpiInterruptModel: 0 for the PIC, 1 for the APIC.\<close>

definition UacpiNtIrqUnpackRequirement :: "u32 \<Rightarrow> unpack_requirement" where
  "UacpiNtIrqUnpackRequirement model d =
     (if io_Type d \<noteq> CmResourceTypeInterrupt then (STATUS_INVALID_PARAMETER, 0, 0, 0, 0)
      else if \<not> message_request d
      then (STATUS_SUCCESS, ucast (io_MinimumVector d), ucast (io_MaximumVector d), 1, 1)
      else if model \<noteq> 1 then (STATUS_SUCCESS, 1, 0, 1, 1)
      else (STATUS_SUCCESS, UACPINT_MSI_GSIV_BASE, UACPINT_MSI_GSIV_LAST, 1, 1))"

text \<open>The status, the descriptor and the records.\<close>

definition UacpiNtIrqPackResource ::
    "io_desc \<Rightarrow> u64 \<Rightarrow> cm_desc \<Rightarrow> msi_records \<Rightarrow> ntstatus \<times> cm_desc \<times> msi_records" where
  "UacpiNtIrqPackResource Requirement Start Descriptor Records =
     (let d = Descriptor\<lparr>cm_Type := CmResourceTypeInterrupt,
                cm_ShareDisposition := io_ShareDisposition Requirement, cm_Flags := io_Flags Requirement,
                cm_Vector := ucast Start\<rparr>
      in if Start < UACPINT_MSI_GSIV_BASE
         then (STATUS_SUCCESS, d\<lparr>cm_Level := ucast Start, cm_Affinity := - 1\<rparr>, Records)
         else
           let Count = UacpiNtMsiCountFromRequirement Requirement;
               Targeted = io_TargetedProcessors Requirement
           in (STATUS_SUCCESS,
               d\<lparr>cm_Flags := cm_Flags d OR CM_RESOURCE_INTERRUPT_MESSAGE, cm_Level := push_bit 16 Count,
                 cm_Affinity := if Targeted \<noteq> 0 then Targeted else - 1\<rparr>,
               UacpiNtMsiCountRecord Start Count Records))"

definition UacpiNtIrqUnpackResource :: "cm_desc \<Rightarrow> ntstatus \<times> u64 \<times> u64" where
  "UacpiNtIrqUnpackResource d =
     (if cm_Type d \<noteq> CmResourceTypeInterrupt then (STATUS_INVALID_PARAMETER, 0, 0)
      else
        let Count = drop_bit 16 (cm_Level d)
        in (STATUS_SUCCESS, ucast (cm_Vector d),
            if (cm_Flags d AND CM_RESOURCE_INTERRUPT_MESSAGE \<noteq> 0 \<or> cm_Vector d \<ge> ucast UACPINT_MSI_GSIV_BASE) \<and>
               Count \<noteq> 0 \<and> Count \<le> UACPINT_MSI_MAX_COUNT
            then ucast Count else 1))"

definition UacpiNtIrqScoreRequirement :: "io_desc \<Rightarrow> 32 word" where
  "UacpiNtIrqScoreRequirement d =
     (if io_Type d \<noteq> CmResourceTypeInterrupt then 0xFFFF
      else
        let Minimum = io_MinimumVector d; Maximum = io_MaximumVector d;
            Score = Maximum - Minimum + 1;
            Score = (if Maximum - Minimum = - 1 \<or> Score > 0xFFFF then 0xFFFF else Score)
        in if Maximum \<ge> UACPINT_ISA_GSIV_COUNT then Score + 5 else Score)"

text \<open>The codec as the arbiter library sees it: the records are no part of what it reads.\<close>

definition irq_codec :: "u32 \<Rightarrow> codec" where
  "irq_codec model =
     \<lparr>cb_UnpackRequirement = UacpiNtIrqUnpackRequirement model,
      cb_PackResource = Some (\<lambda>d s cm. let (Status, cm, Records) = UacpiNtIrqPackResource d s cm [] in (Status, cm)),
      cb_UnpackResource = Some UacpiNtIrqUnpackResource,
      cb_ScoreRequirement = Some UacpiNtIrqScoreRequirement\<rparr>"

section \<open>Laws\<close>

lemma length_alist_update: "length (AList.update k v al) = (if k \<in> fst ` set al then length al else Suc (length al))"
  by (induction al) auto

lemma map_of_Record:
  assumes "Start \<in> fst ` set Records \<or> length Records < UACPINT_MSI_RECORD_MAX"
  shows "map_of (UacpiNtMsiCountRecord Start Count Records) = (map_of Records)(Start \<mapsto> Count)"
proof (cases "Start \<in> fst ` set Records")
  case True
  then show ?thesis by (simp add: UacpiNtMsiCountRecord_def update_conv')
next
  case False
  with assms have "UacpiNtMsiCountRecord Start Count Records = Records @ [(Start, Count)]"
    by (simp add: UacpiNtMsiCountRecord_def)
  moreover from False have "map_of Records Start = None" by (simp add: map_of_eq_None_iff)
  ultimately show ?thesis by (auto simp: map_add_def split: option.split)
qed

lemma Record_bound: "length Records \<le> UACPINT_MSI_RECORD_MAX \<Longrightarrow>
  length (UacpiNtMsiCountRecord Start Count Records) \<le> UACPINT_MSI_RECORD_MAX"
  by (auto simp: UacpiNtMsiCountRecord_def length_alist_update)

lemma MsiCount_range: "1 \<le> unat (UacpiNtMsiCountFromRequirement d)" "unat (UacpiNtMsiCountFromRequirement d) \<le> 32"
proof -
  let ?s = "ucast (io_MaximumVector d) - ucast (io_MinimumVector d) + 1 :: u64"
  have "1 \<le> unat (ucast ?s :: u32) \<and> unat (ucast ?s :: u32) \<le> 32" if "?s \<noteq> 0" "\<not> ?s > 32"
  proof -
    have "?s < 2 ^ LENGTH(32)" using that(2) by (simp add: word_less_nat_alt not_less)
    then have "unat (ucast ?s :: u32) = unat ?s" by (rule unat_ucast_narrow) simp
    with that show ?thesis by (simp add: word_less_nat_alt not_less unat_gt_0 Suc_le_eq)
  qed
  then show "1 \<le> unat (UacpiNtMsiCountFromRequirement d)" "unat (UacpiNtMsiCountFromRequirement d) \<le> 32"
    by (auto simp: UacpiNtMsiCountFromRequirement_def Let_def)
qed

text \<open>
  The number of slots a packed placement unpacks to, and the starts the codec can express: a GSIV
  for a line, a slot of the message window for a message request.
\<close>

definition irq_length :: "io_desc \<Rightarrow> u64" where
  "irq_length d = (if message_request d then ucast (UacpiNtMsiCountFromRequirement d) else 1)"

definition irq_encodable :: "io_desc \<Rightarrow> u64 \<Rightarrow> bool" where
  "irq_encodable d start \<longleftrightarrow>
     (if message_request d then UACPINT_MSI_GSIV_BASE \<le> start \<and> start \<le> UACPINT_MSI_GSIV_LAST
      else start < UACPINT_MSI_GSIV_BASE)"

lemma packed_count:
  "drop_bit 16 (push_bit 16 (UacpiNtMsiCountFromRequirement d)) = UacpiNtMsiCountFromRequirement d"
proof (rule word_unat_eq_iff [THEN iffD2])
  have "unat (UacpiNtMsiCountFromRequirement d) < 2 ^ 16" using MsiCount_range(2) [of d] by simp
  then show "unat (drop_bit 16 (push_bit 16 (UacpiNtMsiCountFromRequirement d))) = unat (UacpiNtMsiCountFromRequirement d)"
    by (simp add: push_bit_eq_mult drop_bit_eq_div unat_div unat_word_ariths)
qed

lemma message_flag: "(f OR CM_RESOURCE_INTERRUPT_MESSAGE) AND CM_RESOURCE_INTERRUPT_MESSAGE \<noteq> 0"
  by (simp add: bit.conj_disj_distrib2)

lemma ucast_message_bound: "start < 2 ^ 32 \<Longrightarrow> (ucast start :: u32) < 0xFFF00000 \<longleftrightarrow> start < UACPINT_MSI_GSIV_BASE"
  using unat_ucast_narrow [of start, where 'b = 32] by (simp add: word_less_nat_alt)

lemma Pack_Unpack:
  assumes "io_Type d = CmResourceTypeInterrupt" and "irq_encodable d start"
    and "UacpiNtIrqPackResource d start cm Records = (s, cm', Records')"
  shows "s = STATUS_SUCCESS" and "UacpiNtIrqUnpackResource cm' = (STATUS_SUCCESS, start, irq_length d)"
proof -
  have small: "start < 2 ^ 32"
    using assms(2) by (auto simp: irq_encodable_def word_less_nat_alt word_le_nat_alt split: if_splits)
  have count: "UacpiNtMsiCountFromRequirement d \<noteq> 0" "UacpiNtMsiCountFromRequirement d \<le> 32"
    using MsiCount_range [of d] by (auto simp: word_le_nat_alt)
  show "s = STATUS_SUCCESS"
    using assms(3) by (auto simp: UacpiNtIrqPackResource_def Let_def split: if_splits)
  show "UacpiNtIrqUnpackResource cm' = (STATUS_SUCCESS, start, irq_length d)"
  proof (cases "message_request d")
    case True
    with assms(2) have "\<not> start < UACPINT_MSI_GSIV_BASE" by (simp add: irq_encodable_def not_less)
    with True assms(3) count show ?thesis
      by (auto simp: UacpiNtIrqPackResource_def UacpiNtIrqUnpackResource_def Let_def irq_length_def packed_count
          message_flag ucast_narrow_widen [OF small])
  next
    case False
    with assms(2) have lt: "start < UACPINT_MSI_GSIV_BASE" by (simp add: irq_encodable_def)
    then have "\<not> 0xFFF00000 \<le> (ucast start :: u32)" using ucast_message_bound [OF small] by (simp add: not_le)
    with lt False assms(3) show ?thesis
      by (auto simp: UacpiNtIrqPackResource_def UacpiNtIrqUnpackResource_def Let_def irq_length_def message_request_def
          ucast_narrow_widen [OF small])
  qed
qed

lemma Pack_ignores_records:
  "fst (UacpiNtIrqPackResource d start cm Records) = fst (UacpiNtIrqPackResource d start cm Records')"
  "fst (snd (UacpiNtIrqPackResource d start cm Records)) = fst (snd (UacpiNtIrqPackResource d start cm Records'))"
  by (simp_all add: UacpiNtIrqPackResource_def Let_def)

text \<open>
  The score counts the lines of a window, at most 0xFFFF of them, with five more when the window
  reaches past the ISA lines. The window from the last line to line 0 wraps to two lines.
\<close>

lemma IrqScore_exact:
  assumes "io_Type d = CmResourceTypeInterrupt" and "io_MinimumVector d \<le> io_MaximumVector d"
  shows "unat (UacpiNtIrqScoreRequirement d) =
    min (unat (io_MaximumVector d) - unat (io_MinimumVector d) + 1) 0xFFFF +
    (if unat (io_MaximumVector d) \<ge> 16 then 5 else 0)"
proof -
  let ?n = "io_MaximumVector d - io_MinimumVector d"
  have n: "unat ?n = unat (io_MaximumVector d) - unat (io_MinimumVector d)"
    using assms(2) by (simp add: unat_sub)
  have s: "unat (?n + 1) = unat ?n + 1" if "?n \<noteq> - 1"
    using that unatSuc [of ?n] by (simp add: add.commute add_eq_0_iff)
  show ?thesis
  proof (cases "?n = - 1 \<or> ?n + 1 > 0xFFFF")
    case True
    have "unat (- 1 :: u32) = 2 ^ 32 - 1" by (simp add: unsigned_minus_1_eq_mask mask_eq_exp_minus_1)
    with True s have "unat ?n + 1 > 0xFFFF" by (cases "?n = - 1") (simp_all add: word_less_nat_alt)
    with True assms(1) n show ?thesis by (auto simp: UacpiNtIrqScoreRequirement_def Let_def word_le_nat_alt)
  next
    case False
    then have "unat (?n + 1) \<le> 0xFFFF" by (simp add: word_less_nat_alt)
    moreover from this have "unat (6 + ?n) = 6 + unat ?n" using s False by (subst unat_add_nowrap) simp_all
    ultimately show ?thesis using False assms(1) n s by (auto simp: UacpiNtIrqScoreRequirement_def Let_def word_le_nat_alt)
  qed
qed

lemma IrqScore_inverted:
  "io_Type d = CmResourceTypeInterrupt \<Longrightarrow> io_MinimumVector d = - 1 \<Longrightarrow> io_MaximumVector d = 0 \<Longrightarrow>
   UacpiNtIrqScoreRequirement d = 2"
  by (simp add: UacpiNtIrqScoreRequirement_def)

interpretation irq_cd: resource_codec "irq_codec model" irq_length irq_encodable for model
proof
  fix d start cm
  assume a: "fst (cb_UnpackRequirement (irq_codec model) d) = STATUS_SUCCESS" "irq_encodable d start"
  then have ty: "io_Type d = CmResourceTypeInterrupt"
    by (auto simp: irq_codec_def UacpiNtIrqUnpackRequirement_def split: if_splits)
  obtain s cm' R where p: "UacpiNtIrqPackResource d start cm [] = (s, cm', R)" by (rule prod_cases3)
  from Pack_Unpack [OF ty a(2) p] p
  show "\<exists>pack unpack cm'. cb_PackResource (irq_codec model) = Some pack \<and>
      cb_UnpackResource (irq_codec model) = Some unpack \<and> pack d start cm = (STATUS_SUCCESS, cm') \<and>
      unpack cm' = (STATUS_SUCCESS, start, irq_length d)"
    by (simp add: irq_codec_def)
qed

end
