(* ===== verification/Irq_Vectors.thy ===== *)
theory Irq_Vectors
  imports Arbiter_Seed
begin

text \<open>
  The vector allocator behind the interrupt arbiter (sys/irqlib.c): which IDT entries are free on
  every processor, the vector of each line (GSIV), the runs of message vectors, secondary vectors,
  the MADT overrides and the HAL entry points that hand vectors out. The invariant is that no vector
  is ever handed to two users.
\<close>

section \<open>State\<close>

record processor_idt =
  pi_UsedEntries :: range_list
  pi_Valid :: bool

record message_run =
  mr_Owner :: "device option"
  mr_MessageGsiv :: u32
  mr_Base :: u32
  mr_Count :: u32
  mr_Claimed :: bool

record isa_override =
  iso_Gsiv :: u32
  iso_Valid :: bool

text \<open>
  The static variables of irqlib.c. The arrays have the lengths of the source (256 processors and
  GSIVs, 128 message runs, 16 ISA interrupts); the array of secondary GSIVs is the part in use, so
  its length is UacpiNtSecondaryVectorCount.
\<close>

record irq_lib =
  il_InterruptModel :: u32
  il_PicVectorBase :: u32
  il_PicBaseValid :: bool
  il_ProcessorIdt :: "processor_idt list"
  il_ProcessorIdtCount :: nat
  il_GsivVector :: "u32 list"
  il_GsivLevel :: "u32 list"
  il_GsivForcedEdge :: "u32 list"
  il_GsivForcedHigh :: "u32 list"
  il_GsivForcedLow :: "u32 list"
  il_HalGrantedVectors :: "u32 list"
  il_HalGrantedCount :: u32
  il_MessageRuns :: "message_run list"
  il_SecondaryVectorGsiv :: "u32 list"
  il_IsaOverride :: "isa_override list"

abbreviation (input) UACPINT_MAX_GSIV :: u32 where "UACPINT_MAX_GSIV \<equiv> 256"
abbreviation (input) UACPINT_MAX_IDT_VECTOR :: u32 where "UACPINT_MAX_IDT_VECTOR \<equiv> 0xFF"
abbreviation (input) UACPINT_DEVICE_VECTOR_FIRST :: u32 where "UACPINT_DEVICE_VECTOR_FIRST \<equiv> 0x50"
abbreviation (input) UACPINT_DEVICE_VECTOR_LAST :: u32 where "UACPINT_DEVICE_VECTOR_LAST \<equiv> 0xBF"
abbreviation (input) UACPINT_MESSAGE_GSIV_BASE :: u32 where "UACPINT_MESSAGE_GSIV_BASE \<equiv> 0xFFF00000"
abbreviation (input) UACPINT_SECONDARY_VECTOR_BASE :: u32 where "UACPINT_SECONDARY_VECTOR_BASE \<equiv> 256"
abbreviation (input) ACPI_NT_APIC :: u32 where "ACPI_NT_APIC \<equiv> 1"

text \<open>An element of the interrupt connection data property.\<close>

datatype vector_kind = InterruptTypeControllerInput u32 | InterruptTypeMessageRequest

record vector_data =
  vd_Type :: vector_kind
  vd_Vector :: u32
  vd_Irql :: u8
  vd_ActiveLow :: bool
  vd_Level :: bool
  vd_Target :: u64

text \<open>
  What the code asks of the HAL and the kernel. A routine that is looked up by name and may be
  missing is an option; IoSetDevicePropertyData answers STATUS_NOT_SUPPORTED when it is missing.
  \<open>h_GetInterruptVector g\<close> is the HAL's HalGetInterruptVector(Isa, 0, g, g).
\<close>

record irq_hal =
  h_ConvertDeviceIdtToIrql :: "(u32 \<Rightarrow> u8) option"
  h_ActiveProcessors :: u64
  h_IsInterruptTypeSecondary :: "(u32 \<Rightarrow> bool) option"
  h_QueryPrimary :: "(u32 \<Rightarrow> ntstatus \<times> u32) option"
  h_GetInterruptVector :: "(u32 \<Rightarrow> u32 \<times> u8 \<times> u64) option"
  h_SetConnectionData :: "device \<Rightarrow> vector_data list \<Rightarrow> ntstatus"
  h_Pool :: bool

section \<open>Bitmaps and line attributes\<close>

definition UacpiNtTestBit :: "u32 list \<Rightarrow> u32 \<Rightarrow> bool" where
  "UacpiNtTestBit Map Bit \<longleftrightarrow> drop_bit (unat (Bit mod 32)) (Map ! unat (Bit div 32)) AND 1 \<noteq> 0"

definition UacpiNtSetBit :: "u32 list \<Rightarrow> u32 \<Rightarrow> u32 list" where
  "UacpiNtSetBit Map Bit =
     (let i = unat (Bit div 32) in Map[i := Map ! i OR push_bit (unat (Bit mod 32)) 1])"

definition UacpiNtVectorToIrql :: "irq_hal \<Rightarrow> u32 \<Rightarrow> u8" where
  "UacpiNtVectorToIrql H Vector =
     (case h_ConvertDeviceIdtToIrql H of Some f \<Rightarrow> f Vector | None \<Rightarrow> ucast (drop_bit 4 Vector))"

definition UacpiNtLowestProcessor :: "u64 \<Rightarrow> u64" where
  "UacpiNtLowestProcessor Affinity =
     (let Affinity = Affinity AND (NOT Affinity + 1) in if Affinity \<noteq> 0 then Affinity else 1)"

definition UacpiNtIrqLibNoteLevelGsiv :: "u32 \<Rightarrow> irq_lib \<Rightarrow> irq_lib" where
  "UacpiNtIrqLibNoteLevelGsiv Gsiv L =
     (if Gsiv < UACPINT_MAX_GSIV then L\<lparr>il_GsivLevel := UacpiNtSetBit (il_GsivLevel L) Gsiv\<rparr> else L)"

definition UacpiNtIrqLibNoteEdgeGsiv :: "u32 \<Rightarrow> irq_lib \<Rightarrow> irq_lib" where
  "UacpiNtIrqLibNoteEdgeGsiv Gsiv L =
     (if Gsiv < UACPINT_MAX_GSIV
      then L\<lparr>il_GsivForcedEdge := UacpiNtSetBit (il_GsivForcedEdge L) Gsiv\<rparr> else L)"

definition UacpiNtIrqLibGsivForcedEdge :: "irq_lib \<Rightarrow> u32 \<Rightarrow> bool" where
  "UacpiNtIrqLibGsivForcedEdge L Gsiv \<longleftrightarrow>
     Gsiv < UACPINT_MAX_GSIV \<and> UacpiNtTestBit (il_GsivForcedEdge L) Gsiv"

definition UacpiNtGsivIsLevel :: "irq_lib \<Rightarrow> u32 \<Rightarrow> bool" where
  "UacpiNtGsivIsLevel L Gsiv \<longleftrightarrow> Gsiv < UACPINT_MAX_GSIV \<and> UacpiNtTestBit (il_GsivLevel L) Gsiv"

definition UacpiNtGsivIsActiveLow :: "irq_lib \<Rightarrow> u32 \<Rightarrow> bool" where
  "UacpiNtGsivIsActiveLow L Gsiv =
     (if Gsiv < UACPINT_MAX_GSIV \<and> UacpiNtTestBit (il_GsivForcedHigh L) Gsiv then False
      else if Gsiv < UACPINT_MAX_GSIV \<and> UacpiNtTestBit (il_GsivForcedLow L) Gsiv then True
      else UacpiNtGsivIsLevel L Gsiv)"

section \<open>Seeding the IDT state\<close>

definition UacpiNtHalGrantedVector :: "irq_lib \<Rightarrow> u32 \<Rightarrow> bool" where
  "UacpiNtHalGrantedVector L Vector \<longleftrightarrow>
     Vector \<le> UACPINT_MAX_IDT_VECTOR \<and> UacpiNtTestBit (il_HalGrantedVectors L) Vector"

fun grant_loop :: "cm_desc list \<Rightarrow> irq_lib \<Rightarrow> irq_lib" where
  "grant_loop [] L = L"
| "grant_loop (d # ds) L =
     (if cm_Type d \<noteq> CmResourceTypeInterrupt \<or> cm_Vector d > UACPINT_MAX_IDT_VECTOR \<or>
         UacpiNtHalGrantedVector L (cm_Vector d)
      then grant_loop ds L
      else grant_loop ds (L\<lparr>il_HalGrantedVectors := UacpiNtSetBit (il_HalGrantedVectors L) (cm_Vector d),
                            il_HalGrantedCount := il_HalGrantedCount L + 1\<rparr>))"

text \<open>The descriptors are those of the first list of the raw start resources, None without one.\<close>

definition UacpiNtIrqLibSetHalVectors :: "cm_desc list option \<Rightarrow> irq_lib \<Rightarrow> irq_lib" where
  "UacpiNtIrqLibSetHalVectors Resources L =
     (let L = L\<lparr>il_HalGrantedVectors := replicate 8 0, il_HalGrantedCount := 0\<rparr>
      in case Resources of None \<Rightarrow> L | Some ds \<Rightarrow> grant_loop ds L)"

text \<open>The first vector from \<open>Vector\<close> on that is granted, 256 when there is none.\<close>

function run_end :: "irq_lib \<Rightarrow> nat \<Rightarrow> nat" where
  "run_end L Vector =
     (if Vector \<le> 0xFF \<and> \<not> UacpiNtHalGrantedVector L (of_nat Vector) then run_end L (Suc Vector) else Vector)"
  by pat_completeness auto

termination run_end by (relation "measure (\<lambda>(L, v). 256 - v)") auto

declare run_end.simps [simp del]

lemma run_end_ge: "Vector \<le> run_end L Vector"
proof (induction L Vector rule: run_end.induct)
  case (1 L Vector)
  then show ?case by (subst run_end.simps) auto
qed

lemma run_end_gt: "Vector \<le> 0xFF \<Longrightarrow> \<not> UacpiNtHalGrantedVector L (of_nat Vector) \<Longrightarrow> Vector < run_end L Vector"
  using run_end_ge [of "Suc Vector" L] by (subst run_end.simps) simp

function seed_loop :: "nt_kernel \<Rightarrow> irq_lib \<Rightarrow> nat \<Rightarrow> range_list \<Rightarrow> range_list" where
  "seed_loop K L Vector rl =
     (if Vector > 0xFF then rl
      else if UacpiNtHalGrantedVector L (of_nat Vector) then seed_loop K L (Suc Vector) rl
      else seed_loop K L (run_end L Vector)
             (k_RtlAddRange K rl (of_nat Vector) (of_nat (run_end L Vector) - 1) 0 0 None))"
  by pat_completeness auto

termination seed_loop
  by (relation "measure (\<lambda>(K, L, v, rl). 256 - v)") (auto simp: diff_less_mono2 run_end_gt not_less)

declare seed_loop.simps [simp del]

definition UacpiNtSeedIdtState :: "nt_kernel \<Rightarrow> irq_lib \<Rightarrow> range_list" where
  "UacpiNtSeedIdtState K L =
     (if il_HalGrantedCount L = 0
      then k_RtlAddRange K
             (k_RtlAddRange K [] 0 (ucast (UACPINT_DEVICE_VECTOR_FIRST - 1)) 0 0 None)
             (ucast (UACPINT_DEVICE_VECTOR_LAST + 1)) (ucast UACPINT_MAX_IDT_VECTOR) 0 0 None
      else seed_loop K L 0 [])"

definition UacpiNtSeedProcessor :: "nt_kernel \<Rightarrow> nat \<Rightarrow> irq_lib \<Rightarrow> irq_lib" where
  "UacpiNtSeedProcessor K Processor L =
     (if pi_Valid (il_ProcessorIdt L ! Processor) then L
      else L\<lparr>il_ProcessorIdt :=
               (il_ProcessorIdt L)[Processor := \<lparr>pi_UsedEntries = UacpiNtSeedIdtState K L, pi_Valid = True\<rparr>],
             il_ProcessorIdtCount := max (il_ProcessorIdtCount L) (Processor + 1)\<rparr>)"

definition UacpiNtProcessorChangeCallback :: "nt_kernel \<Rightarrow> bool \<Rightarrow> nat \<Rightarrow> irq_lib \<Rightarrow> irq_lib" where
  "UacpiNtProcessorChangeCallback K AddComplete NtNumber L =
     (if \<not> AddComplete then L
      else if NtNumber < 256 \<and> \<not> pi_Valid (il_ProcessorIdt L ! NtNumber)
      then UacpiNtSeedProcessor K NtNumber L else L)"

definition UacpiNtSeedExistingProcessors :: "nt_kernel \<Rightarrow> u8 \<Rightarrow> irq_lib \<Rightarrow> irq_lib" where
  "UacpiNtSeedExistingProcessors K KeNumberProcessors L =
     fold (UacpiNtSeedProcessor K) [0..<min (unat KeNumberProcessors) 256] L"

section \<open>Allocation\<close>

definition UacpiNtVectorFreeEverywhere :: "nt_kernel \<Rightarrow> irq_lib \<Rightarrow> u32 \<Rightarrow> bool" where
  "UacpiNtVectorFreeEverywhere K L Vector \<longleftrightarrow>
     list_all (\<lambda>p. pi_Valid p \<longrightarrow> k_RtlIsRangeAvailable K (pi_UsedEntries p) (ucast Vector) (ucast Vector) 0 0)
       (take (il_ProcessorIdtCount L) (il_ProcessorIdt L))"

text \<open>Apply an update to the used entries of every tracked processor.\<close>

definition on_processors :: "(range_list \<Rightarrow> range_list) \<Rightarrow> irq_lib \<Rightarrow> irq_lib" where
  "on_processors f L =
     L\<lparr>il_ProcessorIdt :=
         map (\<lambda>p. if pi_Valid p then p\<lparr>pi_UsedEntries := f (pi_UsedEntries p)\<rparr> else p)
           (take (il_ProcessorIdtCount L) (il_ProcessorIdt L)) @
         drop (il_ProcessorIdtCount L) (il_ProcessorIdt L)\<rparr>"

definition UacpiNtClaimVectors :: "nt_kernel \<Rightarrow> u32 \<Rightarrow> u32 \<Rightarrow> device option \<Rightarrow> irq_lib \<Rightarrow> irq_lib" where
  "UacpiNtClaimVectors K First Last Owner =
     on_processors (\<lambda>rl. k_RtlAddRange K rl (ucast First) (ucast Last) 0 0 Owner)"

text \<open>The owner a line's vector is recorded under: the pointer value Gsiv + 1.\<close>

definition line_owner :: "u32 \<Rightarrow> device option" where
  "line_owner Gsiv = (if Gsiv + 1 = 0 then None else Some (unat (Gsiv + 1)))"

abbreviation (input) UACPINT_MSI_RANGE_OWNER :: "device option" where
  "UACPINT_MSI_RANGE_OWNER \<equiv> Some 0xACB1A5E1"

definition vector_band :: "u32 list" where
  "vector_band = map of_nat [0x50..<0xC0]"

definition UacpiNtApicAllocateVector :: "nt_kernel \<Rightarrow> irq_lib \<Rightarrow> u32 \<Rightarrow> ntstatus \<times> u32 \<times> irq_lib" where
  "UacpiNtApicAllocateVector K L Gsiv =
     (if Gsiv < UACPINT_MAX_GSIV \<and> il_GsivVector L ! unat Gsiv \<noteq> 0
      then (STATUS_SUCCESS, il_GsivVector L ! unat Gsiv, L)
      else if il_ProcessorIdtCount L = 0 then (STATUS_UNSUCCESSFUL, 0, L)
      else
        case find (UacpiNtVectorFreeEverywhere K L) vector_band of
          None \<Rightarrow> (STATUS_INSUFFICIENT_RESOURCES, 0, L)
        | Some Candidate \<Rightarrow>
            let L = UacpiNtClaimVectors K Candidate Candidate (line_owner Gsiv) L
            in (STATUS_SUCCESS, Candidate,
                if Gsiv < UACPINT_MAX_GSIV
                then L\<lparr>il_GsivVector := (il_GsivVector L)[unat Gsiv := Candidate]\<rparr> else L))"

text \<open>
  The loop of UacpiNtApicAllocateVectorRange on fuel: \<open>Some None\<close> when the candidates run out, None
  when the fuel does, which \<open>range_fuel\<close> is shown to rule out.
\<close>

fun range_loop :: "nat \<Rightarrow> nt_kernel \<Rightarrow> irq_lib \<Rightarrow> u32 \<Rightarrow> u32 \<Rightarrow> u32 \<Rightarrow> u32 option option" where
  "range_loop 0 K L Count Alignment Candidate = None"
| "range_loop (Suc n) K L Count Alignment Candidate =
     (if Candidate + Count - 1 > UACPINT_DEVICE_VECTOR_LAST then Some None
      else if list_all (\<lambda>Offset. UacpiNtVectorFreeEverywhere K L (Candidate + of_nat Offset)) [0..<unat Count]
      then Some (Some Candidate)
      else range_loop n K L Count Alignment (Candidate + Alignment))"

abbreviation (input) range_fuel :: nat where "range_fuel \<equiv> 0xC1"

definition range_alignment :: "u32 \<Rightarrow> u32" where
  "range_alignment Count = (if Count AND (Count - 1) \<noteq> 0 then 1 else Count)"

definition UacpiNtApicAllocateVectorRange ::
    "nt_kernel \<Rightarrow> irq_lib \<Rightarrow> u32 \<Rightarrow> (ntstatus \<times> u32 \<times> irq_lib) option" where
  "UacpiNtApicAllocateVectorRange K L Count =
     (let Count = (if Count = 0 then 1 else Count)
      in if il_ProcessorIdtCount L = 0 then Some (STATUS_UNSUCCESSFUL, 0, L)
         else
           let Alignment = range_alignment Count;
               Candidate = (UACPINT_DEVICE_VECTOR_FIRST + Alignment - 1) AND NOT (Alignment - 1)
           in case range_loop range_fuel K L Count Alignment Candidate of
                None \<Rightarrow> None
              | Some None \<Rightarrow> Some (STATUS_INSUFFICIENT_RESOURCES, 0, L)
              | Some (Some Base) \<Rightarrow>
                  Some (STATUS_SUCCESS, Base,
                        UacpiNtClaimVectors K Base (Base + Count - 1) UACPINT_MSI_RANGE_OWNER L))"

definition UacpiNtApicFreeVectorRange :: "nt_kernel \<Rightarrow> u32 \<Rightarrow> u32 \<Rightarrow> irq_lib \<Rightarrow> irq_lib" where
  "UacpiNtApicFreeVectorRange K BaseVector Count =
     (let Count = (if Count = 0 then 1 else Count)
      in on_processors (\<lambda>rl. k_RtlDeleteRange K rl (ucast BaseVector) (ucast (BaseVector + Count - 1))
                               UACPINT_MSI_RANGE_OWNER))"


section \<open>Message runs\<close>

definition free_run :: "irq_lib \<Rightarrow> nat option" where
  "free_run L = find (\<lambda>i. mr_Owner (il_MessageRuns L ! i) = None) [0..<length (il_MessageRuns L)]"

definition record_run :: "nat \<Rightarrow> message_run \<Rightarrow> irq_lib \<Rightarrow> irq_lib" where
  "record_run i r L = L\<lparr>il_MessageRuns := (il_MessageRuns L)[i := r]\<rparr>"

definition matching_run :: "irq_lib \<Rightarrow> device \<Rightarrow> u32 \<Rightarrow> u32 \<Rightarrow> nat option" where
  "matching_run L Owner MessageGsiv Count =
     find (\<lambda>i. let r = il_MessageRuns L ! i
               in mr_Owner r = Some Owner \<and> mr_MessageGsiv r = MessageGsiv \<and> mr_Count r = Count)
       [0..<length (il_MessageRuns L)]"

text \<open>The status, the base vector, its IRQL and its target processor.\<close>

definition UacpiNtIrqLibResolveMessageVector ::
    "nt_kernel \<Rightarrow> irq_hal \<Rightarrow> irq_lib \<Rightarrow> device \<Rightarrow> u32 \<Rightarrow> u32 \<Rightarrow> (ntstatus \<times> u32 \<times> u8 \<times> u64 \<times> irq_lib) option" where
  "UacpiNtIrqLibResolveMessageVector K H L Owner MessageGsiv Count =
     (let Count = (if Count = 0 then 1 else Count);
          answer = (\<lambda>Base L. Some (STATUS_SUCCESS, Base, UacpiNtVectorToIrql H Base,
                      UacpiNtLowestProcessor (h_ActiveProcessors H), L))
      in if il_InterruptModel L \<noteq> ACPI_NT_APIC then Some (STATUS_NOT_SUPPORTED, 0, 0, 0, L)
         else case matching_run L Owner MessageGsiv Count of
           Some i \<Rightarrow> answer (mr_Base (il_MessageRuns L ! i)) L
         | None \<Rightarrow>
             (case free_run L of
                None \<Rightarrow> Some (STATUS_INSUFFICIENT_RESOURCES, 0, 0, 0, L)
              | Some i \<Rightarrow>
                  (case UacpiNtApicAllocateVectorRange K L Count of
                     None \<Rightarrow> None
                   | Some (Status, Base, L1) \<Rightarrow>
                       if NT_SUCCESS Status
                       then answer Base (record_run i \<lparr>mr_Owner = Some Owner, mr_MessageGsiv = MessageGsiv,
                              mr_Base = Base, mr_Count = Count, mr_Claimed = False\<rparr> L1)
                       else if Count > 1
                       then
                         (case UacpiNtApicAllocateVectorRange K L1 1 of
                            None \<Rightarrow> None
                          | Some (RetryStatus, Base, L2) \<Rightarrow>
                              if NT_SUCCESS RetryStatus
                              then answer Base (record_run i \<lparr>mr_Owner = Some Owner, mr_MessageGsiv = MessageGsiv,
                                     mr_Base = Base, mr_Count = 1, mr_Claimed = False\<rparr> L2)
                              else Some (Status, 0, 0, 0, L2))
                       else Some (Status, 0, 0, 0, L1))))"

definition UacpiNtOwnerHasMessages :: "irq_lib \<Rightarrow> device \<Rightarrow> bool" where
  "UacpiNtOwnerHasMessages L Owner \<longleftrightarrow>
     list_ex (\<lambda>r. mr_Owner r = Some Owner \<and> mr_Count r \<noteq> 0) (il_MessageRuns L)"

definition UacpiNtMessageRunPrecedes :: "message_run \<Rightarrow> message_run \<Rightarrow> bool" where
  "UacpiNtMessageRunPrecedes Run Other =
     (if mr_MessageGsiv Run \<noteq> mr_MessageGsiv Other
      then if mr_MessageGsiv Run = 0 \<or> mr_MessageGsiv Other = 0 then mr_MessageGsiv Run \<noteq> 0
           else mr_MessageGsiv Run > mr_MessageGsiv Other
      else mr_Base Run < mr_Base Other)"

text \<open>
  The emission loop. \<open>next_run\<close> is one scan of the table for the next run, over the runs not yet
  emitted; \<open>emit_loop\<close> stops at \<open>Total\<close> elements or when no run is left.
\<close>

fun next_run :: "message_run list \<Rightarrow> message_run option \<Rightarrow> message_run option" where
  "next_run [] Next = Next"
| "next_run (Run # rs) Next =
     next_run rs (case Next of
        None \<Rightarrow> Some Run
      | Some N \<Rightarrow> if UacpiNtMessageRunPrecedes Run N then Some Run else Some N)"

definition run_element :: "irq_hal \<Rightarrow> u64 \<Rightarrow> message_run \<Rightarrow> nat \<Rightarrow> vector_data" where
  "run_element H Target Run Message =
     (let Vector = mr_Base Run + of_nat Message
      in \<lparr>vd_Type = InterruptTypeMessageRequest, vd_Vector = Vector, vd_Irql = UacpiNtVectorToIrql H Vector,
          vd_ActiveLow = False, vd_Level = False, vd_Target = Target\<rparr>)"

function emit_loop :: "irq_hal \<Rightarrow> u64 \<Rightarrow> nat \<Rightarrow> message_run list \<Rightarrow> vector_data list" where
  "emit_loop H Target Room runs =
     (if Room = 0 then []
      else case next_run runs None of
             None \<Rightarrow> []
           | Some Run \<Rightarrow>
               let n = min (unat (mr_Count Run)) Room
               in map (run_element H Target Run) [0..<n] @ emit_loop H Target (Room - n) (remove1 Run runs))"
  by pat_completeness auto

lemma next_run_in: "next_run runs Next = Some r \<Longrightarrow> Some r = Next \<or> r \<in> set runs"
  by (induction runs Next rule: next_run.induct) (auto split: option.splits if_splits)

termination emit_loop
proof (relation "measure (\<lambda>(H, t, n, runs). length runs)")
  fix H Target Room runs Run n
  assume "next_run runs None = Some Run"
  then have "Run \<in> set runs" using next_run_in by fastforce
  then have "Run \<in> set runs" "0 < length runs" by (auto intro: length_pos_if_in_set)
  then show "((H, Target, Room - n, remove1 Run runs), H, Target, Room, runs) \<in> measure (\<lambda>(H, t, n, runs). length runs)"
    by (simp add: length_remove1)
qed simp

declare emit_loop.simps [simp del]

text \<open>A zeroed element: type, mode and polarity are the first of their enumerations.\<close>

definition zero_element :: vector_data where
  "zero_element = \<lparr>vd_Type = InterruptTypeControllerInput 0, vd_Vector = 0, vd_Irql = 0, vd_ActiveLow = False,
     vd_Level = True, vd_Target = 0\<rparr>"

definition UacpiNtWriteMessageConnectionData ::
    "nt_kernel \<Rightarrow> irq_hal \<Rightarrow> irq_lib \<Rightarrow> device \<Rightarrow> u32 \<Rightarrow> u32 \<Rightarrow> (ntstatus \<times> vector_data list option \<times> irq_lib) option" where
  "UacpiNtWriteMessageConnectionData K H L Pdo MessageGsiv Count =
     (let Count = (if Count = 0 then 1 else Count)
      in case UacpiNtIrqLibResolveMessageVector K H L Pdo MessageGsiv Count of
           None \<Rightarrow> None
         | Some (Status, Base, Irql, Processors, L) \<Rightarrow>
             if \<not> NT_SUCCESS Status then Some (Status, None, L)
             else
               let mine = filter (\<lambda>r. mr_Owner r = Some Pdo) (il_MessageRuns L);
                   Total = sum_list (map mr_Count mine);
                   Total = (if Total = 0 then Count else Total)
               in if \<not> h_Pool H then Some (STATUS_INSUFFICIENT_RESOURCES, None, L)
                  else
                    let Data = emit_loop H (UacpiNtLowestProcessor Processors) (unat Total)
                                 (filter (\<lambda>r. mr_Count r \<noteq> 0) mine);
                        Data = (if Data = [] then replicate (unat Total) zero_element else Data)
                    in Some (h_SetConnectionData H Pdo Data, Some Data, L))"

section \<open>Line vectors\<close>

definition UacpiNtIsSecondaryGsiv :: "irq_hal \<Rightarrow> u32 \<Rightarrow> bool" where
  "UacpiNtIsSecondaryGsiv H Gsiv =
     (case h_IsInterruptTypeSecondary H of None \<Rightarrow> False | Some f \<Rightarrow> f Gsiv)"

definition UacpiNtAllocateSecondaryVector :: "irq_lib \<Rightarrow> u32 \<Rightarrow> ntstatus \<times> u32 \<times> irq_lib" where
  "UacpiNtAllocateSecondaryVector L Gsiv =
     (let gs = il_SecondaryVectorGsiv L
      in case find (\<lambda>i. gs ! i = Gsiv) [0..<length gs] of
           Some Index \<Rightarrow> (STATUS_SUCCESS, UACPINT_SECONDARY_VECTOR_BASE + of_nat Index, L)
         | None \<Rightarrow>
             if length gs < 256
             then (STATUS_SUCCESS, UACPINT_SECONDARY_VECTOR_BASE + of_nat (length gs),
                   L\<lparr>il_SecondaryVectorGsiv := gs @ [Gsiv]\<rparr>)
             else (STATUS_INSUFFICIENT_RESOURCES, 0, L))"

abbreviation (input) HIGH_LEVEL :: u8 where "HIGH_LEVEL \<equiv> 15"

definition UacpiNtResolveSecondaryVector ::
    "nt_kernel \<Rightarrow> irq_hal \<Rightarrow> irq_lib \<Rightarrow> u32 \<Rightarrow> ntstatus \<times> u32 \<times> u8 \<times> irq_lib" where
  "UacpiNtResolveSecondaryVector K H L Gsiv =
     (let (Status, Vector, L) = UacpiNtAllocateSecondaryVector L Gsiv
      in if \<not> NT_SUCCESS Status then (Status, Vector, 0, L)
         else case h_QueryPrimary H of
           None \<Rightarrow> (STATUS_SUCCESS, Vector, HIGH_LEVEL, L)
         | Some query \<Rightarrow>
             let (Status, PrimaryGsiv) = query Gsiv
             in if \<not> NT_SUCCESS Status then (STATUS_SUCCESS, Vector, HIGH_LEVEL, L)
                else
                  let (Status, PrimaryVector, L) = UacpiNtApicAllocateVector K L PrimaryGsiv
                  in case h_ConvertDeviceIdtToIrql H of
                       None \<Rightarrow> (STATUS_SUCCESS, Vector, HIGH_LEVEL, L)
                     | Some f \<Rightarrow> (STATUS_SUCCESS, Vector, if NT_SUCCESS Status then f PrimaryVector else HIGH_LEVEL, L))"

text \<open>The answer of UacpiNtIrqLibResolveVector, as the element it fills.\<close>

definition line_element :: "irq_lib \<Rightarrow> u32 \<Rightarrow> u32 \<Rightarrow> u8 \<Rightarrow> u64 \<Rightarrow> vector_data" where
  "line_element L Gsiv Vector Irql Affinity =
     \<lparr>vd_Type = InterruptTypeControllerInput Gsiv, vd_Vector = Vector, vd_Irql = Irql,
      vd_ActiveLow = UacpiNtGsivIsActiveLow L Gsiv, vd_Level = UacpiNtGsivIsLevel L Gsiv, vd_Target = Affinity\<rparr>"

definition UacpiNtIrqLibResolveVector ::
    "nt_kernel \<Rightarrow> irq_hal \<Rightarrow> irq_lib \<Rightarrow> u32 \<Rightarrow> ntstatus \<times> vector_data \<times> irq_lib" where
  "UacpiNtIrqLibResolveVector K H L Gsiv =
     (if UacpiNtIsSecondaryGsiv H Gsiv
      then
        let (Status, Assigned, VectorIrql, L) = UacpiNtResolveSecondaryVector K H L Gsiv
        in (if NT_SUCCESS Status then STATUS_SUCCESS else Status,
            line_element L Gsiv Assigned VectorIrql (h_ActiveProcessors H), L)
      else
        let answer = (\<lambda>Assigned VectorIrql Target L.
              (STATUS_SUCCESS,
               line_element L Gsiv Assigned VectorIrql
                 (UacpiNtLowestProcessor (if Target = 0 then h_ActiveProcessors H else Target)), L))
        in if il_InterruptModel L = ACPI_NT_APIC
           then
             let (Status, Assigned, L) = UacpiNtApicAllocateVector K L Gsiv
             in if \<not> NT_SUCCESS Status then (Status, zero_element, L)
                else answer Assigned (UacpiNtVectorToIrql H Assigned) (h_ActiveProcessors H) L
           else
             let (HalVector, HalIrql, HalAffinity) =
                   (case h_GetInterruptVector H of None \<Rightarrow> (0, 0, 0) | Some f \<Rightarrow> f Gsiv)
             in if HalVector \<noteq> 0
                then answer HalVector HalIrql (if HalAffinity \<noteq> 0 then HalAffinity else h_ActiveProcessors H) L
                else if \<not> il_PicBaseValid L then (STATUS_NOT_SUPPORTED, zero_element, L)
                else
                  let Assigned = il_PicVectorBase L + Gsiv
                  in answer Assigned (UacpiNtVectorToIrql H Assigned) (h_ActiveProcessors H) L)"

definition UacpiNtIrqLibWriteConnectionData ::
    "nt_kernel \<Rightarrow> irq_hal \<Rightarrow> irq_lib \<Rightarrow> device \<Rightarrow> u32 \<Rightarrow> u32 \<Rightarrow> (ntstatus \<times> vector_data list option \<times> irq_lib) option" where
  "UacpiNtIrqLibWriteConnectionData K H L Pdo Gsiv Count =
     (if Gsiv \<ge> UACPINT_MESSAGE_GSIV_BASE then UacpiNtWriteMessageConnectionData K H L Pdo Gsiv Count
      else if UacpiNtOwnerHasMessages L Pdo then Some (STATUS_SUCCESS, None, L)
      else
        let (Status, Element, L) = UacpiNtIrqLibResolveVector K H L Gsiv
        in if \<not> NT_SUCCESS Status then Some (Status, None, L)
           else Some (h_SetConnectionData H Pdo [Element], Some [Element], L))"

section \<open>MADT overrides\<close>

text \<open>
  The interrupt source overrides of the MADT, parsed from the bytes of its entries: each entry
  starts with its type and its length.
\<close>

definition le32 :: "u8 \<Rightarrow> u8 \<Rightarrow> u8 \<Rightarrow> u8 \<Rightarrow> u32" where
  "le32 a b c d = ucast a OR push_bit 8 (ucast b) OR push_bit 16 (ucast c) OR push_bit 24 (ucast d)"

definition madt_override :: "u8 list \<Rightarrow> irq_lib \<Rightarrow> irq_lib" where
  "madt_override e L =
     (let bus = e ! 2; source = unat (e ! 3); gsi = le32 (e ! 4) (e ! 5) (e ! 6) (e ! 7);
          flags = ucast (e ! 8) OR push_bit 8 (ucast (e ! 9)) :: u32
      in if bus \<noteq> 0 \<or> source \<ge> 16 then L
         else
           let L = L\<lparr>il_IsaOverride := (il_IsaOverride L)[source := \<lparr>iso_Gsiv = gsi, iso_Valid = True\<rparr>]\<rparr>;
               Trigger = flags AND 12;
               L = (if Trigger = 12 then UacpiNtIrqLibNoteLevelGsiv gsi L
                    else if Trigger = 4 then UacpiNtIrqLibNoteEdgeGsiv gsi L else L);
               Polarity = flags AND 3
           in if gsi < UACPINT_MAX_GSIV
              then if Polarity = 1 then L\<lparr>il_GsivForcedHigh := UacpiNtSetBit (il_GsivForcedHigh L) gsi\<rparr>
                   else if Polarity = 3 then L\<lparr>il_GsivForcedLow := UacpiNtSetBit (il_GsivForcedLow L) gsi\<rparr>
                   else L
              else L)"

function UacpiNtParseMadt :: "u8 list \<Rightarrow> irq_lib \<Rightarrow> irq_lib" where
  "UacpiNtParseMadt Cursor L =
     (if length Cursor < 2 then L
      else if unat (Cursor ! 1) < 2 \<or> unat (Cursor ! 1) > length Cursor then L
      else UacpiNtParseMadt (drop (unat (Cursor ! 1)) Cursor)
             (if Cursor ! 0 \<noteq> 2 \<or> unat (Cursor ! 1) < 10 then L
              else madt_override (take (unat (Cursor ! 1)) Cursor) L))"
  by pat_completeness auto

termination UacpiNtParseMadt by (relation "measure (\<lambda>(c, L). length c)") auto

declare UacpiNtParseMadt.simps [simp del]

definition UacpiNtGsivFromIrq :: "irq_lib \<Rightarrow> u32 \<Rightarrow> u32" where
  "UacpiNtGsivFromIrq L Irq =
     (if Irq < 16 \<and> iso_Valid (il_IsaOverride L ! unat Irq) then iso_Gsiv (il_IsaOverride L ! unat Irq) else Irq)"

section \<open>HAL entry points\<close>

text \<open>The vector, 0 for none, with its IRQL and affinity.\<close>

definition UacpiNtHalGetInterruptVectorOverride :: "irq_hal \<Rightarrow> irq_lib \<Rightarrow> u32 \<Rightarrow> u32 \<Rightarrow> u32 \<times> u8 \<times> u64" where
  "UacpiNtHalGetInterruptVectorOverride H L BusInterruptLevel BusInterruptVector =
     (if BusInterruptLevel \<noteq> BusInterruptVector then (0, 0, 0)
      else
        let Gsiv = UacpiNtGsivFromIrq L BusInterruptLevel
        in if Gsiv \<ge> UACPINT_MAX_GSIV \<or> il_GsivVector L ! unat Gsiv = 0 then (0, 0, 0)
           else let Vector = il_GsivVector L ! unat Gsiv
                in (Vector, UacpiNtVectorToIrql H Vector, h_ActiveProcessors H))"

text \<open>The input and whether it is active low, when the vector is a line's.\<close>

definition UacpiNtHalGetVectorInputOverride :: "irq_lib \<Rightarrow> u32 \<Rightarrow> ntstatus \<times> (u32 \<times> bool) option" where
  "UacpiNtHalGetVectorInputOverride L Vector =
     (if Vector = 0 then (STATUS_INVALID_PARAMETER, None)
      else case find (\<lambda>i. il_GsivVector L ! i = Vector) [0..<256] of
             Some Index \<Rightarrow> (STATUS_SUCCESS, Some (of_nat Index, UacpiNtGsivIsActiveLow L (of_nat Index)))
           | None \<Rightarrow>
               if list_ex (\<lambda>r. mr_Owner r \<noteq> None \<and> mr_Count r \<noteq> 0 \<and> mr_Base r \<le> Vector \<and>
                               Vector < mr_Base r + mr_Count r) (il_MessageRuns L)
               then (STATUS_INVALID_PARAMETER, None) else (STATUS_NOT_FOUND, None))"

text \<open>The lowest unclaimed run of the owner with the given count.\<close>

fun best_run :: "device \<Rightarrow> u32 \<Rightarrow> (nat \<times> message_run) list \<Rightarrow> (nat \<times> message_run) option \<Rightarrow> (nat \<times> message_run) option" where
  "best_run Owner Count [] Best = Best"
| "best_run Owner Count (x # xs) Best =
     best_run Owner Count xs
       (if mr_Owner (snd x) = Some Owner \<and> mr_Count (snd x) = Count \<and> \<not> mr_Claimed (snd x) \<and>
           (case Best of None \<Rightarrow> True | Some b \<Rightarrow> mr_Base (snd x) < mr_Base (snd b))
        then Some x else Best)"

definition UacpiNtHalAllocateMessageTargetOverride ::
    "nt_kernel \<Rightarrow> irq_hal \<Rightarrow> bool \<Rightarrow> irq_lib \<Rightarrow> device \<Rightarrow> u32 \<Rightarrow> (ntstatus \<times> u32 \<times> u8 \<times> irq_lib) option" where
  "UacpiNtHalAllocateMessageTargetOverride K H Passive L Owner NumberOfIdtEntries =
     (let Count = (if NumberOfIdtEntries \<noteq> 0 then NumberOfIdtEntries else 1);
          answer = (\<lambda>Base L. Some (STATUS_SUCCESS, Base, UacpiNtVectorToIrql H Base, L))
      in if \<not> Passive \<or> il_InterruptModel L \<noteq> ACPI_NT_APIC then Some (STATUS_NOT_SUPPORTED, 0, 0, L)
         else case best_run Owner Count (enumerate 0 (il_MessageRuns L)) None of
           Some (i, Best) \<Rightarrow> answer (mr_Base Best) (record_run i (Best\<lparr>mr_Claimed := True\<rparr>) L)
         | None \<Rightarrow>
             (case free_run L of
                None \<Rightarrow> Some (STATUS_INSUFFICIENT_RESOURCES, 0, 0, L)
              | Some i \<Rightarrow>
                  (case UacpiNtApicAllocateVectorRange K L Count of
                     None \<Rightarrow> None
                   | Some (Status, Base, L) \<Rightarrow>
                       if NT_SUCCESS Status
                       then answer Base (record_run i \<lparr>mr_Owner = Some Owner, mr_MessageGsiv = 0, mr_Base = Base,
                              mr_Count = Count, mr_Claimed = True\<rparr> L)
                       else Some (Status, 0, 0, L))))"

definition zero_run :: message_run where
  "zero_run = \<lparr>mr_Owner = None, mr_MessageGsiv = 0, mr_Base = 0, mr_Count = 0, mr_Claimed = False\<rparr>"

definition UacpiNtHalFreeMessageTargetOverride :: "nt_kernel \<Rightarrow> irq_lib \<Rightarrow> device \<Rightarrow> u32 \<Rightarrow> irq_lib" where
  "UacpiNtHalFreeMessageTargetOverride K L Owner Vector =
     (case find (\<lambda>i. let r = il_MessageRuns L ! i
                     in mr_Owner r = Some Owner \<and> mr_Base r \<le> Vector \<and> Vector < mr_Base r + mr_Count r)
             [0..<length (il_MessageRuns L)] of
        None \<Rightarrow> L
      | Some i \<Rightarrow>
          let Run = il_MessageRuns L ! i
          in if mr_MessageGsiv Run = 0
             then record_run i zero_run (UacpiNtApicFreeVectorRange K (mr_Base Run) (mr_Count Run) L)
             else record_run i (Run\<lparr>mr_Claimed := False\<rparr>) L)"

text \<open>\<open>SciGsi\<close> is the SCI interrupt of the FADT, MAXULONG without one.\<close>

definition UacpiNtInitializePic :: "irq_hal \<Rightarrow> u32 \<Rightarrow> irq_lib \<Rightarrow> irq_lib" where
  "UacpiNtInitializePic H SciGsi L =
     (let SciVector = (if SciGsi \<noteq> - 1
                       then (case h_GetInterruptVector H of None \<Rightarrow> 0 | Some f \<Rightarrow> fst (f SciGsi)) else 0)
      in L\<lparr>il_PicVectorBase := if SciVector \<noteq> 0 \<and> SciVector \<ge> SciGsi then SciVector - SciGsi else 0x30,
           il_PicBaseValid := True\<rparr>)"

end
