(* ===== verification/Irq_Links.thy ===== *)
theory Irq_Links
  imports Irq_Vectors
begin

text \<open>
  PCI interrupt routing (sys/irqarb.c): the interrupt links (PNP0C0F), each decided once onto a line
  of its _PRS and cached, and the walk from a PCI function up through its bridges to the _PRT that
  names its line. What firmware methods, the device properties and configuration space answer is
  a parameter.
\<close>

section \<open>Environment and state\<close>

type_synonym node = nat

text \<open>
  The entries of a uACPI resource list before its end tag. The attribute bytes of an interrupt
  descriptor are carried along unchanged; every other kind is \<open>ResOther\<close>.
\<close>

datatype link_resource = ResIrq "u8 list" "u8 list" | ResExtendedIrq "u8 list" "u32 list" | ResOther nat

record prt_entry =
  pe_address :: u32
  pe_index :: u32
  pe_source :: "node option"
  pe_pin :: u8

text \<open>
  \<open>'f\<close> is the state of the firmware that _SRS changes and _CRS reads. \<open>re_Children\<close> are the hardware
  IDs and nodes of the children of the root FDO, None without one; \<open>re_Filters\<close> the nodes and foreign
  PDOs of its filter list. \<open>re_ReadPciConfig d offset\<close> is a one byte read through the bus interface,
  \<open>re_HalGetBusData bus slot offset\<close> a dword read through the HAL, None when it falls short.
  \<open>re_SetResources\<close> tells whether _SRS succeeded.
\<close>

record 'f route_env =
  re_Children :: "(string \<times> node) list option"
  re_Filters :: "(node option \<times> device option) list"
  re_Bbn :: "node \<Rightarrow> u64 option"
  re_ReadPciConfig :: "device \<Rightarrow> u32 \<Rightarrow> u8 option"
  re_HalGetBusData :: "u32 \<Rightarrow> u32 \<Rightarrow> u32 \<Rightarrow> u32 option"
  re_BusNumber :: "device \<Rightarrow> ntstatus \<times> u32"
  re_Address :: "device \<Rightarrow> ntstatus \<times> u32"
  re_RoutingTable :: "node \<Rightarrow> prt_entry list option"
  re_PossibleResources :: "node \<Rightarrow> link_resource list option"
  re_CurrentResources :: "'f \<Rightarrow> node \<Rightarrow> link_resource list option"
  re_SetResources :: "node \<Rightarrow> link_resource list \<Rightarrow> 'f \<Rightarrow> bool \<times> 'f"

record irq_link =
  lk_Node :: "node option"
  lk_Gsiv :: u32

text \<open>The globals of irqarb.c that routing uses, the firmware and the state of the vector library.\<close>

record 'f irq_route =
  ir_Links :: "irq_link list"
  ir_LinkRotation :: u32
  ir_PciExclusionMask :: u16
  ir_SciGsiv :: u32
  ir_Firmware :: 'f
  ir_Lib :: irq_lib

abbreviation (input) UACPINT_IRQ_LINK_NONE :: u32 where "UACPINT_IRQ_LINK_NONE \<equiv> - 1"
abbreviation (input) UACPINT_LINK_CANDIDATE_MAX :: nat where "UACPINT_LINK_CANDIDATE_MAX \<equiv> 16"
abbreviation (input) UACPINT_PRT_MAX_DEPTH :: nat where "UACPINT_PRT_MAX_DEPTH \<equiv> 8"

section \<open>Links\<close>

definition UacpiNtLinkSlot :: "node \<Rightarrow> bool \<Rightarrow> 'f irq_route \<Rightarrow> nat option \<times> 'f irq_route" where
  "UacpiNtLinkSlot Node Create S =
     (case find (\<lambda>i. lk_Node (ir_Links S ! i) = Some Node) [0..<length (ir_Links S)] of
        Some i \<Rightarrow> (Some i, S)
      | None \<Rightarrow>
          if \<not> Create then (None, S)
          else case find (\<lambda>i. lk_Node (ir_Links S ! i) = None) [0..<length (ir_Links S)] of
                 Some i \<Rightarrow> (Some i, S\<lparr>ir_Links := (ir_Links S)
                              [i := \<lparr>lk_Node = Some Node, lk_Gsiv = UACPINT_IRQ_LINK_NONE\<rparr>]\<rparr>)
               | None \<Rightarrow> (None, S))"

fun first_irqs :: "link_resource list \<Rightarrow> u32 list" where
  "first_irqs [] = []"
| "first_irqs (ResIrq a irqs # rs) = map ucast irqs"
| "first_irqs (ResExtendedIrq a irqs # rs) = irqs"
| "first_irqs (ResOther k # rs) = first_irqs rs"

definition UacpiNtLinkCandidates :: "'f route_env \<Rightarrow> node \<Rightarrow> u32 list" where
  "UacpiNtLinkCandidates E Link =
     (case re_PossibleResources E Link of
        None \<Rightarrow> [] | Some rs \<Rightarrow> take UACPINT_LINK_CANDIDATE_MAX (first_irqs rs))"

text \<open>The template with its first line replaced.\<close>

fun set_line :: "u32 \<Rightarrow> link_resource list \<Rightarrow> link_resource list" where
  "set_line Gsiv [] = []"
| "set_line Gsiv (ResIrq a irqs # rs) =
     (if irqs \<noteq> [] then ResIrq a [ucast Gsiv] # rs else ResIrq a irqs # set_line Gsiv rs)"
| "set_line Gsiv (ResExtendedIrq a irqs # rs) =
     (if irqs \<noteq> [] then ResExtendedIrq a [Gsiv] # rs else ResExtendedIrq a irqs # set_line Gsiv rs)"
| "set_line Gsiv (ResOther k # rs) = ResOther k # set_line Gsiv rs"

definition UacpiNtLinkProgram :: "'f route_env \<Rightarrow> node \<Rightarrow> u32 \<Rightarrow> 'f \<Rightarrow> ntstatus \<times> 'f" where
  "UacpiNtLinkProgram E Link Gsiv fw =
     (case re_CurrentResources E fw Link of
        None \<Rightarrow> (STATUS_NOT_FOUND, fw)
      | Some rs \<Rightarrow>
          let (ok, fw) = re_SetResources E Link (set_line Gsiv rs) fw
          in (if ok then STATUS_SUCCESS else STATUS_UNSUCCESSFUL, fw))"

definition UacpiNtGsivHeldByLink :: "'f irq_route \<Rightarrow> u32 \<Rightarrow> bool" where
  "UacpiNtGsivHeldByLink S Gsiv \<longleftrightarrow> list_ex (\<lambda>l. lk_Node l \<noteq> None \<and> lk_Gsiv l = Gsiv) (ir_Links S)"

definition UacpiNtLinkLineUsable :: "'f irq_route \<Rightarrow> u32 \<Rightarrow> bool \<Rightarrow> bool" where
  "UacpiNtLinkLineUsable S Gsiv AvoidOtherLinks \<longleftrightarrow>
     Gsiv \<noteq> ir_SciGsiv S \<and>
     \<not> (Gsiv < 16 \<and> ucast (ir_PciExclusionMask S) AND push_bit (unat Gsiv) (1 :: u32) \<noteq> 0) \<and>
     \<not> (AvoidOtherLinks \<and> UacpiNtGsivHeldByLink S Gsiv)"

text \<open>The candidates in the order a pass tries them; the index is a ULONG and wraps.\<close>

definition rotated :: "u32 \<Rightarrow> u32 list \<Rightarrow> u32 list" where
  "rotated Rotation Candidates =
     map (\<lambda>Index. Candidates ! unat ((Rotation + of_nat Index) mod of_nat (length Candidates))) [0..<length Candidates]"

definition UacpiNtLinkChoose :: "'f route_env \<Rightarrow> 'f irq_route \<Rightarrow> node \<Rightarrow> u32 option" where
  "UacpiNtLinkChoose E S Link =
     (let Candidates = rotated (ir_LinkRotation S) (UacpiNtLinkCandidates E Link)
      in case find (\<lambda>g. UacpiNtLinkLineUsable S g True) Candidates of
           Some g \<Rightarrow> Some g
         | None \<Rightarrow> find (\<lambda>g. UacpiNtLinkLineUsable S g False) Candidates)"

fun nth_line :: "nat \<Rightarrow> link_resource list \<Rightarrow> u32 option" where
  "nth_line Index [] = None"
| "nth_line Index (ResIrq a irqs # rs) =
     (case Index of
        0 \<Rightarrow> if irqs \<noteq> [] then Some (ucast (hd irqs)) else None
      | Suc k \<Rightarrow> nth_line k rs)"
| "nth_line Index (ResExtendedIrq a irqs # rs) =
     (case Index of
        0 \<Rightarrow> if irqs \<noteq> [] then Some (hd irqs) else None
      | Suc k \<Rightarrow> nth_line k rs)"
| "nth_line Index (ResOther k # rs) = nth_line Index rs"

definition UacpiNtLinkCurrentGsiv :: "'f route_env \<Rightarrow> 'f \<Rightarrow> node \<Rightarrow> u32 \<Rightarrow> u32 option" where
  "UacpiNtLinkCurrentGsiv E fw Link Index =
     (case re_CurrentResources E fw Link of None \<Rightarrow> None | Some rs \<Rightarrow> nth_line (unat Index) rs)"

text \<open>The line an undecided link is put on, and the firmware after programming it.\<close>

definition link_decision :: "'f route_env \<Rightarrow> node \<Rightarrow> 'f irq_route \<Rightarrow> u32 option \<times> 'f" where
  "link_decision E Node S =
     (let fw = ir_Firmware S;
          Current = (case UacpiNtLinkCurrentGsiv E fw Node 0 of None \<Rightarrow> UACPINT_IRQ_LINK_NONE | Some g \<Rightarrow> g);
          Firmware_line = (if Current = UACPINT_IRQ_LINK_NONE then None else Some Current)
      in case (case UacpiNtLinkChoose E S Node of Some g \<Rightarrow> Some g | None \<Rightarrow> Firmware_line) of
           None \<Rightarrow> (None, fw)
         | Some Chosen \<Rightarrow>
             if Chosen = Current then (Some Chosen, fw)
             else
               let (Status, fw) = UacpiNtLinkProgram E Node Chosen fw
               in (if NT_SUCCESS Status then Some Chosen else Firmware_line, fw))"

definition UacpiNtIrqLinkDecide :: "'f route_env \<Rightarrow> node \<Rightarrow> 'f irq_route \<Rightarrow> u32 option \<times> 'f irq_route" where
  "UacpiNtIrqLinkDecide E Node S =
     (case UacpiNtLinkSlot Node True S of
        (None, S) \<Rightarrow> (None, S)
      | (Some i, S) \<Rightarrow>
          let Slot = ir_Links S ! i
          in if lk_Gsiv Slot \<noteq> UACPINT_IRQ_LINK_NONE then (Some (lk_Gsiv Slot), S)
             else case link_decision E Node S of
                    (None, fw) \<Rightarrow> (None, S\<lparr>ir_Firmware := fw\<rparr>)
                  | (Some Chosen, fw) \<Rightarrow>
                      (Some Chosen, S\<lparr>ir_Firmware := fw, ir_Links := (ir_Links S)[i := Slot\<lparr>lk_Gsiv := Chosen\<rparr>]\<rparr>))"

text \<open>One pass over the slots; a failure is only traced.\<close>

definition UacpiNtIrqLinksResume :: "'f route_env \<Rightarrow> 'f irq_route \<Rightarrow> 'f irq_route" where
  "UacpiNtIrqLinksResume E S =
     (if il_InterruptModel (ir_Lib S) \<noteq> 0 then S
      else fold (\<lambda>Slot S. case lk_Node Slot of
               None \<Rightarrow> S
             | Some n \<Rightarrow>
                 if lk_Gsiv Slot = UACPINT_IRQ_LINK_NONE then S
                 else S\<lparr>ir_Firmware := snd (UacpiNtLinkProgram E n (lk_Gsiv Slot) (ir_Firmware S))\<rparr>)
             (ir_Links S) S)"

definition UacpiNtLinkNodeGsiv ::
    "'f route_env \<Rightarrow> node \<Rightarrow> u32 \<Rightarrow> 'f irq_route \<Rightarrow> ntstatus \<times> u32 \<times> 'f irq_route" where
  "UacpiNtLinkNodeGsiv E Link Index S =
     (let (Found, S) = (if Index \<noteq> 0 then (UacpiNtLinkCurrentGsiv E (ir_Firmware S) Link Index, S)
                        else UacpiNtIrqLinkDecide E Link S)
      in case Found of None \<Rightarrow> (STATUS_NOT_FOUND, 0, S) | Some g \<Rightarrow> (STATUS_SUCCESS, g, S))"

section \<open>Routing tables\<close>

definition UacpiNtPciSlotFromAddress :: "u32 \<Rightarrow> u32" where
  "UacpiNtPciSlotFromAddress Address =
     (drop_bit 16 Address AND 0x1F) OR push_bit 5 (Address AND 7)"

definition UacpiNtHalReadConfigDword :: "'f route_env \<Rightarrow> u32 \<Rightarrow> u32 \<Rightarrow> u32 \<Rightarrow> ntstatus \<times> u32" where
  "UacpiNtHalReadConfigDword E Bus Slot Offset =
     (case re_HalGetBusData E Bus Slot Offset of
        Some Value \<Rightarrow> (STATUS_SUCCESS, Value) | None \<Rightarrow> (STATUS_UNSUCCESSFUL, 0))"

definition lower_char :: "char \<Rightarrow> char" where
  "lower_char c = (if of_char c \<ge> (65 :: nat) \<and> of_char c \<le> (90 :: nat) then char_of (of_char c + 32 :: nat) else c)"

definition UacpiNtHidIsPciRoot :: "string \<Rightarrow> bool" where
  "UacpiNtHidIsPciRoot Hid \<longleftrightarrow>
     map lower_char Hid = map lower_char ''PNP0A03'' \<or> map lower_char Hid = map lower_char ''PNP0A08''"

text \<open>At most 8 roots are considered, in list order.\<close>

definition UacpiNtFindPciRootNode :: "'f route_env \<Rightarrow> u32 \<Rightarrow> node option" where
  "UacpiNtFindPciRootNode E Bus =
     (case re_Children E of
        None \<Rightarrow> None
      | Some children \<Rightarrow>
          find (\<lambda>n. (case re_Bbn E n of None \<Rightarrow> 0 | Some BaseBus \<Rightarrow> ucast BaseBus) = Bus)
            (take 8 (map snd (filter (\<lambda>(hid, n). UacpiNtHidIsPciRoot hid) children))))"

text \<open>The filters with both a node and a foreign PDO, at most 32 of them.\<close>

definition bridge_candidates :: "'f route_env \<Rightarrow> (node \<times> device) list" where
  "bridge_candidates E =
     take 32 (concat (map (\<lambda>f. case f of (Some n, Some p) \<Rightarrow> [(n, p)] | _ \<Rightarrow> []) (re_Filters E)))"

definition UacpiNtFindBridgeNodeForBus :: "'f route_env \<Rightarrow> u32 \<Rightarrow> (node \<times> device) option" where
  "UacpiNtFindBridgeNodeForBus E Bus =
     (case re_Children E of
        None \<Rightarrow> None
      | Some _ \<Rightarrow>
          find (\<lambda>(n, p). case re_ReadPciConfig E p 0x0E of
                  None \<Rightarrow> False
                | Some HeaderType \<Rightarrow>
                    if HeaderType AND NOT 0x80 \<noteq> 1 then False
                    else case re_ReadPciConfig E p 0x19 of
                           None \<Rightarrow> False
                         | Some SecondaryBus \<Rightarrow> ucast SecondaryBus = Bus)
            (bridge_candidates E))"

definition prt_matches :: "u32 \<Rightarrow> u8 \<Rightarrow> prt_entry \<Rightarrow> bool" where
  "prt_matches Device Pin e \<longleftrightarrow>
     drop_bit 16 (pe_address e) = Device \<and>
     (pe_address e AND 0xFFFF = 0xFFFF \<or> pe_address e AND 0xFFFF = 0) \<and> pe_pin e = Pin - 1"

definition UacpiNtCrackPrt ::
    "'f route_env \<Rightarrow> node \<Rightarrow> u32 \<Rightarrow> u8 \<Rightarrow> 'f irq_route \<Rightarrow> ntstatus \<times> u32 \<times> 'f irq_route" where
  "UacpiNtCrackPrt E Node Device Pin S =
     (case re_RoutingTable E Node of
        None \<Rightarrow> (STATUS_NOT_FOUND, 0, S)
      | Some Prt \<Rightarrow>
          case find (prt_matches Device Pin) Prt of
            None \<Rightarrow> (STATUS_NOT_FOUND, 0, S)
          | Some e \<Rightarrow>
              case pe_source e of
                Some src \<Rightarrow> UacpiNtLinkNodeGsiv E src (pe_index e) S
              | None \<Rightarrow> (STATUS_SUCCESS, pe_index e, S))"

text \<open>The bus, device and pin one bridge up, None for STATUS_NOT_FOUND.\<close>

definition UacpiNtPrtClimbBridge :: "'f route_env \<Rightarrow> device \<Rightarrow> u32 \<Rightarrow> u8 \<Rightarrow> (u32 \<times> u32 \<times> u8) option" where
  "UacpiNtPrtClimbBridge E BridgePdo Device Pin =
     (let (BusStatus, Bus) = re_BusNumber E BridgePdo;
          (AddressStatus, BridgeAddress) = re_Address E BridgePdo
      in if \<not> NT_SUCCESS BusStatus \<or> \<not> NT_SUCCESS AddressStatus then None
         else
           let Slot = UacpiNtPciSlotFromAddress BridgeAddress;
               (ClassStatus, ClassDword) = UacpiNtHalReadConfigDword E Bus Slot 0x08;
               SubClass = ucast (drop_bit 16 ClassDword) :: u8
           in if \<not> NT_SUCCESS ClassStatus then None
              else if SubClass = 0x04
              then Some (Bus, drop_bit 16 BridgeAddress, ucast (((Device + (ucast Pin - 1)) AND 3) + 1))
              else if SubClass = 0x07
              then
                let (PinStatus, PinDword) = UacpiNtHalReadConfigDword E Bus Slot 0x3C;
                    NewPin = ucast (drop_bit 8 PinDword) :: u8
                in if \<not> NT_SUCCESS PinStatus \<or> NewPin = 0 \<or> NewPin > 4 then None
                   else Some (Bus, drop_bit 16 BridgeAddress, NewPin)
              else None)"

fun prt_loop ::
    "nat \<Rightarrow> 'f route_env \<Rightarrow> u32 \<Rightarrow> u32 \<Rightarrow> u8 \<Rightarrow> ntstatus \<Rightarrow> 'f irq_route \<Rightarrow> ntstatus \<times> u32 \<times> 'f irq_route" where
  "prt_loop 0 E Bus Device Pin Status S = (Status, 0, S)"
| "prt_loop (Suc n) E Bus Device Pin Status S =
     (case UacpiNtFindPciRootNode E Bus of
        Some Producer \<Rightarrow> UacpiNtCrackPrt E Producer Device Pin S
      | None \<Rightarrow>
          case UacpiNtFindBridgeNodeForBus E Bus of
            None \<Rightarrow> (STATUS_NOT_FOUND, 0, S)
          | Some (Producer, BridgePdo) \<Rightarrow>
              let (Status, Gsiv, S) = UacpiNtCrackPrt E Producer Device Pin S
              in if NT_SUCCESS Status then (Status, Gsiv, S)
                 else case UacpiNtPrtClimbBridge E BridgePdo Device Pin of
                        None \<Rightarrow> (STATUS_NOT_FOUND, 0, S)
                      | Some (Bus, Device, Pin) \<Rightarrow> prt_loop n E Bus Device Pin Status S)"

definition UacpiNtPrtResolveGsiv :: "'f route_env \<Rightarrow> device \<Rightarrow> 'f irq_route \<Rightarrow> ntstatus \<times> u32 \<times> 'f irq_route" where
  "UacpiNtPrtResolveGsiv E DevicePdo S =
     (let (BusStatus, Bus) = re_BusNumber E DevicePdo; (AddressStatus, Address) = re_Address E DevicePdo
      in if \<not> NT_SUCCESS BusStatus then (BusStatus, 0, S)
         else if \<not> NT_SUCCESS AddressStatus then (AddressStatus, 0, S)
         else
           let (PinStatus, PinDword) = UacpiNtHalReadConfigDword E Bus (UacpiNtPciSlotFromAddress Address) 0x3C;
               Pin = ucast (drop_bit 8 PinDword) :: u8
           in if \<not> NT_SUCCESS PinStatus \<or> Pin = 0 \<or> Pin > 4 then (STATUS_NOT_FOUND, 0, S)
              else
                let (Status, Gsiv, S) =
                      prt_loop UACPINT_PRT_MAX_DEPTH E Bus (drop_bit 16 Address) Pin STATUS_NOT_FOUND S
                in (Status, Gsiv,
                    if NT_SUCCESS Status then S\<lparr>ir_Lib := UacpiNtIrqLibNoteLevelGsiv Gsiv (ir_Lib S)\<rparr> else S))"

section \<open>A link is decided once\<close>

text \<open>The line a node's slot holds, once there is one.\<close>

definition decided :: "'f irq_route \<Rightarrow> node \<Rightarrow> u32 \<Rightarrow> bool" where
  "decided S n g \<longleftrightarrow>
     g \<noteq> UACPINT_IRQ_LINK_NONE \<and> (\<exists>l. find (\<lambda>l. lk_Node l = Some n) (ir_Links S) = Some l \<and> lk_Gsiv l = g)"

definition keeps :: "'f irq_route \<Rightarrow> 'f irq_route \<Rightarrow> bool" where
  "keeps S S' \<longleftrightarrow> (\<forall>n g. decided S n g \<longrightarrow> decided S' n g)"

lemma keeps_refl [simp]: "keeps S S"
  by (simp add: keeps_def)

lemma keeps_trans: "keeps S S' \<Longrightarrow> keeps S' S'' \<Longrightarrow> keeps S S''"
  by (simp add: keeps_def)

lemma decided_updates [simp]:
  "decided (S\<lparr>ir_Firmware := fw\<rparr>) n g = decided S n g" "decided (S\<lparr>ir_Lib := L\<rparr>) n g = decided S n g"
  "decided (S\<lparr>ir_LinkRotation := r\<rparr>) n g = decided S n g"
  by (simp_all add: decided_def)

lemma keeps_updates [simp]:
  "keeps S (S'\<lparr>ir_Firmware := fw\<rparr>) = keeps S S'" "keeps S (S'\<lparr>ir_Lib := L\<rparr>) = keeps S S'"
  "keeps S (S'\<lparr>ir_LinkRotation := r\<rparr>) = keeps S S'"
  by (simp_all add: keeps_def)

lemma find_update_other:
  assumes "\<not> P (xs ! i)" and "\<not> P y"
  shows "find P (xs[i := y]) = find P xs"
  using assms by (induction xs arbitrary: i) (auto split: nat.split)

text \<open>The first slot of a node.\<close>

definition first_slot :: "irq_link list \<Rightarrow> node \<Rightarrow> nat \<Rightarrow> bool" where
  "first_slot ls n i \<longleftrightarrow>
     i < length ls \<and> lk_Node (ls ! i) = Some n \<and> (\<forall>j < i. lk_Node (ls ! j) \<noteq> Some n)"

lemma find_index_Some:
  assumes "find (\<lambda>i. P (xs ! i)) [0..<length xs] = Some i"
  shows "i < length xs \<and> P (xs ! i) \<and> (\<forall>j < i. \<not> P (xs ! j))"
  using assms by (auto simp: find_Some_iff)

lemma find_index_None: "find (\<lambda>i. P (xs ! i)) [0..<length xs] = None \<Longrightarrow> x \<in> set xs \<Longrightarrow> \<not> P x"
  by (auto simp: find_None_iff in_set_conv_nth)

lemma first_slot_find: "first_slot ls n i \<Longrightarrow> find (\<lambda>l. lk_Node l = Some n) ls = Some (ls ! i)"
  by (auto simp: first_slot_def find_Some_iff)

lemma first_slot_update:
  "first_slot ls n i \<Longrightarrow> lk_Node l = Some n \<Longrightarrow> first_slot (ls[i := l]) n i"
  by (simp add: first_slot_def)

text \<open>The three outcomes of UacpiNtLinkSlot: the node's first slot, a free slot made its own, or none.\<close>

lemma LinkSlot_cases:
  assumes "UacpiNtLinkSlot n True S = (r, S')"
  obtains (old) i where "r = Some i" "S' = S" "first_slot (ir_Links S) n i"
    | (new) i where "r = Some i" "i < length (ir_Links S)" "lk_Node (ir_Links S ! i) = None"
      "\<forall>l \<in> set (ir_Links S). lk_Node l \<noteq> Some n"
      "S' = S\<lparr>ir_Links := (ir_Links S)[i := \<lparr>lk_Node = Some n, lk_Gsiv = UACPINT_IRQ_LINK_NONE\<rparr>]\<rparr>"
    | (full) "r = None" "S' = S" "\<forall>l \<in> set (ir_Links S). lk_Node l \<noteq> Some n \<and> lk_Node l \<noteq> None"
proof -
  let ?P = "\<lambda>l. lk_Node l = Some n" and ?F = "\<lambda>l. lk_Node l = None" and ?ls = "ir_Links S"
  show thesis
  proof (cases "find (\<lambda>i. ?P (?ls ! i)) [0..<length ?ls]")
    case (Some i)
    with assms have "r = Some i" "S' = S" by (simp_all add: UacpiNtLinkSlot_def)
    moreover have "first_slot ?ls n i"
      unfolding first_slot_def by (rule find_index_Some [where P = ?P, OF Some])
    ultimately show thesis by (rule old)
  next
    case None
    have n: "\<forall>l \<in> set ?ls. lk_Node l \<noteq> Some n" using find_index_None [where P = ?P, OF None] by blast
    show thesis
    proof (cases "find (\<lambda>i. ?F (?ls ! i)) [0..<length ?ls]")
      case (Some i)
      with None assms have "r = Some i"
        "S' = S\<lparr>ir_Links := ?ls[i := \<lparr>lk_Node = Some n, lk_Gsiv = UACPINT_IRQ_LINK_NONE\<rparr>]\<rparr>"
        by (simp_all add: UacpiNtLinkSlot_def)
      moreover have "i < length ?ls" "lk_Node (?ls ! i) = None"
        using find_index_Some [where P = ?F, OF Some] by simp_all
      ultimately show thesis using n by (intro new)
    next
      case full': None
      with None assms have "r = None" "S' = S" by (simp_all add: UacpiNtLinkSlot_def)
      moreover have "\<forall>l \<in> set ?ls. lk_Node l \<noteq> Some n \<and> lk_Node l \<noteq> None"
        using n find_index_None [where P = ?F, OF full'] by blast
      ultimately show thesis by (rule full)
    qed
  qed
qed

lemma LinkSlot_keeps:
  assumes "UacpiNtLinkSlot n True S = (r, S')"
  shows "keeps S S'"
  using assms
proof (cases rule: LinkSlot_cases)
  case (new i)
  have "decided S' m g" if d: "decided S m g" for m g
  proof -
    from d new(4) have "m \<noteq> n" by (auto simp: decided_def find_Some_iff)
    with d new(3,5) find_update_other [of "\<lambda>l. lk_Node l = Some m" "ir_Links S" i] show ?thesis
      by (auto simp: decided_def)
  qed
  then show ?thesis by (simp add: keeps_def)
qed simp_all

lemma LinkSlot_found:
  assumes "UacpiNtLinkSlot n True S = (Some i, S')"
  shows "first_slot (ir_Links S') n i" and "S' = S\<lparr>ir_Links := ir_Links S'\<rparr>"
proof -
  from assms show "first_slot (ir_Links S') n i"
    by (cases rule: LinkSlot_cases) (auto simp: first_slot_def nth_list_update)
  from assms show "S' = S\<lparr>ir_Links := ir_Links S'\<rparr>" by (cases rule: LinkSlot_cases) simp_all
qed

text \<open>Recording a line in the node's own, undecided slot.\<close>

lemma decide_slot:
  assumes f: "first_slot (ir_Links S) n i" and u: "lk_Gsiv (ir_Links S ! i) = UACPINT_IRQ_LINK_NONE"
    and S'_def: "S' = S\<lparr>ir_Links := (ir_Links S)[i := (ir_Links S ! i)\<lparr>lk_Gsiv := g\<rparr>]\<rparr>"
  shows "keeps S S'" and "g \<noteq> UACPINT_IRQ_LINK_NONE \<Longrightarrow> decided S' n g"
proof -
  have n: "lk_Node (ir_Links S ! i) = Some n" using f by (simp add: first_slot_def)
  have "decided S' m h" if d: "decided S m h" for m h
  proof -
    from d f u have "m \<noteq> n" by (auto simp: decided_def first_slot_find)
    with d n find_update_other [of "\<lambda>l. lk_Node l = Some m" "ir_Links S" i] show ?thesis
      by (auto simp: decided_def S'_def)
  qed
  then show "keeps S S'" by (simp add: keeps_def)
  have "first_slot (ir_Links S') n i" using f n by (simp add: S'_def first_slot_update)
  from first_slot_find [OF this] f show "g \<noteq> UACPINT_IRQ_LINK_NONE \<Longrightarrow> decided S' n g"
    by (simp add: decided_def S'_def first_slot_def)
qed

lemma LinkDecide_keeps:
  assumes "UacpiNtIrqLinkDecide E n S = (r, S')"
  shows "keeps S S'"
proof -
  obtain j S1 where s: "UacpiNtLinkSlot n True S = (j, S1)" by fastforce
  note k = LinkSlot_keeps [OF s]
  show ?thesis
  proof (cases j)
    case None
    with assms s k show ?thesis by (simp add: UacpiNtIrqLinkDecide_def)
  next
    case (Some i)
    with s have f: "first_slot (ir_Links S1) n i" by (simp add: LinkSlot_found)
    have "keeps S1 (S1\<lparr>ir_Firmware := fw, ir_Links := (ir_Links S1)[i := (ir_Links S1 ! i)\<lparr>lk_Gsiv := g\<rparr>]\<rparr>)"
      if "lk_Gsiv (ir_Links S1 ! i) = UACPINT_IRQ_LINK_NONE" for fw g
      using decide_slot(1) [of "S1\<lparr>ir_Firmware := fw\<rparr>" n i _ g] f that by (simp add: keeps_def)
    then have "keeps S1 S'"
      using assms s Some by (auto simp: UacpiNtIrqLinkDecide_def Let_def split: if_splits option.splits prod.splits)
    with k show ?thesis by (rule keeps_trans)
  qed
qed

lemma LinkDecide_decides:
  assumes "UacpiNtIrqLinkDecide E n S = (Some g, S')" and "g \<noteq> UACPINT_IRQ_LINK_NONE"
  shows "decided S' n g"
proof -
  obtain i S1 where s: "UacpiNtLinkSlot n True S = (Some i, S1)"
    using assms(1) by (auto simp: UacpiNtIrqLinkDecide_def split: prod.splits option.splits)
  have f: "first_slot (ir_Links S1) n i" by (rule LinkSlot_found [OF s])
  show ?thesis
  proof (cases "lk_Gsiv (ir_Links S1 ! i) = UACPINT_IRQ_LINK_NONE")
    case False
    with assms s first_slot_find [OF f] show ?thesis by (auto simp: UacpiNtIrqLinkDecide_def Let_def decided_def)
  next
    case True
    with assms s obtain fw where "S' = S1\<lparr>ir_Firmware := fw, ir_Links := (ir_Links S1)[i := (ir_Links S1 ! i)\<lparr>lk_Gsiv := g\<rparr>]\<rparr>"
      by (auto simp: UacpiNtIrqLinkDecide_def Let_def split: prod.splits option.splits)
    with decide_slot(2) [of "S1\<lparr>ir_Firmware := fw\<rparr>" n i S' g] f True assms(2) show ?thesis by simp
  qed
qed

lemma LinkDecide_cached:
  assumes "decided S n g"
  shows "UacpiNtIrqLinkDecide E n S = (Some g, S)"
proof -
  obtain j S1 where s: "UacpiNtLinkSlot n True S = (j, S1)" by fastforce
  from s show ?thesis
  proof (cases rule: LinkSlot_cases)
    case (old i)
    with assms s first_slot_find [OF old(3)] show ?thesis
      by (auto simp: UacpiNtIrqLinkDecide_def Let_def decided_def)
  qed (use assms in \<open>auto simp: decided_def find_Some_iff\<close>)
qed

text \<open>The other entry points.\<close>

lemma LinkNodeGsiv_keeps: "UacpiNtLinkNodeGsiv E n i S = (s, g, S') \<Longrightarrow> keeps S S'"
  by (auto simp: UacpiNtLinkNodeGsiv_def Let_def LinkDecide_keeps split: if_splits option.splits prod.splits)

lemma CrackPrt_keeps: "UacpiNtCrackPrt E n d p S = (s, g, S') \<Longrightarrow> keeps S S'"
  by (auto simp: UacpiNtCrackPrt_def LinkNodeGsiv_keeps split: option.splits)

lemma prt_loop_keeps: "prt_loop k E b d p s0 S = (s, g, S') \<Longrightarrow> keeps S S'"
proof (induction k arbitrary: b d p s0 S)
  case (Suc k)
  show ?case
  proof (cases "UacpiNtFindPciRootNode E b")
    case (Some n)
    with Suc.prems show ?thesis by (simp add: CrackPrt_keeps)
  next
    case None
    show ?thesis
    proof (cases "UacpiNtFindBridgeNodeForBus E b")
      case (Some x)
      obtain n q where x: "x = (n, q)" by fastforce
      obtain s1 g1 S1 where c: "UacpiNtCrackPrt E n d p S = (s1, g1, S1)" by (rule prod_cases3)
      have "keeps S1 S'"
        using Suc None Some x c by (auto split: if_splits option.splits)
      with CrackPrt_keeps [OF c] show ?thesis by (rule keeps_trans)
    qed (use Suc.prems None in simp)
  qed
qed simp

lemma PrtResolve_keeps: "UacpiNtPrtResolveGsiv E d S = (s, g, S') \<Longrightarrow> keeps S S'"
  by (auto simp: UacpiNtPrtResolveGsiv_def Let_def prt_loop_keeps split: prod.splits if_splits)

lemma LinksResume_links: "ir_Links (UacpiNtIrqLinksResume E S) = ir_Links S"
proof -
  have "ir_Links (fold (\<lambda>Slot S. case lk_Node Slot of None \<Rightarrow> S | Some n \<Rightarrow>
      if lk_Gsiv Slot = UACPINT_IRQ_LINK_NONE then S
      else S\<lparr>ir_Firmware := snd (UacpiNtLinkProgram E n (lk_Gsiv Slot) (ir_Firmware S))\<rparr>) ls S) = ir_Links S" for ls :: "irq_link list"
    by (induction ls arbitrary: S) (auto split: option.split)
  then show ?thesis by (simp add: UacpiNtIrqLinksResume_def)
qed

lemma LinksResume_keeps: "keeps S (UacpiNtIrqLinksResume E S)"
  by (simp add: keeps_def decided_def LinksResume_links)

text \<open>
  What can happen to the routing state: a link is decided, a device is routed, the links are put back
  after a sleep, a range is placed (which moves the rotation on), and the vector library works.
\<close>

inductive route_step :: "'f route_env \<Rightarrow> 'f irq_route \<Rightarrow> 'f irq_route \<Rightarrow> bool" for E where
  step_decide: "UacpiNtIrqLinkDecide E n S = (r, S') \<Longrightarrow> route_step E S S'"
| step_resolve: "UacpiNtPrtResolveGsiv E d S = (s, g, S') \<Longrightarrow> route_step E S S'"
| step_resume: "route_step E S (UacpiNtIrqLinksResume E S)"
| step_rotate: "route_step E S (S\<lparr>ir_LinkRotation := ir_LinkRotation S + 1\<rparr>)"
| step_lib: "route_step E S (S\<lparr>ir_Lib := L\<rparr>)"

lemma route_steps_keep:
  assumes "(route_step E)\<^sup>*\<^sup>* S S'"
  shows "keeps S S'"
  using assms
proof (induction rule: rtranclp_induct)
  case (step S1 S2)
  from step(2) have "keeps S1 S2"
    by cases (auto intro: LinkDecide_keeps PrtResolve_keeps LinksResume_keeps)
  with step(3) show ?case by (rule keeps_trans)
qed simp

section \<open>The choice of a line\<close>

lemma find_SomeD: "find P xs = Some x \<Longrightarrow> x \<in> set xs \<and> P x"
  by (auto simp: find_Some_iff)

lemma rotated_index:
  assumes "unat (r :: u32) + c < 2 ^ 32" and "i < c"
  shows "unat ((r + of_nat i) mod of_nat c) = (unat r + i) mod c"
proof -
  have u: "unat (of_nat i :: u32) = i" "unat (of_nat c :: u32) = c"
    using assms by (simp_all add: unat_of_nat)
  have "unat (r + of_nat i) = unat r + i" using assms u by (simp add: unat_add_nowrap)
  with u show ?thesis by (simp add: unat_mod)
qed

lemma rotation_covers:
  assumes "k < c"
  shows "\<exists>i < c. (r + i) mod c = (k :: nat)"
proof (intro exI conjI)
  show "(k + (c - r mod c)) mod c < c" using assms by simp
  have "(r + (k + (c - r mod c)) mod c) mod c = (r mod c + (k + (c - r mod c))) mod c"
    by (simp add: mod_add_left_eq mod_add_right_eq)
  also have "r mod c + (k + (c - r mod c)) = c + k"
    using assms mod_less_divisor [of c r] by linarith
  finally show "(r + (k + (c - r mod c)) mod c) mod c = k" using assms by simp
qed

lemma rotated_set:
  assumes "unat r + length cs < 2 ^ 32"
  shows "set (rotated r cs) = set cs"
proof -
  have rot: "set (rotated r cs) = (\<lambda>i. cs ! ((unat r + i) mod length cs)) ` {0..<length cs}"
    using rotated_index [OF assms] by (auto simp: rotated_def image_iff)
  have "cs ! k \<in> (\<lambda>i. cs ! ((unat r + i) mod length cs)) ` {0..<length cs}" if "k < length cs" for k
    using rotation_covers [OF that, of "unat r"] by (auto simp: image_iff)
  moreover have "cs ! ((unat r + i) mod length cs) \<in> set cs" if "i < length cs" for i
    using that by (intro nth_mem mod_less_divisor) auto
  ultimately show ?thesis unfolding rot by (auto simp: in_set_conv_nth)
qed

lemma candidates_bound: "length (UacpiNtLinkCandidates E n) \<le> 16"
  by (simp add: UacpiNtLinkCandidates_def split: option.split)

text \<open>A pick is an allowed candidate, and one another link holds only when every allowed one is held.\<close>

lemma LinkChoose_Some:
  assumes "unat (ir_LinkRotation S) + 16 < 2 ^ 32" and "UacpiNtLinkChoose E S n = Some g"
  shows "g \<in> set (UacpiNtLinkCandidates E n) \<and> UacpiNtLinkLineUsable S g False \<and>
    (UacpiNtGsivHeldByLink S g \<longrightarrow> (\<forall>c \<in> set (UacpiNtLinkCandidates E n).
       UacpiNtLinkLineUsable S c False \<longrightarrow> UacpiNtGsivHeldByLink S c))"
proof -
  let ?cs = "UacpiNtLinkCandidates E n" and ?rot = "rotated (ir_LinkRotation S) (UacpiNtLinkCandidates E n)"
  have rs: "set ?rot = set ?cs" using assms(1) candidates_bound [of E n] by (intro rotated_set) simp
  have p: "UacpiNtLinkLineUsable S x True \<longleftrightarrow> UacpiNtLinkLineUsable S x False \<and> \<not> UacpiNtGsivHeldByLink S x" for x
    by (auto simp: UacpiNtLinkLineUsable_def)
  show ?thesis
  proof (cases "find (\<lambda>g. UacpiNtLinkLineUsable S g True) ?rot")
    case None
    with assms(2) have "find (\<lambda>g. UacpiNtLinkLineUsable S g False) ?rot = Some g"
      by (simp add: UacpiNtLinkChoose_def)
    from find_SomeD [OF this] None show ?thesis unfolding rs find_None_iff p by blast
  next
    case (Some h)
    with assms(2) have "h = g" by (simp add: UacpiNtLinkChoose_def)
    with find_SomeD [OF Some] show ?thesis unfolding rs p by blast
  qed
qed

lemma LinkChoose_None:
  assumes "unat (ir_LinkRotation S) + 16 < 2 ^ 32" and "UacpiNtLinkChoose E S n = None"
    and "c \<in> set (UacpiNtLinkCandidates E n)"
  shows "\<not> UacpiNtLinkLineUsable S c False"
proof -
  let ?rot = "rotated (ir_LinkRotation S) (UacpiNtLinkCandidates E n)"
  have rs: "set ?rot = set (UacpiNtLinkCandidates E n)"
    using assms(1) candidates_bound [of E n] by (intro rotated_set) simp
  from assms(2) have "find (\<lambda>g. UacpiNtLinkLineUsable S g False) ?rot = None"
    by (auto simp: UacpiNtLinkChoose_def Let_def split: option.splits)
  with assms(3) show ?thesis unfolding find_None_iff rs by blast
qed

text \<open>The line of a fresh decision.\<close>

lemma link_decision_Some:
  assumes "link_decision E n S = (Some g, fw)"
  shows "UacpiNtLinkCurrentGsiv E (ir_Firmware S) n 0 = Some g \<or>
    UacpiNtLinkChoose E S n = Some g \<and>
    (g = UACPINT_IRQ_LINK_NONE \<or> UacpiNtLinkProgram E n g (ir_Firmware S) = (STATUS_SUCCESS, fw))"
proof -
  obtain s f where p: "UacpiNtLinkProgram E n g (ir_Firmware S) = (s, f)" by fastforce
  then have "NT_SUCCESS s \<Longrightarrow> s = STATUS_SUCCESS"
    by (auto simp: UacpiNtLinkProgram_def Let_def split: option.splits prod.splits if_splits)
  with assms p show ?thesis
    by (auto simp: link_decision_def Let_def split: option.splits prod.splits if_splits)
qed

lemma list_ex_find: "list_ex P xs \<longleftrightarrow> find P xs \<noteq> None"
  by (induction xs) auto

lemma LinkSlot_held:
  assumes "UacpiNtLinkSlot n True S = (r, S')" and "g \<noteq> UACPINT_IRQ_LINK_NONE"
  shows "UacpiNtGsivHeldByLink S' g = UacpiNtGsivHeldByLink S g"
  using assms(1)
proof (cases rule: LinkSlot_cases)
  case (new i)
  with assms(2) find_update_other [of "\<lambda>l. lk_Node l \<noteq> None \<and> lk_Gsiv l = g" "ir_Links S" i] show ?thesis
    by (simp add: UacpiNtGsivHeldByLink_def list_ex_find)
qed simp_all

lemma LinkSlot_undecided:
  assumes "UacpiNtLinkSlot n True S = (Some i, S')" and "\<nexists>h. decided S n h"
  shows "lk_Gsiv (ir_Links S' ! i) = UACPINT_IRQ_LINK_NONE"
  using assms(1)
proof (cases rule: LinkSlot_cases)
  case (old j)
  with assms(2) first_slot_find [OF old(3)] show ?thesis by (auto simp: decided_def)
qed simp_all

lemma LineUsable_mask:
  "UacpiNtLinkLineUsable S g False \<Longrightarrow> g < 16 \<Longrightarrow> \<not> bit (ir_PciExclusionMask S) (unat g)"
proof -
  assume u: "UacpiNtLinkLineUsable S g False" and "g < 16"
  then have "ucast (ir_PciExclusionMask S) AND push_bit (unat g) (1 :: u32) = 0"
    by (simp add: UacpiNtLinkLineUsable_def)
  then have "\<not> bit (ucast (ir_PciExclusionMask S) :: u32) (unat g)" by (simp add: bit_iff_and_push_bit_not_eq_0)
  moreover have "unat g < 16" using \<open>g < 16\<close> by (simp add: word_less_nat_alt)
  ultimately show ?thesis by (simp add: bit_ucast_iff)
qed

lemma lineless_template:
  assumes "\<forall>i. nth_line i rs = None"
  shows "set_line g rs = rs"
  using assms
proof (induction rs)
  case (Cons r rs)
  have "\<forall>i. nth_line i rs = None"
    using Cons.prems [THEN spec, of "case r of ResOther k \<Rightarrow> i | _ \<Rightarrow> Suc i" for i] by (cases r) auto
  with Cons.IH Cons.prems [THEN spec, of 0] show ?case by (cases r) auto
qed simp

section \<open>Line bitmaps\<close>

lemma TestBit_bit: "UacpiNtTestBit Map b \<longleftrightarrow> bit (Map ! unat (b div 32)) (unat (b mod 32))"
  by (simp add: UacpiNtTestBit_def and_one_eq bit_iff_odd_drop_bit even_iff_mod_2_eq_zero)

lemma TestBit_SetBit:
  assumes "b < 256" and "c < 256" and "length Map = 8"
  shows "UacpiNtTestBit (UacpiNtSetBit Map c) b \<longleftrightarrow> b = c \<or> UacpiNtTestBit Map b"
proof -
  have lt: "unat (c div 32) < length Map" using assms(2,3) by (simp add: unat_div word_less_nat_alt)
  have m: "unat (b mod 32) < 32" by (simp add: unat_mod)
  have eq: "b = c \<longleftrightarrow> unat (b div 32) = unat (c div 32) \<and> unat (b mod 32) = unat (c mod 32)"
    by (auto simp: unat_div unat_mod word_unat_eq_iff) (metis div_mult_mod_eq)
  show ?thesis
  proof (cases "unat (b div 32) = unat (c div 32)")
    case True
    with lt m show ?thesis
      by (auto simp: TestBit_bit UacpiNtSetBit_def Let_def eq bit_or_iff bit_exp_iff)
  next
    case False
    then show ?thesis by (simp add: TestBit_bit UacpiNtSetBit_def Let_def eq)
  qed
qed

lemma NoteLevel_level:
  assumes "length (il_GsivLevel (UacpiNtIrqLibNoteLevelGsiv g L)) = 8" and "g < UACPINT_MAX_GSIV"
  shows "UacpiNtGsivIsLevel (UacpiNtIrqLibNoteLevelGsiv g L) g"
proof -
  have "length (il_GsivLevel L) = 8"
    using assms by (simp add: UacpiNtIrqLibNoteLevelGsiv_def UacpiNtSetBit_def Let_def)
  with TestBit_SetBit [OF assms(2,2)] assms(2) show ?thesis
    by (simp add: UacpiNtIrqLibNoteLevelGsiv_def UacpiNtGsivIsLevel_def)
qed

section \<open>The route of a function\<close>

text \<open>One bridge up, and the node whose _PRT answers for a bus.\<close>

definition route_hop :: "'f route_env \<Rightarrow> u32 \<times> u32 \<times> u8 \<Rightarrow> u32 \<times> u32 \<times> u8 \<Rightarrow> bool" where
  "route_hop E x y \<longleftrightarrow>
     (case x of (Bus, Device, Pin) \<Rightarrow>
        UacpiNtFindPciRootNode E Bus = None \<and>
        (\<exists>n q. UacpiNtFindBridgeNodeForBus E Bus = Some (n, q) \<and> UacpiNtPrtClimbBridge E q Device Pin = Some y))"

definition producer :: "'f route_env \<Rightarrow> u32 \<Rightarrow> node \<Rightarrow> bool" where
  "producer E Bus n \<longleftrightarrow>
     (case UacpiNtFindPciRootNode E Bus of
        Some r \<Rightarrow> r = n | None \<Rightarrow> (\<exists>q. UacpiNtFindBridgeNodeForBus E Bus = Some (n, q)))"

lemma prt_loop_sound:
  assumes "prt_loop k E b d p s0 S = (s, g, S')" and "NT_SUCCESS s" and "\<not> NT_SUCCESS s0"
  shows "\<exists>j < k. \<exists>b' d' p' n S1. (route_hop E ^^ j) (b, d, p) (b', d', p') \<and> producer E b' n \<and>
    UacpiNtCrackPrt E n d' p' S1 = (s, g, S') \<and> keeps S S1"
  using assms
proof (induction k arbitrary: b d p s0 S)
  case (Suc k)
  have here: ?case if "producer E b n" "UacpiNtCrackPrt E n d p S = (s, g, S')" for n
    using that keeps_refl [of S] by (metis relpowp_0_I zero_less_Suc)
  show ?case
  proof (cases "UacpiNtFindPciRootNode E b")
    case (Some n)
    with Suc.prems(1) here show ?thesis by (simp add: producer_def)
  next
    case None
    with Suc.prems(1,2) obtain n q where br: "UacpiNtFindBridgeNodeForBus E b = Some (n, q)"
      by (auto split: option.splits)
    with None have prod: "producer E b n" by (simp add: producer_def)
    obtain s1 g1 S1 where c: "UacpiNtCrackPrt E n d p S = (s1, g1, S1)" by (rule prod_cases3)
    show ?thesis
    proof (cases "NT_SUCCESS s1")
      case True
      with Suc.prems(1) None br c have "UacpiNtCrackPrt E n d p S = (s, g, S')" by simp
      with prod show ?thesis by (rule here)
    next
      case False
      with Suc.prems(1,2) None br c obtain y where cl: "UacpiNtPrtClimbBridge E q d p = Some y"
        by (auto split: option.splits)
      obtain b1 d1 p1 where y: "y = (b1, d1, p1)" by (rule prod_cases3)
      have "prt_loop k E b1 d1 p1 s1 S1 = (s, g, S')" using Suc.prems(1) None br c cl y False by simp
      from Suc.IH [OF this Suc.prems(2) False] obtain j b' d' p' n' S2 where
        r: "j < k" "(route_hop E ^^ j) (b1, d1, p1) (b', d', p')" "producer E b' n'"
          "UacpiNtCrackPrt E n' d' p' S2 = (s, g, S')" "keeps S1 S2" by blast
      have "route_hop E (b, d, p) (b1, d1, p1)" using None br cl y by (simp add: route_hop_def)
      from this r(2) have "(route_hop E ^^ Suc j) (b, d, p) (b', d', p')" by (rule relpowp_Suc_I2)
      moreover have "keeps S S2" using CrackPrt_keeps [OF c] r(5) by (rule keeps_trans)
      ultimately show ?thesis using r(1,3,4) Suc_less_eq by blast
    qed
  qed
qed simp

text \<open>Pins stay INTA to INTD on the way up.\<close>

lemma swizzle_pin:
  fixes d x :: u32
  shows "1 \<le> (ucast ((d AND 3) + 1) :: u8) \<and> (ucast ((d AND 3) + 1) :: u8) \<le> 4"
proof -
  have "unat (d AND 3) \<le> unat (3 :: u32)" by (metis and.commute word_and_le1 word_le_nat_alt)
  then have a: "unat (d AND 3) \<le> 3" by simp
  then have s: "unat ((d AND 3) + 1) = unat (d AND 3) + 1" by (simp add: unat_add_nowrap)
  then have "(d AND 3) + 1 < 2 ^ LENGTH(8)" using a by (simp add: word_less_nat_alt)
  then have "unat (ucast ((d AND 3) + 1) :: u8) = unat (d AND 3) + 1" using unat_ucast_narrow s by fastforce
  with a show ?thesis by (simp add: word_le_nat_alt)
qed

lemma Climb_pin: "UacpiNtPrtClimbBridge E q d p = Some (b', d', p') \<Longrightarrow> 1 \<le> p' \<and> p' \<le> 4"
  using swizzle_pin
  by (auto simp: UacpiNtPrtClimbBridge_def Let_def not_less word_le_nat_alt unat_gt_0 Suc_le_eq
      split: prod.splits if_splits)

lemma route_pin:
  assumes "(route_hop E ^^ j) (b, d, p) (b', d', p')" and "1 \<le> p" and "p \<le> 4"
  shows "1 \<le> p' \<and> p' \<le> 4"
proof (cases j)
  case (Suc k)
  with assms(1) obtain x where "route_hop E x (b', d', p')" by (auto elim: relpowp_Suc_E)
  then show ?thesis by (auto simp: route_hop_def dest: Climb_pin split: prod.splits)
qed (use assms in simp)

text \<open>Where a _PRT entry takes a line from.\<close>

definition entry_line :: "'f route_env \<Rightarrow> 'f irq_route \<Rightarrow> prt_entry \<Rightarrow> u32 \<Rightarrow> bool" where
  "entry_line E S e g \<longleftrightarrow>
     (case pe_source e of
        None \<Rightarrow> g = pe_index e
      | Some link \<Rightarrow>
          if pe_index e = 0 then g = UACPINT_IRQ_LINK_NONE \<or> decided S link g
          else UacpiNtLinkCurrentGsiv E (ir_Firmware S) link (pe_index e) = Some g)"

lemma CrackPrt_entry:
  assumes "UacpiNtCrackPrt E n d p S = (s, g, S')" and "NT_SUCCESS s"
  shows "\<exists>Prt e. re_RoutingTable E n = Some Prt \<and> e \<in> set Prt \<and> prt_matches d p e \<and> entry_line E S' e g"
proof -
  from assms obtain Prt e where t: "re_RoutingTable E n = Some Prt" "find (prt_matches d p) Prt = Some e"
    by (auto simp: UacpiNtCrackPrt_def split: option.splits)
  have "entry_line E S' e g"
  proof (cases "pe_source e")
    case None
    with assms t show ?thesis by (simp add: UacpiNtCrackPrt_def entry_line_def)
  next
    case (Some link)
    with assms t have "UacpiNtLinkNodeGsiv E link (pe_index e) S = (s, g, S')" by (simp add: UacpiNtCrackPrt_def)
    with assms(2) have "if pe_index e = 0 then UacpiNtIrqLinkDecide E link S = (Some g, S')
        else S' = S \<and> UacpiNtLinkCurrentGsiv E (ir_Firmware S) link (pe_index e) = Some g"
      by (auto simp: UacpiNtLinkNodeGsiv_def Let_def split: if_splits option.splits prod.splits)
    with Some LinkDecide_decides [of E link S g S'] show ?thesis
      by (auto simp: entry_line_def split: if_splits)
  qed
  with t find_SomeD [OF t(2)] show ?thesis by blast
qed

section \<open>Properties\<close>

text \<open>
  C19: a link is decided once. After UacpiNtIrqLinkDecide answered a line for a link, whatever happens
  next (other links decided, devices routed, links restored after a sleep, ranges placed), asking
  again gives the same line and changes nothing.
\<close>
theorem Link_decided_once:
  assumes "UacpiNtIrqLinkDecide E n S0 = (Some g, S)" and "g \<noteq> UACPINT_IRQ_LINK_NONE"
    and "(route_step E)\<^sup>*\<^sup>* S S'"
  shows "UacpiNtIrqLinkDecide E n S' = (Some g, S')"
proof (rule LinkDecide_cached)
  show "decided S' n g"
    using LinkDecide_decides [OF assms(1,2)] route_steps_keep [OF assms(3)] by (simp add: keeps_def)
qed

text \<open>A machine with a root bus, one bridge, a device behind it and one link, in three firmware states.\<close>

definition demo_env :: "link_resource list route_env" where
  "demo_env =
     \<lparr>re_Children = Some [(''ACPI0003'', 3), (''pnp0a08'', 1)], re_Filters = [(None, Some 21), (Some 2, Some 20)],
      re_Bbn = (\<lambda>_. None), re_ReadPciConfig = (\<lambda>_ _. Some 1),
      re_HalGetBusData = (\<lambda>bus slot off. if off = 8 then Some 0x06040000 else Some 0x0100),
      re_BusNumber = (\<lambda>d. (STATUS_SUCCESS, if d = 20 then 0 else 1)),
      re_Address = (\<lambda>d. (STATUS_SUCCESS, if d = 20 then 0x1C0000 else 0x20000)),
      re_RoutingTable = (\<lambda>n. if n = 1
         then Some [\<lparr>pe_address = 0x1CFFFF, pe_index = 0, pe_source = Some 5, pe_pin = 2\<rparr>] else None),
      re_PossibleResources = (\<lambda>n. Some [ResOther 0, ResIrq [] [9, 10, 11]]),
      re_CurrentResources = (\<lambda>fw n. if n = 5 then Some fw else None), re_SetResources = (\<lambda>n rs fw. (True, rs))\<rparr>"

definition demo_lib :: irq_lib where
  "demo_lib = \<lparr>il_InterruptModel = 0, il_PicVectorBase = 0x30, il_PicBaseValid = True, il_ProcessorIdt = [],
     il_ProcessorIdtCount = 0, il_GsivVector = replicate 256 0, il_GsivLevel = replicate 8 0,
     il_GsivForcedEdge = replicate 8 0, il_GsivForcedHigh = replicate 8 0, il_GsivForcedLow = replicate 8 0,
     il_HalGrantedVectors = replicate 8 0, il_HalGrantedCount = 0, il_MessageRuns = [],
     il_SecondaryVectorGsiv = [], il_IsaOverride = []\<rparr>"

definition demo_route :: "link_resource list \<Rightarrow> link_resource list irq_route" where
  "demo_route fw = \<lparr>ir_Links = replicate 32 \<lparr>lk_Node = None, lk_Gsiv = 0\<rparr>, ir_LinkRotation = 0,
     ir_PciExclusionMask = 0, ir_SciGsiv = 9, ir_Firmware = fw, ir_Lib = demo_lib\<rparr>"

text \<open>The link starts on line 11, and is put on line 10.\<close>

definition demo_decided :: "link_resource list irq_route" where
  "demo_decided = (demo_route [ResIrq [1] [10]])\<lparr>ir_Links := \<lparr>lk_Node = Some 5, lk_Gsiv = 10\<rparr> #
     replicate 31 \<lparr>lk_Node = None, lk_Gsiv = 0\<rparr>\<rparr>"

lemma demo_decide: "UacpiNtIrqLinkDecide demo_env 5 (demo_route [ResIrq [1] [11]]) = (Some 10, demo_decided)"
  by code_simp

lemma demo_undecided: "\<nexists>h. decided (demo_route fw) n h"
  by (auto simp: decided_def demo_route_def dest!: find_SomeD)

lemma Link_decided_once_witness:
  "\<exists>S. (route_step demo_env)\<^sup>*\<^sup>* demo_decided S \<and> ir_LinkRotation S = 1 \<and>
     UacpiNtIrqLinkDecide demo_env 5 S = (Some 10, S)"
proof -
  define S1 where "S1 = UacpiNtIrqLinksResume demo_env demo_decided"
  let ?S = "S1\<lparr>ir_LinkRotation := ir_LinkRotation S1 + 1\<rparr>"
  have "route_step demo_env demo_decided S1" unfolding S1_def by (rule step_resume)
  moreover have "route_step demo_env S1 ?S" by (rule step_rotate)
  ultimately have r: "(route_step demo_env)\<^sup>*\<^sup>* demo_decided ?S" by simp
  have "ir_LinkRotation S1 = 0" unfolding S1_def by code_simp
  with r Link_decided_once [OF demo_decide _ r] show ?thesis by (intro exI [of _ ?S]) simp
qed



text \<open>
  A link the firmware left without a line is recorded as moved without being programmed. Its _CRS
  has no interrupt descriptor with a line to replace, so _SRS is run on the unchanged template, its
  success counts as the move, and the link is cached on a line it was never set to.
\<close>
theorem Lineless_link_not_programmed:
  assumes "re_CurrentResources E (ir_Firmware S) n = Some rs" and "\<forall>i. nth_line i rs = None"
    and "re_SetResources E n rs (ir_Firmware S) = (True, fw)" and "re_CurrentResources E fw n = Some rs"
    and "\<nexists>h. decided S n h" and "UacpiNtLinkSlot n True S = (Some i, S1)"
    and "UacpiNtLinkChoose E S1 n = Some g" and "g \<noteq> UACPINT_IRQ_LINK_NONE"
  shows "\<exists>S'. UacpiNtIrqLinkDecide E n S = (Some g, S') \<and> decided S' n g \<and>
    (\<forall>k. UacpiNtLinkCurrentGsiv E (ir_Firmware S') n k = None)"
proof -
  have S1: "ir_Firmware S1 = ir_Firmware S" using LinkSlot_found(2) [OF assms(6)] by (metis irq_route.select_convs(5) irq_route.update_convs(1) irq_route.surjective)
  have "set_line g rs = rs" by (rule lineless_template [OF assms(2)])
  then have p: "UacpiNtLinkProgram E n g (ir_Firmware S1) = (STATUS_SUCCESS, fw)"
    using assms(1,3) S1 by (simp add: UacpiNtLinkProgram_def)
  have cur: "UacpiNtLinkCurrentGsiv E (ir_Firmware S1) n 0 = None"
    using assms(1,2) S1 by (simp add: UacpiNtLinkCurrentGsiv_def)
  have d: "link_decision E n S1 = (Some g, fw)"
    using assms(7,8) p cur by (simp add: link_decision_def)
  obtain S' where S': "UacpiNtIrqLinkDecide E n S = (Some g, S')" "ir_Firmware S' = fw"
    using assms(6) d LinkSlot_undecided [OF assms(6,5)] by (simp add: UacpiNtIrqLinkDecide_def Let_def)
  moreover have "decided S' n g" by (rule LinkDecide_decides [OF S'(1) assms(8)])
  moreover have "\<forall>k. UacpiNtLinkCurrentGsiv E (ir_Firmware S') n k = None"
    using S'(2) assms(2,4) by (simp add: UacpiNtLinkCurrentGsiv_def)
  ultimately show ?thesis by blast
qed

lemma Lineless_link_not_programmed_witness:
  "\<exists>S'. UacpiNtIrqLinkDecide demo_env 5 (demo_route [ResIrq [1] []]) = (Some 10, S') \<and> decided S' 5 10 \<and>
    (\<forall>k. UacpiNtLinkCurrentGsiv demo_env (ir_Firmware S') 5 k = None)"
proof (rule Lineless_link_not_programmed)
  show "\<forall>i. nth_line i [ResIrq [1] []] = None" by (simp split: nat.split)
  show "\<nexists>h. decided (demo_route [ResIrq [1] []]) 5 h" by (rule demo_undecided)
  show "UacpiNtLinkSlot 5 True (demo_route [ResIrq [1] []]) = (Some 0, (demo_route [ResIrq [1] []])\<lparr>ir_Links :=
      \<lparr>lk_Node = Some 5, lk_Gsiv = UACPINT_IRQ_LINK_NONE\<rparr> # replicate 31 \<lparr>lk_Node = None, lk_Gsiv = 0\<rparr>\<rparr>)" by code_simp
  show "UacpiNtLinkChoose demo_env ((demo_route [ResIrq [1] []])\<lparr>ir_Links :=
      \<lparr>lk_Node = Some 5, lk_Gsiv = UACPINT_IRQ_LINK_NONE\<rparr> # replicate 31 \<lparr>lk_Node = None, lk_Gsiv = 0\<rparr>\<rparr>) 5 = Some 10" by code_simp
qed (simp_all add: demo_env_def demo_route_def)



end
