(* ===== verification/Irq_Vector_Safety.thy ===== *)
theory Irq_Vector_Safety
  imports Irq_Vectors
begin

text \<open>
  The invariant of the vector allocator of sys/irqlib.c: every vector in use is marked used in the
  IDT state and belongs to exactly one line or message run. The step relation collects the entry
  points that change the allocator, and the invariant holds in every state they reach.
\<close>

section \<open>The kernel's range lists\<close>

text \<open>
  What the allocator relies on of the Rtl calls with no flags and no attributes: a range is available
  exactly when no recorded range shares an entry with it, an available range that is added is
  recorded, and deleting a range frees entries of that range only.
\<close>

definition Vector_contract :: "nt_kernel \<Rightarrow> bool" where
  "Vector_contract K \<longleftrightarrow>
     (\<forall>rl s e. s \<le> e \<longrightarrow> k_RtlIsRangeAvailable K rl s e 0 0 = (window s e \<inter> blocked rl = {})) \<and>
     (\<forall>rl s e ow. s \<le> e \<longrightarrow> window s e \<inter> blocked rl = {} \<longrightarrow>
        blocked (k_RtlAddRange K rl s e 0 0 ow) = blocked rl \<union> window s e) \<and>
     (\<forall>rl s e ow. blocked rl - window s e \<subseteq> blocked (k_RtlDeleteRange K rl s e ow))"

lemma Vector_contractD:
  assumes "Vector_contract K"
  shows "s \<le> e \<Longrightarrow> k_RtlIsRangeAvailable K rl s e 0 0 = (window s e \<inter> blocked rl = {})"
    and "s \<le> e \<Longrightarrow> window s e \<inter> blocked rl = {} \<Longrightarrow>
      blocked (k_RtlAddRange K rl s e 0 0 ow) = blocked rl \<union> window s e"
    and "blocked rl - window s e \<subseteq> blocked (k_RtlDeleteRange K rl s e ow)"
  using assms unfolding Vector_contract_def by blast+

section \<open>Vectors and their users\<close>

text \<open>
  The users of vectors are the lines (\<open>Inl g\<close>) and the slots of the run table (\<open>Inr i\<close>). \<open>busy\<close> are the
  entries that the first processor, which is tracked from the start, has marked used.
\<close>

definition claim :: "irq_lib \<Rightarrow> nat + nat \<Rightarrow> nat set" where
  "claim L u =
     (case u of
        Inl g \<Rightarrow> if g < 256 \<and> il_GsivVector L ! g \<noteq> 0 then {unat (il_GsivVector L ! g)} else {}
      | Inr i \<Rightarrow>
          let r = il_MessageRuns L ! i
          in if i < 128 \<and> mr_Owner r \<noteq> None then {unat (mr_Base r)..<unat (mr_Base r) + unat (mr_Count r)} else {})"

lemma claim_simps [simp]:
  "claim L (Inl g) = (if g < 256 \<and> il_GsivVector L ! g \<noteq> 0 then {unat (il_GsivVector L ! g)} else {})"
  "claim L (Inr i) = (if i < 128 \<and> mr_Owner (il_MessageRuns L ! i) \<noteq> None
     then {unat (mr_Base (il_MessageRuns L ! i))..<
             unat (mr_Base (il_MessageRuns L ! i)) + unat (mr_Count (il_MessageRuns L ! i))} else {})"
  by (simp_all add: claim_def Let_def)

definition busy :: "irq_lib \<Rightarrow> nat set" where
  "busy L = {v. v < 256 \<and> of_nat v \<in> blocked (pi_UsedEntries (il_ProcessorIdt L ! 0))}"

definition shape_ok :: "irq_lib \<Rightarrow> bool" where
  "shape_ok L \<longleftrightarrow>
     length (il_ProcessorIdt L) = 256 \<and> 0 < il_ProcessorIdtCount L \<and> pi_Valid (il_ProcessorIdt L ! 0) \<and>
     length (il_GsivVector L) = 256 \<and> length (il_MessageRuns L) = 128"

definition vectors_ok :: "irq_lib \<Rightarrow> bool" where
  "vectors_ok L \<longleftrightarrow>
     shape_ok L \<and> (\<forall>u. claim L u \<subseteq> busy L \<inter> {0x50..<0xC0}) \<and>
     (\<forall>u u'. u \<noteq> u' \<longrightarrow> claim L u \<inter> claim L u' = {})"

text \<open>How the claims may change: one user takes free vectors, or gives some of its vectors up.\<close>

lemma vectors_ok_take:
  assumes ok: "vectors_ok L" and shape: "shape_ok L'" and new: "S \<subseteq> {0x50..<0xC0}" "S \<inter> busy L = {}"
    and busy: "busy L \<union> S \<subseteq> busy L'"
    and at_u: "claim L' u = S" and others: "\<And>u'. u' \<noteq> u \<Longrightarrow> claim L' u' = claim L u'"
  shows "vectors_ok L'"
proof -
  have inb: "claim L u' \<subseteq> busy L \<inter> {0x50..<0xC0}" for u' using ok by (auto simp: vectors_ok_def)
  have dis: "claim L a \<inter> claim L b = {}" if "a \<noteq> b" for a b using ok that by (auto simp: vectors_ok_def)
  have sub: "claim L' u' \<subseteq> busy L' \<inter> {0x50..<0xC0}" for u'
    using inb [of u'] others [of u'] at_u busy new(1) by (cases "u' = u") auto
  have "claim L' a \<inter> claim L' b = {}" if ab: "a \<noteq> b" for a b
  proof (cases "a = u \<or> b = u")
    case True
    then obtain c where c: "c \<noteq> u" "claim L' a \<inter> claim L' b = S \<inter> claim L' c"
      using ab at_u by (metis Int_commute)
    with others [of c] inb [of c] new(2) show ?thesis by auto
  next
    case False
    with others [of a] others [of b] dis [OF ab] show ?thesis by simp
  qed
  with shape sub show ?thesis by (auto simp: vectors_ok_def)
qed

lemma vectors_ok_keep:
  assumes ok: "vectors_ok L" and shape: "shape_ok L'"
    and busy: "\<And>u. claim L' u \<subseteq> busy L'" and sub: "\<And>u. claim L' u \<subseteq> claim L u"
  shows "vectors_ok L'"
proof -
  have "claim L' u \<subseteq> {0x50..<0xC0}" for u using ok sub [of u] by (fastforce simp: vectors_ok_def)
  moreover have "claim L' u \<inter> claim L' u' = {}" if "u \<noteq> u'" for u u'
    using ok sub [of u] sub [of u'] that by (fastforce simp: vectors_ok_def)
  ultimately show ?thesis using shape busy by (auto simp: vectors_ok_def)
qed

text \<open>An update that leaves the claims alone and frees nothing.\<close>

lemma vectors_ok_frame:
  assumes "vectors_ok L" and "shape_ok L'" and "busy L \<subseteq> busy L'" and "\<And>u. claim L' u = claim L u"
  shows "vectors_ok L'"
  using assms by (intro vectors_ok_keep [of L L']) (fastforce simp: vectors_ok_def)+

section \<open>Claiming and releasing entries\<close>

lemma on_processors_simps [simp]:
  "il_GsivVector (on_processors f L) = il_GsivVector L" "il_MessageRuns (on_processors f L) = il_MessageRuns L"
  "il_ProcessorIdtCount (on_processors f L) = il_ProcessorIdtCount L"
  "length (il_ProcessorIdt (on_processors f L)) = length (il_ProcessorIdt L)"
  "claim (on_processors f L) u = claim L u"
  by (simp_all add: on_processors_def claim_def split: sum.split)

lemma on_processors_first:
  assumes "shape_ok L"
  shows "pi_UsedEntries (il_ProcessorIdt (on_processors f L) ! 0) = f (pi_UsedEntries (il_ProcessorIdt L ! 0))"
    and "shape_ok (on_processors f L)"
proof -
  have "il_ProcessorIdt (on_processors f L) ! 0 =
      (il_ProcessorIdt L ! 0)\<lparr>pi_UsedEntries := f (pi_UsedEntries (il_ProcessorIdt L ! 0))\<rparr>"
    using assms by (auto simp: on_processors_def shape_ok_def nth_append)
  with assms show "pi_UsedEntries (il_ProcessorIdt (on_processors f L) ! 0) = f (pi_UsedEntries (il_ProcessorIdt L ! 0))"
    and "shape_ok (on_processors f L)" by (simp_all add: shape_ok_def)
qed

lemma unat_ucast_64: "unat (ucast (x :: u32) :: u64) = unat x"
  by (rule unat_ucast_widen) simp

lemma window_ucast:
  "window (ucast (s :: u32)) (ucast (e :: u32)) = {a. unat s \<le> unat a \<and> unat a \<le> unat e}"
  by (auto simp: window_def word_le_nat_alt unat_ucast_64)

lemma free_not_busy:
  assumes K: "Vector_contract K" and ok: "shape_ok L" and free: "UacpiNtVectorFreeEverywhere K L v"
  shows "ucast v \<notin> blocked (pi_UsedEntries (il_ProcessorIdt L ! 0))" and "unat v \<notin> busy L"
proof -
  have "il_ProcessorIdt L ! 0 \<in> set (take (il_ProcessorIdtCount L) (il_ProcessorIdt L))"
    using ok by (auto simp: shape_ok_def in_set_conv_nth intro!: exI [of _ 0])
  with free ok have "k_RtlIsRangeAvailable K (pi_UsedEntries (il_ProcessorIdt L ! 0)) (ucast v) (ucast v) 0 0"
    by (auto simp: UacpiNtVectorFreeEverywhere_def list_all_iff shape_ok_def)
  with Vector_contractD(1) [OF K, of "ucast v" "ucast v"]
  show n: "ucast v \<notin> blocked (pi_UsedEntries (il_ProcessorIdt L ! 0))" by (auto simp: window_def)
  have "of_nat (unat v) = (ucast v :: u64)" by (simp add: unat_ucast_64 word_unat_eq_iff)
  with n show "unat v \<notin> busy L" by (simp add: busy_def)
qed

lemma claim_vectors_busy:
  assumes K: "Vector_contract K" and ok: "shape_ok L" and le: "unat First \<le> unat Last" "unat Last < 256"
    and free: "\<And>v. unat First \<le> unat v \<Longrightarrow> unat v \<le> unat Last \<Longrightarrow> UacpiNtVectorFreeEverywhere K L v"
  shows "busy (UacpiNtClaimVectors K First Last ow L) = busy L \<union> {unat First..unat Last}"
    and "{unat First..unat Last} \<inter> busy L = {}"
proof -
  let ?rl = "pi_UsedEntries (il_ProcessorIdt L ! 0)"
  have "a \<notin> blocked ?rl" if a: "unat First \<le> unat a" "unat a \<le> unat Last" for a :: u64
  proof -
    let ?v = "of_nat (unat a) :: u32"
    have v: "unat ?v = unat a" by (subst unat_of_nat) (use a(2) le(2) in simp)
    then have "ucast ?v = a" by (simp add: word_unat_eq_iff unat_ucast_64)
    with free_not_busy(1) [OF K ok free [of ?v]] a v show ?thesis by simp
  qed
  then have dis: "window (ucast First) (ucast Last) \<inter> blocked ?rl = {}" by (auto simp: window_ucast)
  have "(ucast First :: u64) \<le> ucast Last" using le(1) by (simp add: word_le_nat_alt unat_ucast_64)
  from Vector_contractD(2) [OF K this dis, of ow]
  have b: "blocked (pi_UsedEntries (il_ProcessorIdt (UacpiNtClaimVectors K First Last ow L) ! 0)) =
      blocked ?rl \<union> window (ucast First) (ucast Last)"
    using on_processors_first(1) [OF ok] by (simp add: UacpiNtClaimVectors_def)
  have u: "unat (of_nat v :: u64) = v" if "v < 256" for v using that by (simp add: unat_of_nat)
  show "busy (UacpiNtClaimVectors K First Last ow L) = busy L \<union> {unat First..unat Last}"
    using le(2) by (auto simp: busy_def b window_ucast u)
  show "{unat First..unat Last} \<inter> busy L = {}"
  proof -
    have "x \<notin> busy L" if "unat First \<le> x" "x \<le> unat Last" for x
    proof -
      have "of_nat x \<in> window (ucast First) (ucast Last)" using that le(2) u [of x] by (simp add: window_ucast)
      with dis show ?thesis by (auto simp: busy_def)
    qed
    then show ?thesis by auto
  qed
qed

lemma unat_last:
  fixes b c :: "'a::len word"
  assumes "unat b + unat c \<le> 2 ^ LENGTH('a)" and "c \<noteq> 0"
  shows "unat (b + c - 1) = unat b + unat c - 1"
proof -
  have c: "unat (c - 1) = unat c - 1" "0 < unat c" using assms(2) by (simp_all add: unat_minus_one unat_gt_0)
  then have "unat (b + (c - 1)) = unat b + (unat c - 1)" using assms(1) by (subst unat_add_nowrap) simp_all
  with c(2) show ?thesis by (simp add: algebra_simps)
qed

lemma free_vectors_busy:
  assumes K: "Vector_contract K" and ok: "shape_ok L" and "unat Base + unat Count \<le> 256" "Count \<noteq> 0"
  shows "busy L - {unat Base..<unat Base + unat Count} \<subseteq> busy (UacpiNtApicFreeVectorRange K Base Count L)"
proof -
  have last: "unat (Base + Count - 1) = unat Base + unat Count - 1"
    using assms(3,4) by (intro unat_last) simp_all
  have u: "unat (of_nat v :: u64) = v" if "v < 256" for v using that by (simp add: unat_of_nat)
  let ?rl = "pi_UsedEntries (il_ProcessorIdt L ! 0)"
  have "pi_UsedEntries (il_ProcessorIdt (UacpiNtApicFreeVectorRange K Base Count L) ! 0) =
      k_RtlDeleteRange K ?rl (ucast Base) (ucast (Base + Count - 1)) UACPINT_MSI_RANGE_OWNER"
    using on_processors_first(1) [OF ok] assms(4) by (simp add: UacpiNtApicFreeVectorRange_def)
  moreover have "of_nat v \<in> blocked (k_RtlDeleteRange K ?rl (ucast Base) (ucast (Base + Count - 1)) UACPINT_MSI_RANGE_OWNER)"
    if v: "v \<in> busy L" "v \<notin> {unat Base..<unat Base + unat Count}" for v
  proof -
    have "of_nat v \<notin> window (ucast Base) (ucast (Base + Count - 1))"
      using v assms(4) last u [of v] by (auto simp: window_ucast busy_def word_unat_eq_iff)
    moreover have "of_nat v \<in> blocked ?rl" using v(1) by (simp add: busy_def)
    ultimately show ?thesis using Vector_contractD(3) [OF K] by blast
  qed
  ultimately show ?thesis by (auto simp: busy_def)
qed

section \<open>The searches\<close>

lemma vector_band_iff: "v \<in> set vector_band \<longleftrightarrow> 0x50 \<le> unat v \<and> unat v < 0xC0"
proof
  assume "v \<in> set vector_band"
  then obtain n where "v = of_nat n" "0x50 \<le> n" "n < 0xC0"
    unfolding vector_band_def set_map set_upt by auto
  moreover from this have "unat v = n" by (simp add: unat_of_nat)
  ultimately show "0x50 \<le> unat v \<and> unat v < 0xC0" by simp
next
  assume "0x50 \<le> unat v \<and> unat v < 0xC0"
  then show "v \<in> set vector_band" unfolding vector_band_def set_map set_upt
    by (intro image_eqI [of _ _ "unat v"]) simp_all
qed

lemma align_start: "(x + m) AND NOT m \<ge> x" if "x \<le> x + m" for x m :: "'a::len word"
proof -
  have "(x + m) - ((x + m) AND m) = (x + m) AND NOT ((x + m) AND m)"
    by (rule disjunctive_diff_eq_and_not) (simp add: bit_eq_iff bit_simps)
  then have "(x + m) AND NOT m = (x + m) - ((x + m) AND m)" by (auto simp: bit_eq_iff bit_simps)
  moreover have "(x + m) AND m \<le> m" by (rule word_and_le1)
  moreover have "x \<le> x + m - y" if "x \<le> x + m" "y \<le> m" for y using that by uint_arith
  ultimately show ?thesis using that by simp
qed

text \<open>
  A device has at most 2048 messages (the largest MSI-X table), so counts stay far below the point
  where the C arithmetic on candidates would wrap.
\<close>

abbreviation (input) max_messages :: u32 where "max_messages \<equiv> 0x800"

lemma range_alignment_bounds:
  assumes "Count \<noteq> 0" and "Count \<le> max_messages"
  shows "1 \<le> unat (range_alignment Count)" and "unat (range_alignment Count) \<le> 0x800"
  using assms by (auto simp: range_alignment_def word_le_nat_alt unat_gt_0 Suc_le_eq)

lemma candidate_last:
  assumes "Count \<noteq> 0" and "unat Count \<le> 0x800" and "unat (Candidate :: u32) \<le> 0x2000"
  shows "Candidate + Count - 1 > UACPINT_DEVICE_VECTOR_LAST \<longleftrightarrow> 0xC0 < unat Candidate + unat Count"
proof -
  have "unat (Candidate + Count - 1) = unat Candidate + unat Count - 1" using assms by (intro unat_last) simp_all
  moreover have "0 < unat Count" using assms(1) by (simp add: unat_gt_0)
  ultimately show ?thesis by (auto simp: word_less_nat_alt)
qed

lemma range_loop_total:
  assumes C: "Count \<noteq> 0" "unat Count \<le> 0x800" and A: "1 \<le> unat Al" "unat Al \<le> 0x800"
    and "unat Candidate \<le> 0x2000" and "0 < n" and "0xC1 \<le> n + unat Candidate"
  shows "range_loop n K L Count Al Candidate \<noteq> None"
  using assms(5-)
proof (induction n arbitrary: Candidate)
  case (Suc n)
  show ?case
  proof (cases "0xC0 < unat Candidate + unat Count")
    case True
    with candidate_last [OF C Suc.prems(1)] show ?thesis by simp
  next
    case False
    have "0 < unat Count" using C(1) by (simp add: unat_gt_0)
    with False have c: "unat Candidate < 0xC0" by simp
    then have step: "unat (Candidate + Al) = unat Candidate + unat Al" using A by (intro unat_add_nowrap) simp
    have "range_loop n K L Count Al (Candidate + Al) \<noteq> None"
      by (rule Suc.IH) (use step c A Suc.prems in simp_all)
    then show ?thesis by simp
  qed
qed simp

lemma range_loop_found:
  assumes C: "Count \<noteq> 0" "unat Count \<le> 0x800" and A: "unat Al \<le> 0x800"
    and "unat Candidate \<le> 0x2000" and "0x50 \<le> unat Candidate"
    and "range_loop n K L Count Al Candidate = Some (Some Base)"
  shows "0x50 \<le> unat Base \<and> unat Base + unat Count \<le> 0xC0 \<and>
    (\<forall>v. unat Base \<le> unat v \<longrightarrow> unat v < unat Base + unat Count \<longrightarrow> UacpiNtVectorFreeEverywhere K L v)"
  using assms(4-)
proof (induction n arbitrary: Candidate)
  case (Suc n)
  let ?free = "list_all (\<lambda>Offset. UacpiNtVectorFreeEverywhere K L (Candidate + of_nat Offset)) [0..<unat Count]"
  have fits: "unat Candidate + unat Count \<le> 0xC0"
    using candidate_last [OF C Suc.prems(1)] Suc.prems(3) by (auto split: if_splits)
  show ?case
  proof (cases ?free)
    case True
    with Suc.prems(3) fits candidate_last [OF C Suc.prems(1)] have B: "Base = Candidate" by simp
    have "UacpiNtVectorFreeEverywhere K L v"
      if v: "unat Candidate \<le> unat v" "unat v < unat Candidate + unat Count" for v
    proof -
      have "Candidate + of_nat (unat v - unat Candidate) = v"
        using v(1) by (simp add: of_nat_diff)
      moreover have "unat v - unat Candidate < unat Count" using v by simp
      ultimately show ?thesis using True by (metis atLeast0LessThan lessThan_iff list_all_iff set_upt)
    qed
    with B fits Suc.prems(2) show ?thesis by simp
  next
    case False
    have "0 < unat Count" using C(1) by (simp add: unat_gt_0)
    then have step: "unat (Candidate + Al) = unat Candidate + unat Al" using A fits by (intro unat_add_nowrap) simp
    from False Suc.prems(3) fits candidate_last [OF C Suc.prems(1)]
    have "range_loop n K L Count Al (Candidate + Al) = Some (Some Base)" by simp
    from Suc.IH [OF _ _ this] show ?thesis using step A fits Suc.prems(2) by simp
  qed
qed simp

text \<open>What a successful range allocation leaves: the vectors were free and are marked used.\<close>

definition took :: "irq_lib \<Rightarrow> nat set \<Rightarrow> irq_lib \<Rightarrow> bool" where
  "took L S L' \<longleftrightarrow>
     shape_ok L' \<and> il_GsivVector L' = il_GsivVector L \<and> il_MessageRuns L' = il_MessageRuns L \<and>
     S \<subseteq> {0x50..<0xC0} \<and> S \<inter> busy L = {} \<and> busy L' = busy L \<union> S"

lemma took_claim: "took L S L' \<Longrightarrow> claim L' u = claim L u"
  by (simp add: took_def claim_def split: sum.split)

lemma claimed_took:
  assumes K: "Vector_contract K" and ok: "shape_ok L"
    and b: "0x50 \<le> unat First" "unat First \<le> unat Last" "unat Last < 0xC0"
    and free: "\<And>v. unat First \<le> unat v \<Longrightarrow> unat v \<le> unat Last \<Longrightarrow> UacpiNtVectorFreeEverywhere K L v"
  shows "took L {unat First..unat Last} (UacpiNtClaimVectors K First Last ow L)"
proof -
  have "unat Last < 256" using b(3) by simp
  from claim_vectors_busy [OF K ok b(2) this free]
  have "busy (UacpiNtClaimVectors K First Last ow L) = busy L \<union> {unat First..unat Last}"
    and "{unat First..unat Last} \<inter> busy L = {}" by simp_all
  moreover have "shape_ok (UacpiNtClaimVectors K First Last ow L)"
    using on_processors_first(2) [OF ok] by (simp add: UacpiNtClaimVectors_def)
  moreover have "{unat First..unat Last} \<subseteq> {0x50..<0xC0}" using b by auto
  ultimately show ?thesis by (simp add: took_def UacpiNtClaimVectors_def)
qed

lemma AllocateRange_result:
  assumes K: "Vector_contract K" and ok: "shape_ok L" and C: "C = (if Count = 0 then 1 else Count)" "Count \<le> max_messages"
  shows "\<exists>Status Base L'. UacpiNtApicAllocateVectorRange K L Count = Some (Status, Base, L') \<and>
    (\<not> NT_SUCCESS Status \<longrightarrow> L' = L) \<and>
    (NT_SUCCESS Status \<longrightarrow> took L {unat Base..<unat Base + unat C} L')"
proof -
  have c: "C \<noteq> 0" "C \<le> max_messages" "unat C \<le> 0x800" using C by (auto simp: word_le_nat_alt)
  let ?al = "range_alignment C"
  let ?start = "(UACPINT_DEVICE_VECTOR_FIRST + ?al - 1) AND NOT (?al - 1)"
  note al = range_alignment_bounds [OF c(1,2)]
  then have al0: "?al \<noteq> 0" by auto
  then have m: "unat (?al - 1) = unat ?al - 1" by (simp add: unat_minus_one)
  have sum: "unat (0x50 + (?al - 1)) = 0x50 + unat (?al - 1)" using al m by (subst unat_add_nowrap) simp_all
  then have "(0x50 :: u32) \<le> 0x50 + (?al - 1)" by (simp add: word_le_nat_alt)
  from align_start [OF this]
  have lo: "unat (0x50 :: u32) \<le> unat ((0x50 + (?al - 1)) AND NOT (?al - 1))" by (simp only: word_le_nat_alt)
  have "(0x50 + (?al - 1)) AND NOT (?al - 1) \<le> 0x50 + (?al - 1)" by (rule word_and_le2)
  then have hi: "unat ((0x50 + (?al - 1)) AND NOT (?al - 1)) \<le> 0x50 + unat (?al - 1)"
    by (simp only: word_le_nat_alt sum)
  have eq: "?start = (0x50 + (?al - 1)) AND NOT (?al - 1)" by (simp add: algebra_simps)
  have start: "0x50 \<le> unat ?start" "unat ?start \<le> 0x2000"
    unfolding eq using lo hi m al by simp_all
  have run: "range_loop range_fuel K L C ?al ?start \<noteq> None"
    by (rule range_loop_total) (use c al start in simp_all)
  show ?thesis
  proof (cases "range_loop range_fuel K L C ?al ?start")
    case (Some r)
    show ?thesis
    proof (cases r)
      case None
      with Some C(1) ok show ?thesis by (simp add: UacpiNtApicAllocateVectorRange_def Let_def shape_ok_def)
    next
      case base: (Some Base)
      from range_loop_found [OF c(1,3) al(2) start(2,1) Some [unfolded base]]
      have f: "0x50 \<le> unat Base" "unat Base + unat C \<le> 0xC0"
        "\<And>v. unat Base \<le> unat v \<Longrightarrow> unat v < unat Base + unat C \<Longrightarrow> UacpiNtVectorFreeEverywhere K L v" by blast+
      have pos: "0 < unat C" using c(1) by (simp add: unat_gt_0)
      have last: "unat (Base + C - 1) = unat Base + unat C - 1" using f c by (intro unat_last) simp_all
      have "took L {unat Base..unat (Base + C - 1)} (UacpiNtClaimVectors K Base (Base + C - 1) UACPINT_MSI_RANGE_OWNER L)"
        by (rule claimed_took [OF K ok]) (use f last pos in auto)
      moreover have "{unat Base..unat (Base + C - 1)} = {unat Base..<unat Base + unat C}" using last pos by auto
      ultimately show ?thesis
        using Some base C(1) ok by (simp add: UacpiNtApicAllocateVectorRange_def Let_def shape_ok_def)
    qed
  qed (use run in simp)
qed

lemma claim_free_vector:
  assumes K: "Vector_contract K" and shape: "shape_ok L" and free: "UacpiNtVectorFreeEverywhere K L c"
    and band: "c \<in> set vector_band"
  shows "took L {unat c} (UacpiNtClaimVectors K c c ow L)"
proof -
  have "took L {unat c..unat c} (UacpiNtClaimVectors K c c ow L)"
  proof (rule claimed_took [OF K shape])
    show "UacpiNtVectorFreeEverywhere K L v" if "unat c \<le> unat v" "unat v \<le> unat c" for v
      using that free by (metis le_antisym word_unat_eq_iff)
  qed (use band in \<open>simp_all add: vector_band_iff\<close>)
  then show ?thesis by simp
qed

lemma AllocateVector_result:
  assumes K: "Vector_contract K" and ok: "vectors_ok L"
    and run: "UacpiNtApicAllocateVector K L Gsiv = (Status, Vector, L')"
  shows "vectors_ok L'" and "NT_SUCCESS Status \<Longrightarrow> Gsiv < UACPINT_MAX_GSIV \<Longrightarrow>
      il_GsivVector L' ! unat Gsiv = Vector \<and> Vector \<noteq> 0"
    and "il_MessageRuns L' = il_MessageRuns L"
proof -
  have shape: "shape_ok L" using ok by (simp add: vectors_ok_def)
  show "vectors_ok L'" and "NT_SUCCESS Status \<Longrightarrow> Gsiv < UACPINT_MAX_GSIV \<Longrightarrow>
      il_GsivVector L' ! unat Gsiv = Vector \<and> Vector \<noteq> 0" and "il_MessageRuns L' = il_MessageRuns L"
  proof (atomize (full), cases "Gsiv < UACPINT_MAX_GSIV \<and> il_GsivVector L ! unat Gsiv \<noteq> 0 \<or>
      find (UacpiNtVectorFreeEverywhere K L) vector_band = None")
    case True
    then show "vectors_ok L' \<and> (NT_SUCCESS Status \<longrightarrow> Gsiv < UACPINT_MAX_GSIV \<longrightarrow>
        il_GsivVector L' ! unat Gsiv = Vector \<and> Vector \<noteq> 0) \<and> il_MessageRuns L' = il_MessageRuns L"
      using run ok shape by (auto simp: UacpiNtApicAllocateVector_def shape_ok_def split: if_splits)
  next
    case False
    then obtain c where f: "find (UacpiNtVectorFreeEverywhere K L) vector_band = Some c"
      and new: "\<not> (Gsiv < UACPINT_MAX_GSIV \<and> il_GsivVector L ! unat Gsiv \<noteq> 0)" by auto
    then have c: "UacpiNtVectorFreeEverywhere K L c" "c \<in> set vector_band"
      by (auto simp: find_Some_iff)
    then have cb: "0x50 \<le> unat c" "unat c < 0xC0" by (simp_all add: vector_band_iff)
    let ?L = "UacpiNtClaimVectors K c c (line_owner Gsiv) L"
    have t: "took L {unat c} ?L" by (rule claim_free_vector [OF K shape c])
    have c0: "c \<noteq> 0" using cb(1) by auto
    have L': "L' = (if Gsiv < UACPINT_MAX_GSIV then ?L\<lparr>il_GsivVector := (il_GsivVector L)[unat Gsiv := c]\<rparr> else ?L)"
      and v: "Vector = c"
      using run f new shape t by (auto simp: UacpiNtApicAllocateVector_def shape_ok_def took_def Let_def)
    have len: "length (il_GsivVector L) = 256" using shape by (simp add: shape_ok_def)
    have runs: "il_MessageRuns L' = il_MessageRuns L" using L' t by (simp add: took_def)
    show "vectors_ok L' \<and> (NT_SUCCESS Status \<longrightarrow> Gsiv < UACPINT_MAX_GSIV \<longrightarrow>
        il_GsivVector L' ! unat Gsiv = Vector \<and> Vector \<noteq> 0) \<and> il_MessageRuns L' = il_MessageRuns L"
    proof (cases "Gsiv < UACPINT_MAX_GSIV")
      case True
      then have g: "unat Gsiv < 256" by (simp add: word_less_nat_alt)
      have "vectors_ok L'"
      proof (rule vectors_ok_take [OF ok, of L' "{unat c}" "Inl (unat Gsiv)"])
        show "claim L' u' = claim L u'" if "u' \<noteq> Inl (unat Gsiv)" for u'
          using that L' True t len by (cases u') (auto simp: took_def)
        show "claim L' (Inl (unat Gsiv)) = {unat c}" using L' True g len c0 by simp
        have "busy L' = busy ?L" using L' True by (simp add: busy_def)
        with t show "busy L \<union> {unat c} \<subseteq> busy L'" by (simp add: took_def)
        show "shape_ok L'" using t shape L' True by (simp add: took_def shape_ok_def)
        show "{unat c} \<subseteq> {0x50..<0xC0}" "{unat c} \<inter> busy L = {}" using t unfolding took_def by blast+
      qed
      with True L' v g len c0 runs show ?thesis by simp
    next
      case False
      with L' have "L' = ?L" by simp
      moreover have "vectors_ok ?L"
        by (rule vectors_ok_frame [OF ok _ _ took_claim [OF t]]) (use t in \<open>unfold took_def, blast+\<close>)
      ultimately show ?thesis using False runs by simp
    qed
  qed
qed

section \<open>Every entry point keeps the invariant\<close>

lemma record_run_simps [simp]:
  "busy (record_run i r L) = busy L"
  "shape_ok (record_run i r L) = shape_ok L"
  by (simp_all add: record_run_def busy_def shape_ok_def)

lemma record_run_claim:
  assumes "shape_ok L" and "i < 128"
  shows "claim (record_run i r L) (Inr i) =
      (if mr_Owner r \<noteq> None then {unat (mr_Base r)..<unat (mr_Base r) + unat (mr_Count r)} else {})"
    and "u \<noteq> Inr i \<Longrightarrow> claim (record_run i r L) u = claim L u"
proof -
  show "claim (record_run i r L) (Inr i) =
      (if mr_Owner r \<noteq> None then {unat (mr_Base r)..<unat (mr_Base r) + unat (mr_Count r)} else {})"
    using assms by (simp add: record_run_def shape_ok_def)
  show "claim (record_run i r L) u = claim L u" if "u \<noteq> Inr i"
    using assms that by (cases u) (auto simp: record_run_def shape_ok_def nth_list_update)
qed

lemma took_record:
  assumes ok: "vectors_ok L" and t: "took L {unat (mr_Base r)..<unat (mr_Base r) + unat (mr_Count r)} L1"
    and i: "i < 128" and r: "mr_Owner r \<noteq> None"
  shows "vectors_ok (record_run i r L1)"
proof -
  have shape: "shape_ok L1" using t by (simp add: took_def)
  show ?thesis
  proof (rule vectors_ok_take [OF ok, of _ "{unat (mr_Base r)..<unat (mr_Base r) + unat (mr_Count r)}" "Inr i"])
    show "claim (record_run i r L1) (Inr i) = {unat (mr_Base r)..<unat (mr_Base r) + unat (mr_Count r)}"
      by (subst record_run_claim(1) [OF shape i]) (simp add: r)
    show "claim (record_run i r L1) u = claim L u" if "u \<noteq> Inr i" for u
      by (simp only: record_run_claim(2) [OF shape i that] took_claim [OF t])
  qed (use t in \<open>simp_all add: took_def\<close>)
qed

lemma free_run_SomeD: "free_run L = Some i \<Longrightarrow> shape_ok L \<Longrightarrow> i < 128 \<and> mr_Owner (il_MessageRuns L ! i) = None"
  by (auto simp: free_run_def find_Some_iff shape_ok_def)

lemma ResolveMessage_ok:
  assumes K: "Vector_contract K" and ok: "vectors_ok L" and n: "Count \<le> max_messages"
  shows "\<exists>s b q a L'. UacpiNtIrqLibResolveMessageVector K H L Owner g Count = Some (s, b, q, a, L') \<and> vectors_ok L'"
proof -
  define C where "C = (if Count = 0 then 1 else Count)"
  have shape: "shape_ok L" using ok by (simp add: vectors_ok_def)
  have C: "C = (if C = 0 then 1 else C)" "C \<le> max_messages" using n by (auto simp: C_def word_le_nat_alt)
  obtain s b L1 where a: "UacpiNtApicAllocateVectorRange K L C = Some (s, b, L1)"
    "\<not> NT_SUCCESS s \<longrightarrow> L1 = L" "NT_SUCCESS s \<longrightarrow> took L {unat b..<unat b + unat C} L1"
    using AllocateRange_result [OF K shape C] by blast
  obtain s2 b2 L2 where a2: "UacpiNtApicAllocateVectorRange K L 1 = Some (s2, b2, L2)"
    "\<not> NT_SUCCESS s2 \<longrightarrow> L2 = L" "NT_SUCCESS s2 \<longrightarrow> took L {unat b2..<unat b2 + 1} L2"
    using AllocateRange_result [OF K shape refl, of 1] by (auto simp: word_le_nat_alt)
  note defn = UacpiNtIrqLibResolveMessageVector_def [of K H L Owner g Count, unfolded Let_def, folded C_def]
  show ?thesis
  proof (cases "free_run L")
    case None
    with ok show ?thesis unfolding defn by (simp split: option.split)
  next
    case (Some i)
    have rec: "vectors_ok (record_run i \<lparr>mr_Owner = Some Owner, mr_MessageGsiv = g, mr_Base = b,
        mr_Count = C, mr_Claimed = False\<rparr> L1)" if "NT_SUCCESS s"
      by (rule took_record [OF ok]) (use that a(3) free_run_SomeD [OF Some shape] in simp_all)
    have rec2: "vectors_ok (record_run i \<lparr>mr_Owner = Some Owner, mr_MessageGsiv = g, mr_Base = b2,
        mr_Count = 1, mr_Claimed = False\<rparr> L2)" if "NT_SUCCESS s2"
      by (rule took_record [OF ok]) (use that a2(3) free_run_SomeD [OF Some shape] in simp_all)
    show ?thesis
      unfolding defn using Some a a2 rec rec2 ok
      by (cases "NT_SUCCESS s"; cases "NT_SUCCESS s2") (simp_all split: option.split)
  qed
qed

lemma best_run_in: "best_run Owner Count xs Best = Some x \<Longrightarrow> Some x = Best \<or> x \<in> set xs"
  by (induction Owner Count xs Best rule: best_run.induct) (auto split: if_splits)

lemma HalAllocate_ok:
  assumes K: "Vector_contract K" and ok: "vectors_ok L" and n: "Count \<le> max_messages"
    and run: "UacpiNtHalAllocateMessageTargetOverride K H Passive L Owner Count = Some (s, b, q, L')"
  shows "vectors_ok L'"
proof -
  define C where "C = (if Count \<noteq> 0 then Count else 1)"
  have shape: "shape_ok L" using ok by (simp add: vectors_ok_def)
  have C: "C = (if C = 0 then 1 else C)" "C \<le> max_messages" using n by (auto simp: C_def word_le_nat_alt)
  obtain s1 b1 L1 where a: "UacpiNtApicAllocateVectorRange K L C = Some (s1, b1, L1)"
    "\<not> NT_SUCCESS s1 \<longrightarrow> L1 = L" "NT_SUCCESS s1 \<longrightarrow> took L {unat b1..<unat b1 + unat C} L1"
    using AllocateRange_result [OF K shape C] by blast
  note defn = UacpiNtHalAllocateMessageTargetOverride_def [of K H Passive L Owner Count, unfolded Let_def, folded C_def]
  show ?thesis
  proof (cases "best_run Owner C (enumerate 0 (il_MessageRuns L)) None")
    case (Some x)
    obtain i r where x: "x = (i, r)" by fastforce
    with best_run_in [OF Some] shape have i: "i < 128" "r = il_MessageRuns L ! i"
      by (auto simp: in_set_enumerate_eq shape_ok_def)
    have "claim (record_run i (r\<lparr>mr_Claimed := True\<rparr>) L) u = claim L u" for u
      using i record_run_claim [OF shape i(1), where r = "r\<lparr>mr_Claimed := True\<rparr>"] by (cases "u = Inr i") simp_all
    then have "vectors_ok (record_run i (r\<lparr>mr_Claimed := True\<rparr>) L)"
      by (intro vectors_ok_frame [OF ok]) (simp_all add: shape)
    with run [unfolded defn] Some x ok show ?thesis by (simp split: if_splits)
  next
    case None
    show ?thesis
    proof (cases "free_run L")
      case (Some i)
      have "vectors_ok (record_run i \<lparr>mr_Owner = Some Owner, mr_MessageGsiv = 0, mr_Base = b1, mr_Count = C,
          mr_Claimed = True\<rparr> L1)" if "NT_SUCCESS s1"
        by (rule took_record [OF ok]) (use that a(3) free_run_SomeD [OF Some shape] in simp_all)
      with run [unfolded defn] None Some a ok show ?thesis by (auto split: if_splits)
    next
      case full: None
      with run [unfolded defn] None ok show ?thesis by (simp split: if_splits)
    qed
  qed
qed

lemma vectors_ok_claim_bound:
  assumes "vectors_ok L" and "claim L u = {unat (b :: u32)..<unat b + unat (n :: u32)}" and "n \<noteq> 0"
  shows "0x50 \<le> unat b" and "unat b + unat n \<le> 256"
proof -
  have "0 < unat n" using assms(3) by (simp add: unat_gt_0)
  then have "unat b \<in> claim L u" "unat b + unat n - 1 \<in> claim L u" using assms(2) by auto
  moreover have "claim L u \<subseteq> {0x50..<0xC0}" using assms(1) unfolding vectors_ok_def by blast
  ultimately have "unat b \<in> {0x50..<0xC0}" "unat b + unat n - 1 \<in> {0x50..<0xC0}" by blast+
  then show "0x50 \<le> unat b" and "unat b + unat n \<le> 256" by auto
qed

lemma HalFree_ok:
  assumes K: "Vector_contract K" and ok: "vectors_ok L"
  shows "vectors_ok (UacpiNtHalFreeMessageTargetOverride K L Owner Vector)"
proof (cases "find (\<lambda>i. let r = il_MessageRuns L ! i
    in mr_Owner r = Some Owner \<and> mr_Base r \<le> Vector \<and> Vector < mr_Base r + mr_Count r) [0..<length (il_MessageRuns L)]")
  case None
  with ok show ?thesis by (simp add: UacpiNtHalFreeMessageTargetOverride_def)
next
  case (Some i)
  let ?r = "il_MessageRuns L ! i"
  have shape: "shape_ok L" using ok by (simp add: vectors_ok_def)
  from Some shape have i: "i < 128" "mr_Owner ?r = Some Owner" and in_run: "mr_Base ?r \<le> Vector" "Vector < mr_Base ?r + mr_Count ?r"
    by (auto simp: find_Some_iff shape_ok_def Let_def)
  have n: "mr_Count ?r \<noteq> 0" using in_run by (metis add.right_neutral leD)
  have C: "claim L (Inr i) = {unat (mr_Base ?r)..<unat (mr_Base ?r) + unat (mr_Count ?r)}" using i by simp
  with ok n have fits: "unat (mr_Base ?r) + unat (mr_Count ?r) \<le> 256"
    by (metis (no_types) vectors_ok_claim_bound)
  let ?L1 = "UacpiNtApicFreeVectorRange K (mr_Base ?r) (mr_Count ?r) L"
  let ?free = "record_run i zero_run ?L1" and ?keep = "record_run i (?r\<lparr>mr_Claimed := False\<rparr>) L"
  have claim1: "claim ?L1 u = claim L u" for u by (simp add: UacpiNtApicFreeVectorRange_def Let_def)
  have shape1: "shape_ok ?L1" using on_processors_first(2) [OF shape] by (simp add: UacpiNtApicFreeVectorRange_def Let_def)
  have empty: "claim ?free (Inr i) = {}" using record_run_claim(1) [OF shape1 i(1)] by (simp add: zero_run_def)
  have same: "claim ?free u = claim L u" if "u \<noteq> Inr i" for u
    using record_run_claim(2) [OF shape1 i(1) that] claim1 by simp
  have freed: "vectors_ok ?free"
  proof (rule vectors_ok_keep [OF ok])
    show "claim ?free u \<subseteq> claim L u" for u using empty same [of u] by (cases "u = Inr i") auto
    show "claim ?free u \<subseteq> busy ?free" for u
    proof (cases "u = Inr i")
      case False
      with ok C have "claim L u \<subseteq> busy L - {unat (mr_Base ?r)..<unat (mr_Base ?r) + unat (mr_Count ?r)}"
        unfolding vectors_ok_def by blast
      with same [OF False] free_vectors_busy [OF K shape fits n] show ?thesis by auto
    qed (simp only: empty empty_subsetI)
  qed (simp add: shape1)
  have "claim ?keep u = claim L u" for u
    using i record_run_claim [OF shape i(1), where r = "?r\<lparr>mr_Claimed := False\<rparr>"] by (cases "u = Inr i") simp_all
  then have "vectors_ok ?keep" by (intro vectors_ok_frame [OF ok]) (simp_all add: shape)
  with Some freed show ?thesis by (simp add: UacpiNtHalFreeMessageTargetOverride_def Let_def)
qed

lemma WriteMessage_ok:
  assumes K: "Vector_contract K" and ok: "vectors_ok L" and n: "Count \<le> max_messages"
    and run: "UacpiNtWriteMessageConnectionData K H L Pdo g Count = Some (s, d, L')"
  shows "vectors_ok L'"
proof -
  define C where "C = (if Count = 0 then 1 else Count)"
  have "C \<le> max_messages" using n by (simp add: C_def word_le_nat_alt)
  from ResolveMessage_ok [OF K ok this, of H Pdo g] obtain s1 b q a L1 where
    r: "UacpiNtIrqLibResolveMessageVector K H L Pdo g C = Some (s1, b, q, a, L1)" "vectors_ok L1" by blast
  from run r show ?thesis
    unfolding UacpiNtWriteMessageConnectionData_def Let_def C_def [symmetric] by (simp split: if_splits)
qed

lemma ResolveVector_ok:
  assumes K: "Vector_contract K" and ok: "vectors_ok L"
    and run: "UacpiNtIrqLibResolveVector K H L Gsiv = (s, e, L')"
  shows "vectors_ok L'"
proof -
  have sec: "vectors_ok L1" if "UacpiNtAllocateSecondaryVector L g = (s1, v, L1)" for g s1 v L1
  proof -
    have "claim L1 u = claim L u" "busy L1 = busy L" "shape_ok L1 = shape_ok L" for u
      using that by (auto simp: UacpiNtAllocateSecondaryVector_def Let_def claim_def busy_def shape_ok_def
          split: option.splits if_splits sum.split)
    with ok show ?thesis by (intro vectors_ok_frame [OF ok]) (simp_all add: vectors_ok_def)
  qed
  have sec2: "vectors_ok L1" if "UacpiNtResolveSecondaryVector K H L g = (s1, v, q, L1)" for g s1 v q L1
  proof -
    obtain s2 v2 L2 where a: "UacpiNtAllocateSecondaryVector L g = (s2, v2, L2)" by (rule prod_cases3)
    from that a sec [OF a] show ?thesis
      by (auto simp: UacpiNtResolveSecondaryVector_def Let_def
          dest: AllocateVector_result(1) [OF K sec [OF a]] split: option.splits if_splits prod.splits)
  qed
  from run ok show ?thesis
    by (auto simp: UacpiNtIrqLibResolveVector_def Let_def dest: AllocateVector_result(1) [OF K ok] sec2
        split: if_splits prod.splits option.splits)
qed

lemma WriteConnectionData_ok:
  assumes K: "Vector_contract K" and ok: "vectors_ok L" and n: "Count \<le> max_messages"
    and run: "UacpiNtIrqLibWriteConnectionData K H L Pdo Gsiv Count = Some (s, d, L')"
  shows "vectors_ok L'"
proof -
  from run ok show ?thesis
    by (auto simp: UacpiNtIrqLibWriteConnectionData_def Let_def
        dest: ResolveVector_ok [OF K ok] WriteMessage_ok [OF K ok n] split: if_splits prod.splits)
qed

lemma ProcessorChange_ok:
  assumes ok: "vectors_ok L"
  shows "vectors_ok (UacpiNtProcessorChangeCallback K AddComplete NtNumber L)"
proof (cases "AddComplete \<and> NtNumber < 256 \<and> \<not> pi_Valid (il_ProcessorIdt L ! NtNumber)")
  case True
  let ?L = "UacpiNtProcessorChangeCallback K AddComplete NtNumber L"
  have shape: "shape_ok L" using ok by (simp add: vectors_ok_def)
  with True have "NtNumber \<noteq> 0" by (cases "NtNumber = 0") (simp_all add: shape_ok_def)
  with True shape have "il_ProcessorIdt ?L ! 0 = il_ProcessorIdt L ! 0" "shape_ok ?L"
    by (simp_all add: UacpiNtProcessorChangeCallback_def UacpiNtSeedProcessor_def shape_ok_def)
  moreover have "claim ?L u = claim L u" for u
    by (simp add: UacpiNtProcessorChangeCallback_def UacpiNtSeedProcessor_def claim_def split: sum.split)
  ultimately show ?thesis by (intro vectors_ok_frame [OF ok]) (simp_all add: busy_def)
qed (use ok in \<open>auto simp: UacpiNtProcessorChangeCallback_def\<close>)

section \<open>Reachable states\<close>

text \<open>
  The entry points that change the allocator. The HAL's and kernel's answers \<open>H\<close> may differ from call
  to call. The library's lock makes each of them one step.
\<close>

inductive lib_step :: "nt_kernel \<Rightarrow> irq_lib \<Rightarrow> irq_lib \<Rightarrow> bool" for K where
  resolve_line: "UacpiNtIrqLibResolveVector K H L Gsiv = (s, e, L') \<Longrightarrow> lib_step K L L'"
| resolve_message:
    "Count \<le> max_messages \<Longrightarrow> UacpiNtIrqLibResolveMessageVector K H L Owner Gsiv Count = Some (s, b, q, a, L') \<Longrightarrow>
     lib_step K L L'"
| write_data:
    "Count \<le> max_messages \<Longrightarrow> UacpiNtIrqLibWriteConnectionData K H L Pdo Gsiv Count = Some (s, d, L') \<Longrightarrow>
     lib_step K L L'"
| hal_allocate:
    "Count \<le> max_messages \<Longrightarrow> UacpiNtHalAllocateMessageTargetOverride K H Passive L Owner Count = Some (s, b, q, L') \<Longrightarrow>
     lib_step K L L'"
| hal_free: "lib_step K L (UacpiNtHalFreeMessageTargetOverride K L Owner Vector)"
| processor_change: "lib_step K L (UacpiNtProcessorChangeCallback K AddComplete NtNumber L)"
| note_level: "lib_step K L (UacpiNtIrqLibNoteLevelGsiv Gsiv L)"

lemma lib_step_ok:
  assumes K: "Vector_contract K" and "lib_step K L L'" and ok: "vectors_ok L"
  shows "vectors_ok L'"
  using assms(2) ok
proof cases
  case (resolve_message Count H Owner Gsiv s b q a)
  with ResolveMessage_ok [OF K ok resolve_message(1), of H Owner Gsiv] show ?thesis by auto
next
  case (note_level Gsiv)
  have "claim L' u = claim L u" "busy L' = busy L" "shape_ok L' = shape_ok L" for u
    unfolding note_level(1)
    by (simp_all add: UacpiNtIrqLibNoteLevelGsiv_def claim_def busy_def shape_ok_def split: sum.split)
  with ok show ?thesis by (intro vectors_ok_frame [OF ok]) (simp_all add: vectors_ok_def)
qed (auto intro: ResolveVector_ok [OF K ok] WriteConnectionData_ok [OF K ok] HalAllocate_ok [OF K ok]
      HalFree_ok [OF K ok] ProcessorChange_ok [OF ok])

text \<open>The state of the loaded driver: zeroed statics but for what was read before the processors.\<close>

definition loaded :: "irq_lib \<Rightarrow> bool" where
  "loaded L \<longleftrightarrow> il_ProcessorIdt L = replicate 256 \<lparr>pi_UsedEntries = [], pi_Valid = False\<rparr> \<and>
     il_ProcessorIdtCount L = 0 \<and> il_GsivVector L = replicate 256 0 \<and> il_MessageRuns L = replicate 128 zero_run"

lemma seeded_ok:
  assumes "loaded L" and "KeNumberProcessors \<noteq> 0"
  shows "vectors_ok (UacpiNtSeedExistingProcessors K KeNumberProcessors L)"
proof -
  let ?n = "min (unat KeNumberProcessors) 256"
  have one: "shape_ok (UacpiNtSeedProcessor K 0 L)" "il_GsivVector (UacpiNtSeedProcessor K 0 L) = replicate 256 0"
    "il_MessageRuns (UacpiNtSeedProcessor K 0 L) = replicate 128 zero_run"
    using assms(1) by (simp_all add: UacpiNtSeedProcessor_def loaded_def shape_ok_def)
  have step: "shape_ok (UacpiNtSeedProcessor K p L1) \<and>
      il_GsivVector (UacpiNtSeedProcessor K p L1) = il_GsivVector L1 \<and>
      il_MessageRuns (UacpiNtSeedProcessor K p L1) = il_MessageRuns L1" if "shape_ok L1" for p L1
    using that by (cases "p = 0") (auto simp: UacpiNtSeedProcessor_def shape_ok_def)
  have rest: "shape_ok (fold (UacpiNtSeedProcessor K) ps L1) \<and>
      il_GsivVector (fold (UacpiNtSeedProcessor K) ps L1) = il_GsivVector L1 \<and>
      il_MessageRuns (fold (UacpiNtSeedProcessor K) ps L1) = il_MessageRuns L1" if "shape_ok L1" for ps L1
    using that by (induction ps arbitrary: L1) (simp_all add: step)
  have "0 < ?n" using assms(2) by (simp add: unat_gt_0)
  then have "[0..<?n] = 0 # [1..<?n]" by (metis One_nat_def upt_rec)
  then have "UacpiNtSeedExistingProcessors K KeNumberProcessors L =
      fold (UacpiNtSeedProcessor K) [1..<?n] (UacpiNtSeedProcessor K 0 L)"
    by (simp add: UacpiNtSeedExistingProcessors_def)
  with rest [OF one(1), of "[1..<?n]"] one
  have f: "shape_ok (UacpiNtSeedExistingProcessors K KeNumberProcessors L)"
    "il_GsivVector (UacpiNtSeedExistingProcessors K KeNumberProcessors L) = replicate 256 0"
    "il_MessageRuns (UacpiNtSeedExistingProcessors K KeNumberProcessors L) = replicate 128 zero_run" by simp_all
  then have "claim (UacpiNtSeedExistingProcessors K KeNumberProcessors L) u = {}" for u
    by (cases u) (simp_all add: zero_run_def)
  with f(1) show ?thesis by (simp add: vectors_ok_def)
qed

lemma reachable_ok:
  assumes "Vector_contract K" and "loaded L0" and "KeNumberProcessors \<noteq> 0"
    and "(lib_step K)\<^sup>*\<^sup>* (UacpiNtSeedExistingProcessors K KeNumberProcessors L0) L"
  shows "vectors_ok L"
  using assms(4) by induction (auto intro: seeded_ok [OF assms(2,3)] lib_step_ok [OF assms(1)])

section \<open>A concrete kernel and machine\<close>

definition vector_kernel :: nt_kernel where
  "vector_kernel = entry_kernel\<lparr>k_RtlIsRangeAvailable := (\<lambda>rl s e fl at.
     list_all (\<lambda>r. rr_Start r \<le> rr_End r \<longrightarrow> \<not> overlaps s e (rr_Start r) (rr_End r)) rl)\<rparr>"

lemma blocked_Cons [simp]: "blocked (r # rl) = window (rr_Start r) (rr_End r) \<union> blocked rl"
  by (simp add: blocked_def)

lemma window_empty: "\<not> s \<le> e \<Longrightarrow> window s e = {}"
  by (auto simp: window_def)

lemma vector_kernel_contract: "Vector_contract vector_kernel"
proof -
  have "s \<le> e \<Longrightarrow> list_all (\<lambda>r. rr_Start r \<le> rr_End r \<longrightarrow> \<not> overlaps s e (rr_Start r) (rr_End r)) rl =
      (window s e \<inter> blocked rl = {})" for s e rl
  proof (induction rl)
    case (Cons r rl)
    have "(rr_Start r \<le> rr_End r \<longrightarrow> \<not> overlaps s e (rr_Start r) (rr_End r)) =
        (window s e \<inter> window (rr_Start r) (rr_End r) = {})"
      using overlaps_iff [OF Cons.prems, of "rr_Start r" "rr_End r"] window_empty [of "rr_Start r" "rr_End r"] by auto
    with Cons show ?case by (auto simp: Int_Un_distrib)
  qed (simp add: blocked_def)
  moreover have "blocked rl - window s e \<subseteq>
      blocked (delete_first (\<lambda>r. rr_Start r = s \<and> rr_End r = e \<and> rr_Owner r = ow) rl)" for rl s e ow
    by (induction rl) auto
  ultimately show ?thesis
    by (simp add: Vector_contract_def vector_kernel_def entry_kernel_def Un_commute)
qed

definition loaded_lib :: irq_lib where
  "loaded_lib = \<lparr>il_InterruptModel = ACPI_NT_APIC, il_PicVectorBase = 0, il_PicBaseValid = False,
     il_ProcessorIdt = replicate 256 \<lparr>pi_UsedEntries = [], pi_Valid = False\<rparr>, il_ProcessorIdtCount = 0,
     il_GsivVector = replicate 256 0, il_GsivLevel = replicate 8 0, il_GsivForcedEdge = replicate 8 0,
     il_GsivForcedHigh = replicate 8 0, il_GsivForcedLow = replicate 8 0, il_HalGrantedVectors = replicate 8 0,
     il_HalGrantedCount = 0, il_MessageRuns = replicate 128 zero_run, il_SecondaryVectorGsiv = [],
     il_IsaOverride = replicate 16 \<lparr>iso_Gsiv = 0, iso_Valid = False\<rparr>\<rparr>"

definition plain_hal :: irq_hal where
  "plain_hal = \<lparr>h_ConvertDeviceIdtToIrql = None, h_ActiveProcessors = 3, h_IsInterruptTypeSecondary = None,
     h_QueryPrimary = None, h_GetInterruptVector = None, h_SetConnectionData = (\<lambda>_ _. STATUS_SUCCESS), h_Pool = True\<rparr>"

definition two_processors :: irq_lib where
  "two_processors = UacpiNtSeedExistingProcessors vector_kernel 2 loaded_lib"

lemma loaded_loaded_lib: "loaded loaded_lib"
  by (simp add: loaded_def loaded_lib_def)

lemma two_processors_ok: "vectors_ok two_processors"
  unfolding two_processors_def by (rule seeded_ok [OF loaded_loaded_lib]) simp

definition seeded_idt :: processor_idt where
  "seeded_idt = \<lparr>pi_UsedEntries =
     [\<lparr>rr_Start = 0xC0, rr_End = 0xFF, rr_Owner = None, rr_Attributes = 0, rr_Flags = 0\<rparr>,
      \<lparr>rr_Start = 0, rr_End = 0x4F, rr_Owner = None, rr_Attributes = 0, rr_Flags = 0\<rparr>], pi_Valid = True\<rparr>"

lemma two_processors_simps [simp]:
  "il_ProcessorIdt two_processors =
     (replicate 256 \<lparr>pi_UsedEntries = [], pi_Valid = False\<rparr>)[0 := seeded_idt, 1 := seeded_idt]"
  "il_ProcessorIdtCount two_processors = 2" "il_GsivVector two_processors = replicate 256 0"
  "il_MessageRuns two_processors = replicate 128 zero_run" "il_InterruptModel two_processors = ACPI_NT_APIC"
proof -
  have "[0..<min (unat (2 :: u8)) 256] = [0, 1]" by (simp add: upt_rec)
  moreover have "\<lparr>pi_UsedEntries = UacpiNtSeedIdtState vector_kernel L, pi_Valid = True\<rparr> = seeded_idt"
    if "il_HalGrantedCount L = 0" for L
    using that by (simp add: UacpiNtSeedIdtState_def vector_kernel_def entry_kernel_def seeded_idt_def)
  moreover have "pi_Valid seeded_idt" by (simp add: seeded_idt_def)
  ultimately show "il_ProcessorIdt two_processors =
     (replicate 256 \<lparr>pi_UsedEntries = [], pi_Valid = False\<rparr>)[0 := seeded_idt, 1 := seeded_idt]"
    "il_ProcessorIdtCount two_processors = 2" "il_GsivVector two_processors = replicate 256 0"
    "il_MessageRuns two_processors = replicate 128 zero_run" "il_InterruptModel two_processors = ACPI_NT_APIC"
    by (simp_all add: two_processors_def UacpiNtSeedExistingProcessors_def UacpiNtSeedProcessor_def loaded_lib_def
        nth_list_update)
qed

lemma take_two: "2 \<le> length xs \<Longrightarrow> take 2 (xs[0 := a, Suc 0 := b]) = [a, b]"
  by (cases xs; cases "tl xs") (auto simp: numeral_2_eq_2)

lemma first_vector: "find P vector_band = Some 0x50" if "P 0x50" for P
  using that by (simp add: vector_band_def upt_rec)

lemma first_vector_free: "UacpiNtVectorFreeEverywhere vector_kernel two_processors 0x50"
  by (simp add: UacpiNtVectorFreeEverywhere_def take_two seeded_idt_def vector_kernel_def overlaps_def)

lemma first_line:
  "UacpiNtApicAllocateVector vector_kernel two_processors g =
     (STATUS_SUCCESS, 0x50,
      let L = UacpiNtClaimVectors vector_kernel 0x50 0x50 (line_owner g) two_processors
      in if g < UACPINT_MAX_GSIV then L\<lparr>il_GsivVector := (il_GsivVector L)[unat g := 0x50]\<rparr> else L)"
proof -
  have "g < UACPINT_MAX_GSIV \<Longrightarrow> unat g < 256" by (simp add: word_less_nat_alt)
  then show ?thesis
    using first_vector [of "UacpiNtVectorFreeEverywhere vector_kernel two_processors", OF first_vector_free]
    by (simp add: UacpiNtApicAllocateVector_def Let_def)
qed

section \<open>Looking a vector up\<close>

lemma line_found:
  assumes ok: "vectors_ok L" and g: "g < 256" and v: "il_GsivVector L ! g = v" "v \<noteq> 0"
  shows "find (\<lambda>i. il_GsivVector L ! i = v) [0..<256] = Some g"
proof -
  have "il_GsivVector L ! i \<noteq> v" if "i < 256" "i \<noteq> g" for i
  proof
    assume "il_GsivVector L ! i = v"
    with v g that have "unat v \<in> claim L (Inl i) \<inter> claim L (Inl g)" by simp
    with ok that show False unfolding vectors_ok_def by (metis Inl_inject empty_iff)
  qed
  with g v show ?thesis by (auto simp: find_Some_iff intro!: exI [of _ g])
qed

lemma message_found:
  assumes ok: "vectors_ok L" and "unat v \<in> claim L (Inr i)"
  shows "UacpiNtHalGetVectorInputOverride L v = (STATUS_INVALID_PARAMETER, None)"
proof -
  let ?r = "il_MessageRuns L ! i"
  from assms(2) have i: "i < 128" "mr_Owner ?r \<noteq> None"
    and r: "unat (mr_Base ?r) \<le> unat v" "unat v < unat (mr_Base ?r) + unat (mr_Count ?r)"
    by (auto split: if_splits)
  have "claim L (Inl g) \<inter> claim L (Inr i) = {}" for g using ok unfolding vectors_ok_def by blast
  with assms(2) have no: "il_GsivVector L ! g \<noteq> v" if "g < 256" "v \<noteq> 0" for g using that by fastforce
  then have "find (\<lambda>i. il_GsivVector L ! i = v) [0..<256] = None" if "v \<noteq> 0"
    using that by (auto simp: find_None_iff)
  moreover have n: "mr_Count ?r \<noteq> 0" using r by auto
  have "claim L (Inr i) = {unat (mr_Base ?r)..<unat (mr_Base ?r) + unat (mr_Count ?r)}" using i by simp
  from vectors_ok_claim_bound(2) [OF ok this n]
  have "unat (mr_Base ?r + mr_Count ?r) = unat (mr_Base ?r) + unat (mr_Count ?r)" by (intro unat_add_nowrap) simp
  then have "mr_Base ?r \<le> v" "v < mr_Base ?r + mr_Count ?r" using r by (simp_all add: word_le_nat_alt word_less_nat_alt)
  moreover have "?r \<in> set (il_MessageRuns L)" using i ok by (simp add: vectors_ok_def shape_ok_def)
  ultimately show ?thesis using i n by (auto simp: UacpiNtHalGetVectorInputOverride_def list_ex_iff)
qed

section \<open>Properties\<close>



text \<open>
  HalGetVectorInput inverts the line allocation. Under the APIC model, after the vector of a
  line below 256 that is not a secondary interrupt was resolved, asking for the input of that
  vector gives the line back with its polarity; and for a vector of a message run the answer is
  STATUS_INVALID_PARAMETER, which sends the kernel down the message path.
\<close>
theorem VectorInput_inverts:
  assumes "Vector_contract K" and "loaded L0" and "KeNumberProcessors \<noteq> 0"
    and "(lib_step K)\<^sup>*\<^sup>* (UacpiNtSeedExistingProcessors K KeNumberProcessors L0) L"
    and "il_InterruptModel L = ACPI_NT_APIC" and "\<not> UacpiNtIsSecondaryGsiv H Gsiv" and "Gsiv < UACPINT_MAX_GSIV"
    and "UacpiNtIrqLibResolveVector K H L Gsiv = (STATUS_SUCCESS, e, L')"
  shows "UacpiNtHalGetVectorInputOverride L' (vd_Vector e) = (STATUS_SUCCESS, Some (Gsiv, UacpiNtGsivIsActiveLow L' Gsiv)) \<and>
    (\<forall>i v. unat v \<in> claim L' (Inr i) \<longrightarrow> UacpiNtHalGetVectorInputOverride L' v = (STATUS_INVALID_PARAMETER, None))"
proof -
  note K = assms(1)
  have ok: "vectors_ok L" by (rule reachable_ok [OF assms(1-4)])
  have ok': "vectors_ok L'" by (rule ResolveVector_ok [OF K ok assms(8)])
  obtain s v L1 where a: "UacpiNtApicAllocateVector K L Gsiv = (s, v, L1)" by (rule prod_cases3)
  with assms(5,6,8) have s: "NT_SUCCESS s" "vd_Vector e = v" "L1 = L'"
    by (auto simp: UacpiNtIrqLibResolveVector_def Let_def line_element_def split: if_splits)
  from AllocateVector_result(2) [OF K ok a s(1) assms(7)] s
  have v: "il_GsivVector L' ! unat Gsiv = v" "v \<noteq> 0" by simp_all
  have g: "unat Gsiv < 256" using assms(7) by (simp add: word_less_nat_alt)
  have "find (\<lambda>i. il_GsivVector L' ! i = v) [0..<256] = Some (unat Gsiv)"
    by (rule line_found [OF ok' g v])
  with s v show ?thesis using message_found [OF ok'] by (simp add: UacpiNtHalGetVectorInputOverride_def)
qed

lemma VectorInput_inverts_witness:
  "\<exists>L e. UacpiNtIrqLibResolveVector vector_kernel plain_hal two_processors 9 = (STATUS_SUCCESS, e, L) \<and>
     vd_Vector e = 0x50 \<and>
     UacpiNtHalGetVectorInputOverride L 0x50 = (STATUS_SUCCESS, Some (9, UacpiNtGsivIsActiveLow L 9))"
proof -
  have sec: "\<not> UacpiNtIsSecondaryGsiv plain_hal 9" by (simp add: UacpiNtIsSecondaryGsiv_def plain_hal_def)
  obtain L e where r: "UacpiNtIrqLibResolveVector vector_kernel plain_hal two_processors 9 = (STATUS_SUCCESS, e, L)"
    and v: "vd_Vector e = 0x50"
    using sec by (auto simp: UacpiNtIrqLibResolveVector_def first_line Let_def line_element_def)
  from VectorInput_inverts [OF vector_kernel_contract loaded_loaded_lib, of 2 two_processors, folded two_processors_def,
      OF _ rtranclp.rtrancl_refl _ sec _ r] v r
  show ?thesis by simp
qed

text \<open>
  A line at or above GSIV 256 has no slot in the table, so resolving it again, as every device
  on a shared line and every repeated query does, takes a fresh vector each time instead of
  returning the first one.
\<close>
theorem High_line_takes_another_vector:
  assumes "Vector_contract K" and "vectors_ok L" and "UACPINT_MAX_GSIV \<le> Gsiv"
    and "UacpiNtApicAllocateVector K L Gsiv = (STATUS_SUCCESS, v1, L1)"
    and "UacpiNtApicAllocateVector K L1 Gsiv = (STATUS_SUCCESS, v2, L2)"
  shows "v1 \<noteq> v2"
proof -
  note K = assms(1)
  have shape: "shape_ok L" using assms(2) by (simp add: vectors_ok_def)
  from assms(3-5) have f: "find (UacpiNtVectorFreeEverywhere K L) vector_band = Some v1"
    "L1 = UacpiNtClaimVectors K v1 v1 (line_owner Gsiv) L" "find (UacpiNtVectorFreeEverywhere K L1) vector_band = Some v2"
    by (auto simp: UacpiNtApicAllocateVector_def Let_def not_less split: if_splits option.splits)
  then have free: "UacpiNtVectorFreeEverywhere K L v1" "v1 \<in> set vector_band" "UacpiNtVectorFreeEverywhere K L1 v2"
    by (auto simp: find_Some_iff)
  from claim_free_vector [OF K shape free(1,2), of "line_owner Gsiv"]
  have t: "took L {unat v1} L1" using f(2) by simp
  then have "unat v1 \<in> busy L1" "shape_ok L1" by (simp_all add: took_def)
  with free_not_busy(2) [OF K _ free(3)] show ?thesis by auto
qed

lemma High_line_takes_another_vector_witness:
  "\<exists>L1 L2 v2. UacpiNtApicAllocateVector vector_kernel two_processors 300 = (STATUS_SUCCESS, 0x50, L1) \<and>
     UacpiNtApicAllocateVector vector_kernel L1 300 = (STATUS_SUCCESS, v2, L2) \<and> v2 \<noteq> 0x50"
proof -
  let ?L1 = "UacpiNtClaimVectors vector_kernel 0x50 0x50 (line_owner 300) two_processors"
  have 1: "UacpiNtApicAllocateVector vector_kernel two_processors 300 = (STATUS_SUCCESS, 0x50, ?L1)"
    by (simp add: first_line)
  have "UacpiNtVectorFreeEverywhere vector_kernel ?L1 0x51"
    by (simp add: UacpiNtVectorFreeEverywhere_def UacpiNtClaimVectors_def on_processors_def take_two seeded_idt_def
        vector_kernel_def entry_kernel_def overlaps_def)
  then have "find (UacpiNtVectorFreeEverywhere vector_kernel ?L1) vector_band \<noteq> None"
    by (simp add: find_None_iff vector_band_iff) (intro exI [of _ "0x51"], simp)
  then obtain v2 where "find (UacpiNtVectorFreeEverywhere vector_kernel ?L1) vector_band = Some v2" by auto
  then have 2: "UacpiNtApicAllocateVector vector_kernel ?L1 300 =
      (STATUS_SUCCESS, v2, UacpiNtClaimVectors vector_kernel v2 v2 (line_owner 300) ?L1)"
    by (simp add: UacpiNtApicAllocateVector_def UacpiNtClaimVectors_def)
  from High_line_takes_another_vector [OF vector_kernel_contract two_processors_ok _ 1 2] 1 2
  show ?thesis by auto
qed

text \<open>
  The fallback to a single message is not found again. When no run of the requested count
  is available and the allocator settles for one vector, the run is recorded with count 1, so the
  next resolve for the same owner, placement and count does not match it and takes yet another
  vector (or another slot of the table) although nothing changed for the device.
\<close>
theorem Message_fallback_not_found_again:
  assumes "il_InterruptModel L = ACPI_NT_APIC" and "Count > 1" and "matching_run L Owner g Count = None"
    and "free_run L = Some i" and "i < length (il_MessageRuns L)"
    and "UacpiNtApicAllocateVectorRange K L Count = Some (s1, b1, L)" and "\<not> NT_SUCCESS s1"
    and "UacpiNtApicAllocateVectorRange K L 1 = Some (STATUS_SUCCESS, b, L1)"
    and "il_MessageRuns L1 = il_MessageRuns L"
  shows "\<exists>q a L2. UacpiNtIrqLibResolveMessageVector K H L Owner g Count = Some (STATUS_SUCCESS, b, q, a, L2) \<and>
    il_MessageRuns L2 ! i = \<lparr>mr_Owner = Some Owner, mr_MessageGsiv = g, mr_Base = b, mr_Count = 1, mr_Claimed = False\<rparr> \<and>
    matching_run L2 Owner g Count = None"
proof -
  have c: "Count \<noteq> 0" "Count \<noteq> 1" using assms(2) by auto
  let ?r = "\<lparr>mr_Owner = Some Owner, mr_MessageGsiv = g, mr_Base = b, mr_Count = 1, mr_Claimed = False\<rparr> :: message_run"
  have "UacpiNtIrqLibResolveMessageVector K H L Owner g Count =
      Some (STATUS_SUCCESS, b, UacpiNtVectorToIrql H b, UacpiNtLowestProcessor (h_ActiveProcessors H), record_run i ?r L1)"
    using assms c by (simp add: UacpiNtIrqLibResolveMessageVector_def Let_def)
  moreover have "matching_run (record_run i ?r L1) Owner g Count = None"
    using assms(3,5,9) c by (auto simp: matching_run_def record_run_def find_None_iff nth_list_update Let_def)
  moreover have "il_MessageRuns (record_run i ?r L1) ! i = ?r" using assms(5,9) by (simp add: record_run_def)
  ultimately show ?thesis by blast
qed

text \<open>A machine on which 0x51 is the only free vector.\<close>

definition nearly_full :: irq_lib where
  "nearly_full = two_processors\<lparr>il_ProcessorIdt := replicate 256
     \<lparr>pi_UsedEntries = [\<lparr>rr_Start = 0, rr_End = 0x50, rr_Owner = None, rr_Attributes = 0, rr_Flags = 0\<rparr>,
        \<lparr>rr_Start = 0x52, rr_End = 0xFF, rr_Owner = None, rr_Attributes = 0, rr_Flags = 0\<rparr>], pi_Valid = True\<rparr>\<rparr>"

lemma two_copies: "replicate 2 x = [x, x]"
  by (simp add: numeral_2_eq_2)

lemma nearly_full_free:
  "UacpiNtVectorFreeEverywhere vector_kernel nearly_full v \<longleftrightarrow> unat v = 0x51 \<or> 0xFF < unat v"
proof -
  have "UacpiNtVectorFreeEverywhere vector_kernel nearly_full v \<longleftrightarrow>
      \<not> ((ucast v :: u64) \<le> 0x50) \<and> \<not> (ucast v \<le> (0xFF :: u64) \<and> 0x52 \<le> (ucast v :: u64))"
    by (simp add: UacpiNtVectorFreeEverywhere_def nearly_full_def vector_kernel_def overlaps_def two_copies)
  then show ?thesis by (auto simp: word_le_nat_alt unat_ucast_64)
qed

lemma nearly_full_pair:
  "UacpiNtApicAllocateVectorRange vector_kernel nearly_full 2 = Some (STATUS_INSUFFICIENT_RESOURCES, 0, nearly_full)"
proof -
  have a: "range_alignment 2 = 2" "(0x50 + 2 - 1) AND NOT (2 - 1) = (0x50 :: u32)" by (simp_all add: range_alignment_def)
  have "range_loop range_fuel vector_kernel nearly_full 2 2 0x50 \<noteq> None" by (rule range_loop_total) simp_all
  moreover have "range_loop range_fuel vector_kernel nearly_full 2 2 0x50 \<noteq> Some (Some b)" for b
  proof
    assume "range_loop range_fuel vector_kernel nearly_full 2 2 0x50 = Some (Some b)"
    from range_loop_found [OF _ _ _ _ _ this] have b: "unat b + 2 \<le> 0xC0"
      "\<forall>v. unat b \<le> unat v \<longrightarrow> unat v < unat b + 2 \<longrightarrow> UacpiNtVectorFreeEverywhere vector_kernel nearly_full v" by simp_all
    then have "UacpiNtVectorFreeEverywhere vector_kernel nearly_full b"
      "UacpiNtVectorFreeEverywhere vector_kernel nearly_full (b + 1)"
      using unat_add_nowrap [of b 1] by simp_all
    with b(1) unat_add_nowrap [of b 1] show False by (simp add: nearly_full_free)
  qed
  ultimately have "range_loop range_fuel vector_kernel nearly_full 2 2 0x50 = Some None"
    by (metis option.exhaust)
  then show ?thesis using a by (simp add: UacpiNtApicAllocateVectorRange_def Let_def nearly_full_def)
qed

lemma nearly_full_single:
  "UacpiNtApicAllocateVectorRange vector_kernel nearly_full 1 =
     Some (STATUS_SUCCESS, 0x51, UacpiNtClaimVectors vector_kernel 0x51 0x51 UACPINT_MSI_RANGE_OWNER nearly_full)"
proof -
  have "range_loop (Suc (Suc n)) vector_kernel nearly_full 1 1 0x50 = Some (Some 0x51)" for n
    by (simp add: nearly_full_free)
  moreover have "range_fuel = Suc (Suc 0xBF)" by simp
  ultimately have "range_loop range_fuel vector_kernel nearly_full 1 1 0x50 = Some (Some 0x51)" by (simp only:)
  then show ?thesis by (simp add: UacpiNtApicAllocateVectorRange_def Let_def range_alignment_def nearly_full_def)
qed

lemma Message_fallback_not_found_again_witness:
  "\<exists>q a L2. UacpiNtIrqLibResolveMessageVector vector_kernel plain_hal nearly_full 7 0xFFF00000 2 =
      Some (STATUS_SUCCESS, 0x51, q, a, L2) \<and> matching_run L2 7 0xFFF00000 2 = None"
proof -
  have "matching_run nearly_full 7 0xFFF00000 2 = None" "free_run nearly_full = Some 0"
    by (simp_all add: matching_run_def free_run_def nearly_full_def find_None_iff zero_run_def upt_rec)
  from Message_fallback_not_found_again [OF _ _ this _ nearly_full_pair _ nearly_full_single, of plain_hal]
  show ?thesis by (auto simp: nearly_full_def UacpiNtClaimVectors_def)
qed

end
