(* ===== verification/Irq_Arbiter.thy ===== *)
theory Irq_Arbiter
  imports Irq_Codec Irq_Links Irq_Vector_Safety
begin

text \<open>
  The interrupt arbiter (sys/irqarb.c): the callbacks it gives the arbiter library, which put a PCI
  device on the line its _PRT routes it to before they fall back on the library's walk, and the
  commit, which publishes the connection data of every new or moved placement.
\<close>

section \<open>WorkSpace\<close>

text \<open>
  The low byte of a state's WorkSpace is the cursor of the walk, the rest the result of routing: 0
  before, 1 for no route, else the GSIV plus 2.
\<close>

abbreviation (input) UACPINT_WS_PRT_NONE :: u32 where "UACPINT_WS_PRT_NONE \<equiv> 1"
abbreviation (input) UACPINT_WS_PRT_BIAS :: u32 where "UACPINT_WS_PRT_BIAS \<equiv> 2"
abbreviation (input) UACPINT_NEXT_LINK_PREF :: u64 where "UACPINT_NEXT_LINK_PREF \<equiv> 1"
abbreviation (input) UACPINT_NEXT_BOOT_CONFIG :: u64 where "UACPINT_NEXT_BOOT_CONFIG \<equiv> 3"
abbreviation (input) UACPINT_NEXT_ALTERNATIVES :: u64 where "UACPINT_NEXT_ALTERNATIVES \<equiv> 4"
abbreviation (input) UACPINT_RANGE_LEVEL :: u8 where "UACPINT_RANGE_LEVEL \<equiv> 4"
abbreviation (input) UACPINT_RANGE_LATCHED :: u8 where "UACPINT_RANGE_LATCHED \<equiv> 8"

definition UACPINT_WS_CURSOR :: "u64 \<Rightarrow> u64" where
  "UACPINT_WS_CURSOR Ws = Ws AND 0xFF"

definition UACPINT_WS_PRT :: "u64 \<Rightarrow> u32" where
  "UACPINT_WS_PRT Ws = ucast (drop_bit 8 Ws)"

definition UACPINT_WS_SET_CURSOR :: "u64 \<Rightarrow> u64 \<Rightarrow> u64" where
  "UACPINT_WS_SET_CURSOR Ws Value = (Ws AND NOT 0xFF) OR Value"

definition UACPINT_WS_SET_PRT :: "u64 \<Rightarrow> u64 \<Rightarrow> u64" where
  "UACPINT_WS_SET_PRT Ws Value = (Ws AND 0xFF) OR push_bit 8 Value"

lemma cursor_set_cursor: "v AND 0xFF = v \<Longrightarrow> UACPINT_WS_CURSOR (UACPINT_WS_SET_CURSOR Ws v) = v"
  by (simp add: UACPINT_WS_CURSOR_def UACPINT_WS_SET_CURSOR_def bit.conj_disj_distrib2 and.assoc)

lemma cursor_set_prt: "UACPINT_WS_CURSOR (UACPINT_WS_SET_PRT Ws v) = UACPINT_WS_CURSOR Ws"
proof -
  have "push_bit 8 v AND mask 8 = 0"
    by (rule bit_word_eqI) (auto simp: bit_and_iff bit_push_bit_iff bit_mask_iff)
  then have "push_bit 8 v AND 0xFF = 0" by (simp add: mask_eq_exp_minus_1)
  then show ?thesis
    by (simp add: UACPINT_WS_CURSOR_def UACPINT_WS_SET_PRT_def bit.conj_disj_distrib2 and.assoc)
qed

section \<open>Callbacks\<close>

definition UacpiNtIrqShareableRange :: "rtl_range \<Rightarrow> bool" where
  "UacpiNtIrqShareableRange r \<longleftrightarrow> rr_Attributes r AND UACPINT_RANGE_LEVEL \<noteq> 0 \<and> rr_Flags r AND 1 \<noteq> 0"

text \<open>The tag of a state's triggering, and whether its entry still has to be routed.\<close>

definition tag_triggering :: "alloc_state \<Rightarrow> alloc_state" where
  "tag_triggering st =
     st\<lparr>st_RangeAttributes :=
          (st_RangeAttributes st AND NOT (UACPINT_RANGE_LEVEL OR UACPINT_RANGE_LATCHED)) OR
          (case st_Alternatives st of
             alt # _ \<Rightarrow> if io_Flags (alt_Descriptor alt) AND CM_RESOURCE_INTERRUPT_LATCHED \<noteq> 0
                       then UACPINT_RANGE_LATCHED else UACPINT_RANGE_LEVEL
           | [] \<Rightarrow> UACPINT_RANGE_LEVEL)\<rparr>"

definition unrouted :: "alloc_state \<Rightarrow> bool" where
  "unrouted st \<longleftrightarrow>
     requester st \<noteq> None \<and> st_Flags st AND STATE_FLAG_BOOT = 0 \<and> UACPINT_WS_PRT (st_WorkSpace st) = 0"

text \<open>The state with the answer of routing recorded.\<close>

definition set_route :: "u32 option \<Rightarrow> alloc_state \<Rightarrow> alloc_state" where
  "set_route route st =
     st\<lparr>st_WorkSpace := UACPINT_WS_SET_PRT (st_WorkSpace st)
          (case route of Some Gsiv \<Rightarrow> ucast Gsiv + ucast UACPINT_WS_PRT_BIAS | None \<Rightarrow> ucast UACPINT_WS_PRT_NONE)\<rparr>"

definition UacpiNtIrqPreprocessEntry ::
    "'f route_env \<Rightarrow> alloc_state \<Rightarrow> 'f irq_route \<Rightarrow> ntstatus \<times> alloc_state \<times> 'f irq_route" where
  "UacpiNtIrqPreprocessEntry E st S =
     (case requester st of
        None \<Rightarrow> (STATUS_SUCCESS, st, S)
      | Some pdo \<Rightarrow>
          if \<not> unrouted st then (STATUS_SUCCESS, tag_triggering st, S)
          else
            let (Status, Gsiv, S) = UacpiNtPrtResolveGsiv E pdo S
            in (STATUS_SUCCESS, set_route (if NT_SUCCESS Status then Some Gsiv else None) (tag_triggering st), S))"

definition UacpiNtFindBootConfig :: "range_list \<Rightarrow> alloc_state \<Rightarrow> u32 option" where
  "UacpiNtFindBootConfig Allocation st =
     (case st_Entry st of
        None \<Rightarrow> None
      | Some e \<Rightarrow>
          map_option (\<lambda>r. ucast (rr_Start r))
            (find (\<lambda>r. rr_Attributes r AND ARBITER_RANGE_BOOT_ALLOCATED \<noteq> 0 \<and>
                       rr_Owner r = le_PhysicalDeviceObject e) Allocation))"

definition UacpiNtFindIrqInAlternatives :: "alloc_state \<Rightarrow> u32 \<Rightarrow> nat option" where
  "UacpiNtFindIrqInAlternatives st Irq =
     find (\<lambda>i. alt_Minimum (st_Alternatives st ! i) \<le> ucast Irq \<and> ucast Irq \<le> alt_Maximum (st_Alternatives st ! i))
       [0..<length (st_Alternatives st)]"

text \<open>
  The loop over the cursor: the line to try with its alternative, if one is left, and the WorkSpace.
\<close>

function preferred_loop :: "range_list \<Rightarrow> alloc_state \<Rightarrow> u64 \<Rightarrow> (nat \<times> u32) option \<times> u64" where
  "preferred_loop Allocation st Ws =
     (if UACPINT_WS_CURSOR Ws \<ge> UACPINT_NEXT_ALTERNATIVES then (None, Ws)
      else
        let (Ws', Preferred) =
              (if UACPINT_WS_CURSOR Ws = 0 then (UACPINT_WS_SET_CURSOR Ws UACPINT_NEXT_LINK_PREF, None)
               else if UACPINT_WS_CURSOR Ws = UACPINT_NEXT_LINK_PREF
               then (UACPINT_WS_SET_CURSOR Ws UACPINT_NEXT_BOOT_CONFIG, Some (UACPINT_WS_PRT Ws - UACPINT_WS_PRT_BIAS))
               else (UACPINT_WS_SET_CURSOR Ws UACPINT_NEXT_ALTERNATIVES, UacpiNtFindBootConfig Allocation st))
        in case Preferred of
             None \<Rightarrow> preferred_loop Allocation st Ws'
           | Some g \<Rightarrow>
               (case UacpiNtFindIrqInAlternatives st g of
                  None \<Rightarrow> preferred_loop Allocation st Ws'
                | Some i \<Rightarrow> (Some (i, g), Ws')))"
  by pat_completeness auto

lemma next_cursors [simp]:
  "UACPINT_WS_CURSOR (UACPINT_WS_SET_CURSOR Ws 1) = 1" "UACPINT_WS_CURSOR (UACPINT_WS_SET_CURSOR Ws 3) = 3"
  "UACPINT_WS_CURSOR (UACPINT_WS_SET_CURSOR Ws 4) = 4"
  by (simp_all add: cursor_set_cursor)

definition cursor_steps :: "u64 \<Rightarrow> nat" where
  "cursor_steps c = 4 - unat c"

lemma cursor_steps_simps [simp]: "cursor_steps 1 = 3" "cursor_steps 3 = 1" "cursor_steps 4 = 0" "cursor_steps 0 = 4"
  by (simp_all add: cursor_steps_def)

lemma cursor_cases:
  assumes "\<not> (4 :: u64) \<le> c" and "c \<noteq> 0" and "c \<noteq> 1"
  shows "0 < cursor_steps c"
  using assms by (simp add: cursor_steps_def word_le_nat_alt not_le)

termination preferred_loop
  by (relation "measure (\<lambda>(a, st, Ws). cursor_steps (UACPINT_WS_CURSOR Ws))")
    (auto split: if_splits intro: cursor_cases)

declare preferred_loop.simps [simp del]

text \<open>
  GetNextAllocationRange: whether a window is offered, the state, and whether UacpiNtIrqLinkRotation
  is bumped. A state of a message request, and one without a route, is left to the library.
\<close>

definition irq_next ::
    "ordering_list \<Rightarrow> range_list \<Rightarrow> alloc_state \<Rightarrow> (bool \<times> alloc_state \<times> bool) option" where
  "irq_next ol Allocation st =
     (let alts = st_Alternatives st;
          Alternative = (case st_CurrentAlternative st of Some c \<Rightarrow> alts ! c | None \<Rightarrow> hd alts);
          library = (\<lambda>st rotate. map_option (\<lambda>(b, st). (b, st, rotate \<and> b)) (ArbiterLibGetNextAllocationRange ol st))
      in if alts = [] \<or> message_request (alt_Descriptor Alternative) then library st False
         else if UACPINT_WS_PRT (st_WorkSpace st) < UACPINT_WS_PRT_BIAS then library st False
         else case preferred_loop Allocation st (st_WorkSpace st) of
                (Some (i, Preferred), Ws) \<Rightarrow>
                  Some (True, st\<lparr>st_CurrentMinimum := ucast Preferred, st_CurrentMaximum := ucast Preferred,
                                 st_CurrentAlternative := Some i, st_WorkSpace := Ws\<rparr>, True)
              | (None, Ws) \<Rightarrow> library (st\<lparr>st_WorkSpace := Ws\<rparr>) True)"

definition UacpiNtIrqGetNextAllocationRange ::
    "ordering_list \<Rightarrow> range_list \<Rightarrow> alloc_state \<Rightarrow> 'f irq_route \<Rightarrow> (bool \<times> alloc_state \<times> 'f irq_route) option" where
  "UacpiNtIrqGetNextAllocationRange ol Allocation st S =
     map_option (\<lambda>(b, st, rotate). (b, st, if rotate then S\<lparr>ir_LinkRotation := ir_LinkRotation S + 1\<rparr> else S))
       (irq_next ol Allocation st)"

definition UacpiNtNotePlacedTriggering :: "alloc_state \<Rightarrow> irq_lib \<Rightarrow> irq_lib" where
  "UacpiNtNotePlacedTriggering st L =
     (case current_alternative st of
        None \<Rightarrow> L
      | Some alt \<Rightarrow>
          if st_Start st < UACPINT_MSI_GSIV_BASE \<and>
             io_Flags (alt_Descriptor alt) AND CM_RESOURCE_INTERRUPT_LATCHED = 0 \<and>
             \<not> UacpiNtIrqLibGsivForcedEdge L (ucast (st_Start st))
          then UacpiNtIrqLibNoteLevelGsiv (ucast (st_Start st)) L else L)"

definition irq_find :: "nt_kernel \<Rightarrow> mmconfig \<Rightarrow> range_list \<Rightarrow> alloc_state \<Rightarrow> bool \<times> alloc_state" where
  "irq_find K mc possible st =
     (let library = ArbiterLibFindSuitableRange K mc (Some ArbiterLibOverrideConflict) possible st
      in if st_CurrentMinimum st \<ge> UACPINT_MSI_GSIV_BASE then library
         else if UACPINT_WS_PRT (st_WorkSpace st) \<ge> UACPINT_WS_PRT_BIAS
         then
           let Gsiv = ucast (UACPINT_WS_PRT (st_WorkSpace st) - UACPINT_WS_PRT_BIAS)
           in if Gsiv < st_CurrentMinimum st \<or> Gsiv > st_CurrentMaximum st then (False, st)
              else (True, st\<lparr>st_Start := Gsiv, st_End := Gsiv\<rparr>)
         else library)"

definition UacpiNtIrqFindSuitableRange ::
    "nt_kernel \<Rightarrow> mmconfig \<Rightarrow> range_list \<Rightarrow> alloc_state \<Rightarrow> 'f irq_route \<Rightarrow> bool \<times> alloc_state \<times> 'f irq_route" where
  "UacpiNtIrqFindSuitableRange K mc possible st S =
     (let (b, st') = irq_find K mc possible st
      in (b, st', if b \<and> st_CurrentMinimum st < UACPINT_MSI_GSIV_BASE
                  then S\<lparr>ir_Lib := UacpiNtNotePlacedTriggering st' (ir_Lib S)\<rparr> else S))"

text \<open>
  The slots UacpiNtIrqArbiterInitialize fills, as the library's search sees them. Of the globals
  the callbacks share, the search depends on nothing but the routes: \<open>route d\<close> is the answer of
  UacpiNtPrtResolveGsiv for a device, which is recorded in the state on the first visit.
\<close>

definition irq_preprocess :: "(device \<Rightarrow> u32 option) \<Rightarrow> alloc_state \<Rightarrow> alloc_state" where
  "irq_preprocess route st =
     (case requester st of
        None \<Rightarrow> st
      | Some pdo \<Rightarrow> if unrouted st then set_route (route pdo) (tag_triggering st) else tag_triggering st)"

definition irq_callbacks ::
    "u32 \<Rightarrow> (device \<Rightarrow> u32 option) \<Rightarrow> range_list \<Rightarrow> nt_kernel \<Rightarrow> ordering_list \<Rightarrow> mmconfig \<Rightarrow> arb_callbacks" where
  "irq_callbacks model route Allocation K ol mc =
     (library_callbacks (irq_codec model) K ol mc)
       \<lparr>cb_PreprocessEntry := \<lambda>st. (STATUS_SUCCESS, irq_preprocess route st),
        cb_GetNextAllocationRange := \<lambda>st. map_option (\<lambda>(b, st, rotate). (b, st)) (irq_next ol Allocation st),
        cb_FindSuitableRange := \<lambda>possible st. Some (irq_find K mc possible st)\<rparr>"

lemma irq_callbacks_simps:
  "cb_PreprocessEntry (irq_callbacks model route alloc K ol mc) = (\<lambda>st. (STATUS_SUCCESS, irq_preprocess route st))"
  "cb_GetNextAllocationRange (irq_callbacks model route alloc K ol mc) =
     (\<lambda>st. map_option (\<lambda>(b, st, rotate). (b, st)) (irq_next ol alloc st))"
  "cb_FindSuitableRange (irq_callbacks model route alloc K ol mc) = (\<lambda>rl st. Some (irq_find K mc rl st))"
  "cb_AddAllocation (irq_callbacks model route alloc K ol mc) = cb_AddAllocation (library_callbacks (irq_codec model) K ol mc)"
  "cb_BacktrackAllocation (irq_callbacks model route alloc K ol mc) =
     cb_BacktrackAllocation (library_callbacks (irq_codec model) K ol mc)"
  "cb_PackResource (irq_callbacks model route alloc K ol mc) = cb_PackResource (irq_codec model)"
  "codec.truncate (irq_callbacks model route alloc K ol mc) = irq_codec model"
  by (simp_all add: irq_callbacks_def library_callbacks_def codec.truncate_def)

text \<open>The callbacks with the globals threaded agree with them.\<close>

lemma Preprocess_route:
  assumes "UacpiNtIrqPreprocessEntry E st S = (s, st', S')"
    and "\<And>pdo. requester st = Some pdo \<Longrightarrow> unrouted st \<Longrightarrow>
      route pdo = (case UacpiNtPrtResolveGsiv E pdo S of (s, g, S) \<Rightarrow> if NT_SUCCESS s then Some g else None)"
  shows "cb_PreprocessEntry (irq_callbacks model route alloc K ol mc) st = (s, st')"
  using assms by (auto simp: UacpiNtIrqPreprocessEntry_def irq_callbacks_simps irq_preprocess_def
      split: option.splits if_splits prod.splits)

lemma GetNext_route:
  "cb_GetNextAllocationRange (irq_callbacks model route alloc K ol mc) st =
     map_option (\<lambda>(b, st, S). (b, st)) (UacpiNtIrqGetNextAllocationRange ol alloc st S)"
  by (cases "irq_next ol alloc st") (auto simp: irq_callbacks_simps UacpiNtIrqGetNextAllocationRange_def)

lemma Find_route:
  "cb_FindSuitableRange (irq_callbacks model route alloc K ol mc) rl st =
     (case UacpiNtIrqFindSuitableRange K mc rl st S of (b, st', S') \<Rightarrow> Some (b, st'))"
  by (simp add: irq_callbacks_simps UacpiNtIrqFindSuitableRange_def case_prod_beta)

section \<open>The walk\<close>

lemma preferred_end: "4 \<le> UACPINT_WS_CURSOR Ws \<Longrightarrow> preferred_loop alloc st Ws = (None, Ws)"
  by (subst preferred_loop.simps) simp

lemma preferred_boot:
  assumes "\<not> 4 \<le> UACPINT_WS_CURSOR Ws" and "UACPINT_WS_CURSOR Ws \<noteq> 0" and "UACPINT_WS_CURSOR Ws \<noteq> 1"
  shows "preferred_loop alloc st Ws =
    (case UacpiNtFindBootConfig alloc st of
       None \<Rightarrow> None
     | Some g \<Rightarrow> map_option (\<lambda>i. (i, g)) (UacpiNtFindIrqInAlternatives st g), UACPINT_WS_SET_CURSOR Ws 4)"
  using assms by (subst preferred_loop.simps) (simp add: preferred_end split: option.split)

lemma preferred_link:
  assumes "UACPINT_WS_CURSOR Ws = 1"
  defines "g \<equiv> UACPINT_WS_PRT Ws - 2"
  shows "preferred_loop alloc st Ws =
    (case UacpiNtFindIrqInAlternatives st g of
       Some i \<Rightarrow> (Some (i, g), UACPINT_WS_SET_CURSOR Ws 3)
     | None \<Rightarrow> preferred_loop alloc st (UACPINT_WS_SET_CURSOR Ws 3))"
  using assms by (subst preferred_loop.simps) (simp add: word_le_nat_alt split: option.split)

lemma preferred_initial:
  "UACPINT_WS_CURSOR Ws = 0 \<Longrightarrow> preferred_loop alloc st Ws = preferred_loop alloc st (UACPINT_WS_SET_CURSOR Ws 1)"
  by (subst preferred_loop.simps) simp

text \<open>Each offer moves the cursor on, and only the cursor.\<close>

definition moved_on :: "alloc_state \<Rightarrow> nat \<Rightarrow> (nat \<times> u32) option \<times> u64 \<Rightarrow> bool" where
  "moved_on st n x \<longleftrightarrow>
     cursor_steps (UACPINT_WS_CURSOR (snd x)) < n \<and>
     (\<forall>i g. fst x = Some (i, g) \<longrightarrow> UacpiNtFindIrqInAlternatives st g = Some i)"

lemma preferred_moves:
  assumes "\<not> 4 \<le> UACPINT_WS_CURSOR Ws"
  shows "moved_on st (cursor_steps (UACPINT_WS_CURSOR Ws)) (preferred_loop alloc st Ws)"
proof -
  have boot: "moved_on st (cursor_steps (UACPINT_WS_CURSOR Ws)) (preferred_loop alloc st Ws)"
    if "\<not> 4 \<le> UACPINT_WS_CURSOR Ws" "UACPINT_WS_CURSOR Ws \<noteq> 0" "UACPINT_WS_CURSOR Ws \<noteq> 1" for Ws
    using that cursor_cases [OF that] by (auto simp: preferred_boot moved_on_def split: option.split)
  have link: "moved_on st 3 (preferred_loop alloc st Ws)" if "UACPINT_WS_CURSOR Ws = 1" for Ws
    using boot [of "UACPINT_WS_SET_CURSOR Ws 3"]
    by (auto simp: preferred_link [OF that] moved_on_def split: option.split)
  consider "UACPINT_WS_CURSOR Ws = 0" | "UACPINT_WS_CURSOR Ws = 1" | "UACPINT_WS_CURSOR Ws \<noteq> 0" "UACPINT_WS_CURSOR Ws \<noteq> 1"
    by blast
  then show ?thesis
  proof cases
    case 1
    with link [of "UACPINT_WS_SET_CURSOR Ws 1"] show ?thesis by (auto simp: preferred_initial moved_on_def)
  qed (use link boot assms in auto)
qed

lemma walk_cursor_ws: "walk_cursor st = UACPINT_WS_CURSOR (st_WorkSpace st)"
  by (simp add: walk_cursor_def UACPINT_WS_CURSOR_def)

lemma FindIrq_index: "UacpiNtFindIrqInAlternatives st g = Some i \<Longrightarrow> i < length (st_Alternatives st)"
  by (auto simp: UacpiNtFindIrqInAlternatives_def find_Some_iff)

lemma walk_level_ws [simp]: "walk_level ol (st\<lparr>st_WorkSpace := w\<rparr>) = walk_level ol st"
  by (simp add: walk_level_def walk_measure_def split: option.split)

lemma state_ok_ws [simp]: "state_ok (st\<lparr>st_WorkSpace := w\<rparr>) = state_ok st"
  by (simp add: state_ok_def split: option.split)

lemma origin_ws [simp]: "origin (st\<lparr>st_WorkSpace := w\<rparr>) = origin st"
  "origin (st\<lparr>st_CurrentMinimum := x\<rparr>) = origin st"
  by (simp_all add: origin_def)

text \<open>The library's walk, from a state whose WorkSpace the arbiter has changed.\<close>

lemma library_next_frame:
  assumes "ArbiterLibGetNextAllocationRange ol st = Some (b, st')"
  shows "walk_cursor st' = walk_cursor st" and "length (st_Alternatives st') = length (st_Alternatives st)"
    and "ol_wf ol \<Longrightarrow> origin st' = origin st"
  using library.next_origin [of ol "irq_codec 1" undefined undefined st b st'] GetNext_frame [OF assms] assms
  by (auto simp: library_callbacks_def walk_frame_def walk_cursor_def)

lemma library_next:
  assumes "ol_wf ol" and "state_ok st" and "ArbiterLibGetNextAllocationRange ol st = Some (b, st')"
  shows "b \<longrightarrow> state_ok st' \<and> st_CurrentAlternative st' \<noteq> None \<and> walk_level ol st' < walk_level ol st"
  using library.next_offers [OF assms(1,2), of "irq_codec 1" undefined undefined st'] assms(3)
  by (auto simp: library_callbacks_def walk_left_def)

lemma irq_next_cases:
  assumes "irq_next ol alloc st = Some (b, st', ro)"
  obtains (library) Ws where "ArbiterLibGetNextAllocationRange ol (st\<lparr>st_WorkSpace := Ws\<rparr>) = Some (b, st')"
      "Ws = st_WorkSpace st \<or> cursor_steps (UACPINT_WS_CURSOR Ws) < cursor_steps (walk_cursor st)"
    | (line) Ws i g where "b" "UacpiNtFindIrqInAlternatives st g = Some i"
      "cursor_steps (UACPINT_WS_CURSOR Ws) < cursor_steps (walk_cursor st)"
      "st' = st\<lparr>st_CurrentMinimum := ucast g, st_CurrentMaximum := ucast g, st_CurrentAlternative := Some i, st_WorkSpace := Ws\<rparr>"
proof -
  obtain r Ws where p: "preferred_loop alloc st (st_WorkSpace st) = (r, Ws)" by fastforce
  have mv: "r = None \<and> Ws = st_WorkSpace st \<or>
      cursor_steps (UACPINT_WS_CURSOR Ws) < cursor_steps (walk_cursor st) \<and>
      (\<forall>i g. r = Some (i, g) \<longrightarrow> UacpiNtFindIrqInAlternatives st g = Some i)"
    using preferred_end [of "st_WorkSpace st" alloc st] preferred_moves [of "st_WorkSpace st" st alloc] p
    by (auto simp: moved_on_def walk_cursor_ws)
  have own: "st\<lparr>st_WorkSpace := st_WorkSpace st\<rparr> = st" by simp
  let ?lib = "st_Alternatives st = [] \<or>
    message_request (alt_Descriptor (case st_CurrentAlternative st of Some c \<Rightarrow> st_Alternatives st ! c | None \<Rightarrow> hd (st_Alternatives st))) \<or>
    UACPINT_WS_PRT (st_WorkSpace st) < 2"
  show thesis
  proof (cases "?lib")
    case True
    with assms have "ArbiterLibGetNextAllocationRange ol st = Some (b, st')"
      by (auto simp: irq_next_def Let_def split: if_splits)
    with own show thesis by (intro library [of "st_WorkSpace st"]) simp_all
  next
    case False
    show thesis
    proof (cases r)
      case None
      with False p assms have "ArbiterLibGetNextAllocationRange ol (st\<lparr>st_WorkSpace := Ws\<rparr>) = Some (b, st')"
        by (auto simp: irq_next_def Let_def)
      with mv show thesis by (intro library [of Ws]) auto
    next
      case (Some ig)
      obtain i g where ig: "ig = (i, g)" by fastforce
      show thesis by (rule line [of g i Ws]) (use False p assms Some ig mv in \<open>auto simp: irq_next_def Let_def\<close>)
    qed
  qed
qed

lemma irq_next_total:
  assumes "ol_wf ol" and "state_ok st"
  shows "\<exists>b st' ro. irq_next ol alloc st = Some (b, st', ro)"
proof -
  have "\<exists>b st'. ArbiterLibGetNextAllocationRange ol (st\<lparr>st_WorkSpace := w\<rparr>) = Some (b, st')" for w
    using assms by (intro GetNextAllocationRange_total) simp_all
  moreover from this [of "st_WorkSpace st"] have "\<exists>b st'. ArbiterLibGetNextAllocationRange ol st = Some (b, st')" by simp
  ultimately show ?thesis
    by (fastforce simp: irq_next_def Let_def split: prod.split option.split)
qed

lemma irq_next_origin:
  assumes "ol_wf ol" and "irq_next ol alloc st = Some (b, st', ro)"
  shows "origin st' = origin st"
  using assms(2)
proof (cases rule: irq_next_cases)
  case (library Ws)
  from library_next_frame(3) [OF library(1) assms(1)] show ?thesis by simp
next
  case (line Ws i g)
  then show ?thesis by (simp add: origin_def)
qed

lemma irq_next_offers:
  assumes "ol_wf ol" and "state_ok st" and "irq_next ol alloc st = Some (True, st', ro)"
  shows "state_ok st' \<and> st_CurrentAlternative st' \<noteq> None \<and>
      walk_left cursor_steps ol st' < walk_left cursor_steps ol st"
  using assms(3)
proof (cases rule: irq_next_cases)
  case (library Ws)
  have "state_ok (st\<lparr>st_WorkSpace := Ws\<rparr>)" using assms(2) by simp
  note l = library_next [OF assms(1) this library(1)]
  note f = library_next_frame [OF library(1)]
  from library(2) have "walk_left cursor_steps ol st' < walk_left cursor_steps ol st"
  proof
    assume "Ws = st_WorkSpace st"
    with l f show ?thesis by (intro walk_left_level) (simp_all add: walk_cursor_ws)
  next
    assume "cursor_steps (UACPINT_WS_CURSOR Ws) < cursor_steps (walk_cursor st)"
    with f show ?thesis by (intro walk_left_steps) (simp_all add: walk_cursor_ws)
  qed
  with l show ?thesis by simp
next
  case (line Ws i g)
  then have "walk_left cursor_steps ol st' < walk_left cursor_steps ol st"
    by (intro walk_left_steps) (simp_all add: walk_cursor_ws)
  with line FindIrq_index [OF line(2)] show ?thesis by (simp add: state_ok_def)
qed

section \<open>Placement\<close>

text \<open>The kernel as this arbiter calls it: RtlFindRange is given UacpiNtIrqShareableRange.\<close>

abbreviation IrqFindRange_contract :: "nt_kernel \<Rightarrow> bool" where
  "IrqFindRange_contract \<equiv> FindRange_contract_but UacpiNtIrqShareableRange"

text \<open>A placement on the routed line, or one the library grants.\<close>

definition routed_line :: "alloc_state \<Rightarrow> u64 option" where
  "routed_line st =
     (if UACPINT_WS_PRT (st_WorkSpace st) \<ge> UACPINT_WS_PRT_BIAS
      then Some (ucast (UACPINT_WS_PRT (st_WorkSpace st) - UACPINT_WS_PRT_BIAS)) else None)"

lemma irq_find_frame: "irq_find K mc rl st = (b, st') \<Longrightarrow> find_frame st st'"
  using FindSuitableRange_frame [of K mc rl st b st']
  by (auto simp: irq_find_def Let_def find_frame_def [of st "st\<lparr>st_Start := _, st_End := _\<rparr>"] split: if_splits)

lemma irq_find_true:
  assumes K: "IrqFindRange_contract K" and f: "irq_find K mc rl st = (True, st')"
  shows "st_CurrentMinimum st \<le> st_Start st' \<and> st_Start st' \<le> st_End st' \<and> st_End st' \<le> st_CurrentMaximum st \<and>
    (st_CurrentMinimum st < UACPINT_MSI_GSIV_BASE \<and> routed_line st = Some (st_Start st') \<and> st_End st' = st_Start st' \<or>
     (\<exists>alt. current_alternative st = Some alt \<and>
        granted_but UacpiNtIrqShareableRange K rl st alt (st_Start st') (st_End st')))"
proof (cases "st_CurrentMinimum st < UACPINT_MSI_GSIV_BASE \<and> routed_line st \<noteq> None")
  case True
  with f show ?thesis by (auto simp: irq_find_def Let_def routed_line_def not_less split: if_splits)
next
  case False
  with f have "ArbiterLibFindSuitableRange K mc (Some ArbiterLibOverrideConflict) rl st = (True, st')"
    by (auto simp: irq_find_def Let_def routed_line_def split: if_splits)
  from FindSuitable_granted [OF K this] show ?thesis by blast
qed

interpretation irq: arbiter_walker "irq_callbacks model route alloc" cursor_steps IrqFindRange_contract
  for model route alloc
proof
  fix K ol mc st s st' b rl rl' st0
  let ?W = "irq_callbacks model route alloc K ol mc"
  show "cb_PreprocessEntry ?W st = (s, st') \<Longrightarrow> same_placement st st'"
    by (auto simp: irq_callbacks_simps irq_preprocess_def tag_triggering_def set_route_def same_placement_def
        find_frame_def walk_cursor_ws cursor_set_prt split: option.splits if_splits)
  show "ol_wf ol \<Longrightarrow> state_ok st \<Longrightarrow> \<exists>b st'. cb_GetNextAllocationRange ?W st = Some (b, st')"
    using irq_next_total [of ol st alloc] by (auto simp: irq_callbacks_simps)
  show "ol_wf ol \<Longrightarrow> state_ok st \<Longrightarrow> cb_GetNextAllocationRange ?W st = Some (True, st') \<Longrightarrow>
      state_ok st' \<and> st_CurrentAlternative st' \<noteq> None \<and> walk_left cursor_steps ol st' < walk_left cursor_steps ol st"
    using irq_next_offers [of ol st alloc st'] by (auto simp: irq_callbacks_simps)
  show "ol_wf ol \<Longrightarrow> cb_GetNextAllocationRange ?W st = Some (b, st') \<Longrightarrow> origin st' = origin st"
    using irq_next_origin [of ol alloc st b st'] by (auto simp: irq_callbacks_simps)
  show "\<exists>b st'. cb_FindSuitableRange ?W rl st = Some (b, st')" by (simp add: irq_callbacks_simps)
  show "IrqFindRange_contract K \<Longrightarrow> cb_FindSuitableRange ?W rl st = Some (b, st') \<Longrightarrow>
      find_frame st st' \<and> (b \<longrightarrow> st_Start st' \<le> st_CurrentMaximum st')"
    using irq_find_frame [of K mc rl st b st'] irq_find_true [of K mc rl st st']
    by (auto simp: irq_callbacks_simps find_frame_def intro: order_trans)
qed (auto simp: irq_callbacks_simps intro: library.backtrack_frame library.backtrack_undoes)

section \<open>Commit\<close>

record irq_written =
  wr_Owner :: device
  wr_Start :: u32
  wr_Length :: u32

definition UacpiNtConnectionDataChanged :: "irq_written list \<Rightarrow> device \<Rightarrow> u32 \<Rightarrow> u32 \<Rightarrow> bool" where
  "UacpiNtConnectionDataChanged W Owner Start Length =
     (case find (\<lambda>w. wr_Owner w = Owner) W of
        Some w \<Rightarrow> wr_Start w \<noteq> Start \<or> wr_Length w \<noteq> Length | None \<Rightarrow> True)"

fun UacpiNtConnectionDataRecord :: "nat \<Rightarrow> irq_written list \<Rightarrow> device \<Rightarrow> u32 \<Rightarrow> u32 \<Rightarrow> irq_written list" where
  "UacpiNtConnectionDataRecord Room [] Owner Start Length =
     (if Room = 0 then [] else [\<lparr>wr_Owner = Owner, wr_Start = Start, wr_Length = Length\<rparr>])"
| "UacpiNtConnectionDataRecord Room (w # ws) Owner Start Length =
     (if wr_Owner w = Owner then \<lparr>wr_Owner = Owner, wr_Start = Start, wr_Length = Length\<rparr> # ws
      else w # UacpiNtConnectionDataRecord (Room - 1) ws Owner Start Length)"

text \<open>
  The globals a commit works on, and the writes it makes in order: a device and the connection data
  handed to the property. \<open>FdoSelf\<close> is the FDO the arbiter was set up for.
\<close>

record irq_commit =
  ic_Lib :: irq_lib
  ic_Written :: "irq_written list"
  ic_Writes :: "(device \<times> vector_data list) list"

definition placed_length :: "msi_records \<Rightarrow> rtl_range \<Rightarrow> u32" where
  "placed_length Records r =
     (if rr_Start r < UACPINT_MSI_GSIV_BASE then ucast (rr_End r - rr_Start r + 1)
      else let (Status, Count) = UacpiNtMsiCountLookup Records (rr_Start r)
           in if \<not> NT_SUCCESS Status \<or> Count = 0 then 1 else Count)"

definition commit_range ::
    "nt_kernel \<Rightarrow> irq_hal \<Rightarrow> msi_records \<Rightarrow> device option \<Rightarrow> rtl_range \<Rightarrow> irq_commit \<Rightarrow> irq_commit option" where
  "commit_range K H Records FdoSelf r C =
     (let Start = ucast (rr_Start r); Length = placed_length Records r
      in case rr_Owner r of
           None \<Rightarrow> Some C
         | Some Owner \<Rightarrow>
             if Some Owner = FdoSelf \<or> \<not> UacpiNtConnectionDataChanged (ic_Written C) Owner Start Length then Some C
             else case UacpiNtIrqLibWriteConnectionData K H (ic_Lib C) Owner Start Length of
                    None \<Rightarrow> None
                  | Some (WriteStatus, Data, L) \<Rightarrow>
                      let C = C\<lparr>ic_Lib := L, ic_Writes := ic_Writes C @ (case Data of None \<Rightarrow> [] | Some d \<Rightarrow> [(Owner, d)])\<rparr>
                      in Some (if NT_SUCCESS WriteStatus
                               then C\<lparr>ic_Written := UacpiNtConnectionDataRecord 256 (ic_Written C) Owner Start Length\<rparr>
                               else C))"

fun commit_loop ::
    "nt_kernel \<Rightarrow> irq_hal \<Rightarrow> msi_records \<Rightarrow> device option \<Rightarrow> range_list \<Rightarrow> irq_commit \<Rightarrow> irq_commit option" where
  "commit_loop K H Records FdoSelf [] C = Some C"
| "commit_loop K H Records FdoSelf (r # rs) C =
     (case commit_range K H Records FdoSelf r C of
        None \<Rightarrow> None | Some C \<Rightarrow> commit_loop K H Records FdoSelf rs C)"

definition UacpiNtIrqCommitAllocation ::
    "nt_kernel \<Rightarrow> irq_hal \<Rightarrow> msi_records \<Rightarrow> device option \<Rightarrow> arbiter \<Rightarrow> irq_commit \<Rightarrow>
     (ntstatus \<times> arbiter \<times> irq_commit) option" where
  "UacpiNtIrqCommitAllocation K H Records FdoSelf a C =
     (let (Status, a) = ArbiterLibCommitAllocation a
      in if \<not> NT_SUCCESS Status then Some (Status, a, C)
         else map_option (\<lambda>C. (Status, a, C)) (commit_loop K H Records FdoSelf (ai_Allocation a) C))"

section \<open>Set up\<close>

text \<open>
  \<open>PciMask\<close> is the PCIDeviceExclusionMask value of the registry, with its type and length, when it can
  be read; \<open>Fadt\<close> the SCI of the FADT.
\<close>

abbreviation (input) REG_DWORD :: u32 where "REG_DWORD \<equiv> 4"

definition UacpiNtIrqPolicyConfigure :: "(u32 \<times> u32 \<times> u32) option \<Rightarrow> 'f irq_route \<Rightarrow> 'f irq_route" where
  "UacpiNtIrqPolicyConfigure PciMask S =
     (case PciMask of
        Some (Type, Mask, Length) \<Rightarrow>
          if Type = REG_DWORD \<and> Length \<ge> 2 then S\<lparr>ir_PciExclusionMask := ucast Mask\<rparr> else S
      | None \<Rightarrow> S)"

text \<open>
  The reservations of UacpiNtIrqArbiterInitialize on a fresh instance: the SCI for the FDO, and under
  the PIC every line past 15 up to the message window.
\<close>

definition irq_reservations :: "nt_kernel \<Rightarrow> device \<Rightarrow> u32 \<Rightarrow> u32 \<Rightarrow> range_list \<Rightarrow> range_list" where
  "irq_reservations K Self SciGsiv model rl =
     (let rl = (if SciGsiv \<noteq> - 1
                then k_RtlAddRange K rl (ucast SciGsiv) (ucast SciGsiv) UACPINT_RANGE_LEVEL RTL_RANGE_LIST_ADD_SHARED (Some Self)
                else rl)
      in if model = 0 then k_RtlAddRange K rl 16 (UACPINT_MSI_GSIV_BASE - 1) 0 0 (Some Self) else rl)"

definition UacpiNtIrqArbiterInitialize ::
    "nt_kernel \<Rightarrow> (u32 \<times> u32 \<times> u32) option \<Rightarrow> u32 option \<Rightarrow> device \<Rightarrow> ntstatus \<times> arbiter \<Rightarrow>
     bool \<times> arbiter \<times> 'f irq_route \<Rightarrow> ntstatus \<times> bool \<times> arbiter \<times> 'f irq_route" where
  "UacpiNtIrqArbiterInitialize K PciMask Fadt Self Instance X =
     (let (Ready, a, S) = X
      in if Ready then (STATUS_SUCCESS, X)
         else
           let S = UacpiNtIrqPolicyConfigure PciMask S; (Status, a) = Instance
           in if \<not> NT_SUCCESS Status then (Status, Ready, a, S)
              else
                let SciGsiv = (case Fadt of Some g \<Rightarrow> g | None \<Rightarrow> - 1);
                    a = a\<lparr>ai_Allocation := irq_reservations K Self SciGsiv (il_InterruptModel (ir_Lib S)) (ai_Allocation a)\<rparr>;
                    S = (if SciGsiv \<noteq> - 1
                         then S\<lparr>ir_Lib := UacpiNtIrqLibNoteLevelGsiv SciGsiv (ir_Lib S), ir_SciGsiv := SciGsiv\<rparr> else S)
                in (STATUS_SUCCESS, True, a, S))"

end
