(* ===== verification/Res_Arbiter.thy ===== *)
theory Res_Arbiter
  imports Resource_Codec
begin

text \<open>
  The memory, I/O port and bus number arbiters of module devices (sys/resarb.c): their codec and
  score, the seeding from the producer windows of _CRS, and the searches, where the port arbiter
  also accounts for the ISA decode mirrors of a placement. The trace ring and the failure dumps are
  diagnostics and are left out.
\<close>

section \<open>Codec\<close>

text \<open>A null descriptor is \<open>None\<close> in the C interface; the arbiter library never passes one.\<close>

definition UacpiNtResUnpackRequirement :: unpack_requirement where
  "UacpiNtResUnpackRequirement d =
     (if io_Type d = CmResourceTypeMemory \<or> io_Type d = CmResourceTypeMemoryLarge \<or> io_Type d = CmResourceTypePort
      then (STATUS_SUCCESS, io_MinimumAddress d, io_MaximumAddress d, ucast (io_Length d),
            if io_Alignment d \<noteq> 0 then ucast (io_Alignment d) else 1)
      else if io_Type d = CmResourceTypeBusNumber
      then (STATUS_SUCCESS, ucast (io_MinBusNumber d), ucast (io_MaxBusNumber d), ucast (io_BusLength d), 1)
      else (STATUS_INVALID_PARAMETER, 0, 0, 0, 0))"

definition UacpiNtResPackResource :: "io_desc \<Rightarrow> u64 \<Rightarrow> cm_desc \<Rightarrow> ntstatus \<times> cm_desc" where
  "UacpiNtResPackResource Requirement Start Descriptor =
     (let d = Descriptor\<lparr>cm_ShareDisposition := io_ShareDisposition Requirement, cm_Flags := io_Flags Requirement\<rparr>
      in if io_Type Requirement = CmResourceTypeMemory \<or> io_Type Requirement = CmResourceTypeMemoryLarge
         then (STATUS_SUCCESS, d\<lparr>cm_Type := CmResourceTypeMemory, cm_Start := Start, cm_Length := io_Length Requirement\<rparr>)
         else if io_Type Requirement = CmResourceTypePort
         then (STATUS_SUCCESS, d\<lparr>cm_Type := CmResourceTypePort, cm_Start := Start, cm_Length := io_Length Requirement\<rparr>)
         else if io_Type Requirement = CmResourceTypeBusNumber
         then (STATUS_SUCCESS, d\<lparr>cm_Type := CmResourceTypeBusNumber, cm_BusStart := ucast Start,
                 cm_BusLength := io_BusLength Requirement\<rparr>)
         else (STATUS_INVALID_PARAMETER, d))"

definition UacpiNtResUnpackResource :: "cm_desc \<Rightarrow> ntstatus \<times> u64 \<times> u64" where
  "UacpiNtResUnpackResource d =
     (if cm_Type d = CmResourceTypeMemory \<or> cm_Type d = CmResourceTypeMemoryLarge \<or> cm_Type d = CmResourceTypePort
      then (STATUS_SUCCESS, cm_Start d, ucast (cm_Length d))
      else if cm_Type d = CmResourceTypeBusNumber
      then (STATUS_SUCCESS, ucast (cm_BusStart d), ucast (cm_BusLength d))
      else (STATUS_INVALID_PARAMETER, 0, 0))"

abbreviation (input) MAXLONG :: "32 word" where "MAXLONG \<equiv> 0x7FFFFFFF"

definition UacpiNtResScoreRequirement :: "io_desc \<Rightarrow> 32 word" where
  "UacpiNtResScoreRequirement d =
     (let (Status, Minimum, Maximum, Length, Alignment) = UacpiNtResUnpackRequirement d
      in if \<not> NT_SUCCESS Status \<or> Maximum < Minimum then - 1
         else if Maximum - Minimum \<ge> ucast MAXLONG then MAXLONG
         else ucast (Maximum - Minimum + 1))"

definition res_codec :: codec where
  "res_codec = \<lparr>cb_UnpackRequirement = UacpiNtResUnpackRequirement,
     cb_PackResource = Some UacpiNtResPackResource, cb_UnpackResource = Some UacpiNtResUnpackResource,
     cb_ScoreRequirement = Some UacpiNtResScoreRequirement\<rparr>"

section \<open>Seeding from producer windows\<close>

text \<open>The address descriptors of a uACPI resource list; every other kind is \<open>UacpiOther\<close>.\<close>

record address_common =
  ac_direction :: u8
  ac_type :: u8

datatype uacpi_resource =
  UacpiAddress16 address_common u16 u16
| UacpiAddress32 address_common u32 u32
| UacpiAddress64 address_common u64 u64
| UacpiAddress64Extended address_common u64 u64
| UacpiOther

abbreviation (input) UACPI_PRODUCER :: u8 where "UACPI_PRODUCER \<equiv> 0"

definition producer_window :: "address_common \<Rightarrow> u8 \<Rightarrow> u64 \<Rightarrow> u64 \<Rightarrow> (u64 \<times> u64) option" where
  "producer_window Common WindowType Start Length =
     (if ac_direction Common = UACPI_PRODUCER \<and> ac_type Common = WindowType \<and> Length \<noteq> 0
      then Some (Start, Length) else None)"

fun UacpiNtProducerWindow :: "uacpi_resource \<Rightarrow> u8 \<Rightarrow> (u64 \<times> u64) option" where
  "UacpiNtProducerWindow (UacpiAddress16 c mn len) ty = producer_window c ty (ucast mn) (ucast len)"
| "UacpiNtProducerWindow (UacpiAddress32 c mn len) ty = producer_window c ty (ucast mn) (ucast len)"
| "UacpiNtProducerWindow (UacpiAddress64 c mn len) ty = producer_window c ty mn len"
| "UacpiNtProducerWindow (UacpiAddress64Extended c mn len) ty = producer_window c ty mn len"
| "UacpiNtProducerWindow UacpiOther ty = None"

abbreviation (input) UACPINT_RANGE_OUTSIDE_DECODE :: u8 where "UACPINT_RANGE_OUTSIDE_DECODE \<equiv> 0x20"

fun seed_windows_loop :: "nt_kernel \<Rightarrow> u8 \<Rightarrow> range_list \<Rightarrow> nat \<Rightarrow> uacpi_resource list \<Rightarrow> range_list \<times> nat" where
  "seed_windows_loop K ty Windows Count [] = (Windows, Count)"
| "seed_windows_loop K ty Windows Count (r # rs) =
     (case UacpiNtProducerWindow r ty of
        None \<Rightarrow> seed_windows_loop K ty Windows Count rs
      | Some (Start, Length) \<Rightarrow>
          seed_windows_loop K ty
            (k_RtlAddRange K Windows Start (Start + Length - 1) 0
               (RTL_RANGE_LIST_ADD_IF_CONFLICT OR RTL_RANGE_LIST_ADD_SHARED) None)
            (Suc Count) rs)"

text \<open>\<open>ok n\<close> is the outcome of the n-th RtlAddRange into the pool.\<close>

fun seed_pool_loop :: "(nat \<Rightarrow> bool) \<Rightarrow> nt_kernel \<Rightarrow> nat \<Rightarrow> range_list \<Rightarrow> range_list \<Rightarrow> bool \<times> range_list" where
  "seed_pool_loop ok K n [] pool = (True, pool)"
| "seed_pool_loop ok K n (Gap # Gaps) pool =
     (if \<not> ok n then (False, pool)
      else seed_pool_loop ok K (Suc n) Gaps
             (k_RtlAddRange K pool (rr_Start Gap) (rr_End Gap) UACPINT_RANGE_OUTSIDE_DECODE
                RTL_RANGE_LIST_ADD_IF_CONFLICT None))"

text \<open>
  \<open>crs\<close> is the resource list uACPI returns for _CRS up to its end tag, None when it is
  unavailable; \<open>invert\<close> is RtlInvertRangeList.
\<close>

definition UacpiNtSeedArbiter ::
    "(nat \<Rightarrow> bool) \<Rightarrow> nt_kernel \<Rightarrow> (range_list \<Rightarrow> ntstatus \<times> range_list) \<Rightarrow> uacpi_resource list option \<Rightarrow> u8 \<Rightarrow>
     arbiter \<Rightarrow> arbiter" where
  "UacpiNtSeedArbiter ok K invert crs WindowType a =
     (case crs of
        None \<Rightarrow> a
      | Some Resources \<Rightarrow>
          let (Windows, Count) = seed_windows_loop K WindowType [] 0 Resources
          in if Count = 0 then a
             else
               let (Status, Gaps) = invert Windows
               in if \<not> NT_SUCCESS Status then a\<lparr>ai_Allocation := []\<rparr>
                  else
                    let (all, pool) = seed_pool_loop ok K 0 Gaps (ai_Allocation a)
                    in if all then a\<lparr>ai_Allocation := pool\<rparr> else a\<lparr>ai_Allocation := []\<rparr>)"

section \<open>Searches\<close>

abbreviation (input) ARBITER_FLAG_BOOT_CONFIG :: u32 where "ARBITER_FLAG_BOOT_CONFIG \<equiv> 1"
abbreviation (input) CM_RESOURCE_PORT_10_BIT_DECODE :: u16 where "CM_RESOURCE_PORT_10_BIT_DECODE \<equiv> 4"
abbreviation (input) CM_RESOURCE_PORT_12_BIT_DECODE :: u16 where "CM_RESOURCE_PORT_12_BIT_DECODE \<equiv> 8"
abbreviation (input) UACPINT_IO_SPACE_LAST :: u64 where "UACPINT_IO_SPACE_LAST \<equiv> 0xFFFF"

definition boot_available :: "alloc_state \<Rightarrow> u8" where
  "boot_available st =
     (case st_Entry st of
        None \<Rightarrow> st_RangeAvailableAttributes st
      | Some e \<Rightarrow>
          if le_Flags e AND ARBITER_FLAG_BOOT_CONFIG = 0 then st_RangeAvailableAttributes st
          else
            let avail = st_RangeAvailableAttributes st OR ARBITER_RANGE_BOOT_ALLOCATED
            in case current_alternative st of
                 None \<Rightarrow> avail
               | Some alt \<Rightarrow> if alt_Flags alt AND ALTERNATIVE_FLAG_FIXED \<noteq> 0
                            then avail OR UACPINT_RANGE_OUTSIDE_DECODE else avail)"

definition UacpiNtResFindSuitableRange ::
    "nt_kernel \<Rightarrow> mmconfig \<Rightarrow> range_list \<Rightarrow> alloc_state \<Rightarrow> bool \<times> alloc_state" where
  "UacpiNtResFindSuitableRange K mc possible st =
     ArbiterLibFindSuitableRange K mc (Some ArbiterLibOverrideConflict) possible
       (st\<lparr>st_RangeAvailableAttributes := boot_available st\<rparr>)"

definition UacpiNtNextPortAlias :: "u16 \<Rightarrow> u64 \<Rightarrow> u64 option" where
  "UacpiNtNextPortAlias DescriptorFlags Last =
     (let next_at = (\<lambda>Next. if Next > UACPINT_IO_SPACE_LAST \<or> Next < Last then None else Some Next)
      in if DescriptorFlags AND CM_RESOURCE_PORT_10_BIT_DECODE \<noteq> 0 then next_at (Last + 0x400)
         else if DescriptorFlags AND CM_RESOURCE_PORT_12_BIT_DECODE \<noteq> 0 then next_at (Last + 0x1000)
         else None)"

lemma NextPortAlias_up:
  assumes "UacpiNtNextPortAlias fl Last = Some a"
  shows "Last < a" and "a \<le> 0xFFFF"
proof -
  have "Last \<noteq> Last + 0x400" "Last \<noteq> Last + 0x1000" by simp_all
  with assms show "Last < a" and "a \<le> 0xFFFF"
    by (auto simp: UacpiNtNextPortAlias_def Let_def not_less less_le split: if_splits)
qed

text \<open>The mirrors of a placement, in the order the loops visit them.\<close>

function port_aliases :: "u16 \<Rightarrow> u64 \<Rightarrow> u64 list" where
  "port_aliases fl Last =
     (case UacpiNtNextPortAlias fl Last of None \<Rightarrow> [] | Some Alias \<Rightarrow> Alias # port_aliases fl Alias)"
  by pat_completeness auto

termination port_aliases
proof (relation "measure (\<lambda>(fl, l). 0x10000 - unat l)")
  fix fl Last a
  assume "UacpiNtNextPortAlias fl Last = Some a"
  from NextPortAlias_up [OF this] have "unat Last < unat a" "unat a \<le> 0xFFFF"
    by (simp_all add: word_less_nat_alt word_le_nat_alt)
  then show "((fl, a), fl, Last) \<in> measure (\<lambda>(fl, l). 0x10000 - unat l)" by simp
qed simp

declare port_aliases.simps [simp del]

definition alias_available :: "nt_kernel \<Rightarrow> range_list \<Rightarrow> alloc_state \<Rightarrow> alternative \<Rightarrow> u64 \<Rightarrow> bool" where
  "alias_available K possible st alt Alias =
     (let End = Alias + alt_Length alt - 1;
          Flags = (if alt_Flags alt AND ALTERNATIVE_FLAG_SHARED \<noteq> 0
                   then RTL_RANGE_LIST_NULL_CONFLICT_OK OR RTL_RANGE_LIST_SHARED_OK
                   else RTL_RANGE_LIST_NULL_CONFLICT_OK)
      in k_RtlIsRangeAvailable K possible Alias End Flags (st_RangeAvailableAttributes st) \<or>
         fst (ArbiterLibOverrideConflict possible (st\<lparr>st_CurrentMinimum := Alias, st_CurrentMaximum := End\<rparr>)))"

definition alias_flags :: "alternative \<Rightarrow> u16" where
  "alias_flags alt = io_Flags (alt_Descriptor alt)"

definition UacpiNtPortAliasesAvailable :: "nt_kernel \<Rightarrow> range_list \<Rightarrow> alloc_state \<Rightarrow> bool" where
  "UacpiNtPortAliasesAvailable K possible st =
     (case current_alternative st of
        None \<Rightarrow> True
      | Some alt \<Rightarrow>
          alt_Length alt = 0 \<or>
          list_all (alias_available K possible st alt) (port_aliases (alias_flags alt) (st_Start st)))"

partial_function (option) UacpiNtResPortFindSuitableRange ::
    "nt_kernel \<Rightarrow> mmconfig \<Rightarrow> range_list \<Rightarrow> alloc_state \<Rightarrow> (bool \<times> alloc_state) option" where
  "UacpiNtResPortFindSuitableRange K mc possible st =
     (case UacpiNtResFindSuitableRange K mc possible st of
        (found, st) \<Rightarrow>
          if \<not> found then Some (False, st)
          else if UacpiNtPortAliasesAvailable K possible st then Some (True, st)
          else case current_alternative st of
                 None \<Rightarrow> Some (False, st)
               | Some alt \<Rightarrow>
                   if alt_Length alt = 0 \<or> st_Start st + alt_Length alt \<le> st_Start st \<or>
                      st_Start st + alt_Length alt > st_CurrentMaximum st
                   then Some (False, st)
                   else UacpiNtResPortFindSuitableRange K mc possible
                          (st\<lparr>st_CurrentMinimum := st_Start st + alt_Length alt\<rparr>))"

declare UacpiNtResPortFindSuitableRange.simps [code]

definition UacpiNtResPortAddAllocation :: "nt_kernel \<Rightarrow> range_list \<Rightarrow> alloc_state \<Rightarrow> range_list" where
  "UacpiNtResPortAddAllocation K possible st =
     (let possible = ArbiterLibAddAllocation K possible st
      in case current_alternative st of
           None \<Rightarrow> possible
         | Some alt \<Rightarrow>
             if alt_Length alt = 0 then possible
             else
               let Flags = (if alt_Flags alt AND ALTERNATIVE_FLAG_SHARED \<noteq> 0
                            then RTL_RANGE_LIST_ADD_IF_CONFLICT OR RTL_RANGE_LIST_ADD_SHARED
                            else RTL_RANGE_LIST_ADD_IF_CONFLICT)
               in foldl (\<lambda>rl Alias. k_RtlAddRange K rl Alias (Alias + alt_Length alt - 1)
                            (st_RangeAttributes st OR ARBITER_RANGE_PORT_ALIAS) Flags (requester st))
                    possible (port_aliases (alias_flags alt) (st_Start st)))"

definition UacpiNtResPortBacktrackAllocation :: "nt_kernel \<Rightarrow> range_list \<Rightarrow> alloc_state \<Rightarrow> range_list" where
  "UacpiNtResPortBacktrackAllocation K possible st =
     (let possible =
            (case current_alternative st of
               None \<Rightarrow> possible
             | Some alt \<Rightarrow>
                 if alt_Length alt = 0 then possible
                 else foldl (\<lambda>rl Alias. k_RtlDeleteRange K rl Alias (Alias + alt_Length alt - 1) (requester st))
                        possible (port_aliases (alias_flags alt) (st_Start st)))
      in ArbiterLibBacktrackAllocation K possible st)"

section \<open>The arbiters of a module device\<close>

definition memory_callbacks :: "nt_kernel \<Rightarrow> ordering_list \<Rightarrow> mmconfig \<Rightarrow> arb_callbacks" where
  "memory_callbacks K ol mc = (library_callbacks res_codec K ol mc)
     \<lparr>cb_FindSuitableRange := (\<lambda>possible st. Some (UacpiNtResFindSuitableRange K mc possible st))\<rparr>"

definition port_callbacks :: "nt_kernel \<Rightarrow> ordering_list \<Rightarrow> mmconfig \<Rightarrow> arb_callbacks" where
  "port_callbacks K ol mc = (library_callbacks res_codec K ol mc)
     \<lparr>cb_FindSuitableRange := UacpiNtResPortFindSuitableRange K mc,
      cb_AddAllocation := UacpiNtResPortAddAllocation K,
      cb_BacktrackAllocation := (\<lambda>possible st. (UacpiNtResPortBacktrackAllocation K possible st, st))\<rparr>"

definition bus_callbacks :: "nt_kernel \<Rightarrow> ordering_list \<Rightarrow> mmconfig \<Rightarrow> arb_callbacks" where
  "bus_callbacks = library_callbacks res_codec"

definition root_callbacks :: "u8 \<Rightarrow> nt_kernel \<Rightarrow> ordering_list \<Rightarrow> mmconfig \<Rightarrow> arb_callbacks" where
  "root_callbacks ResourceType =
     (if ResourceType = CmResourceTypeMemory then memory_callbacks
      else if ResourceType = CmResourceTypePort then port_callbacks
      else bus_callbacks)"

text \<open>
  What creating an arbiter depends on: pool outcomes, the registry policy, the _CRS of the device,
  RtlInvertRangeList and the outcomes of the pool's RtlAddRange calls.
\<close>

record root_env =
  re_pool :: "nat \<Rightarrow> bool"
  re_opool :: "nat \<Rightarrow> nat \<Rightarrow> bool"
  re_reg :: reg_policy
  re_crs :: "uacpi_resource list option"
  re_invert :: "range_list \<Rightarrow> ntstatus \<times> range_list"
  re_ok :: "nat \<Rightarrow> bool"

definition zero_arbiter :: arbiter where
  "zero_arbiter = \<lparr>ai_ResourceType = 0, ai_Allocation = [], ai_PossibleAllocation = [],
     ai_OrderingList = \<lparr>ol_Count = 0, ol_Maximum = 0, ol_Orderings = []\<rparr>,
     ai_ReservedList = \<lparr>ol_Count = 0, ol_Maximum = 0, ol_Orderings = []\<rparr>,
     ai_AllocationStackMaxSize = 0, ai_TransactionInProgress = False, ai_TransactionEvent = False,
     ai_MutexEvent = False\<rparr>"

definition UacpiNtInitRootArbiter ::
    "root_env \<Rightarrow> nt_kernel \<Rightarrow> mmconfig \<Rightarrow> u8 \<Rightarrow> u8 \<Rightarrow> ntstatus \<times> (arb_blocks \<times> arbiter) \<times> mmconfig" where
  "UacpiNtInitRootArbiter env K mc ResourceType WindowType =
     (let (Status, b, a) = ArbiterLibInitializeInstance (re_pool env) (re_opool env) (re_reg env) res_codec
                             ResourceType (wide ''Root'') None zero_arbiter
      in if \<not> NT_SUCCESS Status then (Status, (b, a), mc)
         else
           let a = UacpiNtSeedArbiter (re_ok env) K (re_invert env) (re_crs env) WindowType a
           in if ResourceType = CmResourceTypeMemory
              then
                let (_, rl) = ArbiterLibAddInaccessibleAllocationRange K (re_reg env) ResourceType
                                UacpiNtResUnpackRequirement (wide ''Root'') (ai_Allocation a);
                    (_, mc, rl) = ArbiterLibAddMmConfigRangeAsBootReserved K (re_reg env) ResourceType
                                UacpiNtResUnpackRequirement mc rl
                in (STATUS_SUCCESS, (b, a\<lparr>ai_Allocation := rl\<rparr>), mc)
              else (STATUS_SUCCESS, (b, a), mc))"

abbreviation (input) UACPI_RANGE_MEMORY :: u8 where "UACPI_RANGE_MEMORY \<equiv> 0"
abbreviation (input) UACPI_RANGE_IO :: u8 where "UACPI_RANGE_IO \<equiv> 1"
abbreviation (input) UACPI_RANGE_BUS :: u8 where "UACPI_RANGE_BUS \<equiv> 2"

record res_arbiters =
  ra_Memory :: "arb_blocks \<times> arbiter"
  ra_Port :: "arb_blocks \<times> arbiter"
  ra_BusNumber :: "arb_blocks \<times> arbiter"
  ra_MemoryReady :: bool
  ra_PortReady :: bool
  ra_BusNumberReady :: bool

text \<open>The arbiters hang off the device (\<open>ResArb\<close>), null until the first query builds them.\<close>

definition UacpiNtEnsureResArbiters ::
    "bool \<Rightarrow> (u8 \<Rightarrow> root_env) \<Rightarrow> nt_kernel \<Rightarrow> res_arbiters option \<Rightarrow> mmconfig \<Rightarrow> res_arbiters option \<times> mmconfig" where
  "UacpiNtEnsureResArbiters pool env K ResArb mc =
     (case ResArb of
        Some r \<Rightarrow> (Some r, mc)
      | None \<Rightarrow>
          if \<not> pool then (None, mc)
          else
            let (ms, m, mc) = UacpiNtInitRootArbiter (env CmResourceTypeMemory) K mc CmResourceTypeMemory UACPI_RANGE_MEMORY;
                (ps, p, mc) = UacpiNtInitRootArbiter (env CmResourceTypePort) K mc CmResourceTypePort UACPI_RANGE_IO;
                (bs, b, mc) = UacpiNtInitRootArbiter (env CmResourceTypeBusNumber) K mc CmResourceTypeBusNumber UACPI_RANGE_BUS
            in (Some \<lparr>ra_Memory = m, ra_Port = p, ra_BusNumber = b, ra_MemoryReady = NT_SUCCESS ms,
                      ra_PortReady = NT_SUCCESS ps, ra_BusNumberReady = NT_SUCCESS bs\<rparr>, mc))"

text \<open>The blocks each arbiter still owns after teardown; the device's pointer becomes null.\<close>

definition UacpiNtResArbiterTeardown :: "res_arbiters option \<Rightarrow> (arb_blocks \<times> arbiter) list \<times> res_arbiters option" where
  "UacpiNtResArbiterTeardown ResArb =
     (case ResArb of
        None \<Rightarrow> ([], None)
      | Some r \<Rightarrow>
          ([if ra_MemoryReady r then ArbiterLibDeleteInstance (ra_Memory r) else ra_Memory r,
            if ra_PortReady r then ArbiterLibDeleteInstance (ra_Port r) else ra_Port r,
            if ra_BusNumberReady r then ArbiterLibDeleteInstance (ra_BusNumber r) else ra_BusNumber r], None))"


text \<open>
  \<open>owner\<close> is UacpiNtResArbOwner (the device is ACPI0004 and has a _CRS). On success the interface's
  context is the instance of the type asked for, which is the third component.
\<close>

definition UacpiNtQueryResArbiter ::
    "bool \<Rightarrow> bool \<Rightarrow> bool \<Rightarrow> (u8 \<Rightarrow> root_env) \<Rightarrow> nt_kernel \<Rightarrow> u64 \<Rightarrow> bool \<Rightarrow> res_arbiters option \<Rightarrow> mmconfig \<Rightarrow>
     ntstatus \<times> res_arbiters option \<times> (arb_blocks \<times> arbiter) option \<times> mmconfig" where
  "UacpiNtQueryResArbiter enabled owner pool env K ResourceType SizeOk ResArb mc =
     (if \<not> enabled \<or> \<not> owner then (STATUS_NOT_SUPPORTED, ResArb, None, mc)
      else if ResourceType \<noteq> ucast CmResourceTypeMemory \<and> ResourceType \<noteq> ucast CmResourceTypePort \<and>
              ResourceType \<noteq> ucast CmResourceTypeBusNumber
      then (STATUS_NOT_SUPPORTED, ResArb, None, mc)
      else if \<not> SizeOk then (STATUS_BUFFER_TOO_SMALL, ResArb, None, mc)
      else
        let (ResArb, mc) = UacpiNtEnsureResArbiters pool env K ResArb mc
        in case ResArb of
             None \<Rightarrow> (STATUS_NOT_SUPPORTED, None, None, mc)
           | Some r \<Rightarrow>
               let Instance =
                     (if ResourceType = ucast CmResourceTypeMemory
                      then (if ra_MemoryReady r then Some (ra_Memory r) else None)
                      else if ResourceType = ucast CmResourceTypePort
                      then (if ra_PortReady r then Some (ra_Port r) else None)
                      else (if ra_BusNumberReady r then Some (ra_BusNumber r) else None))
               in case Instance of
                    None \<Rightarrow> (STATUS_NOT_SUPPORTED, Some r, None, mc)
                  | Some i \<Rightarrow> (STATUS_SUCCESS, Some r, Some i, mc))"

section \<open>Mirrors\<close>

lemma aliases_up: "a \<in> set (port_aliases fl Last) \<Longrightarrow> Last < a \<and> a \<le> 0xFFFF"
proof (induction fl Last rule: port_aliases.induct)
  case (1 fl Last)
  show ?case
  proof (cases "UacpiNtNextPortAlias fl Last")
    case None
    with "1.prems" show ?thesis by (simp add: port_aliases.simps)
  next
    case (Some b)
    with "1.prems" have "a = b \<or> a \<in> set (port_aliases fl b)" by (simp add: port_aliases.simps [of fl Last])
    with "1.IH" [OF Some] NextPortAlias_up [OF Some] show ?thesis by (auto intro: less_trans)
  qed
qed

lemma aliases_distinct: "distinct (port_aliases fl Last)"
proof (induction fl Last rule: port_aliases.induct)
  case (1 fl Last)
  show ?case
  proof (cases "UacpiNtNextPortAlias fl Last")
    case None
    then show ?thesis by (simp add: port_aliases.simps)
  next
    case (Some b)
    with "1.IH" [OF Some] show ?thesis
      using aliases_up [of b fl b] by (auto simp: port_aliases.simps [of fl Last])
  qed
qed

text \<open>Claiming the mirrors one after the other and releasing them in the same order changes nothing.\<close>

lemma delete_commutes:
  assumes D: "DeleteRange_contract K" and "a \<notin> set As"
  shows "k_RtlDeleteRange K (foldl (\<lambda>rl x. k_RtlAddRange K rl x (x + n - 1) at fl ow) rl As) a (a + n - 1) ow =
    foldl (\<lambda>rl x. k_RtlAddRange K rl x (x + n - 1) at fl ow) (k_RtlDeleteRange K rl a (a + n - 1) ow) As"
  using assms(2)
proof (induction As arbitrary: rl)
  case (Cons x As)
  then have "(x, x + n - 1, ow) \<noteq> (a, a + n - 1, ow)" by auto
  then have "k_RtlDeleteRange K (k_RtlAddRange K rl x (x + n - 1) at fl ow) a (a + n - 1) ow =
      k_RtlAddRange K (k_RtlDeleteRange K rl a (a + n - 1) ow) x (x + n - 1) at fl ow"
    using D unfolding DeleteRange_contract_def by blast
  with Cons show ?case by simp
qed simp

lemma release_claimed:
  assumes D: "DeleteRange_contract K" and "distinct As"
  shows "foldl (\<lambda>rl x. k_RtlDeleteRange K rl x (x + n - 1) ow)
      (foldl (\<lambda>rl x. k_RtlAddRange K rl x (x + n - 1) at fl ow) rl As) As = rl"
  using assms(2)
proof (induction As arbitrary: rl)
  case (Cons a As)
  have "k_RtlDeleteRange K (k_RtlAddRange K rl a (a + n - 1) at fl ow) a (a + n - 1) ow = rl"
    using D unfolding DeleteRange_contract_def by blast
  with Cons delete_commutes [OF D, of a As n at fl ow] show ?case by simp
qed simp

section \<open>The searches keep the walker contract\<close>

lemma ResFind_frame:
  assumes "UacpiNtResFindSuitableRange K mc rl st = (b, st')"
  shows "find_frame st st'"
  using FindSuitableRange_frame [OF assms [unfolded UacpiNtResFindSuitableRange_def]] by simp

lemma ResFind_granted:
  assumes "FindRange_contract K" and "UacpiNtResFindSuitableRange K mc rl st = (True, st')"
  shows "granted_at K rl st'" and "st_CurrentMinimum st \<le> st_Start st'"
    and "st_Start st' \<le> st_CurrentMaximum st'" and "current_alternative st' \<noteq> None"
proof -
  let ?st = "st\<lparr>st_RangeAvailableAttributes := boot_available st\<rparr>"
  note run = assms(2) [unfolded UacpiNtResFindSuitableRange_def]
  from FindSuitable_granted [OF assms(1) run] obtain alt where
    g: "current_alternative ?st = Some alt" "granted K rl ?st alt (st_Start st') (st_End st')"
    "st_CurrentMinimum st \<le> st_Start st'" "st_Start st' \<le> st_End st'" "st_End st' \<le> st_CurrentMaximum st" by auto
  have cur: "current_alternative st' = Some alt"
    using find_frame_current [OF FindSuitableRange_frame [OF run]] g(1) by simp
  with g show "granted_at K rl st'" unfolding granted_at_but_def by (intro exI [of _ ?st]) auto
  show "st_CurrentMinimum st \<le> st_Start st'" by (fact g(3))
  show "st_Start st' \<le> st_CurrentMaximum st'"
    using g(4,5) ResFind_frame [OF assms(2)] by (auto simp: find_frame_def)
  show "current_alternative st' \<noteq> None" using cur by simp
qed

lemma find_frame_minimum [simp]: "find_frame (st\<lparr>st_CurrentMinimum := m\<rparr>) st' = find_frame st st'"
  by (simp add: find_frame_def)

lemma PortFind_good:
  assumes K: "FindRange_contract K"
  shows "\<exists>b st'. UacpiNtResPortFindSuitableRange K mc rl st = Some (b, st') \<and> find_frame st st' \<and>
    (b \<longrightarrow> granted_at K rl st' \<and> st_Start st' \<le> st_CurrentMaximum st' \<and> current_alternative st' \<noteq> None \<and>
       UacpiNtPortAliasesAvailable K rl st')"
proof (induction "unat (st_CurrentMaximum st) - unat (st_CurrentMinimum st)" arbitrary: st rule: less_induct)
  case less
  obtain b st1 where f: "UacpiNtResFindSuitableRange K mc rl st = (b, st1)" by fastforce
  note fr = ResFind_frame [OF f]
  show ?case
  proof (cases "b \<and> \<not> UacpiNtPortAliasesAvailable K rl st1 \<and> (\<exists>alt. current_alternative st1 = Some alt \<and>
      \<not> (alt_Length alt = 0 \<or> st_Start st1 + alt_Length alt \<le> st_Start st1 \<or>
         st_Start st1 + alt_Length alt > st_CurrentMaximum st1))")
    case False
    with f fr ResFind_granted [OF K, of mc rl st st1] show ?thesis
      by (subst UacpiNtResPortFindSuitableRange.simps) (auto split: option.splits)
  next
    case True
    then obtain alt where alt: "current_alternative st1 = Some alt" and b: b
      and stay: "\<not> UacpiNtPortAliasesAvailable K rl st1" "alt_Length alt \<noteq> 0"
        "st_Start st1 < st_Start st1 + alt_Length alt" "st_Start st1 + alt_Length alt \<le> st_CurrentMaximum st1"
      by (auto simp: not_le not_less)
    let ?st = "st1\<lparr>st_CurrentMinimum := st_Start st1 + alt_Length alt\<rparr>"
    have "UacpiNtResPortFindSuitableRange K mc rl st = UacpiNtResPortFindSuitableRange K mc rl ?st"
      using f alt b stay by (subst UacpiNtResPortFindSuitableRange.simps) (auto simp: not_le not_less)
    moreover have "st_CurrentMinimum st \<le> st_Start st1" using ResFind_granted(2) [OF K] f b by simp
    then have "unat (st_CurrentMaximum ?st) - unat (st_CurrentMinimum ?st) <
        unat (st_CurrentMaximum st) - unat (st_CurrentMinimum st)"
      using stay(3,4) fr by (simp add: find_frame_def word_le_nat_alt word_less_nat_alt)
    ultimately show ?thesis using less [of ?st] fr by (auto intro: find_frame_trans)
  qed
qed

text \<open>What the two callback sets share with the library's.\<close>

lemma memory_callbacks_simps:
  "cb_PreprocessEntry (memory_callbacks K ol mc) = cb_PreprocessEntry (library_callbacks res_codec K ol mc)"
  "cb_GetNextAllocationRange (memory_callbacks K ol mc) = cb_GetNextAllocationRange (library_callbacks res_codec K ol mc)"
  "cb_AddAllocation (memory_callbacks K ol mc) = cb_AddAllocation (library_callbacks res_codec K ol mc)"
  "cb_BacktrackAllocation (memory_callbacks K ol mc) = cb_BacktrackAllocation (library_callbacks res_codec K ol mc)"
  "cb_FindSuitableRange (memory_callbacks K ol mc) rl st = Some (UacpiNtResFindSuitableRange K mc rl st)"
  by (simp_all add: memory_callbacks_def)

lemma port_callbacks_simps:
  "cb_PreprocessEntry (port_callbacks K ol mc) = cb_PreprocessEntry (library_callbacks res_codec K ol mc)"
  "cb_GetNextAllocationRange (port_callbacks K ol mc) = cb_GetNextAllocationRange (library_callbacks res_codec K ol mc)"
  "cb_AddAllocation (port_callbacks K ol mc) = UacpiNtResPortAddAllocation K"
  "cb_BacktrackAllocation (port_callbacks K ol mc) rl st = (UacpiNtResPortBacktrackAllocation K rl st, st)"
  "cb_FindSuitableRange (port_callbacks K ol mc) = UacpiNtResPortFindSuitableRange K mc"
  by (simp_all add: port_callbacks_def)

interpretation memory: arbiter_walker memory_callbacks "\<lambda>_. 0" FindRange_contract
proof
  fix K ol mc rl st b st'
  assume "FindRange_contract K" "cb_FindSuitableRange (memory_callbacks K ol mc) rl st = Some (b, st')"
  then show "find_frame st st' \<and> (b \<longrightarrow> st_Start st' \<le> st_CurrentMaximum st')"
    by (auto simp: memory_callbacks_simps ResFind_frame ResFind_granted(3))
qed (auto simp: memory_callbacks_simps intro: library.preprocess_frame library.next_total library.next_origin
      library.backtrack_frame library.backtrack_undoes dest: library.next_offers)

lemma PortBacktrack_undoes:
  assumes D: "DeleteRange_contract K" and sp: "same_placement st0 st"
  shows "UacpiNtResPortBacktrackAllocation K (UacpiNtResPortAddAllocation K rl st0) st = rl"
proof -
  have same: "current_alternative st = current_alternative st0" "requester st = requester st0"
    "st_Start st = st_Start st0" "st_End st = st_End st0"
    using sp find_frame_current [of st0 st] by (auto simp: same_placement_def find_frame_def requester_def)
  have base: "ArbiterLibBacktrackAllocation K (ArbiterLibAddAllocation K rl st0) st = rl"
    using library.backtrack_undoes [OF D sp] by (simp add: library_callbacks_def)
  show ?thesis
  proof (cases "current_alternative st0")
    case None
    with same base show ?thesis
      by (simp add: UacpiNtResPortBacktrackAllocation_def UacpiNtResPortAddAllocation_def)
  next
    case (Some alt)
    with same base show ?thesis
      by (simp add: UacpiNtResPortBacktrackAllocation_def UacpiNtResPortAddAllocation_def Let_def
          release_claimed [OF D aliases_distinct])
  qed
qed

interpretation port: arbiter_walker port_callbacks "\<lambda>_. 0" FindRange_contract
proof
  fix K ol mc rl st b st'
  assume K: "FindRange_contract K"
  show "\<exists>b st'. cb_FindSuitableRange (port_callbacks K ol mc) rl st = Some (b, st')"
    using PortFind_good [OF K] unfolding port_callbacks_simps by blast
  assume "cb_FindSuitableRange (port_callbacks K ol mc) rl st = Some (b, st')"
  then show "find_frame st st' \<and> (b \<longrightarrow> st_Start st' \<le> st_CurrentMaximum st')"
    using PortFind_good [OF K, of mc rl st] unfolding port_callbacks_simps by auto
qed (auto simp: port_callbacks_simps PortBacktrack_undoes same_placement_def [of st st for st]
      intro: library.preprocess_frame library.next_total library.next_origin dest: library.next_offers)

section \<open>The codec\<close>

definition res_length :: "io_desc \<Rightarrow> u64" where
  "res_length d = (if io_Type d = CmResourceTypeBusNumber then ucast (io_BusLength d) else ucast (io_Length d))"

definition res_encodable :: "io_desc \<Rightarrow> u64 \<Rightarrow> bool" where
  "res_encodable d start \<longleftrightarrow> (io_Type d = CmResourceTypeBusNumber \<longrightarrow> start < 2 ^ 32)"

interpretation res: resource_codec res_codec res_length res_encodable
proof
  fix d start cm
  assume "fst (cb_UnpackRequirement res_codec d) = STATUS_SUCCESS" "res_encodable d start"
  then show "\<exists>pack unpack cm'. cb_PackResource res_codec = Some pack \<and>
      cb_UnpackResource res_codec = Some unpack \<and> pack d start cm = (STATUS_SUCCESS, cm') \<and>
      unpack cm' = (STATUS_SUCCESS, start, res_length d)"
    by (auto simp: res_codec_def UacpiNtResUnpackRequirement_def UacpiNtResPackResource_def
        UacpiNtResUnpackResource_def res_length_def res_encodable_def ucast_narrow_widen Let_def
        split: if_splits)
qed

lemma score_in_range:
  assumes "y < (0x7FFFFFFF :: u64)"
  shows "sint (ucast (y + 1) :: 32 word) = int (unat y) + 1"
proof -
  have y: "unat y < 0x7FFFFFFF" using assms by (simp add: word_less_nat_alt)
  then have s: "unat (y + 1) = unat y + 1" by (simp add: unat_add_nowrap)
  then have "y + 1 < 2 ^ 32" using y by (simp add: word_less_nat_alt)
  then have u: "unat (ucast (y + 1) :: 32 word) = unat y + 1" using unat_ucast_narrow [of "y + 1", where 'b = 32] s by simp
  then have "uint (ucast (y + 1) :: 32 word) = int (unat y) + 1" by (metis of_nat_1 of_nat_add uint_nat)
  moreover have "int (unat y) < 0x7FFFFFFF" "0 \<le> int (unat y)" using assms by (simp_all add: word_less_def)
  ultimately show ?thesis by (simp add: sint_uint signed_take_bit_int_eq_self)
qed

section \<open>Properties\<close>


definition bus_desc :: io_desc where
  "bus_desc = (sample_desc 0 0)\<lparr>io_Type := CmResourceTypeBusNumber, io_MinBusNumber := 0, io_MaxBusNumber := 255,
     io_BusLength := 4\<rparr>"

definition bus_state :: alloc_state where
  "bus_state = sample_state\<lparr>st_Start := 0x10, st_CurrentAlternative := Some 0,
     st_Alternatives := [sample_alt\<lparr>alt_Descriptor := bus_desc\<rparr>],
     st_Entry := Some (sample_entry\<lparr>le_Assignment := Some (seed_desc 0 0)\<rparr>)\<rparr>"


text \<open>
  The score of a requirement is the number of addresses of its window, saturated at
  MAXLONG, and negative exactly when the codec rejects the requirement or its window is inverted.
\<close>
theorem ResScore_counts:
  assumes "UacpiNtResUnpackRequirement d = (Status, mn, mx, len, al)"
  shows "sint (UacpiNtResScoreRequirement d) =
    (if \<not> NT_SUCCESS Status \<or> mx < mn then - 1
     else min (int (unat mx) - int (unat mn) + 1) (2 ^ 31 - 1))"
proof (cases "\<not> NT_SUCCESS Status \<or> mx < mn")
  case True
  with assms show ?thesis by (simp add: UacpiNtResScoreRequirement_def)
next
  case False
  then have le: "mn \<le> mx" by auto
  then have n: "int (unat (mx - mn)) = int (unat mx) - int (unat mn)"
    by (simp add: unat_sub word_le_nat_alt of_nat_diff)
  show ?thesis
  proof (cases "mx - mn \<ge> 0x7FFFFFFF")
    case True
    then have "0x7FFFFFFF \<le> int (unat (mx - mn))" by (simp add: word_le_def)
    with True False assms n show ?thesis by (simp add: UacpiNtResScoreRequirement_def)
  next
    case small: False
    then have lt: "mx - mn < 0x7FFFFFFF" by simp
    then have "int (unat (mx - mn)) < 0x7FFFFFFF" by (simp add: word_less_def)
    with small False assms n score_in_range [OF lt] show ?thesis by (simp add: UacpiNtResScoreRequirement_def)
  qed
qed

lemma ResScore_counts_witness: "sint (UacpiNtResScoreRequirement (sample_desc 0x1003 0x10FF)) = 253"
proof -
  have "UacpiNtResUnpackRequirement (sample_desc 0x1003 0x10FF) = (STATUS_SUCCESS, 0x1003, 0x10FF, 0, 1)"
    by (simp add: UacpiNtResUnpackRequirement_def sample_desc_def)
  from ResScore_counts [OF this] show ?thesis by simp
qed

end
