(* ===== verification/Irq_Arbitration.thy ===== *)
theory Irq_Arbitration
  imports Irq_Arbiter Res_Arbiter
begin

text \<open>
  What the interrupt arbiter promises: the placements of a test, the line a routed device gets, what
  a retest of a reported line lays down, and which connection data a commit publishes.
\<close>

section \<open>Tests\<close>

text \<open>
  A placement of the search: on the line recorded for a routed device, or granted by the library with
  shared level lines left out of the conflicts.
\<close>

definition irq_granted :: "nt_kernel \<Rightarrow> range_list \<Rightarrow> alloc_state \<Rightarrow> bool" where
  "irq_granted K rl st \<longleftrightarrow>
     routed_line st = Some (st_Start st) \<and> st_End st = st_Start st \<or>
     granted_at_but UacpiNtIrqShareableRange K rl st"

lemma routed_line_set_result [simp]: "routed_line (set_result r st) = routed_line st"
  by (simp add: routed_line_def set_result_def)

lemma irq_find_routed:
  assumes "irq_find K mc rl st = (True, st')" and "st_CurrentMinimum st < UACPINT_MSI_GSIV_BASE"
    and "routed_line st = Some g"
  shows "st' = st\<lparr>st_Start := g, st_End := g\<rparr>"
  using assms by (auto simp: irq_find_def Let_def routed_line_def split: if_splits)

lemma found_irq_granted:
  assumes K: "IrqFindRange_contract K" and f: "found_in (irq_callbacks model route alloc K ol mc) rl st"
  shows "irq_granted K rl st"
proof -
  from f obtain st0 st1 alt where run: "irq_find K mc rl st0 = (True, st1)"
    and alt: "current_alternative st1 = Some alt"
    and st: "if alt_Length alt \<noteq> 0 then st = st1 else st = set_result ArbiterResultNullRequest st1"
    by (auto simp: found_in_def irq_callbacks_simps)
  have same: "st_Start st = st_Start st1" "st_End st = st_End st1" "current_alternative st = Some alt"
    "routed_line st = routed_line st1"
    using st alt by (auto split: if_splits)
  have alt0: "current_alternative st0 = Some alt"
    using find_frame_current [OF irq_find_frame [OF run]] alt by simp
  show ?thesis
  proof (cases "st_CurrentMinimum st0 < UACPINT_MSI_GSIV_BASE \<and> routed_line st0 \<noteq> None")
    case True
    then obtain g where g: "routed_line st0 = Some g" by blast
    note st1 = irq_find_routed [OF run _ g]
    have "routed_line st1 = routed_line st0" using True st1 by (simp add: routed_line_def)
    then show ?thesis using True st1 g same by (auto simp: irq_granted_def)
  next
    case False
    from irq_find_true [OF K run] False same alt0 show ?thesis
      unfolding irq_granted_def granted_at_but_def by auto
  qed
qed

section \<open>Properties\<close>


definition line_desc :: "u32 \<Rightarrow> u32 \<Rightarrow> io_desc" where
  "line_desc mn mx = (sample_desc 0 0)\<lparr>io_Type := CmResourceTypeInterrupt, io_ShareDisposition := CmResourceShareShared,
     io_MinimumVector := mn, io_MaximumVector := mx\<rparr>"

abbreviation irq_walker :: "(device \<Rightarrow> u32 option) \<Rightarrow> arb_callbacks" where
  "irq_walker route \<equiv> irq_callbacks 1 route (ai_Allocation sample_arbiter) entry_kernel sample_orderings []"

lemma FindRange_contract_weaken: "FindRange_contract K \<Longrightarrow> FindRange_contract_but exc K"
  unfolding FindRange_contract_but_def range_free_but_def by blast

text \<open>A device routed to line 10 by _PRT, and an unrouted one, each asking for a line of 3 to 15.\<close>

definition line_entries :: "list_entry list" where
  "line_entries = [sample_entry\<lparr>le_Alternatives := [line_desc 3 15]\<rparr>,
     sample_entry\<lparr>le_Alternatives := [line_desc 3 15], le_PhysicalDeviceObject := Some 8\<rparr>]"


text \<open>
  A device routed by _PRT, asking below the message window. The range list and the kernel have no
  say in where it goes: it is placed on its routed line when that lies in the working window, whoever
  holds the line and however, and otherwise nowhere. The line is then noted as level triggered unless
  the request is latched or the MADT forces it to edge.
\<close>
theorem Routed_placement:
  assumes "routed_line st = Some g" and "st_CurrentMinimum st < UACPINT_MSI_GSIV_BASE"
    and "current_alternative st = Some alt"
  shows "UacpiNtIrqFindSuitableRange K mc rl st S =
    (if st_CurrentMinimum st \<le> g \<and> g \<le> st_CurrentMaximum st
     then (True, st\<lparr>st_Start := g, st_End := g\<rparr>,
           if g < UACPINT_MSI_GSIV_BASE \<and> io_Flags (alt_Descriptor alt) AND CM_RESOURCE_INTERRUPT_LATCHED = 0 \<and>
              \<not> UacpiNtIrqLibGsivForcedEdge (ir_Lib S) (ucast g)
           then S\<lparr>ir_Lib := UacpiNtIrqLibNoteLevelGsiv (ucast g) (ir_Lib S)\<rparr> else S)
     else (False, st, S))"
proof -
  have "current_alternative (st\<lparr>st_Start := g, st_End := g\<rparr>) = Some alt"
    using assms(3) by (cases "st_CurrentAlternative st") (simp_all add: current_alternative_def split: if_splits)
  with assms show ?thesis
    by (auto simp: UacpiNtIrqFindSuitableRange_def irq_find_def Let_def routed_line_def
        UacpiNtNotePlacedTriggering_def not_le not_less split: if_splits)
qed

text \<open>Line 10 is held exclusively by device 9, and the device routed to it is put there all the same.\<close>

definition routed_state :: alloc_state where
  "routed_state = sample_state\<lparr>st_CurrentMinimum := 10, st_CurrentMaximum := 10, st_CurrentAlternative := Some 0,
     st_Alternatives := [sample_alt\<lparr>alt_Descriptor := line_desc 10 10\<rparr>], st_WorkSpace := 0xC03\<rparr>"

lemma Routed_placement_witness:
  "UacpiNtIrqFindSuitableRange entry_kernel []
     [\<lparr>rr_Start = 10, rr_End = 10, rr_Owner = Some 9, rr_Attributes = 8, rr_Flags = 0\<rparr>] routed_state (demo_route []) =
   (True, routed_state\<lparr>st_Start := 10, st_End := 10\<rparr>,
    (demo_route [])\<lparr>ir_Lib := UacpiNtIrqLibNoteLevelGsiv 10 demo_lib\<rparr>)"
proof -
  have st: "routed_line routed_state = Some 10" "st_CurrentMinimum routed_state = 10" "st_CurrentMaximum routed_state = 10"
    "current_alternative routed_state = Some (sample_alt\<lparr>alt_Descriptor := line_desc 10 10\<rparr>)" by code_simp+
  have d: "io_Flags (line_desc 10 10) AND 1 = 0" "\<not> UacpiNtIrqLibGsivForcedEdge demo_lib 10" by code_simp+
  from Routed_placement [OF st(1) _ st(4), of entry_kernel "[]" _ "demo_route []"] st(2,3) d
  show ?thesis by (simp add: demo_route_def)
qed

text \<open>
  The interrupt codec round-trips through a transaction: when a test reports the placement of a
  line below the message window, or of a message request in it, the retest of the reported entry lays
  down the range that starts where the test placed it, for the same device. A line takes one GSIV. A
  message request takes as many slots as it has messages, though the test held only one for it.
\<close>
theorem Irq_report_retest_roundtrip:
  assumes "st_Entry st = Some e" and "current_alternative st = Some alt" and "le_Assignment e = Some cm"
    and "io_Type (alt_Descriptor alt) = CmResourceTypeInterrupt" and "le_Result e \<noteq> ArbiterResultNullRequest"
    and "if message_request (alt_Descriptor alt)
         then UACPINT_MSI_GSIV_BASE \<le> st_Start st \<and> st_Start st \<le> UACPINT_MSI_GSIV_LAST
         else st_Start st < UACPINT_MSI_GSIV_BASE"
  shows "\<exists>e'. report_entry (irq_callbacks model route alloc K ol mc) st = (STATUS_SUCCESS, st\<lparr>st_Entry := Some e'\<rparr>) \<and>
    map_option (\<lambda>(s, e, fl, ow). (s, e, ow)) (retest_range (irq_codec model) e') =
      Some (st_Start st,
            if message_request (alt_Descriptor alt)
            then st_Start st + ucast (UacpiNtMsiCountFromRequirement (alt_Descriptor alt)) - 1 else st_Start st,
            le_PhysicalDeviceObject e)"
proof -
  let ?d = "alt_Descriptor alt"
  have "fst (cb_UnpackRequirement (irq_codec model) ?d) = STATUS_SUCCESS"
    using assms(4) by (simp add: irq_codec_def UacpiNtIrqUnpackRequirement_def)
  moreover have "irq_encodable ?d (st_Start st)" using assms(6) by (simp add: irq_encodable_def)
  moreover have "unat (irq_length ?d) \<noteq> 0"
    using MsiCount_range(1) [of ?d] by (simp add: irq_length_def unat_ucast_widen)
  then have "irq_length ?d \<noteq> 0" by auto
  ultimately show ?thesis
    using irq_cd.retest_of_report [OF irq_callbacks_simps(6) assms(1-3) _ _ _ assms(5), of model route alloc K ol mc]
    by (fastforce simp: irq_length_def)
qed

definition message_state :: alloc_state where
  "message_state = routed_state\<lparr>st_Start := 0xFFF00010,
     st_Alternatives := [sample_alt\<lparr>alt_Descriptor := (line_desc 0 3)\<lparr>io_Flags := 2\<rparr>\<rparr>],
     st_Entry := Some (sample_entry\<lparr>le_Assignment := Some (seed_desc 0 0)\<rparr>)\<rparr>"

lemma Irq_report_retest_roundtrip_witness:
  "\<exists>e'. report_entry (irq_walker (\<lambda>_. None)) message_state =
      (STATUS_SUCCESS, message_state\<lparr>st_Entry := Some e'\<rparr>) \<and>
    map_option (\<lambda>(s, e, fl, ow). (s, e, ow)) (retest_range (irq_codec 1) e') = Some (0xFFF00010, 0xFFF00013, Some 7)"
proof -
  have m: "UacpiNtMsiCountFromRequirement ((line_desc 0 3)\<lparr>io_Flags := 2\<rparr>) = 4" by code_simp
  have st: "st_Entry message_state = Some (sample_entry\<lparr>le_Assignment := Some (seed_desc 0 0)\<rparr>)"
    "current_alternative message_state = Some (sample_alt\<lparr>alt_Descriptor := (line_desc 0 3)\<lparr>io_Flags := 2\<rparr>\<rparr>)"
    "st_Start message_state = 0xFFF00010" by code_simp+
  show ?thesis
    using Irq_report_retest_roundtrip [OF st(1,2), of "seed_desc 0 0" 1 "\<lambda>_. None"] st(3) m
    by (simp add: message_request_def line_desc_def sample_entry_def)
qed

section \<open>Commits\<close>

text \<open>A range that needs no write: it has no device, is the FDO's own, or its record is current.\<close>

definition published :: "msi_records \<Rightarrow> device option \<Rightarrow> irq_written list \<Rightarrow> rtl_range \<Rightarrow> bool" where
  "published Records FdoSelf W r \<longleftrightarrow>
     (case rr_Owner r of
        None \<Rightarrow> True
      | Some Owner \<Rightarrow> Some Owner = FdoSelf \<or>
          \<not> UacpiNtConnectionDataChanged W Owner (ucast (rr_Start r)) (placed_length Records r))"

text \<open>A range whose write failed.\<close>

definition write_failed :: "nt_kernel \<Rightarrow> irq_hal \<Rightarrow> msi_records \<Rightarrow> rtl_range \<Rightarrow> bool" where
  "write_failed K H Records r \<longleftrightarrow>
     (\<exists>Owner L Status d L'. rr_Owner r = Some Owner \<and> \<not> NT_SUCCESS Status \<and>
        UacpiNtIrqLibWriteConnectionData K H L Owner (ucast (rr_Start r)) (placed_length Records r) = Some (Status, d, L'))"

lemma Record_find:
  assumes "length W < Room"
  shows "find (\<lambda>w. wr_Owner w = o') (UacpiNtConnectionDataRecord Room W ow s l) =
    (if o' = ow then Some \<lparr>wr_Owner = ow, wr_Start = s, wr_Length = l\<rparr> else find (\<lambda>w. wr_Owner w = o') W)"
  using assms by (induction W arbitrary: Room) auto

lemma Record_length: "length (UacpiNtConnectionDataRecord Room W ow s l) \<le> Suc (length W)"
  by (induction W arbitrary: Room) auto

lemma Changed_Record:
  assumes "length W < Room"
  shows "UacpiNtConnectionDataChanged (UacpiNtConnectionDataRecord Room W ow s l) o' s' l' =
    (if o' = ow then s \<noteq> s' \<or> l \<noteq> l' else UacpiNtConnectionDataChanged W o' s' l')"
  using Record_find [OF assms] by (simp add: UacpiNtConnectionDataChanged_def)

lemma commit_range_published: "published Records FdoSelf (ic_Written C) r \<Longrightarrow> commit_range K H Records FdoSelf r C = Some C"
  by (auto simp: commit_range_def published_def Let_def split: option.splits)

lemma commit_loop_published:
  "\<forall>r \<in> set rs. published Records FdoSelf (ic_Written C) r \<Longrightarrow> commit_loop K H Records FdoSelf rs C = Some C"
  by (induction rs) (simp_all add: commit_range_published)

lemma commit_range_effect:
  assumes run: "commit_range K H Records FdoSelf r C = Some C'" and room: "length (ic_Written C) < 256"
    and same: "\<forall>r' \<in> R. rr_Owner r' = rr_Owner r \<longrightarrow>
      rr_Start r' = rr_Start r \<and> placed_length Records r' = placed_length Records r"
  shows "published Records FdoSelf (ic_Written C') r \<or> write_failed K H Records r"
    and "r' \<in> R \<Longrightarrow> published Records FdoSelf (ic_Written C) r' \<Longrightarrow> published Records FdoSelf (ic_Written C') r'"
    and "length (ic_Written C') \<le> Suc (length (ic_Written C))"
proof -
  have fail: "write_failed K H Records r"
    if "rr_Owner r = Some ow" "\<not> NT_SUCCESS s"
      "UacpiNtIrqLibWriteConnectionData K H L ow (ucast (rr_Start r)) (placed_length Records r) = Some (s, d, L')"
    for ow s L d L'
    using that unfolding write_failed_def by blast
  consider "C' = C" "published Records FdoSelf (ic_Written C) r"
    | "ic_Written C' = ic_Written C" "write_failed K H Records r"
    | Owner where "rr_Owner r = Some Owner" "ic_Written C' =
        UacpiNtConnectionDataRecord 256 (ic_Written C) Owner (ucast (rr_Start r)) (placed_length Records r)"
    using run fail
    by (auto simp: commit_range_def published_def Let_def split: option.splits if_splits)
  note c = this
  show "published Records FdoSelf (ic_Written C') r \<or> write_failed K H Records r"
    by (rule c) (auto simp: published_def Changed_Record [OF room])
  show "published Records FdoSelf (ic_Written C') r'" if "r' \<in> R" "published Records FdoSelf (ic_Written C) r'"
    using that same by (rule_tac c) (auto simp: published_def Changed_Record [OF room] split: option.splits)
  show "length (ic_Written C') \<le> Suc (length (ic_Written C))"
    by (rule c) (simp_all add: Record_length)
qed

lemma commit_loop_effect:
  assumes "commit_loop K H Records FdoSelf rs C = Some C'"
    and "length (ic_Written C) + length rs \<le> 256"
    and "set rs \<subseteq> R"
    and "\<forall>r \<in> R. \<forall>r' \<in> R. rr_Owner r' = rr_Owner r \<longrightarrow>
      rr_Start r' = rr_Start r \<and> placed_length Records r' = placed_length Records r"
  shows "(\<forall>r \<in> set rs. published Records FdoSelf (ic_Written C') r \<or> write_failed K H Records r) \<and>
    (\<forall>r \<in> R. published Records FdoSelf (ic_Written C) r \<longrightarrow> published Records FdoSelf (ic_Written C') r)"
  using assms
proof (induction rs arbitrary: C)
  case (Cons r rs)
  from Cons.prems(1) obtain C1 where 1: "commit_range K H Records FdoSelf r C = Some C1"
    and 2: "commit_loop K H Records FdoSelf rs C1 = Some C'" by (auto split: option.splits)
  have R: "r \<in> R" "set rs \<subseteq> R" using Cons.prems(3) by simp_all
  have room: "length (ic_Written C) < 256" using Cons.prems(2) by simp
  have same: "\<forall>r' \<in> R. rr_Owner r' = rr_Owner r \<longrightarrow>
      rr_Start r' = rr_Start r \<and> placed_length Records r' = placed_length Records r" using bspec [OF Cons.prems(4) R(1)] .
  note e = commit_range_effect [OF 1 room same]
  have "length (ic_Written C1) + length rs \<le> 256" using e(3) Cons.prems(2) by simp
  note ih = Cons.IH [OF 2 this _ Cons.prems(4)]
  note ih = ih [OF R(2)]
  have "published Records FdoSelf (ic_Written C') r \<or> write_failed K H Records r" using ih e(1) R(1) by blast
  moreover have "\<forall>r \<in> R. published Records FdoSelf (ic_Written C) r \<longrightarrow> published Records FdoSelf (ic_Written C') r"
    using ih e(2) by blast
  ultimately show ?case using ih by simp
qed simp

text \<open>
  A commit publishes every placement once. When every device has one placement and the record
  table has room, after a successful commit each range of the committed allocation is recorded as
  published or its write has failed, and once all are recorded a further pass writes nothing.
\<close>
theorem Commit_publishes_once:
  assumes run: "UacpiNtIrqCommitAllocation K H Records FdoSelf a C = Some (Status, a', C')" and ok: "NT_SUCCESS Status"
    and room: "length (ic_Written C) + length (ai_Allocation a') \<le> 256"
    and single: "\<forall>r \<in> set (ai_Allocation a'). \<forall>r' \<in> set (ai_Allocation a'). rr_Owner r' = rr_Owner r \<longrightarrow>
      rr_Start r' = rr_Start r \<and> placed_length Records r' = placed_length Records r"
  shows "ai_Allocation a' = ai_PossibleAllocation a \<and>
    (\<forall>r \<in> set (ai_Allocation a'). published Records FdoSelf (ic_Written C') r \<or> write_failed K H Records r) \<and>
    ((\<forall>r \<in> set (ai_Allocation a'). published Records FdoSelf (ic_Written C') r) \<longrightarrow>
       commit_loop K H Records FdoSelf (ai_Allocation a') C' = Some C')"
proof -
  from run ok have "commit_loop K H Records FdoSelf (ai_Allocation a') C = Some C'"
    and "ai_Allocation a' = ai_PossibleAllocation a"
    by (auto simp: UacpiNtIrqCommitAllocation_def ArbiterLibCommitAllocation_def split: if_splits prod.splits)
  with commit_loop_effect [OF this(1) room subset_refl single] commit_loop_published show ?thesis by blast
qed

definition demo_commit :: irq_commit where
  "demo_commit = \<lparr>ic_Lib = demo_lib, ic_Written = [], ic_Writes = []\<rparr>"

text \<open>Under the PIC, device 7 holds line 10 and device 8 line 11.\<close>

definition line_range :: "device \<Rightarrow> u64 \<Rightarrow> rtl_range" where
  "line_range d g = \<lparr>rr_Start = g, rr_End = g, rr_Owner = Some d, rr_Attributes = 4, rr_Flags = 1\<rparr>"

definition committed :: "rtl_range list \<Rightarrow> irq_commit \<Rightarrow> irq_commit option" where
  "committed rl C = commit_loop entry_kernel plain_hal [] None rl C"

lemma Commit_publishes_once_witness:
  "\<exists>a' C'. UacpiNtIrqCommitAllocation entry_kernel plain_hal [] None
      (sample_arbiter\<lparr>ai_PossibleAllocation := [line_range 7 10, line_range 8 11]\<rparr>) demo_commit = Some (STATUS_SUCCESS, a', C') \<and>
    map fst (ic_Writes C') = [7, 8] \<and>
    commit_loop entry_kernel plain_hal [] None [line_range 7 10, line_range 8 11] C' = Some C'"
proof -
  let ?a = "sample_arbiter\<lparr>ai_PossibleAllocation := [line_range 7 10, line_range 8 11]\<rparr>"
  let ?a' = "?a\<lparr>ai_Allocation := [line_range 7 10, line_range 8 11], ai_PossibleAllocation := []\<rparr>"
  have w: "map_option (\<lambda>C. (map fst (ic_Writes C), map (\<lambda>w. (wr_Owner w, wr_Start w, wr_Length w)) (ic_Written C)))
      (committed [line_range 7 10, line_range 8 11] demo_commit) = Some ([7, 8], [(7, 10, 1), (8, 11, 1)])" by code_simp
  then obtain C' where c: "committed [line_range 7 10, line_range 8 11] demo_commit = Some C'"
    and cw: "map fst (ic_Writes C') = [7, 8]" and
      rec: "map (\<lambda>w. (wr_Owner w, wr_Start w, wr_Length w)) (ic_Written C') = [(7, 10, 1), (8, 11, 1)]" by auto
  have run: "UacpiNtIrqCommitAllocation entry_kernel plain_hal [] None ?a demo_commit = Some (STATUS_SUCCESS, ?a', C')"
    using c by (simp add: UacpiNtIrqCommitAllocation_def ArbiterLibCommitAllocation_def committed_def)
  have "\<forall>r \<in> set [line_range 7 10, line_range 8 11]. published [] None (ic_Written C') r"
    using rec by (auto simp: published_def placed_length_def line_range_def UacpiNtConnectionDataChanged_def map_eq_Cons_conv)
  with Commit_publishes_once [OF run] run cw show ?thesis
    by (simp add: demo_commit_def line_range_def)
qed

text \<open>
  A device with two lines never settles. The record table holds one placement per device, so each
  line finds the other one recorded and writes the property anew with its own vector only: the last
  line wins, the first is lost, and every further commit writes both again.
\<close>
theorem Second_line_replaces_first:
  "map_option (\<lambda>C. map (\<lambda>(d, v). (d, length v)) (ic_Writes C)) (committed [line_range 7 10, line_range 7 11] demo_commit) =
     Some [(7, 1), (7, 1)] \<and>
   map_option (\<lambda>C. length (ic_Writes C))
     (Option.bind (committed [line_range 7 10, line_range 7 11] demo_commit) (committed [line_range 7 10, line_range 7 11])) =
     Some 4"
  by code_simp

end
