(* ===== verification/Acpi_Firmware.thy ===== *)
theory Acpi_Firmware
  imports Nt_Prelude
begin

text \<open>
  The firmware as the driver sees it through uACPI. Evaluating a method may change the firmware, so
  its answer depends on all evaluations before it: the driver's states carry the log of its
  evaluations, and the firmware is a function of the log and the call. What evaluation, the
  namespace and the GPE calls answer is a parameter.
\<close>

type_synonym acpi_node = nat

datatype fw_object =
  OInteger u64 | OString string | ONamepath string | OPackage "fw_object list" |
  OPowerResource u8 u16 | OOther

text \<open>A call: the node, the path below it (empty for the node itself) and the integer arguments.\<close>

type_synonym fw_call = "acpi_node \<times> string \<times> u64 list"

text \<open>
  \<open>fw_Eval log call\<close> is None when the evaluation fails and \<open>Some None\<close> when it succeeds without a
  value. \<open>fw_Resolve scope path\<close> is the node a name in a package stands for, \<open>fw_Child\<close> whether
  uacpi_namespace_node_find finds the name, \<open>fw_PowerNodes\<close> the PowerResource nodes in the order
  uacpi_namespace_for_each_child visits them.
\<close>

record firmware =
  fw_Eval :: "fw_call list \<Rightarrow> fw_call \<Rightarrow> fw_object option option"
  fw_Resolve :: "acpi_node \<Rightarrow> string \<Rightarrow> acpi_node option"
  fw_Child :: "acpi_node \<Rightarrow> string \<Rightarrow> bool"
  fw_Root :: acpi_node
  fw_PowerNodes :: "acpi_node list"

definition uacpi_eval :: "firmware \<Rightarrow> fw_call \<Rightarrow> fw_call list \<Rightarrow> fw_object option option \<times> fw_call list" where
  "uacpi_eval F c log = (fw_Eval F log c, log @ [c])"

definition uacpi_eval_simple_integer :: "firmware \<Rightarrow> fw_call \<Rightarrow> fw_call list \<Rightarrow> u64 option \<times> fw_call list" where
  "uacpi_eval_simple_integer F c log =
     (case uacpi_eval F c log of
        (Some (Some (OInteger v)), log) \<Rightarrow> (Some v, log)
      | (r, log) \<Rightarrow> (None, log))"

text \<open>The package an evaluation returns.\<close>

definition fw_package :: "fw_object option option \<Rightarrow> fw_object list option" where
  "fw_package r = (case r of Some (Some (OPackage os)) \<Rightarrow> Some os | _ \<Rightarrow> None)"

lemma uacpi_eval_log [simp]: "snd (uacpi_eval F c log) = log @ [c]"
  by (simp add: uacpi_eval_def)

section \<open>Power states\<close>

text \<open>DEVICE_POWER_STATE and SYSTEM_POWER_STATE are C enumerations: small integers.\<close>

type_synonym device_power_state = nat
type_synonym system_power_state = nat

abbreviation (input) PowerDeviceUnspecified :: device_power_state where "PowerDeviceUnspecified \<equiv> 0"
abbreviation (input) PowerDeviceD0 :: device_power_state where "PowerDeviceD0 \<equiv> 1"
abbreviation (input) PowerDeviceD1 :: device_power_state where "PowerDeviceD1 \<equiv> 2"
abbreviation (input) PowerDeviceD2 :: device_power_state where "PowerDeviceD2 \<equiv> 3"
abbreviation (input) PowerDeviceD3 :: device_power_state where "PowerDeviceD3 \<equiv> 4"

abbreviation (input) PowerSystemUnspecified :: system_power_state where "PowerSystemUnspecified \<equiv> 0"
abbreviation (input) PowerSystemWorking :: system_power_state where "PowerSystemWorking \<equiv> 1"
abbreviation (input) PowerSystemSleeping1 :: system_power_state where "PowerSystemSleeping1 \<equiv> 2"
abbreviation (input) PowerSystemSleeping2 :: system_power_state where "PowerSystemSleeping2 \<equiv> 3"
abbreviation (input) PowerSystemSleeping3 :: system_power_state where "PowerSystemSleeping3 \<equiv> 4"
abbreviation (input) PowerSystemHibernate :: system_power_state where "PowerSystemHibernate \<equiv> 5"
abbreviation (input) PowerSystemShutdown :: system_power_state where "PowerSystemShutdown \<equiv> 6"
abbreviation (input) PowerSystemMaximum :: system_power_state where "PowerSystemMaximum \<equiv> 7"

text \<open>A method name with a digit in it, as \<open>_PS0\<close> or \<open>_S3D\<close>: '0' + n.\<close>

definition digit :: "nat \<Rightarrow> char" where
  "digit n = char_of (48 + n)"

text \<open>
  A simulation of an abstract system by a concrete one: every concrete step from a state of the
  invariant keeps it and is matched by abstract steps.
\<close>

locale simulation =
  fixes step :: "'c \<Rightarrow> 'c \<Rightarrow> bool" and spec :: "'a \<Rightarrow> 'a \<Rightarrow> bool" and abs :: "'c \<Rightarrow> 'a" and inv :: "'c \<Rightarrow> bool"
  assumes step_inv: "inv c \<Longrightarrow> step c c' \<Longrightarrow> inv c'"
    and step_spec: "inv c \<Longrightarrow> step c c' \<Longrightarrow> spec\<^sup>*\<^sup>* (abs c) (abs c')"
begin

lemma run:
  assumes "step\<^sup>*\<^sup>* c c'" and "inv c"
  shows "inv c' \<and> spec\<^sup>*\<^sup>* (abs c) (abs c')"
  using assms by (induction rule: rtranclp_induct) (auto dest: step_inv step_spec intro: rtranclp_trans)

end

end
