(* ===== verification/Power_Resources.thy ===== *)
theory Power_Resources
  imports Acpi_Firmware "HOL-Library.Multiset"
begin

text \<open>
  Reference counted ACPI power resources (sys/powerres.c). A device takes the resources of its new
  power state before its _PSx method and gives back those it no longer needs after it; a device armed
  for wake holds the resources of its _PRW apart. The abstract specification is a set of users per
  resource; the counts refine it and the first and the last user switch the resource.
\<close>

section \<open>State\<close>

abbreviation (input) UACPINT_MAX_POWER_RESOURCES :: nat where "UACPINT_MAX_POWER_RESOURCES \<equiv> 8"

record power_resource =
  pr_Node :: acpi_node
  pr_PowerOnOrder :: u16
  pr_SleepLevel :: u8
  pr_RefCount :: "32 word"
  pr_On :: bool

text \<open>
  PowerResourceList is built once, so a pointer to a resource is its position in it. The mutex makes
  every operation below one step.
\<close>

record power_state =
  pw_Ready :: bool
  pw_Resources :: "power_resource list"
  pw_Log :: "fw_call list"

definition power_eval :: "firmware \<Rightarrow> fw_call \<Rightarrow> power_state \<Rightarrow> fw_object option option \<times> power_state" where
  "power_eval F c S = (let (r, log) = uacpi_eval F c (pw_Log S) in (r, S\<lparr>pw_Log := log\<rparr>))"

section \<open>Collection\<close>

text \<open>\<open>pool n\<close> tells whether the allocation for node \<open>n\<close> succeeds.\<close>

definition UacpiNtPowerResCollect :: "firmware \<Rightarrow> (acpi_node \<Rightarrow> bool) \<Rightarrow> acpi_node \<Rightarrow> power_state \<Rightarrow> power_state" where
  "UacpiNtPowerResCollect F pool Node S =
     (let (Object, S) = power_eval F (Node, [], []) S
      in case Object of
           Some (Some (OPowerResource level order)) \<Rightarrow>
             if \<not> pool Node then S
             else
               let (Sta, log) = uacpi_eval_simple_integer F (Node, ''_STA'', []) (pw_Log S)
               in S\<lparr>pw_Log := log,
                    pw_Resources := pw_Resources S @
                      [\<lparr>pr_Node = Node, pr_PowerOnOrder = order, pr_SleepLevel = level, pr_RefCount = 0,
                        pr_On = (case Sta of Some v \<Rightarrow> v \<noteq> 0 | None \<Rightarrow> False)\<rparr>]\<rparr>
         | _ \<Rightarrow> S)"

definition UacpiNtPowerResInit :: "firmware \<Rightarrow> (acpi_node \<Rightarrow> bool) \<Rightarrow> power_state \<Rightarrow> power_state" where
  "UacpiNtPowerResInit F pool S =
     (if pw_Ready S then S
      else (fold (UacpiNtPowerResCollect F pool) (fw_PowerNodes F) (S\<lparr>pw_Resources := []\<rparr>))\<lparr>pw_Ready := True\<rparr>)"

definition UacpiNtPowerResFind :: "power_resource list \<Rightarrow> acpi_node \<Rightarrow> nat option" where
  "UacpiNtPowerResFind Rs Node = find (\<lambda>i. pr_Node (Rs ! i) = Node) [0..<length Rs]"

definition UacpiNtPowerResInList :: "nat \<Rightarrow> nat list \<Rightarrow> bool" where
  "UacpiNtPowerResInList Resource List \<longleftrightarrow> Resource \<in> set List"

section \<open>References\<close>

definition UacpiNtPowerResReference :: "firmware \<Rightarrow> nat \<Rightarrow> power_state \<Rightarrow> power_state" where
  "UacpiNtPowerResReference F i S =
     (let r = pw_Resources S ! i; r = r\<lparr>pr_RefCount := pr_RefCount r + 1\<rparr>;
          S = S\<lparr>pw_Resources := (pw_Resources S)[i := r]\<rparr>
      in if pr_RefCount r \<noteq> 1 \<or> pr_On r then S
         else
           let (Status, S) = power_eval F (pr_Node r, ''_ON'', []) S
           in if Status \<noteq> None then S\<lparr>pw_Resources := (pw_Resources S)[i := r\<lparr>pr_On := True\<rparr>]\<rparr> else S)"

definition UacpiNtPowerResDereference :: "firmware \<Rightarrow> nat \<Rightarrow> power_state \<Rightarrow> power_state" where
  "UacpiNtPowerResDereference F i S =
     (let r = pw_Resources S ! i;
          r = (if sint (pr_RefCount r) > 0 then r\<lparr>pr_RefCount := pr_RefCount r - 1\<rparr> else r);
          S = S\<lparr>pw_Resources := (pw_Resources S)[i := r]\<rparr>
      in if pr_RefCount r \<noteq> 0 \<or> \<not> pr_On r then S
         else
           let (Status, S) = power_eval F (pr_Node r, ''_OFF'', []) S
           in if Status \<noteq> None then S\<lparr>pw_Resources := (pw_Resources S)[i := r\<lparr>pr_On := False\<rparr>]\<rparr> else S)"

section \<open>Resource lists\<close>

definition package_target :: "firmware \<Rightarrow> acpi_node \<Rightarrow> fw_object \<Rightarrow> acpi_node option" where
  "package_target F Scope obj =
     (case obj of ONamepath path \<Rightarrow> fw_Resolve F Scope path | OString text \<Rightarrow> fw_Resolve F Scope text | _ \<Rightarrow> None)"

fun resolve_loop :: "firmware \<Rightarrow> power_resource list \<Rightarrow> acpi_node \<Rightarrow> nat \<Rightarrow> fw_object list \<Rightarrow> nat list \<Rightarrow> nat list" where
  "resolve_loop F Rs Scope MaxCount [] List = List"
| "resolve_loop F Rs Scope MaxCount (obj # objs) List =
     (if length List \<ge> MaxCount then List
      else
        resolve_loop F Rs Scope MaxCount objs
          (case Option.bind (package_target F Scope obj) (UacpiNtPowerResFind Rs) of
             None \<Rightarrow> List
           | Some Resource \<Rightarrow> if UacpiNtPowerResInList Resource List then List else List @ [Resource]))"

text \<open>
  The insertion sort. The sorted part is kept with its last element first, so that the inner loop,
  which shifts greater elements up from the end, walks it from the head.
\<close>

fun shift_in :: "('a \<Rightarrow> u16) \<Rightarrow> 'a \<Rightarrow> 'a list \<Rightarrow> 'a list" where
  "shift_in order x [] = [x]"
| "shift_in order x (y # ys) = (if order y > order x then y # shift_in order x ys else x # y # ys)"

definition sort_orders :: "('a \<Rightarrow> u16) \<Rightarrow> 'a list \<Rightarrow> 'a list" where
  "sort_orders order xs = rev (fold (shift_in order) xs [])"

definition UacpiNtPowerResResolve ::
    "firmware \<Rightarrow> power_resource list \<Rightarrow> acpi_node \<Rightarrow> fw_object list \<Rightarrow> nat \<Rightarrow> nat \<Rightarrow> nat list" where
  "UacpiNtPowerResResolve F Rs Scope Package FirstIndex MaxCount =
     sort_orders (\<lambda>i. pr_PowerOnOrder (Rs ! i)) (resolve_loop F Rs Scope MaxCount (drop FirstIndex Package) [])"

definition UacpiNtPowerResEvalList ::
    "firmware \<Rightarrow> acpi_node option \<Rightarrow> string \<Rightarrow> nat \<Rightarrow> power_state \<Rightarrow> nat list \<times> power_state" where
  "UacpiNtPowerResEvalList F Device MethodName MaxCount S =
     (case Device of
        None \<Rightarrow> ([], S)
      | Some n \<Rightarrow>
          if \<not> pw_Ready S then ([], S)
          else
            let (Object, S) = power_eval F (n, MethodName, []) S
            in case fw_package Object of
                 None \<Rightarrow> ([], S)
               | Some Package \<Rightarrow> (UacpiNtPowerResResolve F (pw_Resources S) n Package 0 MaxCount, S))"

section \<open>Device power states\<close>

definition UacpiNtPowerResAcquireForState ::
    "firmware \<Rightarrow> acpi_node option \<Rightarrow> nat list \<Rightarrow> device_power_state \<Rightarrow> power_state \<Rightarrow> nat list \<times> power_state" where
  "UacpiNtPowerResAcquireForState F Node Held DeviceState S =
     (if DeviceState < PowerDeviceD0 \<or> DeviceState > PowerDeviceD3 \<or> \<not> pw_Ready S then ([], S)
      else
        let (NewList, S) = UacpiNtPowerResEvalList F Node (''_PR'' @ [digit (DeviceState - PowerDeviceD0)])
                             UACPINT_MAX_POWER_RESOURCES S
        in (NewList,
            fold (UacpiNtPowerResReference F) (filter (\<lambda>i. \<not> UacpiNtPowerResInList i Held) NewList) S))"

text \<open>The state and the new held list.\<close>

definition UacpiNtPowerResReleaseDelta ::
    "firmware \<Rightarrow> nat list \<Rightarrow> nat list \<Rightarrow> power_state \<Rightarrow> nat list \<times> power_state" where
  "UacpiNtPowerResReleaseDelta F Held NewList S =
     (if \<not> pw_Ready S then (Held, S)
      else
        let NewList = take UACPINT_MAX_POWER_RESOURCES NewList
        in (NewList,
            fold (UacpiNtPowerResDereference F) (filter (\<lambda>i. \<not> UacpiNtPowerResInList i NewList) (rev Held)) S))"

section \<open>Wake\<close>

definition UacpiNtPowerResAcquireWake :: "firmware \<Rightarrow> acpi_node option \<Rightarrow> nat \<Rightarrow> power_state \<Rightarrow> nat list \<times> power_state" where
  "UacpiNtPowerResAcquireWake F Device MaxCount S =
     (case Device of
        None \<Rightarrow> ([], S)
      | Some n \<Rightarrow>
          if \<not> pw_Ready S then ([], S)
          else
            let (Object, S) = power_eval F (n, ''_PRW'', []) S
            in case fw_package Object of
                 None \<Rightarrow> ([], S)
               | Some Package \<Rightarrow>
                   if length Package < 2 then ([], S)
                   else
                     let List = UacpiNtPowerResResolve F (pw_Resources S) n Package 2 MaxCount
                     in (List, fold (UacpiNtPowerResReference F) List S))"

definition UacpiNtPowerResReleaseWake :: "firmware \<Rightarrow> nat list \<Rightarrow> power_state \<Rightarrow> power_state" where
  "UacpiNtPowerResReleaseWake F List S =
     (if List = [] \<or> \<not> pw_Ready S then S else fold (UacpiNtPowerResDereference F) (rev List) S)"

definition resume_one :: "firmware \<Rightarrow> power_resource \<Rightarrow> power_state \<Rightarrow> power_state" where
  "resume_one F r S = (if pr_On r then snd (power_eval F (pr_Node r, ''_ON'', []) S) else S)"

definition UacpiNtPowerResResume :: "firmware \<Rightarrow> power_state \<Rightarrow> power_state" where
  "UacpiNtPowerResResume F S =
     (if \<not> pw_Ready S then S else fold (resume_one F) (pw_Resources S) S)"

section \<open>Lists\<close>

lemma set_shift_in [simp]: "set (shift_in order x ys) = insert x (set ys)"
  by (induction ys) auto

lemma length_shift_in [simp]: "length (shift_in order x ys) = Suc (length ys)"
  by (induction ys) auto

lemma distinct_shift_in: "distinct (shift_in order x ys) = distinct (x # ys)"
  by (induction ys) auto

lemma shift_in_sorted: "sorted (map order (rev ys)) \<Longrightarrow> sorted (map order (rev (shift_in order x ys)))"
  by (induction ys) (auto simp: sorted_append)

lemma shift_in_filter:
  assumes "sorted (map order (rev ys))"
  shows "filter (\<lambda>y. order y = k) (rev (shift_in order x ys)) =
    filter (\<lambda>y. order y = k) (rev ys) @ (if order x = k then [x] else [])"
  using assms
proof (induction ys)
  case (Cons y ys)
  then have "filter (\<lambda>y. order y = k) (rev (shift_in order x ys)) =
    filter (\<lambda>y. order y = k) (rev ys) @ (if order x = k then [x] else [])" by (simp add: sorted_append)
  then show ?case by auto
qed simp

lemma shifts_in:
  assumes "sorted (map order (rev ys))"
  shows "sorted (map order (rev (fold (shift_in order) xs ys))) \<and>
    filter (\<lambda>y. order y = k) (rev (fold (shift_in order) xs ys)) =
      filter (\<lambda>y. order y = k) (rev ys) @ filter (\<lambda>y. order y = k) xs \<and>
    mset (fold (shift_in order) xs ys) = mset xs + mset ys"
  using assms
proof (induction xs arbitrary: ys)
  case (Cons x xs)
  have "mset (shift_in order x ys) = add_mset x (mset ys)" by (induction ys) auto
  with Cons.IH [OF shift_in_sorted [OF Cons.prems, of x]] shift_in_filter [OF Cons.prems, of k x] show ?case by simp
qed simp

lemma sort_orders_sort_key: "sort_orders order xs = sort_key order xs"
proof (rule sym, rule properties_for_sort_key)
  show "mset (sort_orders order xs) = mset xs" "sorted (map order (sort_orders order xs))"
    using shifts_in [of order "[]" xs] by (simp_all add: sort_orders_def)
  show "filter (\<lambda>y. order k = order y) (sort_orders order xs) = filter (\<lambda>y. order k = order y) xs"
    for k using shifts_in [of order "[]" xs "order k"] by (simp add: sort_orders_def eq_commute)
qed

lemma resolve_loop_list:
  assumes "distinct L" and "length L \<le> mx" and "set L \<subseteq> {..<length Rs}"
  shows "distinct (resolve_loop F Rs n mx objs L) \<and> length (resolve_loop F Rs n mx objs L) \<le> mx \<and>
    set (resolve_loop F Rs n mx objs L) \<subseteq> {..<length Rs}"
  using assms
proof (induction objs arbitrary: L)
  case (Cons obj objs)
  have found: "i < length Rs" if "UacpiNtPowerResFind Rs m = Some i" for m i
    using that by (auto simp: UacpiNtPowerResFind_def find_Some_iff)
  show ?case
  proof (cases "length L \<ge> mx")
    case False
    let ?L = "case Option.bind (package_target F n obj) (UacpiNtPowerResFind Rs) of
      None \<Rightarrow> L | Some i \<Rightarrow> if UacpiNtPowerResInList i L then L else L @ [i]"
    have "distinct ?L" "length ?L \<le> mx" "set ?L \<subseteq> {..<length Rs}"
      using Cons.prems False found
      by (auto simp: UacpiNtPowerResInList_def bind_eq_Some_conv split: option.split)
    from Cons.IH [OF this] False show ?thesis by simp
  qed (use Cons.prems in simp)
qed simp

lemma Resolve_list:
  "distinct (UacpiNtPowerResResolve F Rs n os k mx)" "length (UacpiNtPowerResResolve F Rs n os k mx) \<le> mx"
  "set (UacpiNtPowerResResolve F Rs n os k mx) \<subseteq> {..<length Rs}"
  using resolve_loop_list [of "[]" mx Rs F n "drop k os"]
  by (simp_all add: UacpiNtPowerResResolve_def sort_orders_sort_key)

section \<open>Effects\<close>

text \<open>Firmware whose _ON and _OFF methods always succeed.\<close>

definition switching :: "firmware \<Rightarrow> bool" where
  "switching F \<longleftrightarrow> (\<forall>log n. fw_Eval F log (n, ''_ON'', []) \<noteq> None \<and> fw_Eval F log (n, ''_OFF'', []) \<noteq> None)"

text \<open>
  What a reference and a dereference make of a resource. The count does not depend on whether _ON or _OFF
  succeeds; \<open>sw\<close> is whether they always do.
\<close>

definition ref_ok :: "bool \<Rightarrow> power_resource \<Rightarrow> power_resource \<Rightarrow> bool" where
  "ref_ok sw r r' \<longleftrightarrow> pr_RefCount r' = pr_RefCount r + 1 \<and> (pr_On r \<longrightarrow> pr_On r') \<and>
     (pr_On r' \<longrightarrow> pr_On r \<or> pr_RefCount r = 0) \<and> (sw \<and> pr_RefCount r = 0 \<longrightarrow> pr_On r')"

definition deref_ok :: "bool \<Rightarrow> power_resource \<Rightarrow> power_resource \<Rightarrow> bool" where
  "deref_ok sw r r' \<longleftrightarrow>
     pr_RefCount r' = (if sint (pr_RefCount r) > 0 then pr_RefCount r - 1 else pr_RefCount r) \<and> (pr_On r' \<longrightarrow> pr_On r) \<and>
     (pr_On r \<and> \<not> pr_On r' \<longrightarrow> pr_RefCount r' = 0) \<and> (sw \<and> pr_RefCount r' = 0 \<longrightarrow> \<not> pr_On r')"

lemma power_eval_frame [simp]:
  "pw_Resources (snd (power_eval F c S)) = pw_Resources S" "pw_Ready (snd (power_eval F c S)) = pw_Ready S"
  by (simp_all add: power_eval_def uacpi_eval_def)

text \<open>A step that changes one resource.\<close>

definition acts_on :: "(nat \<Rightarrow> power_state \<Rightarrow> power_state) \<Rightarrow> (power_resource \<Rightarrow> power_resource \<Rightarrow> bool) \<Rightarrow> bool" where
  "acts_on g R \<longleftrightarrow>
     (\<forall>i S. pw_Ready (g i S) = pw_Ready S \<and> (\<exists>r. pw_Resources (g i S) = (pw_Resources S)[i := r] \<and> R (pw_Resources S ! i) r))"

lemma Reference_acts: "acts_on (UacpiNtPowerResReference F) (ref_ok (switching F))"
  unfolding acts_on_def
proof (intro allI)
  fix i and S :: power_state
  define r where "r = pw_Resources S ! i"
  have one: "pr_RefCount r + 1 = 1 \<longleftrightarrow> pr_RefCount r = 0" by (metis add_diff_cancel_right' add_0 diff_self)
  let ?r1 = "r\<lparr>pr_RefCount := pr_RefCount r + 1\<rparr>"
  let ?ok = "fw_Eval F (pw_Log S) (pr_Node r, ''_ON'', []) \<noteq> None"
  let ?r2 = "if (pr_RefCount r + 1 \<noteq> 1 \<or> pr_On r) \<or> \<not> ?ok then ?r1 else ?r1\<lparr>pr_On := True\<rparr>"
  have "pw_Ready (UacpiNtPowerResReference F i S) = pw_Ready S \<and> pw_Resources (UacpiNtPowerResReference F i S) = (pw_Resources S)[i := ?r2]"
    by (auto simp: UacpiNtPowerResReference_def Let_def power_eval_def uacpi_eval_def r_def)
  moreover have "switching F \<Longrightarrow> ?ok" by (simp add: switching_def)
  then have "ref_ok (switching F) r ?r2" using one by (auto simp: ref_ok_def)
  ultimately show "pw_Ready (UacpiNtPowerResReference F i S) = pw_Ready S \<and>
      (\<exists>r. pw_Resources (UacpiNtPowerResReference F i S) = (pw_Resources S)[i := r] \<and> ref_ok (switching F) (pw_Resources S ! i) r)"
    unfolding r_def by blast
qed

lemma Dereference_acts: "acts_on (UacpiNtPowerResDereference F) (deref_ok (switching F))"
  unfolding acts_on_def
proof (intro allI)
  fix i and S :: power_state
  define r where "r = pw_Resources S ! i"
  let ?r1 = "if sint (pr_RefCount r) > 0 then r\<lparr>pr_RefCount := pr_RefCount r - 1\<rparr> else r"
  let ?ok = "fw_Eval F (pw_Log S) (pr_Node ?r1, ''_OFF'', []) \<noteq> None"
  let ?r2 = "if (pr_RefCount ?r1 \<noteq> 0 \<or> \<not> pr_On ?r1) \<or> \<not> ?ok then ?r1 else ?r1\<lparr>pr_On := False\<rparr>"
  have "pw_Ready (UacpiNtPowerResDereference F i S) = pw_Ready S \<and> pw_Resources (UacpiNtPowerResDereference F i S) = (pw_Resources S)[i := ?r2]"
    unfolding UacpiNtPowerResDereference_def Let_def r_def [symmetric] by (simp add: power_eval_def uacpi_eval_def)
  moreover have "switching F \<Longrightarrow> ?ok" by (simp add: switching_def)
  then have "deref_ok (switching F) r ?r2" by (auto simp: deref_ok_def)
  ultimately show "pw_Ready (UacpiNtPowerResDereference F i S) = pw_Ready S \<and>
      (\<exists>r. pw_Resources (UacpiNtPowerResDereference F i S) = (pw_Resources S)[i := r] \<and> deref_ok (switching F) (pw_Resources S ! i) r)"
    unfolding r_def by blast
qed

lemma fold_acts:
  assumes "acts_on g R" and "distinct L" and "set L \<subseteq> {..<length (pw_Resources S)}"
  shows "pw_Ready (fold g L S) = pw_Ready S \<and> length (pw_Resources (fold g L S)) = length (pw_Resources S) \<and>
    (\<forall>j < length (pw_Resources S). if j \<in> set L then R (pw_Resources S ! j) (pw_Resources (fold g L S) ! j)
       else pw_Resources (fold g L S) ! j = pw_Resources S ! j)"
  using assms(2,3)
proof (induction L arbitrary: S)
  case (Cons i L)
  obtain r where g: "pw_Ready (g i S) = pw_Ready S" "pw_Resources (g i S) = (pw_Resources S)[i := r]" "R (pw_Resources S ! i) r"
    using assms(1) unfolding acts_on_def by blast
  have i: "i < length (pw_Resources S)" "i \<notin> set L" "distinct L" using Cons.prems by auto
  have "set L \<subseteq> {..<length (pw_Resources (g i S))}" using Cons.prems g by simp
  note ih = Cons.IH [OF i(3) this]
  have "if j \<in> set (i # L) then R (pw_Resources S ! j) (pw_Resources (fold g L (g i S)) ! j)
       else pw_Resources (fold g L (g i S)) ! j = pw_Resources S ! j" if "j < length (pw_Resources S)" for j
    using ih g i that by (cases "j = i") (auto split: if_splits)
  with ih g show ?case by simp
qed simp

section \<open>Specification\<close>

text \<open>
  Who uses which resource, how many users of it were lost, and which resources are powered. A user takes a
  set of resources, and the first user of a resource may switch it on; or it keeps only a set of those it
  has, and the last user of a resource may switch it off. With \<open>ok\<close> they always do. A user can also lose
  what it has, without giving it back: lost users never leave.
\<close>

datatype user = Dev nat | WakeOf nat

type_synonym usage = "(nat \<Rightarrow> user set) \<times> (nat \<Rightarrow> nat) \<times> nat set"

inductive users_step :: "bool \<Rightarrow> usage \<Rightarrow> usage \<Rightarrow> bool" for ok :: bool where
  take: "P \<subseteq> P' \<Longrightarrow> P' \<subseteq> P \<union> {r \<in> I. \<sigma> r = {} \<and> b r = 0} \<Longrightarrow> ok \<longrightarrow> {r \<in> I. \<sigma> r = {} \<and> b r = 0} \<subseteq> P' \<Longrightarrow>
    users_step ok (\<sigma>, b, P) (\<lambda>r. if r \<in> I then insert u (\<sigma> r) else \<sigma> r, b, P')"
| keep: "P' \<subseteq> P \<Longrightarrow> P - P' \<subseteq> {r. \<sigma> r = {u} \<and> b r = 0 \<and> r \<notin> I} \<Longrightarrow> ok \<longrightarrow> P' \<inter> {r. \<sigma> r = {u} \<and> b r = 0 \<and> r \<notin> I} = {} \<Longrightarrow>
    users_step ok (\<sigma>, b, P) (\<lambda>r. if r \<in> I then \<sigma> r else \<sigma> r - {u}, b, P')"
| lose: "users_step ok (\<sigma>, b, P) (\<lambda>r. \<sigma> r - {u}, \<lambda>r. if u \<in> \<sigma> r then Suc (b r) else b r, P)"

text \<open>When the methods succeed, what is used is on, and what only lost users use stays on for ever.\<close>

definition all_powered :: "usage \<Rightarrow> bool" where
  "all_powered s \<longleftrightarrow> (\<forall>r. fst s r \<noteq> {} \<or> fst (snd s) r \<noteq> 0 \<longrightarrow> r \<in> snd (snd s))"

lemma users_powered:
  assumes "(users_step True)\<^sup>*\<^sup>* s s'" and "all_powered s"
  shows "all_powered s'"
  using assms
proof (induction rule: rtranclp_induct)
  case (step s1 s2)
  have ap: "all_powered s1" using step by blast
  from step.hyps(2) show ?case
  proof cases
    case (take P P' I \<sigma> b u)
    have old: "\<sigma> r \<noteq> {} \<or> b r \<noteq> 0 \<Longrightarrow> r \<in> P'" for r using ap take(1,3) unfolding all_powered_def by auto
    have new: "r \<in> I \<Longrightarrow> \<sigma> r = {} \<Longrightarrow> b r = 0 \<Longrightarrow> r \<in> P'" for r using take(5) by auto
    have "\<sigma> r \<noteq> {} \<or> b r \<noteq> 0 \<or> r \<in> I \<Longrightarrow> r \<in> P'" for r using old [of r] new [of r] by blast
    then show ?thesis unfolding all_powered_def take(2) by (simp split: if_splits)
  next
    case (keep P' P \<sigma> u b I)
    have old: "\<sigma> r \<noteq> {} \<or> b r \<noteq> 0 \<Longrightarrow> r \<in> P' \<or> \<sigma> r = {u} \<and> b r = 0 \<and> r \<notin> I" for r
      using ap keep(1,4) unfolding all_powered_def by auto
    have "(if r \<in> I then \<sigma> r else \<sigma> r - {u}) \<noteq> {} \<or> b r \<noteq> 0 \<Longrightarrow> r \<in> P'" for r
      using old [of r] by (auto split: if_splits)
    then show ?thesis unfolding all_powered_def keep(2) by simp
  next
    case (lose \<sigma> b P u)
    with ap show ?thesis unfolding all_powered_def by auto
  qed
qed

text \<open>The counts of a state agree with the users, all of them in the set \<open>U\<close>, and the lost ones.\<close>

definition powered :: "power_state \<Rightarrow> nat set" where
  "powered S = {i. i < length (pw_Resources S) \<and> pr_On (pw_Resources S ! i)}"

definition counted :: "user set \<Rightarrow> (nat \<Rightarrow> user set) \<Rightarrow> (nat \<Rightarrow> nat) \<Rightarrow> power_state \<Rightarrow> bool" where
  "counted U \<sigma> b S \<longleftrightarrow>
     (\<forall>i. \<sigma> i \<subseteq> U) \<and> (\<forall>i. \<sigma> i \<noteq> {} \<longrightarrow> i < length (pw_Resources S)) \<and>
     (\<forall>i < length (pw_Resources S). pr_RefCount (pw_Resources S ! i) = of_nat (card (\<sigma> i) + b i))"

text \<open>The users and lost users of a resource fit the LONG that counts them.\<close>

definition few :: "user set \<Rightarrow> (nat \<Rightarrow> nat) \<Rightarrow> bool" where
  "few U b \<longleftrightarrow> finite U \<and> card U \<le> 2 ^ 30 \<and> (\<forall>i. b i < 2 ^ 30)"

lemma few_users:
  assumes "few U b" and "counted U \<sigma> b S"
  shows "finite (\<sigma> i)" and "card (\<sigma> i) + b i < 2 ^ 31"
proof -
  have s: "\<sigma> i \<subseteq> U" "finite U" "card U \<le> 2 ^ 30" "b i < 2 ^ 30" using assms by (auto simp: few_def counted_def)
  show "finite (\<sigma> i)" using s(1,2) by (rule finite_subset)
  have "card (\<sigma> i) \<le> card U" using s(1,2) by (intro card_mono)
  with s(3,4) show "card (\<sigma> i) + b i < 2 ^ 31" by simp
qed

lemma count_word:
  assumes "n < 2 ^ 31"
  shows "(of_nat n :: 32 word) = 0 \<longleftrightarrow> n = 0" and "sint (of_nat n :: 32 word) = int n" and "unat (of_nat n :: 32 word) = n"
proof -
  show u: "unat (of_nat n :: 32 word) = n" using assms by (simp add: unsigned_of_nat take_bit_nat_eq_self)
  show "(of_nat n :: 32 word) = 0 \<longleftrightarrow> n = 0" using u by (metis unsigned_0 unsigned_eq_0_iff)
  show "sint (of_nat n :: 32 word) = int n" using assms by (simp add: signed_of_nat signed_take_bit_int_eq_self)
qed

lemma take_counted:
  fixes F :: firmware
  assumes U: "few U b" "u \<in> U" and c: "counted U \<sigma> b S"
    and L: "distinct L" "set L = {i \<in> J. u \<notin> \<sigma> i}" and J: "J \<subseteq> {..<length (pw_Resources S)}"
  defines "S' \<equiv> fold (UacpiNtPowerResReference F) L S" and "\<tau> \<equiv> (\<lambda>r. if r \<in> J then insert u (\<sigma> r) else \<sigma> r)"
  shows "counted U \<tau> b S'" and "users_step (switching F) (\<sigma>, b, powered S) (\<tau>, b, powered S')" and "pw_Ready S' = pw_Ready S"
    and "length (pw_Resources S') = length (pw_Resources S)"
proof -
  have sub: "set L \<subseteq> {..<length (pw_Resources S)}" using L(2) J by auto
  note e = fold_acts [OF Reference_acts [of F] L(1) sub, folded S'_def]
  show "pw_Ready S' = pw_Ready S" and len: "length (pw_Resources S') = length (pw_Resources S)"
    using e by simp_all
  note small = few_users [OF U(1) c]
  have rc: "pr_RefCount (pw_Resources S ! i) = of_nat (card (\<sigma> i) + b i)" if "i < length (pw_Resources S)" for i
    using c that by (simp add: counted_def)
  have unused: "pr_RefCount (pw_Resources S ! i) = 0 \<longleftrightarrow> \<sigma> i = {} \<and> b i = 0" if "i < length (pw_Resources S)" for i
    using rc [OF that] count_word(1) [OF small(2) [of i]] small(1) [of i] by simp
  have new: "ref_ok (switching F) (pw_Resources S ! i) (pw_Resources S' ! i)" if "i \<in> set L" for i
    using e that sub by auto
  have old: "pw_Resources S' ! i = pw_Resources S ! i" if "i \<notin> set L" "i < length (pw_Resources S)" for i
    using e that by auto
  have "pr_RefCount (pw_Resources S' ! i) = of_nat (card (\<tau> i) + b i)" if i: "i < length (pw_Resources S)" for i
  proof (cases "i \<in> set L")
    case True
    with L(2) have "i \<in> J" "u \<notin> \<sigma> i" by auto
    with new [OF True] rc [OF i] small(1) [of i] show ?thesis by (simp add: ref_ok_def \<tau>_def add.commute)
  next
    case False
    with L(2) have "\<tau> i = \<sigma> i" by (auto simp: \<tau>_def)
    with old [OF False i] rc [OF i] show ?thesis by simp
  qed
  moreover have "\<tau> i \<subseteq> U" "\<tau> i \<noteq> {} \<longrightarrow> i < length (pw_Resources S)" for i
    using c U(2) J by (auto simp: \<tau>_def counted_def)
  ultimately show "counted U \<tau> b S'" using len by (simp add: counted_def)
  have up: "powered S \<subseteq> powered S'"
    using new old len unfolding powered_def ref_ok_def by (metis (no_types, lifting) Collect_mono)
  have first: "i \<in> powered S \<union> {r \<in> J. \<sigma> r = {} \<and> b r = 0}" if "i \<in> powered S'" for i
  proof (cases "i \<in> set L")
    case True
    with new [OF True] unused [of i] that L(2) sub show ?thesis by (auto simp: powered_def ref_ok_def)
  next
    case False
    with old [OF False] that len show ?thesis by (auto simp: powered_def)
  qed
  have on: "i \<in> powered S'" if "switching F" "i \<in> J" "\<sigma> i = {}" "b i = 0" for i
  proof -
    have "i \<in> set L" "i < length (pw_Resources S)" using that L(2) J by auto
    with new [of i] unused [of i] that len show ?thesis by (auto simp: powered_def ref_ok_def)
  qed
  show "users_step (switching F) (\<sigma>, b, powered S) (\<tau>, b, powered S')"
    unfolding \<tau>_def by (rule users_step.take) (use up first on in auto)
qed

lemma keep_counted:
  fixes F :: firmware
  assumes U: "few U b" and c: "counted U \<sigma> b S"
    and L: "distinct L" "set L = {i. u \<in> \<sigma> i \<and> i \<notin> J}"
  defines "S' \<equiv> fold (UacpiNtPowerResDereference F) L S" and "\<tau> \<equiv> (\<lambda>r. if r \<in> J then \<sigma> r else \<sigma> r - {u})"
  shows "counted U \<tau> b S'" and "users_step (switching F) (\<sigma>, b, powered S) (\<tau>, b, powered S')" and "pw_Ready S' = pw_Ready S"
    and "length (pw_Resources S') = length (pw_Resources S)"
proof -
  have sub: "set L \<subseteq> {..<length (pw_Resources S)}" using L(2) c by (auto simp: counted_def)
  note e = fold_acts [OF Dereference_acts [of F] L(1) sub, folded S'_def]
  show "pw_Ready S' = pw_Ready S" and len: "length (pw_Resources S') = length (pw_Resources S)"
    using e by simp_all
  note small = few_users [OF U c]
  have old: "pw_Resources S' ! i = pw_Resources S ! i" if "i \<notin> set L" "i < length (pw_Resources S)" for i
    using e that by auto
  have new: "pr_RefCount (pw_Resources S' ! i) = of_nat (card (\<sigma> i - {u}) + b i)"
    "pr_RefCount (pw_Resources S' ! i) = 0 \<longleftrightarrow> \<sigma> i = {u} \<and> b i = 0"
    "deref_ok (switching F) (pw_Resources S ! i) (pw_Resources S' ! i)" if i: "i \<in> set L" for i
  proof -
    show d: "deref_ok (switching F) (pw_Resources S ! i) (pw_Resources S' ! i)" using e i sub by auto
    from i L(2) have u: "u \<in> \<sigma> i" by auto
    have fin: "finite (\<sigma> i)" by (rule small(1))
    have n: "card (\<sigma> i) + b i = Suc (card (\<sigma> i - {u}) + b i)" using card_Suc_Diff1 [OF fin u] by simp
    have rc: "pr_RefCount (pw_Resources S ! i) = of_nat (Suc (card (\<sigma> i - {u}) + b i))"
      using c i sub unfolding n [symmetric] by (auto simp: counted_def)
    have lt: "Suc (card (\<sigma> i - {u}) + b i) < 2 ^ 31" using small(2) [of i] unfolding n .
    have "0 < sint (pr_RefCount (pw_Resources S ! i))" unfolding rc count_word(2) [OF lt] by simp
    with d rc show 1: "pr_RefCount (pw_Resources S' ! i) = of_nat (card (\<sigma> i - {u}) + b i)"
      by (simp add: deref_ok_def)
    have "card (\<sigma> i - {u}) + b i < 2 ^ 31" using lt by simp
    from count_word(1) [OF this] 1 have "pr_RefCount (pw_Resources S' ! i) = 0 \<longleftrightarrow> card (\<sigma> i - {u}) = 0 \<and> b i = 0" by simp
    also have "card (\<sigma> i - {u}) = 0 \<longleftrightarrow> \<sigma> i = {u}" using card_0_eq [OF finite_Diff [OF fin], of "{u}"] u by auto
    finally show "pr_RefCount (pw_Resources S' ! i) = 0 \<longleftrightarrow> \<sigma> i = {u} \<and> b i = 0" .
  qed
  have "pr_RefCount (pw_Resources S' ! i) = of_nat (card (\<tau> i) + b i)" if i: "i < length (pw_Resources S)" for i
  proof (cases "i \<in> set L")
    case True
    with L(2) have "\<tau> i = \<sigma> i - {u}" by (auto simp: \<tau>_def)
    with new(1) [OF True] show ?thesis by simp
  next
    case False
    with L(2) have "\<tau> i = \<sigma> i" by (auto simp: \<tau>_def)
    with old [OF False i] c i show ?thesis by (simp add: counted_def)
  qed
  moreover have "\<tau> i \<subseteq> U" "\<tau> i \<noteq> {} \<longrightarrow> i < length (pw_Resources S)" for i
    using c by (auto simp: \<tau>_def counted_def split: if_splits)
  ultimately show "counted U \<tau> b S'" using len by (simp add: counted_def)
  have down: "i \<in> powered S" if "i \<in> powered S'" for i
    using that new(3) [of i] old [of i] len by (cases "i \<in> set L") (auto simp: powered_def deref_ok_def)
  have last: "\<sigma> i = {u} \<and> b i = 0 \<and> i \<notin> J" if "i \<in> powered S" "i \<notin> powered S'" for i
    using that new(2,3) [of i] old [of i] len L(2) by (cases "i \<in> set L") (auto simp: powered_def deref_ok_def)
  have off: "i \<notin> powered S'" if "switching F" "\<sigma> i = {u}" "b i = 0" "i \<notin> J" for i
  proof -
    have "i \<in> set L" using that L(2) by auto
    with new(2,3) [of i] that show ?thesis by (auto simp: powered_def deref_ok_def)
  qed
  show "users_step (switching F) (\<sigma>, b, powered S) (\<tau>, b, powered S')"
    unfolding \<tau>_def by (rule users_step.keep) (use down last off in auto)
qed

section \<open>The devices\<close>

text \<open>
  All devices together: what each holds for its power state, what it has taken for a new state it is
  being moved to, and what it holds for wake. Steps of different devices interleave: a device may take,
  run its _PSx and give back with steps of others in between. \<open>node p\<close> is the namespace node of
  device \<open>p\<close>, \<open>D\<close> the devices there are. A device that is armed again while it is armed takes its wake
  resources again and forgets the list it had: \<open>sy_Lost\<close> keeps these lists. The count of a resource is a
  LONG, so fewer than 2^30 lists may be forgotten.
\<close>

record power_system =
  sy_Power :: power_state
  sy_Held :: "nat \<Rightarrow> nat list"
  sy_New :: "nat \<Rightarrow> nat list option"
  sy_Wake :: "nat \<Rightarrow> nat list"
  sy_Lost :: "nat list list"

inductive power_step :: "firmware \<Rightarrow> (nat \<Rightarrow> acpi_node option) \<Rightarrow> nat set \<Rightarrow> power_system \<Rightarrow> power_system \<Rightarrow> bool"
  for F :: firmware and node :: "nat \<Rightarrow> acpi_node option" and D :: "nat set"
  where
  acquire: "p \<in> D \<Longrightarrow> sy_New Y p = None \<Longrightarrow> PowerDeviceD0 \<le> st \<Longrightarrow> st \<le> PowerDeviceD3 \<Longrightarrow>
     UacpiNtPowerResAcquireForState F (node p) (sy_Held Y p) st (sy_Power Y) = (L, S) \<Longrightarrow>
     power_step F node D Y (Y\<lparr>sy_Power := S, sy_New := (sy_New Y)(p := Some L)\<rparr>)"
| release: "sy_New Y p = Some L \<Longrightarrow>
     UacpiNtPowerResReleaseDelta F (sy_Held Y p) L (sy_Power Y) = (H, S) \<Longrightarrow>
     power_step F node D Y (Y\<lparr>sy_Power := S, sy_Held := (sy_Held Y)(p := H), sy_New := (sy_New Y)(p := None)\<rparr>)"
| arm: "w \<in> D \<Longrightarrow> sy_Wake Y w = [] \<or> length (sy_Lost Y) < 2 ^ 30 - 1 \<Longrightarrow>
     UacpiNtPowerResAcquireWake F (node w) UACPINT_MAX_POWER_RESOURCES (sy_Power Y) = (L, S) \<Longrightarrow>
     power_step F node D Y (Y\<lparr>sy_Power := S, sy_Wake := (sy_Wake Y)(w := L),
       sy_Lost := (if sy_Wake Y w = [] then sy_Lost Y else sy_Wake Y w # sy_Lost Y)\<rparr>)"
| disarm: "power_step F node D Y
     (Y\<lparr>sy_Power := UacpiNtPowerResReleaseWake F (sy_Wake Y w) (sy_Power Y), sy_Wake := (sy_Wake Y)(w := [])\<rparr>)"
| resume: "power_step F node D Y (Y\<lparr>sy_Power := UacpiNtPowerResResume F (sy_Power Y)\<rparr>)"
| aml: "power_step F node D Y (Y\<lparr>sy_Power := snd (power_eval F c (sy_Power Y))\<rparr>)"

definition users :: "power_system \<Rightarrow> nat \<Rightarrow> user set" where
  "users Y i = {Dev p |p. i \<in> set (sy_Held Y p) \<or> (\<exists>L. sy_New Y p = Some L \<and> i \<in> set L)} \<union>
     {WakeOf w |w. i \<in> set (sy_Wake Y w)}"

definition lost :: "power_system \<Rightarrow> nat \<Rightarrow> nat" where
  "lost Y i = length (filter (\<lambda>L. i \<in> set L) (sy_Lost Y))"

definition usage_of :: "power_system \<Rightarrow> usage" where
  "usage_of Y = (users Y, lost Y, powered (sy_Power Y))"

definition resource_list :: "power_system \<Rightarrow> nat list \<Rightarrow> bool" where
  "resource_list Y L \<longleftrightarrow> distinct L \<and> length L \<le> UACPINT_MAX_POWER_RESOURCES \<and>
     set L \<subseteq> {..<length (pw_Resources (sy_Power Y))}"

definition power_inv :: "nat set \<Rightarrow> power_system \<Rightarrow> bool" where
  "power_inv D Y \<longleftrightarrow>
     finite D \<and> card D \<le> 2 ^ 29 \<and> length (sy_Lost Y) < 2 ^ 30 \<and>
     pw_Ready (sy_Power Y) \<and> counted (Dev ` D \<union> WakeOf ` D) (users Y) (lost Y) (sy_Power Y) \<and>
     (\<forall>p. resource_list Y (sy_Held Y p) \<and> resource_list Y (sy_Wake Y p) \<and>
          (\<forall>L. sy_New Y p = Some L \<longrightarrow> resource_list Y L))"

lemma Resolve_resource_list:
  "pw_Resources (sy_Power Y) = Rs \<Longrightarrow> resource_list Y (UacpiNtPowerResResolve F Rs n os k 8)"
  using Resolve_list [of F Rs n os k 8] by (simp add: resource_list_def)

lemma EvalList_frame:
  assumes "UacpiNtPowerResEvalList F n m 8 S = (L, S')"
  shows "pw_Resources S' = pw_Resources S \<and> pw_Ready S' = pw_Ready S \<and> distinct L \<and> length L \<le> 8 \<and>
    set L \<subseteq> {..<length (pw_Resources S)}"
  using assms Resolve_list(1,2) [where mx = 8] subsetD [OF Resolve_list(3) [where mx = 8]]
  by (auto simp: UacpiNtPowerResEvalList_def power_eval_def uacpi_eval_def Let_def
      split: option.splits if_splits prod.splits)

lemma counted_frame:
  "pw_Resources S' = pw_Resources S \<Longrightarrow> counted U \<sigma> b S' = counted U \<sigma> b S"
  "pw_Resources S' = pw_Resources S \<Longrightarrow> powered S' = powered S"
  by (simp_all add: counted_def powered_def)

lemma resume_frame: "pw_Resources (fold (resume_one F) rs S) = pw_Resources S \<and> pw_Ready (fold (resume_one F) rs S) = pw_Ready S"
  by (induction rs arbitrary: S) (simp_all add: resume_one_def)

lemma few_devices:
  assumes "finite D" and "card D \<le> 2 ^ 29" and "length (sy_Lost Y) < 2 ^ 30"
  shows "few (Dev ` D \<union> WakeOf ` D) (lost Y)"
proof -
  have "card (Dev ` D \<union> WakeOf ` D) \<le> card (Dev ` D) + card (WakeOf ` D)" by (rule card_Un_le)
  also have "\<dots> \<le> card D + card D" using assms(1) by (intro add_mono card_image_le)
  finally have "card (Dev ` D \<union> WakeOf ` D) \<le> 2 ^ 30" using assms(2) by simp
  moreover have "lost Y i < 2 ^ 30" for i
    unfolding lost_def using length_filter_le assms(3) by (rule le_less_trans)
  ultimately show ?thesis using assms(1) by (simp add: few_def)
qed

lemma power_invD:
  assumes "power_inv D Y"
  shows "few (Dev ` D \<union> WakeOf ` D) (lost Y)" "pw_Ready (sy_Power Y)"
    "counted (Dev ` D \<union> WakeOf ` D) (users Y) (lost Y) (sy_Power Y)" "resource_list Y (sy_Held Y p)" "resource_list Y (sy_Wake Y p)"
    "sy_New Y p = Some L \<Longrightarrow> resource_list Y L"
  using assms few_devices [of D Y] by (auto simp: power_inv_def)

text \<open>What a step of one user has to show.\<close>

lemma power_inv_step:
  assumes inv: "power_inv D Y"
    and c: "counted (Dev ` D \<union> WakeOf ` D) (users Y') (lost Y') (sy_Power Y')" and r: "pw_Ready (sy_Power Y') = pw_Ready (sy_Power Y)"
    and len: "length (pw_Resources (sy_Power Y')) = length (pw_Resources (sy_Power Y))" and lo: "length (sy_Lost Y') < 2 ^ 30"
    and L: "\<And>p. sy_Held Y' p = sy_Held Y p \<or> resource_list Y (sy_Held Y' p)"
      "\<And>p. sy_Wake Y' p = sy_Wake Y p \<or> resource_list Y (sy_Wake Y' p)"
      "\<And>p N. sy_New Y' p = Some N \<Longrightarrow> sy_New Y p = Some N \<or> resource_list Y N"
  shows "power_inv D Y'"
proof -
  have "resource_list Y' L = resource_list Y L" for L using len by (simp add: resource_list_def)
  moreover have "resource_list Y (sy_Held Y' p)" "resource_list Y (sy_Wake Y' p)"
    "sy_New Y' p = Some N \<Longrightarrow> resource_list Y N" for p N
    using L(1) [of p] L(2) [of p] L(3) [of p N] power_invD(4-6) [OF inv] by auto
  ultimately show ?thesis using inv c r lo by (simp add: power_inv_def)
qed

lemma acquire_good:
  assumes inv: "power_inv D Y" and p: "p \<in> D" "sy_New Y p = None" and st: "1 \<le> st" "st \<le> 4"
    and run: "UacpiNtPowerResAcquireForState F (node p) (sy_Held Y p) st (sy_Power Y) = (L, S)"
  defines "Y' \<equiv> Y\<lparr>sy_Power := S, sy_New := (sy_New Y)(p := Some L)\<rparr>"
  shows "power_inv D Y' \<and> users_step (switching F) (usage_of Y) (usage_of Y')"
proof -
  note i = power_invD [OF inv]
  obtain S1 where e: "UacpiNtPowerResEvalList F (node p) (''_PR'' @ [digit (st - 1)]) 8 (sy_Power Y) = (L, S1)"
    and S: "S = fold (UacpiNtPowerResReference F) (filter (\<lambda>i. i \<notin> set (sy_Held Y p)) L) S1"
    using run st i(2) by (auto simp: UacpiNtPowerResAcquireForState_def UacpiNtPowerResInList_def split: prod.splits)
  note f = EvalList_frame [OF e]
  have dev: "Dev p \<in> users Y j \<longleftrightarrow> j \<in> set (sy_Held Y p)" for j using p(2) by (auto simp: users_def)
  have us: "users Y' = (\<lambda>r. if r \<in> set L then insert (Dev p) (users Y r) else users Y r)"
    using p(2) by (auto simp: users_def Y'_def fun_eq_iff split: if_splits)
  have lo: "lost Y' = lost Y" by (simp add: lost_def Y'_def fun_eq_iff)
  have c1: "counted (Dev ` D \<union> WakeOf ` D) (users Y) (lost Y) S1" using i(3) f counted_frame(1) by blast
  have Lf: "distinct (filter (\<lambda>i. i \<notin> set (sy_Held Y p)) L)"
    "set (filter (\<lambda>i. i \<notin> set (sy_Held Y p)) L) = {i \<in> set L. Dev p \<notin> users Y i}"
    "set L \<subseteq> {..<length (pw_Resources S1)}" using f dev by auto
  have "Dev p \<in> Dev ` D \<union> WakeOf ` D" using p(1) by simp
  note t = take_counted [OF i(1) this c1 Lf, of F, folded S us]
  have "power_inv D Y'"
    by (rule power_inv_step [OF inv]) (use t f lo inv in \<open>auto simp: Y'_def resource_list_def power_inv_def split: if_splits\<close>)
  moreover have "usage_of Y = (users Y, lost Y, powered S1)" "usage_of Y' = (users Y', lost Y, powered S)"
    using f counted_frame(2) [of S1 "sy_Power Y"] lo by (simp_all add: usage_of_def Y'_def)
  ultimately show ?thesis using t(2) us by simp
qed

lemma release_good:
  assumes inv: "power_inv D Y" and p: "sy_New Y p = Some L"
    and run: "UacpiNtPowerResReleaseDelta F (sy_Held Y p) L (sy_Power Y) = (H, S)"
  defines "Y' \<equiv> Y\<lparr>sy_Power := S, sy_Held := (sy_Held Y)(p := H), sy_New := (sy_New Y)(p := None)\<rparr>"
  shows "power_inv D Y' \<and> users_step (switching F) (usage_of Y) (usage_of Y')"
proof -
  note i = power_invD [OF inv]
  have L: "resource_list Y L" using i(6) [OF p] .
  have H: "H = L" and S: "S = fold (UacpiNtPowerResDereference F) (filter (\<lambda>i. i \<notin> set L) (rev (sy_Held Y p))) (sy_Power Y)"
    using run i(2) L by (auto simp: UacpiNtPowerResReleaseDelta_def UacpiNtPowerResInList_def resource_list_def)
  have us: "users Y' = (\<lambda>r. if r \<in> set L then users Y r else users Y r - {Dev p})"
    using p H by (auto simp: users_def Y'_def fun_eq_iff split: if_splits)
  have lo: "lost Y' = lost Y" by (simp add: lost_def Y'_def fun_eq_iff)
  have Lf: "distinct (filter (\<lambda>i. i \<notin> set L) (rev (sy_Held Y p)))"
    "set (filter (\<lambda>i. i \<notin> set L) (rev (sy_Held Y p))) = {i. Dev p \<in> users Y i \<and> i \<notin> set L}"
    using i(4) [of p] p by (auto simp: users_def resource_list_def)
  note t = keep_counted [OF i(1,3) Lf, of F, folded S us]
  have "power_inv D Y'"
    by (rule power_inv_step [OF inv]) (use t L H lo inv in \<open>auto simp: Y'_def power_inv_def split: if_splits\<close>)
  moreover have "usage_of Y' = (users Y', lost Y, powered S)" using lo by (simp add: usage_of_def Y'_def)
  ultimately show ?thesis using t(2) us by (simp add: usage_of_def [of Y])
qed

lemma AcquireWake_run:
  assumes "UacpiNtPowerResAcquireWake F n 8 S = (L, S')" and "pw_Ready S"
  obtains S1 where "pw_Resources S1 = pw_Resources S" "pw_Ready S1 = pw_Ready S"
    "S' = fold (UacpiNtPowerResReference F) L S1"
    "distinct L" "length L \<le> 8" "set L \<subseteq> {..<length (pw_Resources S)}"
proof -
  note r = Resolve_list [of F "pw_Resources S" _ _ 2 8]
  define S1 where "S1 = (case n of Some m \<Rightarrow> S\<lparr>pw_Log := pw_Log S @ [(m, ''_PRW'', [])]\<rparr> | None \<Rightarrow> S)"
  have "pw_Resources S1 = pw_Resources S" "pw_Ready S1 = pw_Ready S" by (simp_all add: S1_def split: option.split)
  moreover have "S' = fold (UacpiNtPowerResReference F) L S1 \<and> distinct L \<and> length L \<le> 8 \<and>
      set L \<subseteq> {..<length (pw_Resources S)}"
    using assms r(1,2) subsetD [OF r(3)]
    by (auto simp: UacpiNtPowerResAcquireWake_def power_eval_def uacpi_eval_def Let_def S1_def
        split: option.splits if_splits)
  ultimately show thesis using that by blast
qed

text \<open>Forgetting a list: its user is lost once for each resource of it.\<close>

lemma forget_good:
  fixes w
  assumes inv: "power_inv D Y" and w: "sy_Wake Y w = [] \<or> length (sy_Lost Y) < 2 ^ 30 - 1"
  defines "Y' \<equiv> Y\<lparr>sy_Wake := (sy_Wake Y)(w := []), sy_Lost := (if sy_Wake Y w = [] then sy_Lost Y else sy_Wake Y w # sy_Lost Y)\<rparr>"
  shows "power_inv D Y' \<and> users_step ok (usage_of Y) (usage_of Y')"
proof -
  note i = power_invD [OF inv]
  have us: "users Y' = (\<lambda>r. users Y r - {WakeOf w})" by (auto simp: users_def Y'_def fun_eq_iff split: if_splits)
  have mem: "WakeOf w \<in> users Y r \<longleftrightarrow> r \<in> set (sy_Wake Y w)" for r by (auto simp: users_def)
  have lo: "lost Y' = (\<lambda>r. if WakeOf w \<in> users Y r then Suc (lost Y r) else lost Y r)"
    unfolding mem by (auto simp: lost_def Y'_def fun_eq_iff)
  have fin: "finite (users Y r)" for r by (rule few_users(1) [OF i(1,3)])
  have "card (users Y' r) + lost Y' r = card (users Y r) + lost Y r" for r
    using card_Suc_Diff1 [OF fin [of r], of "WakeOf w"] by (simp add: us lo)
  moreover have "users Y' r \<subseteq> users Y r" for r by (auto simp: us)
  ultimately have c: "counted (Dev ` D \<union> WakeOf ` D) (users Y') (lost Y') (sy_Power Y)"
    using i(3) unfolding counted_def by (metis subset_empty subset_trans)
  have "power_inv D Y'"
    by (rule power_inv_step [OF inv]) (use c w inv in \<open>auto simp: Y'_def resource_list_def power_inv_def\<close>)
  moreover have "usage_of Y' = (users Y', lost Y', powered (sy_Power Y))" by (simp add: usage_of_def Y'_def)
  ultimately show ?thesis using users_step.lose by (simp add: us lo usage_of_def [of Y])
qed

lemma arm_unarmed_good:
  assumes inv: "power_inv D Y" and w: "w \<in> D" "sy_Wake Y w = []"
    and run: "UacpiNtPowerResAcquireWake F (node w) 8 (sy_Power Y) = (L, S)"
  defines "Y' \<equiv> Y\<lparr>sy_Power := S, sy_Wake := (sy_Wake Y)(w := L)\<rparr>"
  shows "power_inv D Y' \<and> users_step (switching F) (usage_of Y) (usage_of Y')"
proof -
  note i = power_invD [OF inv]
  obtain S1 where f: "pw_Resources S1 = pw_Resources (sy_Power Y)" "pw_Ready S1 = pw_Ready (sy_Power Y)"
    and S: "S = fold (UacpiNtPowerResReference F) L S1"
    and L: "distinct L" "length L \<le> 8" "set L \<subseteq> {..<length (pw_Resources (sy_Power Y))}"
    using AcquireWake_run [OF run i(2)] .
  have us: "users Y' = (\<lambda>r. if r \<in> set L then insert (WakeOf w) (users Y r) else users Y r)"
    using w(2) by (auto simp: users_def Y'_def fun_eq_iff split: if_splits) (metis empty_iff list.set(1))
  have lo: "lost Y' = lost Y" by (simp add: lost_def Y'_def fun_eq_iff)
  have c1: "counted (Dev ` D \<union> WakeOf ` D) (users Y) (lost Y) S1" using i(3) f counted_frame(1) by blast
  have Lf: "set L = {i \<in> set L. WakeOf w \<notin> users Y i}" using w(2) by (auto simp: users_def)
  have J: "set L \<subseteq> {..<length (pw_Resources S1)}" using L(3) f(1) by simp
  have "WakeOf w \<in> Dev ` D \<union> WakeOf ` D" using w(1) by simp
  note t = take_counted [OF i(1) this c1 L(1) Lf J, of F, folded S us]
  have "power_inv D Y'"
    by (rule power_inv_step [OF inv]) (use t f L lo inv in \<open>auto simp: Y'_def resource_list_def power_inv_def split: if_splits\<close>)
  moreover have "usage_of Y = (users Y, lost Y, powered S1)" "usage_of Y' = (users Y', lost Y, powered S)"
    using f counted_frame(2) [of S1 "sy_Power Y"] lo by (simp_all add: usage_of_def Y'_def)
  ultimately show ?thesis using t(2) us by simp
qed

lemma arm_good:
  assumes inv: "power_inv D Y" and w: "w \<in> D" "sy_Wake Y w = [] \<or> length (sy_Lost Y) < 2 ^ 30 - 1"
    and run: "UacpiNtPowerResAcquireWake F (node w) 8 (sy_Power Y) = (L, S)"
  defines "Y' \<equiv> Y\<lparr>sy_Power := S, sy_Wake := (sy_Wake Y)(w := L),
    sy_Lost := (if sy_Wake Y w = [] then sy_Lost Y else sy_Wake Y w # sy_Lost Y)\<rparr>"
  shows "power_inv D Y'" and "(users_step (switching F))\<^sup>*\<^sup>* (usage_of Y) (usage_of Y')"
proof -
  define Y1 where "Y1 = Y\<lparr>sy_Wake := (sy_Wake Y)(w := []), sy_Lost := (if sy_Wake Y w = [] then sy_Lost Y else sy_Wake Y w # sy_Lost Y)\<rparr>"
  note f = forget_good [OF inv w(2), of "switching F", folded Y1_def]
  have "sy_Wake Y1 w = []" "UacpiNtPowerResAcquireWake F (node w) 8 (sy_Power Y1) = (L, S)" using run by (simp_all add: Y1_def)
  note a = arm_unarmed_good [where node = node, OF conjunct1 [OF f] w(1) this]
  moreover have "Y1\<lparr>sy_Power := S, sy_Wake := (sy_Wake Y1)(w := L)\<rparr> = Y'" by (simp add: Y1_def Y'_def)
  ultimately show "power_inv D Y'" and "(users_step (switching F))\<^sup>*\<^sup>* (usage_of Y) (usage_of Y')"
    using f by (auto intro: converse_rtranclp_into_rtranclp)
qed

lemma disarm_good:
  fixes w and F :: firmware
  assumes inv: "power_inv D Y"
  defines "Y' \<equiv> Y\<lparr>sy_Power := UacpiNtPowerResReleaseWake F (sy_Wake Y w) (sy_Power Y), sy_Wake := (sy_Wake Y)(w := [])\<rparr>"
  shows "power_inv D Y' \<and> users_step (switching F) (usage_of Y) (usage_of Y')"
proof -
  note i = power_invD [OF inv]
  have S: "sy_Power Y' = fold (UacpiNtPowerResDereference F) (rev (sy_Wake Y w)) (sy_Power Y)"
    using i(2) by (simp add: Y'_def UacpiNtPowerResReleaseWake_def)
  have us: "users Y' = (\<lambda>r. if r \<in> {} then users Y r else users Y r - {WakeOf w})"
    by (auto simp: users_def Y'_def fun_eq_iff split: if_splits)
  have lo: "lost Y' = lost Y" by (simp add: lost_def Y'_def fun_eq_iff)
  have Lf: "distinct (rev (sy_Wake Y w))" "set (rev (sy_Wake Y w)) = {i. WakeOf w \<in> users Y i \<and> i \<notin> {}}"
    using i(5) [of w] by (auto simp: users_def resource_list_def)
  note t = keep_counted [OF i(1,3) Lf, of F, folded S us]
  have "power_inv D Y'"
    by (rule power_inv_step [OF inv]) (use t lo inv in \<open>auto simp: Y'_def resource_list_def power_inv_def split: if_splits\<close>)
  with t(2) lo show ?thesis by (simp only: usage_of_def)
qed

lemma idle_good:
  assumes inv: "power_inv D Y" and S: "pw_Resources S = pw_Resources (sy_Power Y)" "pw_Ready S = pw_Ready (sy_Power Y)"
  shows "power_inv D (Y\<lparr>sy_Power := S\<rparr>)" and "usage_of (Y\<lparr>sy_Power := S\<rparr>) = usage_of Y"
proof -
  have us: "users (Y\<lparr>sy_Power := S\<rparr>) = users Y" "lost (Y\<lparr>sy_Power := S\<rparr>) = lost Y" by (simp_all add: users_def lost_def fun_eq_iff)
  show "usage_of (Y\<lparr>sy_Power := S\<rparr>) = usage_of Y" using us counted_frame(2) [OF S(1)] by (simp add: usage_of_def)
  show "power_inv D (Y\<lparr>sy_Power := S\<rparr>)"
    by (rule power_inv_step [OF inv]) (use power_invD(3) [OF inv] us counted_frame(1) [OF S(1)] S inv in \<open>simp_all add: power_inv_def\<close>)
qed

lemma power_step_good:
  assumes inv: "power_inv D Y" and "power_step F node D Y Y'"
  shows "power_inv D Y' \<and> (users_step (switching F))\<^sup>*\<^sup>* (usage_of Y) (usage_of Y')"
  using assms(2)
proof cases
  case (acquire p st L S)
  with acquire_good [OF inv] show ?thesis by blast
next
  case (release p L H S)
  with release_good [OF inv] show ?thesis by blast
next
  case (arm w L S)
  with arm_good [OF inv] show ?thesis by blast
next
  case (disarm w)
  with disarm_good [OF inv, where F = F and w = w] show ?thesis by blast
next
  case resume
  have "pw_Resources (UacpiNtPowerResResume F (sy_Power Y)) = pw_Resources (sy_Power Y)"
    "pw_Ready (UacpiNtPowerResResume F (sy_Power Y)) = pw_Ready (sy_Power Y)"
    using resume_frame by (auto simp: UacpiNtPowerResResume_def)
  with resume idle_good [OF inv] show ?thesis by auto
next
  case (aml c)
  with idle_good [OF inv power_eval_frame] show ?thesis by auto
qed

interpretation power: simulation "power_step F node D" "users_step (switching F)" usage_of "power_inv D" for F node D
proof
  fix Y Y'
  assume a: "power_inv D Y" "power_step F node D Y Y'"
  show "power_inv D Y'" using power_step_good [OF a] by blast
  show "(users_step (switching F))\<^sup>*\<^sup>* (usage_of Y) (usage_of Y')" using power_step_good [OF a] by auto
qed

section \<open>Initial state\<close>

definition unreferenced :: "power_state \<Rightarrow> bool" where
  "unreferenced S \<longleftrightarrow> (\<forall>r \<in> set (pw_Resources S). pr_RefCount r = 0)"

lemma Collect_unreferenced: "unreferenced S \<Longrightarrow> unreferenced (UacpiNtPowerResCollect F pool n S)"
  by (auto simp: UacpiNtPowerResCollect_def unreferenced_def power_eval_def uacpi_eval_def Let_def
      split: option.split fw_object.split prod.split)

lemma Init_unreferenced:
  assumes "\<not> pw_Ready S"
  shows "unreferenced (UacpiNtPowerResInit F pool S)" and "pw_Ready (UacpiNtPowerResInit F pool S)"
proof -
  have "unreferenced (fold (UacpiNtPowerResCollect F pool) ns S')" if "unreferenced S'" for ns S'
    using that by (induction ns arbitrary: S') (simp_all add: Collect_unreferenced)
  moreover have "unreferenced (S\<lparr>pw_Resources := []\<rparr>)" by (simp add: unreferenced_def)
  ultimately have "unreferenced (fold (UacpiNtPowerResCollect F pool) (fw_PowerNodes F) (S\<lparr>pw_Resources := []\<rparr>))"
    by blast
  with assms show "unreferenced (UacpiNtPowerResInit F pool S)" "pw_Ready (UacpiNtPowerResInit F pool S)"
    unfolding UacpiNtPowerResInit_def by (simp_all add: unreferenced_def)
qed

definition power_start :: "firmware \<Rightarrow> (acpi_node \<Rightarrow> bool) \<Rightarrow> power_state \<Rightarrow> power_system" where
  "power_start F pool S = \<lparr>sy_Power = UacpiNtPowerResInit F pool S, sy_Held = \<lambda>_. [], sy_New = \<lambda>_. None, sy_Wake = \<lambda>_. [], sy_Lost = []\<rparr>"

lemma power_start_inv:
  assumes "finite D" and "card D \<le> 2 ^ 29" and "\<not> pw_Ready S"
  shows "power_inv D (power_start F pool S)" and "usage_of (power_start F pool S) = (\<lambda>_. {}, \<lambda>_. 0, powered (UacpiNtPowerResInit F pool S))"
proof -
  have u: "users (power_start F pool S) = (\<lambda>_. {})" "lost (power_start F pool S) = (\<lambda>_. 0)"
    by (simp_all add: users_def lost_def power_start_def fun_eq_iff)
  show "power_inv D (power_start F pool S)"
    using assms(1,2) Init_unreferenced [OF assms(3), of F pool] u
    by (simp add: power_inv_def counted_def resource_list_def unreferenced_def) (simp add: power_start_def)
  show "usage_of (power_start F pool S) = (\<lambda>_. {}, \<lambda>_. 0, powered (UacpiNtPowerResInit F pool S))"
    using u by (simp add: usage_of_def power_start_def)
qed

section \<open>Properties\<close>


text \<open>Two power resources, both found off; device 0 needs the first in D0.\<close>

definition demo_fw :: firmware where
  "demo_fw = \<lparr>fw_Eval = (\<lambda>log (n, m, args).
       if m = [] then Some (Some (OPowerResource 0 (if n = 5 then 2 else 1)))
       else if m = ''_STA'' then Some (Some (OInteger 0))
       else if m = ''_PR0'' then Some (Some (OPackage [ONamepath ''PRA'', OString ''PRB'', ONamepath ''PRA'']))
       else if m = ''_PRW'' then Some (Some (OPackage [OInteger 7, OInteger 3, ONamepath ''PRA'']))
       else Some None),
     fw_Resolve = (\<lambda>n p. if p = ''PRA'' then Some 5 else if p = ''PRB'' then Some 6 else None),
     fw_Child = (\<lambda>n m. True), fw_Root = 0, fw_PowerNodes = [5, 6]\<rparr>"

definition demo_power :: power_state where
  "demo_power = \<lparr>pw_Ready = False, pw_Resources = [], pw_Log = []\<rparr>"

lemma demo_switching: "switching demo_fw"
  by (simp add: switching_def demo_fw_def)

abbreviation demo_node :: "nat \<Rightarrow> acpi_node option" where
  "demo_node \<equiv> (\<lambda>p. Some (10 + p))"

definition demo_acquired :: "nat list \<times> power_state" where
  "demo_acquired = UacpiNtPowerResAcquireForState demo_fw (Some 10) [] PowerDeviceD0 (UacpiNtPowerResInit demo_fw (\<lambda>_. True) demo_power)"

lemma demo_acquired_list: "fst demo_acquired = [1, 0]"
  by code_simp


end
