(* ===== verification/Power_States.thy ===== *)
theory Power_States
  imports Power_Resources
begin

text \<open>
  Device power states and the capability map (sys/power.c): which D state a device enters with which
  power resources, and what it tells the power manager about its D states in each system state and
  about wake.
\<close>

section \<open>Firmware queries\<close>

definition UacpiNtNodeHasChild :: "firmware \<Rightarrow> acpi_node option \<Rightarrow> string \<Rightarrow> bool" where
  "UacpiNtNodeHasChild F Node Name = (case Node of None \<Rightarrow> False | Some n \<Rightarrow> fw_Child F n Name)"

definition UacpiNtPowerEvalMethod :: "firmware \<Rightarrow> acpi_node \<Rightarrow> string \<Rightarrow> power_state \<Rightarrow> bool \<times> power_state" where
  "UacpiNtPowerEvalMethod F Node Name S =
     (let (r, S) = power_eval F (Node, Name, []) S in (r \<noteq> None, S))"

definition UacpiNtSleepStateSupported :: "firmware \<Rightarrow> nat \<Rightarrow> bool" where
  "UacpiNtSleepStateSupported F SleepState \<longleftrightarrow>
     SleepState \<ge> 4 \<or> UacpiNtNodeHasChild F (Some (fw_Root F)) [CHR ''_'', CHR ''S'', digit SleepState, CHR ''_'']"

definition UacpiNtQuerySleepDeviceState ::
    "firmware \<Rightarrow> acpi_node \<Rightarrow> nat \<Rightarrow> fw_call list \<Rightarrow> device_power_state option \<times> fw_call list" where
  "UacpiNtQuerySleepDeviceState F Node SleepState log =
     (let (Value, log) = uacpi_eval_simple_integer F (Node, [CHR ''_'', CHR ''S'', digit SleepState, CHR ''D''], []) log
      in (case Value of
            Some v \<Rightarrow> if v > 3 then None else Some (PowerDeviceD0 + unat v)
          | None \<Rightarrow> None, log))"

record device_caps =
  dc_DeviceState :: "device_power_state list"
  dc_DeviceWake :: device_power_state
  dc_SystemWake :: system_power_state
  dc_DeviceD1 :: bool
  dc_DeviceD2 :: bool
  dc_WakeFromD0 :: bool
  dc_WakeFromD1 :: bool
  dc_WakeFromD2 :: bool
  dc_WakeFromD3 :: bool

definition UacpiNtWakeDeviceState ::
    "firmware \<Rightarrow> acpi_node \<Rightarrow> nat \<Rightarrow> device_caps option \<Rightarrow> fw_call list \<Rightarrow> device_power_state \<times> fw_call list" where
  "UacpiNtWakeDeviceState F Node SleepState Capabilities log =
     (case UacpiNtQuerySleepDeviceState F Node SleepState log of
        (Some DeviceState, log) \<Rightarrow> (DeviceState, log)
      | (None, log) \<Rightarrow>
          (case Capabilities of
             Some caps \<Rightarrow>
               let s = dc_DeviceState caps ! (PowerSystemWorking + SleepState)
               in if PowerDeviceD0 \<le> s \<and> s \<le> PowerDeviceD3 then s else PowerDeviceD3
           | None \<Rightarrow> PowerDeviceD3, log))"

definition UacpiNtEvalPrw :: "firmware \<Rightarrow> acpi_node \<Rightarrow> fw_call list \<Rightarrow> fw_object list option \<times> fw_call list" where
  "UacpiNtEvalPrw F Node log =
     (let (r, log) = uacpi_eval F (Node, ''_PRW'', []) log
      in (case fw_package r of Some os \<Rightarrow> if length os < 2 then None else Some os | None \<Rightarrow> None, log))"

definition UacpiNtPrwSleepState :: "fw_object list \<Rightarrow> nat" where
  "UacpiNtPrwSleepState Package =
     (case Package ! 1 of OInteger Deepest \<Rightarrow> if Deepest < 1 \<or> Deepest > 5 then 0 else unat Deepest | _ \<Rightarrow> 0)"

section \<open>Setting a device's power state\<close>

record power_pdo =
  pd_Node :: "acpi_node option"
  pd_HeldResources :: "nat list"
  pd_CurrentDState :: device_power_state
  pd_DStateKnown :: bool
  pd_CapsMap :: device_caps
  pd_CapsMapDone :: bool

definition UacpiNtPowerSetDeviceState ::
    "firmware \<Rightarrow> power_pdo \<Rightarrow> device_power_state \<Rightarrow> power_state \<Rightarrow> ntstatus \<times> power_pdo \<times> power_state" where
  "UacpiNtPowerSetDeviceState F Pdo DeviceState S =
     (case pd_Node Pdo of
        None \<Rightarrow> (STATUS_SUCCESS, Pdo, S)
      | Some Node \<Rightarrow>
          if DeviceState < PowerDeviceD0 \<or> DeviceState > PowerDeviceD3 then (STATUS_SUCCESS, Pdo, S)
          else
            let (NewList, S) = UacpiNtPowerResAcquireForState F (pd_Node Pdo) (pd_HeldResources Pdo) DeviceState S;
                (ok, S) = UacpiNtPowerEvalMethod F Node (''_PS'' @ [digit (DeviceState - PowerDeviceD0)]) S;
                (Held, S) = UacpiNtPowerResReleaseDelta F (pd_HeldResources Pdo) NewList S
            in (STATUS_SUCCESS,
                Pdo\<lparr>pd_HeldResources := Held, pd_CurrentDState := DeviceState, pd_DStateKnown := True\<rparr>, S))"

section \<open>Capabilities\<close>

definition UacpiNtCopyPowerCaps :: "device_caps \<Rightarrow> device_caps \<Rightarrow> device_caps" where
  "UacpiNtCopyPowerCaps Destination Source =
     Destination\<lparr>dc_DeviceState := dc_DeviceState Source, dc_DeviceWake := dc_DeviceWake Source,
       dc_SystemWake := dc_SystemWake Source, dc_DeviceD1 := dc_DeviceD1 Source, dc_DeviceD2 := dc_DeviceD2 Source,
       dc_WakeFromD0 := dc_WakeFromD0 Source, dc_WakeFromD1 := dc_WakeFromD1 Source,
       dc_WakeFromD2 := dc_WakeFromD2 Source, dc_WakeFromD3 := dc_WakeFromD3 Source\<rparr>"

definition UacpiNtPowerMapWake :: "firmware \<Rightarrow> acpi_node \<Rightarrow> device_caps \<Rightarrow> fw_call list \<Rightarrow> device_caps \<times> fw_call list" where
  "UacpiNtPowerMapWake F Node caps log =
     (case UacpiNtEvalPrw F Node log of
        (None, log) \<Rightarrow> (caps, log)
      | (Some Package, log) \<Rightarrow>
          let SleepState = UacpiNtPrwSleepState Package
          in if SleepState \<noteq> 0 \<and> UacpiNtSleepStateSupported F SleepState
             then
               let caps = caps\<lparr>dc_SystemWake := PowerSystemWorking + SleepState\<rparr>;
                   (DeviceWake, log) = UacpiNtWakeDeviceState F Node SleepState (Some caps) log
               in (caps\<lparr>dc_DeviceWake := DeviceWake, dc_WakeFromD0 := DeviceWake = PowerDeviceD0,
                        dc_WakeFromD1 := DeviceWake = PowerDeviceD1, dc_WakeFromD2 := DeviceWake = PowerDeviceD2,
                        dc_WakeFromD3 := DeviceWake = PowerDeviceD3\<rparr>, log)
             else (caps, log))"

text \<open>One round of the loop over S1 to S4, and the state moved onto one the device has.\<close>

definition existing_state :: "bool \<Rightarrow> bool \<Rightarrow> device_power_state \<Rightarrow> device_power_state" where
  "existing_state HasD1 HasD2 s =
     (let s = (if s = PowerDeviceD1 \<and> \<not> HasD1 then if HasD2 then PowerDeviceD2 else PowerDeviceD3 else s)
      in if s = PowerDeviceD2 \<and> \<not> HasD2 then PowerDeviceD3 else s)"

definition map_sleep ::
    "firmware \<Rightarrow> acpi_node \<Rightarrow> bool \<Rightarrow> bool \<Rightarrow> system_power_state \<Rightarrow> device_caps \<times> fw_call list \<Rightarrow> device_caps \<times> fw_call list" where
  "map_sleep F Node HasD1 HasD2 SystemState X =
     (let (caps, log) = X
      in case UacpiNtQuerySleepDeviceState F Node (SystemState - PowerSystemWorking) log of
           (None, log) \<Rightarrow> (caps, log)
         | (Some s, log) \<Rightarrow>
             (caps\<lparr>dc_DeviceState := (dc_DeviceState caps)[SystemState := existing_state HasD1 HasD2 s]\<rparr>, log))"

definition UacpiNtPowerBuildStateMap ::
    "firmware \<Rightarrow> power_pdo \<Rightarrow> device_caps \<Rightarrow> fw_call list \<Rightarrow> power_pdo \<times> device_caps \<times> fw_call list" where
  "UacpiNtPowerBuildStateMap F Pdo caps log =
     (if pd_CapsMapDone Pdo then (Pdo, UacpiNtCopyPowerCaps caps (pd_CapsMap Pdo), log)
      else
        let caps = caps\<lparr>dc_DeviceState := map (\<lambda>s. if s = PowerSystemWorking then PowerDeviceD0 else PowerDeviceD3)
                          [0..<PowerSystemMaximum],
                        dc_DeviceWake := PowerDeviceUnspecified, dc_SystemWake := PowerSystemUnspecified\<rparr>
        in case pd_Node Pdo of
             None \<Rightarrow> (Pdo, caps, log)
           | Some Node \<Rightarrow>
               let HasD1 = UacpiNtNodeHasChild F (Some Node) ''_PS1'' \<or> UacpiNtNodeHasChild F (Some Node) ''_PR1'';
                   HasD2 = UacpiNtNodeHasChild F (Some Node) ''_PS2'' \<or> UacpiNtNodeHasChild F (Some Node) ''_PR2'';
                   caps = caps\<lparr>dc_DeviceD1 := HasD1, dc_DeviceD2 := HasD2\<rparr>;
                   (caps, log) = fold (map_sleep F Node HasD1 HasD2) [PowerSystemSleeping1..<Suc PowerSystemHibernate] (caps, log);
                   (caps, log) = UacpiNtPowerMapWake F Node caps log
               in (Pdo\<lparr>pd_CapsMap := UacpiNtCopyPowerCaps (pd_CapsMap Pdo) caps, pd_CapsMapDone := True\<rparr>, caps, log))"

definition UacpiNtPowerMergeWakeCaps :: "firmware \<Rightarrow> acpi_node option \<Rightarrow> device_caps \<Rightarrow> fw_call list \<Rightarrow> device_caps \<times> fw_call list" where
  "UacpiNtPowerMergeWakeCaps F Node caps log =
     (case Node of
        None \<Rightarrow> (caps, log)
      | Some n \<Rightarrow>
          (case UacpiNtEvalPrw F n log of
             (None, log) \<Rightarrow> (caps, log)
           | (Some Package, log) \<Rightarrow>
               let SleepState = UacpiNtPrwSleepState Package
               in if SleepState = 0 \<or> \<not> UacpiNtSleepStateSupported F SleepState then (caps, log)
                  else
                    let SystemWake = PowerSystemWorking + SleepState;
                        caps = (if dc_SystemWake caps = PowerSystemUnspecified \<or> dc_SystemWake caps > SystemWake
                                then caps\<lparr>dc_SystemWake := SystemWake\<rparr> else caps);
                        (DeviceWake, log) = UacpiNtWakeDeviceState F n SleepState (Some caps) log;
                        caps = (if dc_DeviceWake caps < DeviceWake then caps\<lparr>dc_DeviceWake := DeviceWake\<rparr> else caps)
                    in (if DeviceWake = PowerDeviceD0 then caps\<lparr>dc_WakeFromD0 := True\<rparr>
                        else if DeviceWake = PowerDeviceD1 then caps\<lparr>dc_WakeFromD1 := True\<rparr>
                        else if DeviceWake = PowerDeviceD2 then caps\<lparr>dc_WakeFromD2 := True\<rparr>
                        else caps\<lparr>dc_WakeFromD3 := True\<rparr>, log)))"

section \<open>Well-formed capabilities\<close>

text \<open>
  Every system state has a D state, D0 in the working state, and D1 and D2 only if the device has
  them; wake is either not reported at all or from a sleep state with a real D state and its bit.
\<close>

definition has_state :: "bool \<Rightarrow> bool \<Rightarrow> device_power_state \<Rightarrow> bool" where
  "has_state HasD1 HasD2 s \<longleftrightarrow> PowerDeviceD0 \<le> s \<and> s \<le> PowerDeviceD3 \<and>
     (s = PowerDeviceD1 \<longrightarrow> HasD1) \<and> (s = PowerDeviceD2 \<longrightarrow> HasD2)"

definition state_map_ok :: "device_caps \<Rightarrow> bool" where
  "state_map_ok c \<longleftrightarrow>
     length (dc_DeviceState c) = PowerSystemMaximum \<and> dc_DeviceState c ! PowerSystemWorking = PowerDeviceD0 \<and>
     (\<forall>s \<in> set (dc_DeviceState c). has_state (dc_DeviceD1 c) (dc_DeviceD2 c) s)"

definition wake_ok :: "device_caps \<Rightarrow> bool" where
  "wake_ok c \<longleftrightarrow>
     dc_SystemWake c = PowerSystemUnspecified \<and> dc_DeviceWake c = PowerDeviceUnspecified \<or>
     PowerSystemSleeping1 \<le> dc_SystemWake c \<and> dc_SystemWake c \<le> PowerSystemShutdown \<and>
     PowerDeviceD0 \<le> dc_DeviceWake c \<and> dc_DeviceWake c \<le> PowerDeviceD3 \<and>
     [dc_WakeFromD0 c, dc_WakeFromD1 c, dc_WakeFromD2 c, dc_WakeFromD3 c] =
       map (\<lambda>s. s = dc_DeviceWake c) [PowerDeviceD0, PowerDeviceD1, PowerDeviceD2, PowerDeviceD3]"

lemma QuerySleep_range:
  assumes "UacpiNtQuerySleepDeviceState F n k log = (Some s, log')"
  shows "1 \<le> s \<and> s \<le> 4"
  using assms by (auto simp: UacpiNtQuerySleepDeviceState_def Let_def word_less_nat_alt split: prod.splits option.splits if_splits)

lemma WakeDeviceState_range:
  assumes "UacpiNtWakeDeviceState F n k c log = (s, log')"
  shows "1 \<le> s \<and> s \<le> 4"
  using assms QuerySleep_range [of F n k log]
  by (auto simp: UacpiNtWakeDeviceState_def Let_def split: prod.splits option.splits if_splits)

lemma existing_state_ok:
  assumes "1 \<le> s \<and> s \<le> 4"
  shows "has_state d1 d2 (existing_state d1 d2 s)"
  using assms by (auto simp: existing_state_def has_state_def Let_def)

lemma map_sleep_ok:
  assumes "map_sleep F n d1 d2 st (c, log) = (c', log')" and "state_map_ok c" and "st \<noteq> 1"
    and "dc_DeviceD1 c = d1" and "dc_DeviceD2 c = d2"
  shows "state_map_ok c' \<and> dc_DeviceD1 c' = d1 \<and> dc_DeviceD2 c' = d2 \<and>
    dc_SystemWake c' = dc_SystemWake c \<and> dc_DeviceWake c' = dc_DeviceWake c"
proof (cases "UacpiNtQuerySleepDeviceState F n (st - 1) log")
  case (Pair r l)
  show ?thesis
  proof (cases r)
    case None
    with Pair assms show ?thesis by (simp add: map_sleep_def)
  next
    case (Some s)
    note e = existing_state_ok [OF QuerySleep_range [OF Pair [unfolded Some]], of d1 d2]
    let ?ds = "(dc_DeviceState c)[st := existing_state d1 d2 s]"
    have c': "c' = c\<lparr>dc_DeviceState := ?ds\<rparr>" using Pair Some assms(1) by (simp add: map_sleep_def)
    have "has_state d1 d2 x" if "x \<in> set ?ds" for x
    proof -
      have "x = existing_state d1 d2 s \<or> x \<in> set (dc_DeviceState c)"
        using subsetD [OF set_update_subset_insert that] by simp
      with e assms(2,4,5) show ?thesis by (auto simp: state_map_ok_def)
    qed
    with assms(2-5) show ?thesis unfolding c' state_map_ok_def by simp
  qed
qed

lemma map_sleeps_ok:
  assumes "fold (map_sleep F n d1 d2) sts (c, log) = (c', log')" and "state_map_ok c" and "1 \<notin> set sts"
    and "dc_DeviceD1 c = d1" and "dc_DeviceD2 c = d2"
  shows "state_map_ok c' \<and> dc_DeviceD1 c' = d1 \<and> dc_DeviceD2 c' = d2 \<and>
    dc_SystemWake c' = dc_SystemWake c \<and> dc_DeviceWake c' = dc_DeviceWake c"
  using assms
proof (induction sts arbitrary: c log)
  case (Cons st sts)
  obtain c1 l1 where 1: "map_sleep F n d1 d2 st (c, log) = (c1, l1)" by fastforce
  from map_sleep_ok [OF 1] Cons.prems have k: "state_map_ok c1" "dc_DeviceD1 c1 = d1" "dc_DeviceD2 c1 = d2"
    "dc_SystemWake c1 = dc_SystemWake c" "dc_DeviceWake c1 = dc_DeviceWake c" by auto
  have "fold (map_sleep F n d1 d2) sts (c1, l1) = (c', log')" using Cons.prems(1) 1 by simp
  from Cons.IH [OF this k(1) _ k(2,3)] Cons.prems(3) k(4,5) show ?case by simp
qed simp

lemma MapWake_ok:
  assumes "UacpiNtPowerMapWake F n c log = (c', log')" and "dc_SystemWake c = 0" and "dc_DeviceWake c = 0"
  shows "wake_ok c' \<and> dc_DeviceState c' = dc_DeviceState c \<and> dc_DeviceD1 c' = dc_DeviceD1 c \<and> dc_DeviceD2 c' = dc_DeviceD2 c"
proof -
  have "UacpiNtPrwSleepState p \<le> 5" for p
    by (auto simp: UacpiNtPrwSleepState_def word_less_nat_alt not_less split: fw_object.split)
  with assms WakeDeviceState_range show ?thesis
    by (fastforce simp: UacpiNtPowerMapWake_def wake_ok_def Let_def split: prod.splits option.splits if_splits)
qed

section \<open>The log of a transition\<close>

text \<open>The calls a reference or a dereference of a resource makes.\<close>

definition on_calls :: "power_resource \<Rightarrow> fw_call list" where
  "on_calls r = (if pr_RefCount r + 1 \<noteq> 1 \<or> pr_On r then [] else [(pr_Node r, ''_ON'', [])])"

definition off_calls :: "power_resource \<Rightarrow> fw_call list" where
  "off_calls r = (if pr_RefCount r \<noteq> 1 \<or> \<not> pr_On r then [] else [(pr_Node r, ''_OFF'', [])])"

lemma Reference_log:
  "pw_Log (UacpiNtPowerResReference F i S) = pw_Log S @ on_calls (pw_Resources S ! i)"
  "j \<noteq> i \<Longrightarrow> pw_Resources (UacpiNtPowerResReference F i S) ! j = pw_Resources S ! j"
  "length (pw_Resources (UacpiNtPowerResReference F i S)) = length (pw_Resources S)"
  "pw_Ready (UacpiNtPowerResReference F i S) = pw_Ready S"
  by (simp_all add: UacpiNtPowerResReference_def on_calls_def Let_def power_eval_def uacpi_eval_def)

lemma Dereference_log:
  "0 < sint (pr_RefCount (pw_Resources S ! i)) \<Longrightarrow>
     pw_Log (UacpiNtPowerResDereference F i S) = pw_Log S @ off_calls (pw_Resources S ! i)"
  "j \<noteq> i \<Longrightarrow> pw_Resources (UacpiNtPowerResDereference F i S) ! j = pw_Resources S ! j"
  "pw_Ready (UacpiNtPowerResDereference F i S) = pw_Ready S"
  by (simp_all add: UacpiNtPowerResDereference_def off_calls_def Let_def power_eval_def uacpi_eval_def)

lemma References_frame:
  assumes "distinct L"
  shows "pw_Log (fold (UacpiNtPowerResReference F) L S) = pw_Log S @ concat (map (\<lambda>i. on_calls (pw_Resources S ! i)) L) \<and>
    (\<forall>j. j \<notin> set L \<longrightarrow> pw_Resources (fold (UacpiNtPowerResReference F) L S) ! j = pw_Resources S ! j) \<and>
    pw_Ready (fold (UacpiNtPowerResReference F) L S) = pw_Ready S"
  using assms
proof (induction L arbitrary: S)
  case (Cons i L)
  let ?S = "UacpiNtPowerResReference F i S"
  have ne: "k \<noteq> i" if "k \<in> set L" for k using that Cons.prems by auto
  have same: "map (\<lambda>k. on_calls (pw_Resources ?S ! k)) L = map (\<lambda>k. on_calls (pw_Resources S ! k)) L"
    by (rule map_cong [OF refl]) (simp add: Reference_log(2) ne)
  from Cons.IH [of ?S] Cons.prems same show ?case
    by (simp add: Reference_log(1,4)) (metis Reference_log(2))
qed simp

lemmas References_log = References_frame [THEN conjunct1] References_frame [THEN conjunct2, THEN conjunct1, rule_format]
  References_frame [THEN conjunct2, THEN conjunct2]

lemma Dereferences_log:
  assumes "distinct L" and "\<forall>i \<in> set L. 0 < sint (pr_RefCount (pw_Resources S ! i))"
  shows "pw_Log (fold (UacpiNtPowerResDereference F) L S) = pw_Log S @ concat (map (\<lambda>i. off_calls (pw_Resources S ! i)) L)"
  using assms
proof (induction L arbitrary: S)
  case (Cons i L)
  let ?S = "UacpiNtPowerResDereference F i S"
  have ne: "k \<noteq> i" if "k \<in> set L" for k using that Cons.prems by auto
  have same: "map (\<lambda>k. off_calls (pw_Resources ?S ! k)) L = map (\<lambda>k. off_calls (pw_Resources S ! k)) L"
    by (rule map_cong [OF refl]) (simp add: Dereference_log(2) ne)
  have "\<forall>k \<in> set L. 0 < sint (pr_RefCount (pw_Resources ?S ! k))"
    using Cons.prems(2) ne by (simp add: Dereference_log(2))
  from Cons.IH [OF _ this] Cons.prems same show ?case by (simp add: Dereference_log(1))
qed simp

section \<open>The resources a method names\<close>

text \<open>The resources the elements of a package name: the first resource of the node a path or string resolves to.\<close>

definition named_resources :: "firmware \<Rightarrow> power_resource list \<Rightarrow> acpi_node \<Rightarrow> fw_object option option \<Rightarrow> nat set" where
  "named_resources F Rs n answer =
     (case answer of
        Some (Some (OPackage objs)) \<Rightarrow>
          {i. i < length Rs \<and> (\<forall>j<i. pr_Node (Rs ! j) \<noteq> pr_Node (Rs ! i)) \<and>
              (\<exists>path. (ONamepath path \<in> set objs \<or> OString path \<in> set objs) \<and> fw_Resolve F n path = Some (pr_Node (Rs ! i)))}
      | _ \<Rightarrow> {})"

lemma ResFind_iff:
  "UacpiNtPowerResFind Rs m = Some i \<longleftrightarrow> i < length Rs \<and> pr_Node (Rs ! i) = m \<and> (\<forall>j<i. pr_Node (Rs ! j) \<noteq> m)"
  by (auto simp: UacpiNtPowerResFind_def find_Some_iff)

lemma resolve_loop_named:
  fixes F :: firmware and Rs :: "power_resource list" and n :: acpi_node
  assumes "length L \<le> mx"
  defines "N \<equiv> (\<lambda>objs. {i. \<exists>ob \<in> set objs. Option.bind (package_target F n ob) (UacpiNtPowerResFind Rs) = Some i})"
  shows "set (resolve_loop F Rs n mx objs L) \<subseteq> set L \<union> N objs \<and>
    (set (resolve_loop F Rs n mx objs L) = set L \<union> N objs \<or> length (resolve_loop F Rs n mx objs L) = mx)"
  using assms(1)
proof (induction objs arbitrary: L)
  case Nil
  then show ?case by (simp add: N_def)
next
  case (Cons ob objs)
  let ?b = "Option.bind (package_target F n ob) (UacpiNtPowerResFind Rs)"
  show ?case
  proof (cases "length L \<ge> mx")
    case True
    with Cons.prems show ?thesis by auto
  next
    case False
    let ?L = "case ?b of None \<Rightarrow> L | Some i \<Rightarrow> if UacpiNtPowerResInList i L then L else L @ [i]"
    have l: "length ?L \<le> mx" "set ?L = set L \<union> {i. ?b = Some i}"
      using False by (auto simp: UacpiNtPowerResInList_def split: option.split)
    have "N (ob # objs) = {i. ?b = Some i} \<union> N objs" by (auto simp: N_def)
    with Cons.IH [OF l(1)] l(2) False show ?thesis by (simp add: Un_assoc)
  qed
qed

lemma named_alt:
  "named_resources F Rs n (Some (Some (OPackage objs))) =
     {i. \<exists>ob \<in> set objs. Option.bind (package_target F n ob) (UacpiNtPowerResFind Rs) = Some i}"
proof -
  have "(\<exists>ob \<in> set objs. Option.bind (package_target F n ob) (UacpiNtPowerResFind Rs) = Some i) \<longleftrightarrow>
      (\<exists>path. (ONamepath path \<in> set objs \<or> OString path \<in> set objs) \<and>
        Option.bind (fw_Resolve F n path) (UacpiNtPowerResFind Rs) = Some i)" for i
  proof
    assume "\<exists>ob \<in> set objs. Option.bind (package_target F n ob) (UacpiNtPowerResFind Rs) = Some i"
    then show "\<exists>path. (ONamepath path \<in> set objs \<or> OString path \<in> set objs) \<and>
        Option.bind (fw_Resolve F n path) (UacpiNtPowerResFind Rs) = Some i"
    proof
      fix ob
      assume "ob \<in> set objs" and "Option.bind (package_target F n ob) (UacpiNtPowerResFind Rs) = Some i"
      then show ?thesis by (cases ob rule: fw_object.exhaust) (auto simp: package_target_def)
    qed
  next
    assume "\<exists>path. (ONamepath path \<in> set objs \<or> OString path \<in> set objs) \<and>
        Option.bind (fw_Resolve F n path) (UacpiNtPowerResFind Rs) = Some i"
    then show "\<exists>ob \<in> set objs. Option.bind (package_target F n ob) (UacpiNtPowerResFind Rs) = Some i"
      by (auto simp: package_target_def intro: bexI [of _ "ONamepath _"] bexI [of _ "OString _"])
  qed
  then show ?thesis by (auto simp: named_resources_def bind_eq_Some_conv ResFind_iff)
qed

lemma EvalList_named:
  fixes F :: firmware and n :: acpi_node and S :: power_state
  assumes "UacpiNtPowerResEvalList F (Some n) m mx S = (L, S')" and "pw_Ready S"
  defines "N \<equiv> named_resources F (pw_Resources S) n (fw_Eval F (pw_Log S) (n, m, []))"
  shows "set L \<subseteq> N \<and> (set L = N \<or> length L = mx)"
proof (cases "fw_package (fw_Eval F (pw_Log S) (n, m, []))")
  case None
  with assms show ?thesis
    by (auto simp: UacpiNtPowerResEvalList_def power_eval_def uacpi_eval_def Let_def named_resources_def fw_package_def
        split: option.splits fw_object.splits)
next
  case (Some objs)
  then have a: "fw_Eval F (pw_Log S) (n, m, []) = Some (Some (OPackage objs))"
    by (auto simp: fw_package_def split: option.splits fw_object.splits)
  have L: "L = sort_key (\<lambda>i. pr_PowerOnOrder (pw_Resources S ! i)) (resolve_loop F (pw_Resources S) n mx objs [])"
    using assms(1,2) a
    by (auto simp: UacpiNtPowerResEvalList_def power_eval_def uacpi_eval_def fw_package_def UacpiNtPowerResResolve_def
        sort_orders_sort_key)
  from resolve_loop_named [where L = "[]" and mx = mx and F = F and n = n and Rs = "pw_Resources S" and objs = objs] show ?thesis
    unfolding L N_def a named_alt by simp
qed

section \<open>Properties\<close>

text \<open>
  C22: moving a device with a node to a state D0 to D3. In this order: its _PRx is read; the resources
  it names that the device does not hold yet and nobody else holds on are switched on, in ascending
  resource order; its _PSx runs; the resources it held, does not need any more and was the last user
  of are switched off, in the reverse of the order they are held in. The device then holds exactly the
  resources its _PRx names, each once and in ascending order (eight of them if it names more, which is
  the size of the list). The power resources have been collected, and the resources held are referenced.
\<close>
theorem SetDeviceState_order:
  assumes "pd_Node Pdo = Some n" and "PowerDeviceD0 \<le> st" and "st \<le> PowerDeviceD3" and "pw_Ready S"
    and "distinct (pd_HeldResources Pdo)"
    and "\<forall>i \<in> set (pd_HeldResources Pdo). 0 < sint (pr_RefCount (pw_Resources S ! i))"
    and "UacpiNtPowerSetDeviceState F Pdo st S = (Status, Pdo', S')"
  defines "r \<equiv> (\<lambda>i. pw_Resources S ! i)" and "Held \<equiv> pd_HeldResources Pdo" and "L \<equiv> pd_HeldResources Pdo'"
  shows "Status = STATUS_SUCCESS \<and> pd_CurrentDState Pdo' = st \<and> pd_DStateKnown Pdo' \<and>
    distinct L \<and> sorted (map (\<lambda>i. pr_PowerOnOrder (r i)) L) \<and>
    (let N = named_resources F (pw_Resources S) n (fw_Eval F (pw_Log S) (n, ''_PR'' @ [digit (st - 1)], []))
     in set L \<subseteq> N \<and> (set L = N \<or> length L = UACPINT_MAX_POWER_RESOURCES)) \<and>
    pw_Log S' = pw_Log S @ [(n, ''_PR'' @ [digit (st - 1)], [])] @
      [(pr_Node (r i), ''_ON'', []). i \<leftarrow> L, i \<notin> set Held \<and> pr_RefCount (r i) = 0 \<and> \<not> pr_On (r i)] @
      [(n, ''_PS'' @ [digit (st - 1)], [])] @
      [(pr_Node (r i), ''_OFF'', []). i \<leftarrow> rev Held, i \<notin> set L \<and> pr_RefCount (r i) = 1 \<and> pr_On (r i)]"
proof -
  let ?R = "pw_Resources S" and ?d = "[digit (st - 1)]"
  obtain N S1 where e: "UacpiNtPowerResEvalList F (Some n) (''_PR'' @ ?d) 8 S = (N, S1)" by fastforce
  note f = EvalList_frame [OF e]
  have log1: "pw_Log S1 = pw_Log S @ [(n, ''_PR'' @ ?d, [])]"
    using e assms(4)
    by (auto simp: UacpiNtPowerResEvalList_def power_eval_def uacpi_eval_def Let_def split: option.splits)
  have srt: "sorted (map (\<lambda>i. pr_PowerOnOrder (?R ! i)) N)"
    using e assms(4) sorted_sort_key
    by (auto simp: UacpiNtPowerResEvalList_def UacpiNtPowerResResolve_def sort_orders_sort_key power_eval_def
        uacpi_eval_def Let_def split: option.splits)
  let ?on = "filter (\<lambda>i. i \<notin> set Held) N" and ?off = "filter (\<lambda>i. i \<notin> set N) (rev Held)"
  define S2 where "S2 = fold (UacpiNtPowerResReference F) ?on S1"
  define S3 where "S3 = S2\<lparr>pw_Log := pw_Log S2 @ [(n, ''_PS'' @ ?d, [])]\<rparr>"
  have don: "distinct ?on" using f by simp
  have res2: "pw_Resources S2 ! j = ?R ! j" if "j \<notin> set ?on" for j
    using References_log(2) [OF don that, of F S1] f by (simp add: S2_def)
  have ready: "pw_Ready S3" using References_log(3) [OF don, of F S1] f assms(4) by (simp add: S3_def S2_def)
  have L: "L = N" "S' = fold (UacpiNtPowerResDereference F) ?off S3"
    "Status = STATUS_SUCCESS" "pd_CurrentDState Pdo' = st" "pd_DStateKnown Pdo'"
    using assms(1-4,7) e ready f
    by (auto simp: UacpiNtPowerSetDeviceState_def UacpiNtPowerResAcquireForState_def UacpiNtPowerResReleaseDelta_def
        UacpiNtPowerResInList_def UacpiNtPowerEvalMethod_def power_eval_def uacpi_eval_def Let_def Held_def L_def
        S3_def S2_def)
  have off: "\<forall>i \<in> set ?off. 0 < sint (pr_RefCount (pw_Resources S3 ! i))" "distinct ?off"
    using assms(5,6) res2 by (auto simp: S3_def Held_def)
  have "pw_Log S' = pw_Log S1 @ concat (map (\<lambda>i. on_calls (?R ! i)) ?on) @ [(n, ''_PS'' @ ?d, [])] @
      concat (map (\<lambda>i. off_calls (pw_Resources S3 ! i)) ?off)"
    using Dereferences_log [OF off(2,1), of F] References_log(1) [OF don, of F S1] f L(2) by (simp add: S3_def S2_def)
  moreover have "map (\<lambda>i. off_calls (pw_Resources S3 ! i)) ?off = map (\<lambda>i. off_calls (?R ! i)) ?off"
    using res2 by (auto simp: S3_def)
  moreover have "concat (map (\<lambda>i. on_calls (?R ! i)) ?on) =
      [(pr_Node (r i), ''_ON'', []). i \<leftarrow> N, i \<notin> set Held \<and> pr_RefCount (r i) = 0 \<and> \<not> pr_On (r i)]"
    by (induction N) (auto simp: on_calls_def r_def)
  moreover have "concat (map (\<lambda>i. off_calls (?R ! i)) (filter (\<lambda>i. i \<notin> set N) xs)) =
      [(pr_Node (r i), ''_OFF'', []). i \<leftarrow> xs, i \<notin> set N \<and> pr_RefCount (r i) = 1 \<and> pr_On (r i)]" for xs
    by (induction xs) (auto simp: off_calls_def r_def)
  ultimately show ?thesis using L f srt log1 EvalList_named [OF e assms(4)] by (simp add: r_def)
qed

definition no_caps :: device_caps where
  "no_caps = \<lparr>dc_DeviceState = [], dc_DeviceWake = 0, dc_SystemWake = 0, dc_DeviceD1 = False, dc_DeviceD2 = False,
     dc_WakeFromD0 = False, dc_WakeFromD1 = False, dc_WakeFromD2 = False, dc_WakeFromD3 = False\<rparr>"

definition demo_pdo :: power_pdo where
  "demo_pdo = \<lparr>pd_Node = Some 10, pd_HeldResources = [], pd_CurrentDState = 0, pd_DStateKnown = False,
     pd_CapsMap = no_caps, pd_CapsMapDone = False\<rparr>"

definition demo_ready :: power_state where
  "demo_ready = UacpiNtPowerResInit demo_fw (\<lambda>_. True) demo_power"

text \<open>Both resources are off: the second, with the lower order, goes on first.\<close>

lemma SetDeviceState_order_witness:
  "\<exists>Pdo' S'. UacpiNtPowerSetDeviceState demo_fw demo_pdo PowerDeviceD0 demo_ready = (STATUS_SUCCESS, Pdo', S') \<and>
    pd_HeldResources Pdo' = [1, 0] \<and>
    pw_Log S' = pw_Log demo_ready @ [(10, ''_PR0'', []), (6, ''_ON'', []), (5, ''_ON'', []), (10, ''_PS0'', [])]"
proof -
  obtain Status Pdo' S' where run: "UacpiNtPowerSetDeviceState demo_fw demo_pdo PowerDeviceD0 demo_ready = (Status, Pdo', S')"
    by (rule prod_cases3)
  have L: "pd_HeldResources (fst (snd (UacpiNtPowerSetDeviceState demo_fw demo_pdo PowerDeviceD0 demo_ready))) = [1, 0]"
    by code_simp
  have pdo: "pd_Node demo_pdo = Some 10" "pd_HeldResources demo_pdo = []" by (simp_all add: demo_pdo_def)
  have r: "pw_Ready demo_ready" "map (\<lambda>r. (pr_Node r, pr_RefCount r, pr_On r)) (pw_Resources demo_ready) = [(5, 0, False), (6, 0, False)]"
    "digit 0 = CHR ''0''" by code_simp+
  from r(2) have r2: "pr_Node (pw_Resources demo_ready ! 0) = 5" "pr_RefCount (pw_Resources demo_ready ! 0) = 0"
    "\<not> pr_On (pw_Resources demo_ready ! 0)" "pr_Node (pw_Resources demo_ready ! 1) = 6"
    "pr_RefCount (pw_Resources demo_ready ! 1) = 0" "\<not> pr_On (pw_Resources demo_ready ! 1)"
    by (auto simp: map_eq_Cons_conv)
  from SetDeviceState_order [OF pdo(1) _ _ r(1) _ _ run] pdo(2) L r(3) r2 run show ?thesis by simp
qed


text \<open>A device whose firmware has _PS1, _PS2, _S3D and a _PRW that wakes from S3.\<close>

definition wake_fw :: firmware where
  "wake_fw = demo_fw\<lparr>fw_Eval := (\<lambda>log (n, m, args).
     if m = ''_S3D'' then Some (Some (OInteger 1)) else fw_Eval demo_fw log (n, m, args))\<rparr>"


text \<open>
  The wake state is not moved onto a state the device has: here _S3D names D1, which the device lacks.
  S3 is mapped to D3 but wake is reported from D1.
\<close>

lemma DeviceWake_missing_state:
  "(\<lambda>(p, c, l). (dc_DeviceState c ! PowerSystemSleeping3, dc_DeviceWake c, dc_DeviceD1 c))
     (UacpiNtPowerBuildStateMap (wake_fw\<lparr>fw_Child := \<lambda>n m. m = ''_S3_''\<rparr>) demo_pdo no_caps []) =
   (PowerDeviceD3, PowerDeviceD1, False)"
  by code_simp

end
