(* ===== verification/Power_Wake.thy ===== *)
theory Power_Wake
  imports Power_States
begin

text \<open>
  Wake arming (sys/power.c): the WAIT_WAKE request a device pends, its cancellation, completion and
  teardown, and the GPE and the power resources that are set up while the device is armed. The
  functions are modelled whole; the step relation at the end splits them where they drop the spin
  lock, so that cancellation, the work item and other requests interleave with them.
\<close>

section \<open>State\<close>

datatype gpe_op = SetupGpe | ClearGpe | EnableGpeForWake | EnableGpe | DisableGpe | DisableGpeForWake

type_synonym gpe_call = "gpe_op \<times> u8"

text \<open>
  \<open>we_Gpe log call\<close> tells whether a GPE call succeeds after the calls of \<open>log\<close>; \<open>we_Win8\<close> is the build
  for Windows 8 and later; \<open>we_Objects\<close> whether the integer arguments can be allocated.
\<close>

record wake_env =
  we_Fw :: firmware
  we_Gpe :: "gpe_call list \<Rightarrow> gpe_call \<Rightarrow> bool"
  we_Win8 :: bool
  we_Objects :: bool

type_synonym irp_id = nat

record wake =
  wk_Node :: "acpi_node option"
  wk_WaitWakeIrp :: "irp_id option"
  wk_GpeLine :: u8
  wk_GpeParsed :: bool
  wk_GpeValid :: bool
  wk_SystemWake :: system_power_state
  wk_DeviceWake :: device_power_state
  wk_RequestedSystemState :: system_power_state
  wk_PswParsed :: bool
  wk_HasDsw :: bool
  wk_HasPsw :: bool
  wk_SetupDone :: bool
  wk_Armed :: bool
  wk_DepthSuspended :: bool
  wk_DisarmQueued :: bool
  wk_WakeResources :: "nat list"

text \<open>The firmware with its power resources, and the GPE calls made.\<close>

record hardware =
  hw_Power :: power_state
  hw_Gpe :: "gpe_call list"

definition gpe_call :: "wake_env \<Rightarrow> gpe_op \<Rightarrow> wake \<Rightarrow> hardware \<Rightarrow> bool \<times> hardware" where
  "gpe_call E op W X =
     (we_Gpe E (hw_Gpe X) (op, wk_GpeLine W), X\<lparr>hw_Gpe := hw_Gpe X @ [(op, wk_GpeLine W)]\<rparr>)"

definition hw_eval :: "wake_env \<Rightarrow> fw_call \<Rightarrow> hardware \<Rightarrow> hardware" where
  "hw_eval E c X = X\<lparr>hw_Power := snd (power_eval (we_Fw E) c (hw_Power X))\<rparr>"

section \<open>_PRW and the wake circuit\<close>

definition UacpiNtWakeInit :: "wake \<Rightarrow> acpi_node option \<Rightarrow> wake" where
  "UacpiNtWakeInit Wake Node =
     Wake\<lparr>wk_Node := Node, wk_SystemWake := PowerSystemUnspecified, wk_DeviceWake := PowerDeviceUnspecified,
          wk_RequestedSystemState := PowerSystemUnspecified\<rparr>"

definition UacpiNtWakeParsePrw :: "wake_env \<Rightarrow> wake \<Rightarrow> hardware \<Rightarrow> bool \<times> wake \<times> hardware" where
  "UacpiNtWakeParsePrw E W X =
     (if wk_GpeParsed W then (wk_GpeValid W, W, X)
      else
        let W = W\<lparr>wk_GpeParsed := True\<rparr>
        in case wk_Node W of
             None \<Rightarrow> (False, W, X)
           | Some n \<Rightarrow>
               let F = we_Fw E; (Prw, log) = UacpiNtEvalPrw F n (pw_Log (hw_Power X))
               in case Prw of
                    None \<Rightarrow> (False, W, X\<lparr>hw_Power := (hw_Power X)\<lparr>pw_Log := log\<rparr>\<rparr>)
                  | Some Package \<Rightarrow>
                      let W = (case Package ! 0 of
                                 OInteger GpeLine \<Rightarrow>
                                   if GpeLine \<le> 0xFF then W\<lparr>wk_GpeLine := ucast GpeLine, wk_GpeValid := True\<rparr> else W
                               | _ \<Rightarrow> W);
                          SleepState = UacpiNtPrwSleepState Package;
                          (W, log) =
                            (if SleepState \<noteq> 0 \<and> UacpiNtSleepStateSupported F SleepState
                             then let (s, log) = UacpiNtWakeDeviceState F n SleepState None log
                                  in (W\<lparr>wk_SystemWake := PowerSystemWorking + SleepState, wk_DeviceWake := s\<rparr>, log)
                             else (W, log))
                      in (wk_GpeValid W, W, X\<lparr>hw_Power := (hw_Power X)\<lparr>pw_Log := log\<rparr>\<rparr>))"

definition UacpiNtWakeHasPrw :: "wake_env \<Rightarrow> wake \<Rightarrow> hardware \<Rightarrow> bool \<times> wake \<times> hardware" where
  "UacpiNtWakeHasPrw E W X = UacpiNtWakeParsePrw E W X"

definition parse_psw :: "wake_env \<Rightarrow> acpi_node \<Rightarrow> wake \<Rightarrow> wake" where
  "parse_psw E n W =
     (if wk_PswParsed W then W
      else
        let dsw = UacpiNtNodeHasChild (we_Fw E) (Some n) ''_DSW''
        in W\<lparr>wk_HasDsw := dsw,
             wk_HasPsw := if dsw then False else UacpiNtNodeHasChild (we_Fw E) (Some n) ''_PSW'',
             wk_PswParsed := True\<rparr>)"

definition UacpiNtWakeSetPsw :: "wake_env \<Rightarrow> bool \<Rightarrow> wake \<Rightarrow> hardware \<Rightarrow> wake \<times> hardware" where
  "UacpiNtWakeSetPsw E Enable W X =
     (case wk_Node W of
        None \<Rightarrow> (W, X)
      | Some n \<Rightarrow>
          let W = parse_psw E n W; en = (if Enable then 1 else 0)
          in if \<not> wk_HasDsw W \<and> \<not> wk_HasPsw W then (W, X)
             else if we_Win8 E \<and> wk_HasDsw W
             then
               let TargetSystem = (if Enable \<and> wk_RequestedSystemState W > PowerSystemWorking
                                   then of_nat (wk_RequestedSystemState W - PowerSystemWorking) else 0);
                   TargetDevice = (if Enable \<and> PowerDeviceD0 \<le> wk_DeviceWake W \<and> wk_DeviceWake W \<le> PowerDeviceD3
                                   then of_nat (wk_DeviceWake W - PowerDeviceD0) else 0)
               in (W, if we_Objects E then hw_eval E (n, ''_DSW'', [en, TargetSystem, TargetDevice]) X else X)
             else (W, if we_Objects E then hw_eval E (n, ''_PSW'', [en]) X else X))"

section \<open>Disarming\<close>

definition UacpiNtWakeReleaseHardware :: "wake_env \<Rightarrow> wake \<Rightarrow> hardware \<Rightarrow> wake \<times> hardware" where
  "UacpiNtWakeReleaseHardware E W X =
     (let (b, X) = gpe_call E DisableGpe W X;
          (b, X) = gpe_call E DisableGpeForWake W X;
          (W, X) = UacpiNtWakeSetPsw E False W X
      in (W\<lparr>wk_WakeResources := []\<rparr>,
          X\<lparr>hw_Power := UacpiNtPowerResReleaseWake (we_Fw E) (wk_WakeResources W) (hw_Power X)\<rparr>))"

definition UacpiNtWakeDisarm :: "wake_env \<Rightarrow> wake \<Rightarrow> hardware \<Rightarrow> wake \<times> hardware" where
  "UacpiNtWakeDisarm E W X =
     (if \<not> wk_Armed W then (W, X) else UacpiNtWakeReleaseHardware E (W\<lparr>wk_Armed := False\<rparr>) X)"

text \<open>The part of the work item under the lock: whether it has to disarm.\<close>

definition worker_lock :: "wake \<Rightarrow> bool \<times> wake" where
  "worker_lock W =
     (let W = W\<lparr>wk_DisarmQueued := False\<rparr>
      in if wk_WaitWakeIrp W = None \<and> wk_Armed W then (True, W\<lparr>wk_Armed := False\<rparr>) else (False, W))"

definition UacpiNtWakeDisarmWorker :: "wake_env \<Rightarrow> wake \<Rightarrow> hardware \<Rightarrow> wake \<times> hardware" where
  "UacpiNtWakeDisarmWorker E W X =
     (let (Disarm, W) = worker_lock W in if \<not> Disarm then (W, X) else UacpiNtWakeReleaseHardware E W X)"

section \<open>Requests\<close>

abbreviation (input) STATUS_PENDING :: ntstatus where "STATUS_PENDING \<equiv> 0x103"
abbreviation (input) STATUS_CANCELLED :: ntstatus where "STATUS_CANCELLED \<equiv> 0xC0000120"
abbreviation (input) STATUS_NO_SUCH_DEVICE :: ntstatus where "STATUS_NO_SUCH_DEVICE \<equiv> 0xC000000E"
abbreviation (input) STATUS_DEVICE_BUSY :: ntstatus where "STATUS_DEVICE_BUSY \<equiv> 0x80000011"
abbreviation (input) STATUS_INVALID_DEVICE_STATE :: ntstatus where "STATUS_INVALID_DEVICE_STATE \<equiv> 0xC0000184"

text \<open>
  An IRP as these functions use it: its Cancel flag, whether the cancel routine is set, and the
  statuses it was completed with.
\<close>

record irp =
  irp_Cancel :: bool
  irp_Routine :: bool
  irp_Done :: "ntstatus list"

text \<open>
  A wake block with everything around it. \<open>wm_Cancelling\<close> are the IRPs whose cancel routine
  IoCancelIrp has taken and is about to call, \<open>wm_Work\<close> the disarm work items queued, \<open>wm_SystemWake\<close>
  the IRPs named as the source of the system wake.
\<close>

record wake_machine =
  wm_Wake :: wake
  wm_Hw :: hardware
  wm_Irps :: "irp_id \<Rightarrow> irp"
  wm_Cancelling :: "irp_id set"
  wm_Work :: nat
  wm_Resuming :: bool
  wm_SourceClaimed :: bool
  wm_SystemWake :: "irp_id list"

definition UacpiNtCompleteIrp :: "irp_id \<Rightarrow> ntstatus \<Rightarrow> wake_machine \<Rightarrow> wake_machine" where
  "UacpiNtCompleteIrp i Status M =
     M\<lparr>wm_Irps := (wm_Irps M)(i := (wm_Irps M i)\<lparr>irp_Done := irp_Done (wm_Irps M i) @ [Status]\<rparr>)\<rparr>"

definition set_routine :: "irp_id \<Rightarrow> bool \<Rightarrow> wake_machine \<Rightarrow> wake_machine" where
  "set_routine i b M = M\<lparr>wm_Irps := (wm_Irps M)(i := (wm_Irps M i)\<lparr>irp_Routine := b\<rparr>)\<rparr>"

definition set_wake :: "wake \<times> hardware \<Rightarrow> wake_machine \<Rightarrow> wake_machine" where
  "set_wake WX M = M\<lparr>wm_Wake := fst WX, wm_Hw := snd WX\<rparr>"

text \<open>IoCancelIrp: mark the IRP and take its cancel routine.\<close>

definition IoCancelIrp :: "irp_id \<Rightarrow> wake_machine \<Rightarrow> wake_machine" where
  "IoCancelIrp i M =
     (let r = wm_Irps M i; M = M\<lparr>wm_Irps := (wm_Irps M)(i := r\<lparr>irp_Cancel := True\<rparr>)\<rparr>
      in if irp_Routine r then (set_routine i False M)\<lparr>wm_Cancelling := insert i (wm_Cancelling M)\<rparr> else M)"

definition UacpiNtWaitWakeCancel :: "irp_id \<Rightarrow> wake_machine \<Rightarrow> wake_machine" where
  "UacpiNtWaitWakeCancel i M =
     (if wk_WaitWakeIrp (wm_Wake M) \<noteq> Some i then M
      else
        let M = UacpiNtCompleteIrp i STATUS_CANCELLED (M\<lparr>wm_Wake := (wm_Wake M)\<lparr>wk_WaitWakeIrp := None\<rparr>\<rparr>)
        in if wk_DisarmQueued (wm_Wake M) then M
           else M\<lparr>wm_Wake := (wm_Wake M)\<lparr>wk_DisarmQueued := True\<rparr>, wm_Work := Suc (wm_Work M)\<rparr>)"

definition UacpiNtWakeClaimIrp :: "wake_machine \<Rightarrow> irp_id option \<times> wake_machine" where
  "UacpiNtWakeClaimIrp M =
     (case wk_WaitWakeIrp (wm_Wake M) of
        None \<Rightarrow> (None, M)
      | Some i \<Rightarrow>
          if irp_Routine (wm_Irps M i)
          then (Some i, set_routine i False (M\<lparr>wm_Wake := (wm_Wake M)\<lparr>wk_WaitWakeIrp := None\<rparr>\<rparr>))
          else (None, M))"

definition wm_disarm :: "wake_env \<Rightarrow> wake_machine \<Rightarrow> wake_machine" where
  "wm_disarm E M = set_wake (UacpiNtWakeDisarm E (wm_Wake M) (wm_Hw M)) M"

definition UacpiNtWakeComplete :: "wake_env \<Rightarrow> wake_machine \<Rightarrow> wake_machine" where
  "UacpiNtWakeComplete E M =
     (case UacpiNtWakeClaimIrp M of
        (None, M) \<Rightarrow> M
      | (Some i, M) \<Rightarrow>
          let M = wm_disarm E M;
              M = (if wm_Resuming M \<and> \<not> wm_SourceClaimed M
                   then M\<lparr>wm_SourceClaimed := True, wm_SystemWake := wm_SystemWake M @ [i]\<rparr> else M)
          in UacpiNtCompleteIrp i STATUS_SUCCESS M)"

definition UacpiNtWakeTeardown :: "wake_env \<Rightarrow> wake_machine \<Rightarrow> wake_machine" where
  "UacpiNtWakeTeardown E M =
     (case UacpiNtWakeClaimIrp M of
        (None, M) \<Rightarrow> wm_disarm E M
      | (Some i, M) \<Rightarrow> wm_disarm E (UacpiNtCompleteIrp i STATUS_NO_SUCH_DEVICE M))"

section \<open>Arming\<close>

text \<open>
  UacpiNtWakeArm in its three parts: up to the test that no request is pending, the hardware, and the
  part under the lock. A part that ends the request gives its status.
\<close>

definition arm_check :: "wake_env \<Rightarrow> system_power_state \<Rightarrow> irp_id \<Rightarrow> wake_machine \<Rightarrow> ntstatus option \<times> wake_machine" where
  "arm_check E Requested i M =
     (let finish = (\<lambda>Status M. (Some Status, UacpiNtCompleteIrp i Status M));
          (ok, WX) = UacpiNtWakeParsePrw E (wm_Wake M) (wm_Hw M); M = set_wake WX M; W = wm_Wake M
      in if \<not> ok then finish STATUS_NOT_SUPPORTED M
         else if wk_SystemWake W \<noteq> PowerSystemUnspecified \<and> Requested > wk_SystemWake W
         then finish STATUS_INVALID_DEVICE_STATE M
         else
           let M = M\<lparr>wm_Wake := W\<lparr>wk_RequestedSystemState := Requested\<rparr>\<rparr>
           in if wk_WaitWakeIrp W \<noteq> None then finish STATUS_DEVICE_BUSY M else (None, M))"

definition arm_hardware :: "wake_env \<Rightarrow> irp_id \<Rightarrow> wake_machine \<Rightarrow> ntstatus option \<times> wake_machine" where
  "arm_hardware E i M =
     (let finish = (\<lambda>X M. (Some STATUS_NOT_SUPPORTED, UacpiNtCompleteIrp i STATUS_NOT_SUPPORTED (M\<lparr>wm_Hw := X\<rparr>)));
          W = wm_Wake M; X = wm_Hw M;
          (ok, X) = (if wk_SetupDone W then (True, X) else gpe_call E SetupGpe W X)
      in if \<not> ok then finish X M
         else
           let W = W\<lparr>wk_SetupDone := True\<rparr>; M = M\<lparr>wm_Wake := W\<rparr>;
               (b, X) = gpe_call E ClearGpe W X;
               (ok, X) = gpe_call E EnableGpeForWake W X
           in if \<not> ok then finish X M
              else
                let (ok, X) = gpe_call E EnableGpe W X
                in if \<not> ok then finish (snd (gpe_call E DisableGpeForWake W X)) M
                   else
                     let (List, S) = UacpiNtPowerResAcquireWake (we_Fw E) (wk_Node W) UACPINT_MAX_POWER_RESOURCES (hw_Power X);
                         W = W\<lparr>wk_Armed := True, wk_WakeResources := List\<rparr>
                     in (None, set_wake (UacpiNtWakeSetPsw E True W (X\<lparr>hw_Power := S\<rparr>)) M))"

definition arm_pend :: "wake_env \<Rightarrow> irp_id \<Rightarrow> wake_machine \<Rightarrow> ntstatus \<times> wake_machine" where
  "arm_pend E i M =
     (if irp_Cancel (wm_Irps M i) \<and> irp_Routine (wm_Irps M i)
      then (STATUS_CANCELLED, UacpiNtCompleteIrp i STATUS_CANCELLED (wm_disarm E (set_routine i False M)))
      else (STATUS_PENDING, M\<lparr>wm_Wake := (wm_Wake M)\<lparr>wk_WaitWakeIrp := Some i\<rparr>\<rparr>))"

definition UacpiNtWakeArm :: "wake_env \<Rightarrow> system_power_state \<Rightarrow> irp_id \<Rightarrow> wake_machine \<Rightarrow> ntstatus \<times> wake_machine" where
  "UacpiNtWakeArm E Requested i M =
     (case arm_check E Requested i M of
        (Some Status, M) \<Rightarrow> (Status, M)
      | (None, M) \<Rightarrow>
          (case arm_hardware E i M of
             (Some Status, M) \<Rightarrow> (Status, M)
           | (None, M) \<Rightarrow> arm_pend E i (set_routine i True M)))"

section \<open>Interleaving\<close>

text \<open>
  Where a request being armed stands: past the test for a pending one, with its hardware set up, or
  inside the lock with its cancel routine set. \<open>am_Started\<close> are the requests ever passed to
  UacpiNtWakeArm and \<open>am_Releasing\<close> the work items between their two parts. While a request is
  inside the lock the other holders of the lock wait; IoCancelIrp does not take it. With \<open>serial\<close>
  the requests for a device arrive one at a time.
\<close>

datatype arm_phase = Checked | Prepared | Locked

record arm_machine =
  am_M :: wake_machine
  am_Arming :: "(irp_id \<times> arm_phase) list"
  am_Started :: "irp_id set"
  am_Releasing :: nat

definition unlocked :: "arm_machine \<Rightarrow> bool" where
  "unlocked A \<longleftrightarrow> Locked \<notin> snd ` set (am_Arming A)"

inductive wake_step :: "wake_env \<Rightarrow> bool \<Rightarrow> arm_machine \<Rightarrow> arm_machine \<Rightarrow> bool"
  for E :: wake_env and serial :: bool
  where
  start: "i \<notin> am_Started A \<Longrightarrow> (serial \<Longrightarrow> am_Arming A = []) \<Longrightarrow> unlocked A \<Longrightarrow>
     arm_check E Requested i (am_M A) = (r, M) \<Longrightarrow>
     wake_step E serial A (A\<lparr>am_M := M, am_Started := insert i (am_Started A),
       am_Arming := (if r = None then (i, Checked) # am_Arming A else am_Arming A)\<rparr>)"
| prepare: "am_Arming A = us @ (i, Checked) # vs \<Longrightarrow> arm_hardware E i (am_M A) = (r, M) \<Longrightarrow>
     wake_step E serial A (A\<lparr>am_M := M, am_Arming := (if r = None then us @ (i, Prepared) # vs else us @ vs)\<rparr>)"
| lock: "am_Arming A = us @ (i, Prepared) # vs \<Longrightarrow> unlocked A \<Longrightarrow>
     wake_step E serial A (A\<lparr>am_M := set_routine i True (am_M A), am_Arming := us @ (i, Locked) # vs\<rparr>)"
| pend: "am_Arming A = us @ (i, Locked) # vs \<Longrightarrow>
     wake_step E serial A (A\<lparr>am_M := snd (arm_pend E i (am_M A)), am_Arming := us @ vs\<rparr>)"
| cancel: "i \<in> am_Started A \<Longrightarrow> wake_step E serial A (A\<lparr>am_M := IoCancelIrp i (am_M A)\<rparr>)"
| cancel_routine: "i \<in> wm_Cancelling (am_M A) \<Longrightarrow> unlocked A \<Longrightarrow>
     wake_step E serial A (A\<lparr>am_M := (UacpiNtWaitWakeCancel i (am_M A))\<lparr>wm_Cancelling := wm_Cancelling (am_M A) - {i}\<rparr>\<rparr>)"
| worker: "wm_Work (am_M A) = Suc k \<Longrightarrow> unlocked A \<Longrightarrow> worker_lock (wm_Wake (am_M A)) = (b, W) \<Longrightarrow>
     wake_step E serial A (A\<lparr>am_M := (am_M A)\<lparr>wm_Wake := W, wm_Work := k\<rparr>,
       am_Releasing := (if b then Suc (am_Releasing A) else am_Releasing A)\<rparr>)"
| worker_release: "am_Releasing A = Suc k \<Longrightarrow>
     wake_step E serial A (A\<lparr>am_M := set_wake (UacpiNtWakeReleaseHardware E (wm_Wake (am_M A)) (wm_Hw (am_M A))) (am_M A),
       am_Releasing := k\<rparr>)"
| complete: "unlocked A \<Longrightarrow> wake_step E serial A (A\<lparr>am_M := UacpiNtWakeComplete E (am_M A)\<rparr>)"
| teardown: "unlocked A \<Longrightarrow> wake_step E serial A (A\<lparr>am_M := UacpiNtWakeTeardown E (am_M A)\<rparr>)"

section \<open>What the functions do to requests\<close>

text \<open>The request a machine has pending.\<close>

abbreviation pending :: "wake_machine \<Rightarrow> irp_id option" where
  "pending M \<equiv> wk_WaitWakeIrp (wm_Wake M)"

lemma ParsePrw_irp: "UacpiNtWakeParsePrw E W X = (b, W', X') \<Longrightarrow> wk_WaitWakeIrp W' = wk_WaitWakeIrp W"
  by (auto simp: UacpiNtWakeParsePrw_def Let_def split: if_splits option.splits prod.splits fw_object.splits)

lemma SetPsw_irp [simp]: "wk_WaitWakeIrp (fst (UacpiNtWakeSetPsw E e W X)) = wk_WaitWakeIrp W"
  by (simp add: UacpiNtWakeSetPsw_def parse_psw_def Let_def split: option.split)

lemma ReleaseHardware_irp [simp]: "wk_WaitWakeIrp (fst (UacpiNtWakeReleaseHardware E W X)) = wk_WaitWakeIrp W"
  by (simp add: UacpiNtWakeReleaseHardware_def Let_def gpe_call_def case_prod_beta)

lemma Disarm_irp [simp]: "wk_WaitWakeIrp (fst (UacpiNtWakeDisarm E W X)) = wk_WaitWakeIrp W"
  by (simp add: UacpiNtWakeDisarm_def)

lemma wm_disarm_frame [simp]:
  "pending (wm_disarm E M) = pending M" "wm_Irps (wm_disarm E M) = wm_Irps M"
  "wm_Cancelling (wm_disarm E M) = wm_Cancelling M"
  by (simp_all add: wm_disarm_def set_wake_def)

lemma Complete_frame [simp]:
  "wm_Wake (UacpiNtCompleteIrp i s M) = wm_Wake M" "wm_Cancelling (UacpiNtCompleteIrp i s M) = wm_Cancelling M"
  "wm_Irps (UacpiNtCompleteIrp i s M) = (wm_Irps M)(i := (wm_Irps M i)\<lparr>irp_Done := irp_Done (wm_Irps M i) @ [s]\<rparr>)"
  by (simp_all add: UacpiNtCompleteIrp_def)

lemma set_routine_frame [simp]:
  "wm_Wake (set_routine i b M) = wm_Wake M" "wm_Cancelling (set_routine i b M) = wm_Cancelling M"
  "wm_Irps (set_routine i b M) = (wm_Irps M)(i := (wm_Irps M i)\<lparr>irp_Routine := b\<rparr>)"
  by (simp_all add: set_routine_def)

lemma arm_check_irp:
  assumes "arm_check E q i M = (r, M')"
  shows "pending M' = pending M \<and> wm_Cancelling M' = wm_Cancelling M \<and> (r = None \<longrightarrow> pending M = None) \<and>
    wm_Irps M' = (case r of None \<Rightarrow> wm_Irps M
      | Some s \<Rightarrow> (wm_Irps M)(i := (wm_Irps M i)\<lparr>irp_Done := irp_Done (wm_Irps M i) @ [s]\<rparr>))"
proof -
  obtain ok W X where p: "UacpiNtWakeParsePrw E (wm_Wake M) (wm_Hw M) = (ok, W, X)" by (rule prod_cases3)
  from ParsePrw_irp [OF p] assms p show ?thesis
    by (auto simp: arm_check_def set_wake_def Let_def split: if_splits)
qed

lemma arm_hardware_irp:
  assumes "arm_hardware E i M = (r, M')"
  shows "pending M' = pending M \<and> wm_Cancelling M' = wm_Cancelling M \<and>
    wm_Irps M' = (case r of None \<Rightarrow> wm_Irps M
      | Some s \<Rightarrow> (wm_Irps M)(i := (wm_Irps M i)\<lparr>irp_Done := irp_Done (wm_Irps M i) @ [s]\<rparr>))"
  using assms
  by (auto simp: arm_hardware_def gpe_call_def set_wake_def Let_def split: if_splits prod.splits)

section \<open>No request is lost\<close>

text \<open>
  The requests outside a set are settled: completed once if they ever started, with no cancel routine
  set or running. A request that holds the block is open, and has its cancel routine either set or
  running unless it is still on its way there.
\<close>

definition settled :: "wake_machine \<Rightarrow> irp_id set \<Rightarrow> irp_id set \<Rightarrow> bool" where
  "settled M St I \<longleftrightarrow>
     (\<forall>j. j \<notin> I \<longrightarrow> \<not> irp_Routine (wm_Irps M j) \<and> j \<notin> wm_Cancelling M \<and>
        (if j \<in> St then length (irp_Done (wm_Irps M j)) = 1 else irp_Done (wm_Irps M j) = []))"

definition cancelable :: "wake_machine \<Rightarrow> irp_id \<Rightarrow> bool" where
  "cancelable M i \<longleftrightarrow> (irp_Routine (wm_Irps M i) \<longleftrightarrow> i \<notin> wm_Cancelling M)"

definition open_irp :: "wake_machine \<Rightarrow> irp_id set \<Rightarrow> irp_id \<Rightarrow> bool" where
  "open_irp M St i \<longleftrightarrow> i \<in> St \<and> irp_Done (wm_Irps M i) = [] \<and> settled M St {i}"

inductive irp_inv :: "arm_machine \<Rightarrow> bool" where
  idle: "am_Arming A = [] \<Longrightarrow> pending (am_M A) = None \<Longrightarrow> settled (am_M A) (am_Started A) {} \<Longrightarrow> irp_inv A"
| waiting: "am_Arming A = [] \<Longrightarrow> pending (am_M A) = Some i \<Longrightarrow> open_irp (am_M A) (am_Started A) i \<Longrightarrow>
    cancelable (am_M A) i \<Longrightarrow> irp_inv A"
| arming: "am_Arming A = [(i, ph)] \<Longrightarrow> ph \<noteq> Locked \<Longrightarrow> pending (am_M A) = None \<Longrightarrow> open_irp (am_M A) (am_Started A) i \<Longrightarrow>
    \<not> irp_Routine (wm_Irps (am_M A) i) \<Longrightarrow> i \<notin> wm_Cancelling (am_M A) \<Longrightarrow> irp_inv A"
| locked: "am_Arming A = [(i, Locked)] \<Longrightarrow> pending (am_M A) = None \<Longrightarrow> open_irp (am_M A) (am_Started A) i \<Longrightarrow>
    cancelable (am_M A) i \<Longrightarrow> irp_inv A"

lemmas irp_defs = settled_def cancelable_def open_irp_def

lemma settledD:
  assumes "settled M St I" and "j \<notin> I"
  shows "\<not> irp_Routine (wm_Irps M j)" "j \<notin> wm_Cancelling M" "if j \<in> St then length (irp_Done (wm_Irps M j)) = 1 else irp_Done (wm_Irps M j) = []"
  using assms by (simp_all add: settled_def)

lemma open_irpD:
  assumes "open_irp M St i"
  shows "i \<in> St" "irp_Done (wm_Irps M i) = []" "settled M St {i}"
  using assms by (simp_all add: open_irp_def)

text \<open>Steps that leave the requests alone.\<close>

lemma irp_inv_frame:
  assumes "irp_inv A" and "am_Arming A' = am_Arming A" and "am_Started A' = am_Started A"
    and "pending (am_M A') = pending (am_M A)" and "wm_Irps (am_M A') = wm_Irps (am_M A)"
    and "wm_Cancelling (am_M A') = wm_Cancelling (am_M A)"
  shows "irp_inv A'"
  using assms(1)
proof cases
  case idle
  with assms show ?thesis by (intro irp_inv.idle) (simp_all add: irp_defs)
next
  case (waiting i)
  with assms show ?thesis by (intro irp_inv.waiting) (simp_all add: irp_defs)
next
  case (arming i ph)
  with assms show ?thesis by (intro irp_inv.arming) (simp_all add: irp_defs)
next
  case (locked i)
  with assms show ?thesis by (intro irp_inv.locked) (simp_all add: irp_defs)
qed

lemma start_inv:
  assumes inv: "irp_inv A" and new: "i \<notin> am_Started A" "am_Arming A = []"
    and run: "arm_check E q i (am_M A) = (r, M)"
  shows "irp_inv (A\<lparr>am_M := M, am_Started := insert i (am_Started A),
       am_Arming := (if r = None then (i, Checked) # am_Arming A else am_Arming A)\<rparr>)" (is "irp_inv ?A")
proof -
  note c = arm_check_irp [OF run]
  show ?thesis
  proof (cases r)
    case None
    with inv c new have "settled (am_M A) (am_Started A) {}" by (auto elim: irp_inv.cases)
    with None c new show ?thesis by (intro irp_inv.arming [of _ i Checked]) (auto simp: irp_defs split: if_splits)
  next
    case (Some s)
    from inv new consider "settled (am_M A) (am_Started A) {}" "pending (am_M A) = None"
      | j where "pending (am_M A) = Some j" "open_irp (am_M A) (am_Started A) j" "cancelable (am_M A) j"
      by (auto elim: irp_inv.cases)
    then show ?thesis
    proof cases
      case 1
      with Some c new show ?thesis by (intro irp_inv.idle) (auto simp: irp_defs split: if_splits)
    next
      case 2
      with Some c new show ?thesis by (intro irp_inv.waiting [of _ j]) (auto simp: irp_defs split: if_splits)
    qed
  qed
qed

lemma prepare_inv:
  assumes inv: "irp_inv A" and ar: "am_Arming A = us @ (i, Checked) # vs" and run: "arm_hardware E i (am_M A) = (r, M)"
  shows "irp_inv (A\<lparr>am_M := M, am_Arming := (if r = None then us @ (i, Prepared) # vs else us @ vs)\<rparr>)"
proof -
  note c = arm_hardware_irp [OF run]
  from inv ar have e: "us = []" "vs = []" and f: "pending (am_M A) = None" "open_irp (am_M A) (am_Started A) i"
    "\<not> irp_Routine (wm_Irps (am_M A) i)" "i \<notin> wm_Cancelling (am_M A)"
    by (auto elim!: irp_inv.cases simp: append_eq_Cons_conv Cons_eq_append_conv)
  show ?thesis
  proof (cases r)
    case None
    with e f c show ?thesis by (intro irp_inv.arming [of _ i Prepared]) (auto simp: irp_defs)
  next
    case (Some s)
    with e f c show ?thesis by (intro irp_inv.idle) (auto simp: irp_defs split: if_splits)
  qed
qed

lemma lock_inv:
  assumes inv: "irp_inv A" and ar: "am_Arming A = us @ (i, Prepared) # vs"
  shows "irp_inv (A\<lparr>am_M := set_routine i True (am_M A), am_Arming := us @ (i, Locked) # vs\<rparr>)"
proof -
  from inv ar have e: "us = []" "vs = []" and f: "pending (am_M A) = None" "open_irp (am_M A) (am_Started A) i"
    "i \<notin> wm_Cancelling (am_M A)"
    by (auto elim!: irp_inv.cases simp: append_eq_Cons_conv Cons_eq_append_conv)
  then show ?thesis by (intro irp_inv.locked [of _ i]) (auto simp: irp_defs)
qed

lemma pend_inv:
  assumes inv: "irp_inv A" and ar: "am_Arming A = us @ (i, Locked) # vs"
  shows "irp_inv (A\<lparr>am_M := snd (arm_pend E i (am_M A)), am_Arming := us @ vs\<rparr>)"
proof -
  from inv ar have e: "us = []" "vs = []" and f: "pending (am_M A) = None" "open_irp (am_M A) (am_Started A) i"
    "cancelable (am_M A) i"
    by (auto elim!: irp_inv.cases simp: append_eq_Cons_conv Cons_eq_append_conv)
  show ?thesis
  proof (cases "irp_Cancel (wm_Irps (am_M A) i) \<and> irp_Routine (wm_Irps (am_M A) i)")
    case True
    with e f show ?thesis by (intro irp_inv.idle) (auto simp: arm_pend_def irp_defs split: if_splits)
  next
    case False
    with e f show ?thesis by (intro irp_inv.waiting [of _ i]) (auto simp: arm_pend_def irp_defs)
  qed
qed

lemma cancel_inv:
  assumes inv: "irp_inv A"
  shows "irp_inv (A\<lparr>am_M := IoCancelIrp i (am_M A)\<rparr>)"
  using inv
proof cases
  case idle
  with settledD(1) have "\<not> irp_Routine (wm_Irps (am_M A) i)" by blast
  with idle show ?thesis by (intro irp_inv.idle) (simp_all add: IoCancelIrp_def settled_def Let_def)
next
  case (waiting j)
  then show ?thesis by (intro irp_inv.waiting [of _ j]) (auto simp: IoCancelIrp_def irp_defs Let_def)
next
  case (arming j ph)
  then show ?thesis by (intro irp_inv.arming [of _ j ph]) (auto simp: IoCancelIrp_def irp_defs Let_def)
next
  case (locked j)
  then show ?thesis by (intro irp_inv.locked [of _ j]) (auto simp: IoCancelIrp_def irp_defs Let_def)
qed

lemma Cancel_frame:
  "pending M = Some i \<Longrightarrow> pending (UacpiNtWaitWakeCancel i M) = None"
  "pending M = Some i \<Longrightarrow> wm_Irps (UacpiNtWaitWakeCancel i M) =
     (wm_Irps M)(i := (wm_Irps M i)\<lparr>irp_Done := irp_Done (wm_Irps M i) @ [STATUS_CANCELLED]\<rparr>)"
  "pending M = Some i \<Longrightarrow> wm_Cancelling (UacpiNtWaitWakeCancel i M) = wm_Cancelling M"
  by (simp_all add: UacpiNtWaitWakeCancel_def Let_def)

lemma cancelling_waits:
  assumes "irp_inv A" and "i \<in> wm_Cancelling (am_M A)" and "unlocked A"
  shows "am_Arming A = [] \<and> pending (am_M A) = Some i \<and> open_irp (am_M A) (am_Started A) i"
  using assms(1)
proof cases
  case idle
  with settledD(2) assms(2) show ?thesis by blast
next
  case (waiting j)
  then have "i = j" using settledD(2) [OF open_irpD(3)] assms(2) by blast
  with waiting show ?thesis by simp
next
  case (arming j ph)
  then have "i = j" using settledD(2) [OF open_irpD(3)] assms(2) by blast
  with arming assms(2) show ?thesis by simp
next
  case (locked j)
  with assms(3) show ?thesis by (simp add: unlocked_def)
qed

lemma cancel_routine_inv:
  assumes inv: "irp_inv A" and c: "i \<in> wm_Cancelling (am_M A)" and u: "unlocked A"
  shows "irp_inv (A\<lparr>am_M := (UacpiNtWaitWakeCancel i (am_M A))\<lparr>wm_Cancelling := wm_Cancelling (am_M A) - {i}\<rparr>\<rparr>)"
proof -
  note w = cancelling_waits [OF inv c u]
  from inv w c have "\<not> irp_Routine (wm_Irps (am_M A) i)" by (auto elim!: irp_inv.cases simp: cancelable_def)
  with w show ?thesis by (intro irp_inv.idle) (auto simp: Cancel_frame irp_defs)
qed

lemma Claim_irp:
  assumes "UacpiNtWakeClaimIrp M = (r, M')"
  shows "case r of
      None \<Rightarrow> M' = M
    | Some i \<Rightarrow> pending M = Some i \<and> irp_Routine (wm_Irps M i) \<and> pending M' = None \<and>
        wm_Irps M' = (wm_Irps M)(i := (wm_Irps M i)\<lparr>irp_Routine := False\<rparr>) \<and> wm_Cancelling M' = wm_Cancelling M"
  using assms by (auto simp: UacpiNtWakeClaimIrp_def split: option.splits if_splits)

text \<open>Completing a claimed request settles it.\<close>

lemma claimed_inv:
  assumes inv: "irp_inv A" and u: "unlocked A" and i: "pending (am_M A) = Some i" "irp_Routine (wm_Irps (am_M A) i)"
    and M: "pending M = None" "wm_Cancelling M = wm_Cancelling (am_M A)"
      "wm_Irps M = (wm_Irps (am_M A))(i := (wm_Irps (am_M A) i)\<lparr>irp_Routine := False,
         irp_Done := irp_Done (wm_Irps (am_M A) i) @ [s]\<rparr>)"
  shows "irp_inv (A\<lparr>am_M := M\<rparr>)"
proof -
  from inv i have "am_Arming A = []" "open_irp (am_M A) (am_Started A) i" "cancelable (am_M A) i"
    by (auto elim!: irp_inv.cases)
  with i M show ?thesis by (intro irp_inv.idle) (auto simp: irp_defs)
qed

lemma complete_inv:
  assumes inv: "irp_inv A" and u: "unlocked A"
  shows "irp_inv (A\<lparr>am_M := UacpiNtWakeComplete E (am_M A)\<rparr>)"
proof -
  obtain r M' where c: "UacpiNtWakeClaimIrp (am_M A) = (r, M')" by fastforce
  note k = Claim_irp [OF c]
  show ?thesis
  proof (cases r)
    case None
    with c k inv show ?thesis by (simp add: UacpiNtWakeComplete_def)
  next
    case (Some i)
    with k have i: "pending (am_M A) = Some i" "irp_Routine (wm_Irps (am_M A) i)" by simp_all
    show ?thesis
      by (rule claimed_inv [OF inv u i, where s = STATUS_SUCCESS])
        (use c k Some in \<open>auto simp: UacpiNtWakeComplete_def Let_def\<close>)
  qed
qed

lemma teardown_inv:
  assumes inv: "irp_inv A" and u: "unlocked A"
  shows "irp_inv (A\<lparr>am_M := UacpiNtWakeTeardown E (am_M A)\<rparr>)"
proof -
  obtain r M' where c: "UacpiNtWakeClaimIrp (am_M A) = (r, M')" by fastforce
  note k = Claim_irp [OF c]
  show ?thesis
  proof (cases r)
    case None
    with c k show ?thesis by (intro irp_inv_frame [OF inv]) (simp_all add: UacpiNtWakeTeardown_def)
  next
    case (Some i)
    with k have i: "pending (am_M A) = Some i" "irp_Routine (wm_Irps (am_M A) i)" by simp_all
    show ?thesis
      by (rule claimed_inv [OF inv u i, where s = STATUS_NO_SUCH_DEVICE])
        (use c k Some in \<open>auto simp: UacpiNtWakeTeardown_def\<close>)
  qed
qed

lemma wake_step_inv:
  assumes "wake_step E True A A'" and inv: "irp_inv A"
  shows "irp_inv A'"
  using assms(1)
proof cases
  case (start i q r M)
  with start_inv [OF inv] show ?thesis by simp
next
  case (prepare us i vs r M)
  with prepare_inv [OF inv] show ?thesis by blast
next
  case (lock us i vs)
  with lock_inv [OF inv] show ?thesis by blast
next
  case (pend us i vs)
  with pend_inv [OF inv] show ?thesis by blast
next
  case (cancel i)
  with cancel_inv [OF inv] show ?thesis by blast
next
  case (cancel_routine i)
  with cancel_routine_inv [OF inv] show ?thesis by blast
next
  case (worker k b W)
  then have "wk_WaitWakeIrp W = pending (am_M A)" by (auto simp: worker_lock_def Let_def split: if_splits)
  with worker show ?thesis by (intro irp_inv_frame [OF inv]) simp_all
next
  case (worker_release k)
  then show ?thesis by (intro irp_inv_frame [OF inv]) (simp_all add: set_wake_def)
next
  case complete
  with complete_inv [OF inv] show ?thesis by blast
next
  case teardown
  with teardown_inv [OF inv] show ?thesis by blast
qed

lemma wake_steps_inv:
  assumes "(wake_step E True)\<^sup>*\<^sup>* A A'" and "irp_inv A"
  shows "irp_inv A'"
  using assms by (induction rule: rtranclp_induct) (auto intro: wake_step_inv)

section \<open>Every request can be completed\<close>

definition completes :: "wake_env \<Rightarrow> irp_id \<Rightarrow> arm_machine \<Rightarrow> bool" where
  "completes E i A \<longleftrightarrow> (\<exists>A'. (wake_step E True)\<^sup>*\<^sup>* A A' \<and> length (irp_Done (wm_Irps (am_M A') i)) = 1)"

lemma completes_step: "wake_step E True A A' \<Longrightarrow> completes E i A' \<Longrightarrow> completes E i A"
  unfolding completes_def by (meson converse_rtranclp_into_rtranclp)

lemma completes_done: "length (irp_Done (wm_Irps (am_M A) i)) = 1 \<Longrightarrow> completes E i A"
  unfolding completes_def by blast

lemma waiting_completes:
  assumes ar: "am_Arming A = []" and p: "pending (am_M A) = Some i" and o: "open_irp (am_M A) (am_Started A) i"
    and c: "cancelable (am_M A) i"
  shows "completes E i A"
proof -
  have u: "unlocked A" using ar by (simp add: unlocked_def)
  note d = open_irpD(2) [OF o]
  show ?thesis
  proof (cases "i \<in> wm_Cancelling (am_M A)")
    case True
    show ?thesis
      by (rule completes_step [OF wake_step.cancel_routine [OF True u]], rule completes_done)
        (use p d in \<open>simp add: Cancel_frame\<close>)
  next
    case False
    with c have r: "irp_Routine (wm_Irps (am_M A) i)" by (simp add: cancelable_def)
    show ?thesis
      by (rule completes_step [OF wake_step.complete [OF u]], rule completes_done)
        (use p d r in \<open>simp add: UacpiNtWakeComplete_def UacpiNtWakeClaimIrp_def Let_def\<close>)
  qed
qed

lemma locked_completes:
  assumes inv: "irp_inv A" and ar: "am_Arming A = [(i, Locked)]"
  shows "completes E i A"
proof -
  from inv ar have f: "pending (am_M A) = None" "open_irp (am_M A) (am_Started A) i" "cancelable (am_M A) i"
    by (auto elim!: irp_inv.cases)
  let ?A = "A\<lparr>am_M := snd (arm_pend E i (am_M A)), am_Arming := [] @ []\<rparr>"
  have st: "wake_step E True A ?A" using ar by (intro wake_step.pend) simp
  show ?thesis
  proof (cases "irp_Cancel (wm_Irps (am_M A) i) \<and> irp_Routine (wm_Irps (am_M A) i)")
    case True
    show ?thesis
      by (rule completes_step [OF st], rule completes_done) (use True open_irpD(2) [OF f(2)] in \<open>simp add: arm_pend_def\<close>)
  next
    case False
    show ?thesis
      by (rule completes_step [OF st], rule waiting_completes) (use False f in \<open>auto simp: arm_pend_def irp_defs\<close>)
  qed
qed

lemma prepared_completes:
  assumes inv: "irp_inv A" and ar: "am_Arming A = [(i, Prepared)]"
  shows "completes E i A"
proof -
  let ?A = "A\<lparr>am_M := set_routine i True (am_M A), am_Arming := [] @ (i, Locked) # []\<rparr>"
  have st: "wake_step E True A ?A" using ar by (intro wake_step.lock) (simp_all add: unlocked_def)
  show ?thesis by (rule completes_step [OF st], rule locked_completes [OF wake_step_inv [OF st inv]]) simp
qed

lemma checked_completes:
  assumes inv: "irp_inv A" and ar: "am_Arming A = [(i, Checked)]"
  shows "completes E i A"
proof -
  from inv ar have o: "irp_Done (wm_Irps (am_M A) i) = []" by (auto elim!: irp_inv.cases dest: open_irpD(2))
  obtain r M where h: "arm_hardware E i (am_M A) = (r, M)" by fastforce
  let ?A = "A\<lparr>am_M := M, am_Arming := if r = None then [] @ (i, Prepared) # [] else [] @ []\<rparr>"
  have st: "wake_step E True A ?A" using ar h by (intro wake_step.prepare) simp_all
  show ?thesis
  proof (cases r)
    case None
    show ?thesis
      by (rule completes_step [OF st], rule prepared_completes [OF wake_step_inv [OF st inv]]) (simp add: None)
  next
    case (Some s)
    show ?thesis
      by (rule completes_step [OF st], rule completes_done) (use Some arm_hardware_irp [OF h] o in simp)
  qed
qed

lemma started_completes:
  assumes inv: "irp_inv A" and s: "i \<in> am_Started A"
  shows "completes E i A"
proof -
  have other: ?thesis if "settled (am_M A) (am_Started A) I" "i \<notin> I" for I
    using settledD(3) [OF that] s by (intro completes_done) simp
  from inv show ?thesis
  proof cases
    case idle
    with other show ?thesis by blast
  next
    case (waiting j)
    with other [OF open_irpD(3)] waiting_completes show ?thesis by (cases "i = j") auto
  next
    case (arming j ph)
    with other [OF open_irpD(3)] checked_completes [OF inv] prepared_completes [OF inv] show ?thesis
      by (cases "i = j"; cases ph) auto
  next
    case (locked j)
    with other [OF open_irpD(3)] locked_completes [OF inv] show ?thesis by (cases "i = j") auto
  qed
qed

section \<open>Properties\<close>

text \<open>A block no request has reached yet.\<close>

definition wake_idle :: "arm_machine \<Rightarrow> bool" where
  "wake_idle A \<longleftrightarrow> am_Arming A = [] \<and> am_Started A = {} \<and> pending (am_M A) = None \<and>
     wm_Cancelling (am_M A) = {} \<and>
     (\<forall>i. \<not> irp_Routine (wm_Irps (am_M A) i) \<and> irp_Done (wm_Irps (am_M A) i) = [])"

lemma wake_idle_inv: "wake_idle A \<Longrightarrow> irp_inv A"
  by (intro irp_inv.idle) (auto simp: wake_idle_def irp_defs)


text \<open>
  A block for node 10, whose _PRW names GPE 7 and wake from S3 and one power resource, on firmware and
  GPEs that always succeed.
\<close>

definition demo_wake_env :: wake_env where
  "demo_wake_env = \<lparr>we_Fw = demo_fw, we_Gpe = (\<lambda>log c. True), we_Win8 = True, we_Objects = True\<rparr>"

definition demo_wake :: wake where
  "demo_wake = \<lparr>wk_Node = Some 10, wk_WaitWakeIrp = None, wk_GpeLine = 0, wk_GpeParsed = False, wk_GpeValid = False,
     wk_SystemWake = 0, wk_DeviceWake = 0, wk_RequestedSystemState = 0, wk_PswParsed = False, wk_HasDsw = False,
     wk_HasPsw = False, wk_SetupDone = False, wk_Armed = False, wk_DepthSuspended = False, wk_DisarmQueued = False,
     wk_WakeResources = []\<rparr>"

definition demo_machine :: wake_machine where
  "demo_machine = \<lparr>wm_Wake = demo_wake, wm_Hw = \<lparr>hw_Power = demo_ready, hw_Gpe = []\<rparr>,
     wm_Irps = (\<lambda>i. \<lparr>irp_Cancel = False, irp_Routine = False, irp_Done = []\<rparr>), wm_Cancelling = {}, wm_Work = 0,
     wm_Resuming = False, wm_SourceClaimed = False, wm_SystemWake = []\<rparr>"

definition demo_arm :: arm_machine where
  "demo_arm = \<lparr>am_M = demo_machine, am_Arming = [], am_Started = {}, am_Releasing = 0\<rparr>"

lemma demo_idle: "wake_idle demo_arm"
  by (simp add: wake_idle_def demo_arm_def demo_machine_def demo_wake_def)

text \<open>The first request passes the test.\<close>

definition demo_checked :: arm_machine where
  "demo_checked = \<lparr>am_M = snd (arm_check demo_wake_env PowerSystemSleeping3 1 demo_machine), am_Arming = [(1, Checked)],
     am_Started = {1}, am_Releasing = 0\<rparr>"

lemma demo_start: "wake_step demo_wake_env serial demo_arm demo_checked"
proof -
  have c: "fst (arm_check demo_wake_env PowerSystemSleeping3 1 demo_machine) = None" by code_simp
  have "arm_check demo_wake_env PowerSystemSleeping3 1 (am_M demo_arm) =
      (None, snd (arm_check demo_wake_env PowerSystemSleeping3 1 demo_machine))"
    using c by (simp add: demo_arm_def prod_eq_iff)
  from wake_step.start [OF _ _ _ this, of serial] show ?thesis
    by (simp add: demo_arm_def demo_checked_def unlocked_def)
qed





end
