(* ===== verification/Power_Sleep.thy ===== *)
theory Power_Sleep
  imports Power_Wake
begin

text \<open>
  System sleep (sys/sleep.c, and the passes of sys/power.c over all wake blocks): what the driver does
  before the HAL puts the machine to sleep and when it is back, and which devices may wake it from the
  state it enters.
\<close>

section \<open>State\<close>

abbreviation (input) UACPINT_WAKE_SNAPSHOT_MAX :: nat where "UACPINT_WAKE_SNAPSHOT_MAX \<equiv> 64"

text \<open>The uACPI and HAL calls of a transition, in order; the passes over the wake blocks log their GPE calls.\<close>

datatype sleep_call =
  PrepareForSleepState nat | WakeFromSleepState nat | ClearWakSts | DisableAllGpes | ClearAllEvents |
  EnableAllWakeGpes | RefreshWakeCache | WaitForWorkCompletion | IrqLinksResume

text \<open>
  \<open>sl_Wakes\<close> are the wake blocks of the children and then of the filters of the root FDO, none without
  one; \<open>sl_Pending\<close> is UacpiNtPendingSleepState, 0 for S0.
\<close>

record sleep_state =
  sl_Wakes :: "wake list"
  sl_Hw :: hardware
  sl_Pending :: nat
  sl_Resuming :: bool
  sl_SourceClaimed :: bool
  sl_Calls :: "sleep_call list"

definition call :: "sleep_call \<Rightarrow> sleep_state \<Rightarrow> sleep_state" where
  "call c S = S\<lparr>sl_Calls := sl_Calls S @ [c]\<rparr>"

section \<open>Passes over the wake blocks\<close>

text \<open>The blocks a pass works on, by position.\<close>

definition active :: "wake \<Rightarrow> bool" where
  "active w \<longleftrightarrow> (wk_Armed w \<or> wk_DepthSuspended w) \<and> wk_Node w \<noteq> None"

definition UacpiNtWakeSnapshotActive :: "nat \<Rightarrow> wake list \<Rightarrow> nat list" where
  "UacpiNtWakeSnapshotActive MaxCount Wakes = take MaxCount (filter (\<lambda>i. active (Wakes ! i)) [0..<length Wakes])"

text \<open>Apply a step on a block and the hardware to the blocks of a list.\<close>

definition at_block :: "(wake \<Rightarrow> hardware \<Rightarrow> wake \<times> hardware) \<Rightarrow> nat \<Rightarrow> sleep_state \<Rightarrow> sleep_state" where
  "at_block f i S =
     (let (w, X) = f (sl_Wakes S ! i) (sl_Hw S) in S\<lparr>sl_Wakes := (sl_Wakes S)[i := w], sl_Hw := X\<rparr>)"

definition suspend_one :: "wake_env \<Rightarrow> system_power_state \<Rightarrow> wake \<Rightarrow> hardware \<Rightarrow> wake \<times> hardware" where
  "suspend_one E Target w X =
     (if \<not> wk_Armed w \<or> wk_DepthSuspended w then (w, X)
      else if wk_RequestedSystemState w = PowerSystemUnspecified \<or> wk_RequestedSystemState w \<ge> Target then (w, X)
      else (w\<lparr>wk_DepthSuspended := True\<rparr>, snd (gpe_call E DisableGpeForWake w X)))"

definition UacpiNtWakeSuspendShallow :: "wake_env \<Rightarrow> system_power_state \<Rightarrow> sleep_state \<Rightarrow> sleep_state" where
  "UacpiNtWakeSuspendShallow E Target S =
     fold (at_block (suspend_one E Target)) (UacpiNtWakeSnapshotActive UACPINT_WAKE_SNAPSHOT_MAX (sl_Wakes S)) S"

definition restore_one :: "wake_env \<Rightarrow> wake \<Rightarrow> hardware \<Rightarrow> wake \<times> hardware" where
  "restore_one E w X =
     (if \<not> wk_DepthSuspended w then (w, X)
      else (w\<lparr>wk_DepthSuspended := False\<rparr>, snd (gpe_call E EnableGpeForWake w X)))"

definition UacpiNtWakeRestoreSuspended :: "wake_env \<Rightarrow> sleep_state \<Rightarrow> sleep_state" where
  "UacpiNtWakeRestoreSuspended E S =
     fold (at_block (restore_one E)) (UacpiNtWakeSnapshotActive UACPINT_WAKE_SNAPSHOT_MAX (sl_Wakes S)) S"

definition rearm_one :: "wake_env \<Rightarrow> wake \<Rightarrow> hardware \<Rightarrow> wake \<times> hardware" where
  "rearm_one E w X = (if \<not> wk_Armed w then (w, X) else UacpiNtWakeSetPsw E True w X)"

definition UacpiNtWakeReArmAfterHibernate :: "wake_env \<Rightarrow> sleep_state \<Rightarrow> sleep_state" where
  "UacpiNtWakeReArmAfterHibernate E S =
     fold (at_block (rearm_one E)) (UacpiNtWakeSnapshotActive UACPINT_WAKE_SNAPSHOT_MAX (sl_Wakes S)) S"

section \<open>Sleep and resume\<close>

definition UacpiNtSleepStateFromSystem :: "system_power_state \<Rightarrow> nat" where
  "UacpiNtSleepStateFromSystem SystemState =
     (if SystemState = PowerSystemSleeping1 then 1
      else if SystemState = PowerSystemSleeping2 then 2
      else if SystemState = PowerSystemSleeping3 then 3
      else if SystemState = PowerSystemHibernate then 4
      else if SystemState = PowerSystemShutdown then 5 else 0)"

definition UacpiNtResumeFromSleep :: "wake_env \<Rightarrow> sleep_state \<Rightarrow> sleep_state" where
  "UacpiNtResumeFromSleep E S =
     (let WokeFrom = sl_Pending S;
          S = (call (WakeFromSleepState WokeFrom) S)\<lparr>sl_Pending := 0\<rparr>;
          S = S\<lparr>sl_Hw := (sl_Hw S)\<lparr>hw_Power := UacpiNtPowerResResume (we_Fw E) (hw_Power (sl_Hw S))\<rparr>\<rparr>;
          S = UacpiNtWakeRestoreSuspended E S;
          S = (if WokeFrom = 4 then UacpiNtWakeReArmAfterHibernate E S else S)
      in call IrqLinksResume S)"

definition UacpiNtPrepareForSleep :: "wake_env \<Rightarrow> system_power_state \<Rightarrow> sleep_state \<Rightarrow> sleep_state" where
  "UacpiNtPrepareForSleep E SystemState S =
     (let Target = UacpiNtSleepStateFromSystem SystemState;
          S = call (PrepareForSleepState Target) S;
          S = (if Target = 5 then call DisableAllGpes S
               else
                 let S = call ClearAllEvents (call DisableAllGpes (call ClearWakSts S));
                     S = UacpiNtWakeSuspendShallow E SystemState S
                 in (call EnableAllWakeGpes S)\<lparr>sl_Pending := Target, sl_SourceClaimed := False, sl_Resuming := True\<rparr>)
      in call WaitForWorkCompletion (call RefreshWakeCache S))"

text \<open>\<open>Ready\<close> is the InterpreterReady of the FDO; PoCallDriver passes the IRP on afterwards.\<close>

definition UacpiNtSystemSetPower :: "wake_env \<Rightarrow> bool \<Rightarrow> system_power_state \<Rightarrow> sleep_state \<Rightarrow> sleep_state" where
  "UacpiNtSystemSetPower E Ready SystemState S =
     (if \<not> Ready then S
      else if SystemState = PowerSystemWorking
      then (if sl_Pending S \<noteq> 0 then UacpiNtResumeFromSleep E S else S)\<lparr>sl_Resuming := False\<rparr>
      else if SystemState > PowerSystemWorking then UacpiNtPrepareForSleep E SystemState S
      else S)"

section \<open>Power IRPs of a PDO\<close>

text \<open>The power IRPs by minor function, with the part of their parameters the PDO reads.\<close>

datatype power_irp =
  IRP_MN_WAIT_WAKE system_power_state | IRP_MN_SET_POWER_Device device_power_state | IRP_MN_SET_POWER_System |
  IRP_MN_QUERY_POWER | IRP_MN_Other

text \<open>\<open>Current\<close> is the status the IRP carries; the result is the status it completes with, or pending.\<close>

definition UacpiNtPdoSetPower ::
    "wake_env \<Rightarrow> power_irp \<Rightarrow> irp_id \<Rightarrow> ntstatus \<Rightarrow> power_pdo \<times> wake_machine \<Rightarrow> ntstatus \<times> power_pdo \<times> wake_machine" where
  "UacpiNtPdoSetPower E minor i Current X =
     (let (Pdo, M) = X
      in case minor of
           IRP_MN_WAIT_WAKE Requested \<Rightarrow> let (Status, M) = UacpiNtWakeArm E Requested i M in (Status, Pdo, M)
         | IRP_MN_SET_POWER_Device st \<Rightarrow>
             let (Status, Pdo, S) = UacpiNtPowerSetDeviceState (we_Fw E) Pdo st (hw_Power (wm_Hw M))
             in (Status, Pdo, UacpiNtCompleteIrp i Status (M\<lparr>wm_Hw := (wm_Hw M)\<lparr>hw_Power := S\<rparr>\<rparr>))
         | IRP_MN_SET_POWER_System \<Rightarrow> (STATUS_SUCCESS, Pdo, UacpiNtCompleteIrp i STATUS_SUCCESS M)
         | IRP_MN_QUERY_POWER \<Rightarrow> (STATUS_SUCCESS, Pdo, UacpiNtCompleteIrp i STATUS_SUCCESS M)
         | IRP_MN_Other \<Rightarrow> (Current, Pdo, UacpiNtCompleteIrp i Current M))"

section \<open>Blocks are independent\<close>

lemma at_block_frame [simp]:
  "sl_Pending (at_block f i S) = sl_Pending S" "sl_Calls (at_block f i S) = sl_Calls S"
  "length (sl_Wakes (at_block f i S)) = length (sl_Wakes S)"
  by (simp_all add: at_block_def case_prod_beta)

lemma fold_at_block_frame [simp]:
  "sl_Pending (fold (at_block f) L S) = sl_Pending S" "sl_Calls (fold (at_block f) L S) = sl_Calls S"
  "length (sl_Wakes (fold (at_block f) L S)) = length (sl_Wakes S)"
  by (induction L arbitrary: S) simp_all

text \<open>A pass whose steps change a block without looking at the hardware, and log GPE calls.\<close>

lemma fold_at_block:
  assumes "distinct L" and "set L \<subseteq> {..<length (sl_Wakes S)}"
    and f: "\<And>w X. f w X = (g w, X\<lparr>hw_Gpe := hw_Gpe X @ l w\<rparr>)"
  shows "sl_Wakes (fold (at_block f) L S) ! j = (if j \<in> set L then g (sl_Wakes S ! j) else sl_Wakes S ! j)"
    and "hw_Gpe (sl_Hw (fold (at_block f) L S)) = hw_Gpe (sl_Hw S) @ concat (map (\<lambda>i. l (sl_Wakes S ! i)) L)"
proof -
  have "sl_Wakes (fold (at_block f) L S) ! j = (if j \<in> set L then g (sl_Wakes S ! j) else sl_Wakes S ! j) \<and>
      hw_Gpe (sl_Hw (fold (at_block f) L S)) = hw_Gpe (sl_Hw S) @ concat (map (\<lambda>i. l (sl_Wakes S ! i)) L)"
    using assms(1,2)
  proof (induction L arbitrary: S)
    case (Cons i L)
    let ?S = "at_block f i S"
    have s: "sl_Wakes ?S = (sl_Wakes S)[i := g (sl_Wakes S ! i)]" "hw_Gpe (sl_Hw ?S) = hw_Gpe (sl_Hw S) @ l (sl_Wakes S ! i)"
      by (simp_all add: at_block_def f)
    have m: "map (\<lambda>k. l (sl_Wakes ?S ! k)) L = map (\<lambda>k. l (sl_Wakes S ! k)) L"
      by (rule map_cong [OF refl]) (use Cons.prems s in \<open>auto simp: nth_list_update\<close>)
    have ih: "sl_Wakes (fold (at_block f) L ?S) ! j = (if j \<in> set L then g (sl_Wakes ?S ! j) else sl_Wakes ?S ! j)"
      "hw_Gpe (sl_Hw (fold (at_block f) L ?S)) = hw_Gpe (sl_Hw ?S) @ concat (map (\<lambda>i. l (sl_Wakes ?S ! i)) L)"
      using Cons.IH [of ?S] Cons.prems by simp_all
    show ?case
    proof
      show "sl_Wakes (fold (at_block f) (i # L) S) ! j = (if j \<in> set (i # L) then g (sl_Wakes S ! j) else sl_Wakes S ! j)"
        using ih(1) s(1) Cons.prems by (auto simp: nth_list_update)
      show "hw_Gpe (sl_Hw (fold (at_block f) (i # L) S)) =
          hw_Gpe (sl_Hw S) @ concat (map (\<lambda>i. l (sl_Wakes S ! i)) (i # L))"
        using ih(2) s(2) unfolding m by simp
    qed
  qed simp
  then show "sl_Wakes (fold (at_block f) L S) ! j = (if j \<in> set L then g (sl_Wakes S ! j) else sl_Wakes S ! j)"
    and "hw_Gpe (sl_Hw (fold (at_block f) L S)) = hw_Gpe (sl_Hw S) @ concat (map (\<lambda>i. l (sl_Wakes S ! i)) L)" by simp_all
qed

lemma Snapshot_list:
  "distinct (UacpiNtWakeSnapshotActive k Ws)" "set (UacpiNtWakeSnapshotActive k Ws) \<subseteq> {..<length Ws}"
  by (auto simp: UacpiNtWakeSnapshotActive_def dest: in_set_takeD)

lemma Snapshot_all:
  assumes "length (filter active Ws) \<le> k"
  shows "UacpiNtWakeSnapshotActive k Ws = filter (\<lambda>i. active (Ws ! i)) [0..<length Ws]"
proof -
  have "length (filter (\<lambda>i. active (Ws ! i)) [0..<length Ws]) = length (filter active (map ((!) Ws) [0..<length Ws]))"
    by (simp add: filter_map comp_def)
  with assms show ?thesis by (simp add: UacpiNtWakeSnapshotActive_def map_nth)
qed

lemma concat_snapshot:
  "concat (map (\<lambda>i. l (Ws ! i)) (filter (\<lambda>i. active (Ws ! i)) [0..<length Ws])) = concat (map l (filter active Ws))"
proof -
  have "map (\<lambda>i. l (Ws ! i)) (filter (\<lambda>i. active (Ws ! i)) [0..<length Ws]) =
      map l (filter active (map ((!) Ws) [0..<length Ws]))"
    by (simp add: filter_map comp_def)
  then show ?thesis by (simp add: map_nth)
qed

text \<open>A pass over all active blocks, as a map over the blocks.\<close>

lemma pass_map:
  assumes "length (filter active (sl_Wakes S)) \<le> k" and f: "\<And>w X. f w X = (g w, X\<lparr>hw_Gpe := hw_Gpe X @ l w\<rparr>)"
  defines "S' \<equiv> fold (at_block f) (UacpiNtWakeSnapshotActive k (sl_Wakes S)) S"
  shows "sl_Wakes S' = map (\<lambda>w. if active w then g w else w) (sl_Wakes S)"
    and "hw_Gpe (sl_Hw S') = hw_Gpe (sl_Hw S) @ concat (map l (filter active (sl_Wakes S)))"
proof -
  note r = fold_at_block [where L = "UacpiNtWakeSnapshotActive k (sl_Wakes S)" and f = f and g = g and l = l, OF Snapshot_list f]
  show "sl_Wakes S' = map (\<lambda>w. if active w then g w else w) (sl_Wakes S)"
  proof (rule nth_equalityI)
    fix j
    assume j: "j < length (sl_Wakes S')"
    then have "sl_Wakes S' ! j = (if active (sl_Wakes S ! j) then g (sl_Wakes S ! j) else sl_Wakes S ! j)"
      using r(1) [of j] by (simp add: S'_def Snapshot_all [OF assms(1)])
    with j show "sl_Wakes S' ! j = map (\<lambda>w. if active w then g w else w) (sl_Wakes S) ! j" by (simp add: S'_def)
  qed (simp add: S'_def)
  show "hw_Gpe (sl_Hw S') = hw_Gpe (sl_Hw S) @ concat (map l (filter active (sl_Wakes S)))"
    using r(2) by (simp add: S'_def Snapshot_all [OF assms(1)] concat_snapshot)
qed

text \<open>A block up to what it remembers of its _DSW and _PSW methods.\<close>

definition wake_core :: "wake \<Rightarrow> wake" where
  "wake_core w = w\<lparr>wk_PswParsed := False, wk_HasDsw := False, wk_HasPsw := False\<rparr>"

lemma SetPsw_core:
  "wake_core (fst (UacpiNtWakeSetPsw E e w X)) = wake_core w" "hw_Gpe (snd (UacpiNtWakeSetPsw E e w X)) = hw_Gpe X"
  by (simp_all add: UacpiNtWakeSetPsw_def parse_psw_def wake_core_def hw_eval_def Let_def split: option.split)

lemma map_update_same: "f x = f (xs ! i) \<Longrightarrow> map f (xs[i := x]) = map f xs"
  by (cases "i < length xs") (simp_all add: map_update list_update_same_conv list_update_beyond)

lemma rearm_core:
  "map wake_core (sl_Wakes (fold (at_block (rearm_one E)) L S)) = map wake_core (sl_Wakes S)"
  "hw_Gpe (sl_Hw (fold (at_block (rearm_one E)) L S)) = hw_Gpe (sl_Hw S)"
proof -
  have one: "map wake_core (sl_Wakes (at_block (rearm_one E) i S)) = map wake_core (sl_Wakes S)"
    "hw_Gpe (sl_Hw (at_block (rearm_one E) i S)) = hw_Gpe (sl_Hw S)" for i S
  proof -
    have "wake_core (fst (rearm_one E w X)) = wake_core w" "hw_Gpe (snd (rearm_one E w X)) = hw_Gpe X" for w X
      by (simp_all add: rearm_one_def SetPsw_core)
    then show "map wake_core (sl_Wakes (at_block (rearm_one E) i S)) = map wake_core (sl_Wakes S)"
      "hw_Gpe (sl_Hw (at_block (rearm_one E) i S)) = hw_Gpe (sl_Hw S)"
      by (simp_all add: at_block_def case_prod_beta map_update_same)
  qed
  show "map wake_core (sl_Wakes (fold (at_block (rearm_one E)) L S)) = map wake_core (sl_Wakes S)"
    by (induction L arbitrary: S) (simp_all add: one)
  show "hw_Gpe (sl_Hw (fold (at_block (rearm_one E)) L S)) = hw_Gpe (sl_Hw S)"
    by (induction L arbitrary: S) (simp_all add: one)
qed

section \<open>Properties\<close>

text \<open>The blocks to mask for a sleep state: armed, by a request for a shallower state.\<close>

definition too_shallow :: "system_power_state \<Rightarrow> wake \<Rightarrow> bool" where
  "too_shallow Target w \<longleftrightarrow> active w \<and> wk_Armed w \<and> \<not> wk_DepthSuspended w \<and>
     wk_RequestedSystemState w \<noteq> PowerSystemUnspecified \<and> wk_RequestedSystemState w < Target"

lemma suspend_pass:
  assumes "length (filter active (sl_Wakes S)) \<le> UACPINT_WAKE_SNAPSHOT_MAX"
  shows "sl_Wakes (UacpiNtWakeSuspendShallow E st S) =
      map (\<lambda>w. if too_shallow st w then w\<lparr>wk_DepthSuspended := True\<rparr> else w) (sl_Wakes S) \<and>
    hw_Gpe (sl_Hw (UacpiNtWakeSuspendShallow E st S)) = hw_Gpe (sl_Hw S) @
      map (\<lambda>w. (DisableGpeForWake, wk_GpeLine w)) (filter (too_shallow st) (sl_Wakes S))"
proof -
  let ?c = "\<lambda>w. wk_Armed w \<and> \<not> wk_DepthSuspended w \<and> wk_RequestedSystemState w \<noteq> 0 \<and> wk_RequestedSystemState w < st"
  let ?g = "\<lambda>w. if ?c w then w\<lparr>wk_DepthSuspended := True\<rparr> else w"
  let ?l = "\<lambda>w. if ?c w then [(DisableGpeForWake, wk_GpeLine w)] else []"
  have f: "suspend_one E st w X = (?g w, X\<lparr>hw_Gpe := hw_Gpe X @ ?l w\<rparr>)" for w X
    by (auto simp: suspend_one_def gpe_call_def not_le)
  note p = pass_map [where f = "suspend_one E st" and g = ?g and l = ?l, OF assms f, folded UacpiNtWakeSuspendShallow_def]
  have "(if active w then ?g w else w) = (if too_shallow st w then w\<lparr>wk_DepthSuspended := True\<rparr> else w)" for w
    by (simp add: too_shallow_def)
  moreover have "concat (map ?l (filter active Ws)) = map (\<lambda>w. (DisableGpeForWake, wk_GpeLine w)) (filter (too_shallow st) Ws)" for Ws
    by (induction Ws) (auto simp: too_shallow_def)
  ultimately show ?thesis using p by simp
qed

lemma restore_pass:
  assumes W: "sl_Wakes S = map (\<lambda>w. if too_shallow st w then w\<lparr>wk_DepthSuspended := True\<rparr> else w) Ws"
    and room: "length (filter active Ws) \<le> UACPINT_WAKE_SNAPSHOT_MAX" and fresh: "\<forall>w \<in> set Ws. \<not> wk_DepthSuspended w"
  shows "sl_Wakes (UacpiNtWakeRestoreSuspended E S) = Ws \<and>
    hw_Gpe (sl_Hw (UacpiNtWakeRestoreSuspended E S)) = hw_Gpe (sl_Hw S) @
      map (\<lambda>w. (EnableGpeForWake, wk_GpeLine w)) (filter (too_shallow st) Ws)"
proof -
  let ?m = "\<lambda>w. if too_shallow st w then w\<lparr>wk_DepthSuspended := True\<rparr> else w"
  let ?g = "\<lambda>w. if wk_DepthSuspended w then w\<lparr>wk_DepthSuspended := False\<rparr> else w"
  let ?l = "\<lambda>w. if wk_DepthSuspended w then [(EnableGpeForWake, wk_GpeLine w)] else []"
  have f: "restore_one E w X = (?g w, X\<lparr>hw_Gpe := hw_Gpe X @ ?l w\<rparr>)" for w X
    by (auto simp: restore_one_def gpe_call_def)
  have act: "active (?m w) = active w" for w by (auto simp: active_def too_shallow_def)
  have "length (filter active (sl_Wakes S)) \<le> 64"
    using room unfolding W by (simp only: filter_map length_map comp_def act)
  note p = pass_map [where f = "restore_one E" and g = ?g and l = ?l, OF this f, folded UacpiNtWakeRestoreSuspended_def]
  have reset: "w\<lparr>wk_DepthSuspended := False\<rparr> = w" if "\<not> wk_DepthSuspended w" for w :: wake
    using that by (cases w) simp
  have one: "(if active (?m w) then ?g (?m w) else ?m w) = w" if "w \<in> set Ws" for w
    using that fresh reset [of w] unfolding act by (auto simp: too_shallow_def)
  have "map (\<lambda>w. if active w then ?g w else w) (map ?m Ws) = Ws"
    unfolding map_map comp_def by (rule map_idI) (rule one)
  moreover have "concat (map ?l (filter active (map ?m Vs))) =
      map (\<lambda>w. (EnableGpeForWake, wk_GpeLine w)) (filter (too_shallow st) Vs)" if "set Vs \<subseteq> set Ws" for Vs
    using that fresh by (induction Vs) (auto simp: act too_shallow_def active_def)
  ultimately show ?thesis using p W by simp
qed


text \<open>Two armed devices on GPE 7 and GPE 9: the first may wake from S1 only, the second from S3.\<close>

definition two_wakes :: sleep_state where
  "two_wakes = \<lparr>sl_Wakes = [demo_wake\<lparr>wk_Armed := True, wk_GpeLine := 7, wk_RequestedSystemState := PowerSystemSleeping1\<rparr>,
       demo_wake\<lparr>wk_Armed := True, wk_GpeLine := 9, wk_RequestedSystemState := PowerSystemSleeping3\<rparr>],
     sl_Hw = \<lparr>hw_Power = demo_ready, hw_Gpe = []\<rparr>, sl_Pending = 0, sl_Resuming = False, sl_SourceClaimed = False,
     sl_Calls = []\<rparr>"


text \<open>
  Disarming a masked device does not clear its mask flag: the resume then enables its GPE for wake
  though nothing is armed.
\<close>

lemma Masked_disarm_reenabled:
  "(let E = demo_wake_env; S = UacpiNtSystemSetPower E True PowerSystemSleeping3 two_wakes;
        S = at_block (UacpiNtWakeDisarm E) 0 S; S = UacpiNtSystemSetPower E True PowerSystemWorking S
    in \<not> wk_Armed (sl_Wakes S ! 0) \<and> last (hw_Gpe (sl_Hw S)) = (EnableGpeForWake, 7))"
  by code_simp

end
