(* ===== verification/Crs_Translation.thy ===== *)
theory Crs_Translation
  imports Res_Arbiter
begin

text \<open>
  Resource translation (sys/resource.c): the _CRS and _PRS of a device, as uACPI parses them, to the
  descriptor lists of the PnP manager, and the walk over the raw _CRS for connection descriptors, which
  the resource hub translates (sys/reshub.c). Both lists are made in two passes, one that counts and
  one that fills.
\<close>

section \<open>Parsed resources\<close>

text \<open>
  The uacpi_resource entries before the end tag, with the fields the translation reads: triggering,
  sharing and lines of interrupts; start and length of fixed ranges; type, direction, minimum and
  length of address windows. All other kinds are \<open>ROther\<close>.
\<close>

datatype crs_resource =
  RIrq u8 u8 "u8 list" | RExtendedIrq u8 u8 "u32 list" | RIo u16 u8 | RFixedIo u16 u8 | RMemory32 u32 u32 |
  RFixedMemory32 u32 u32 | RAddress16 u8 u8 u16 u16 | RAddress32 u8 u8 u32 u32 | RAddress64 u8 u8 u64 u64 |
  RAddress64Extended u8 u8 u64 u64 | ROther

abbreviation (input) UACPI_RANGE_MEMORY :: u8 where "UACPI_RANGE_MEMORY \<equiv> 0"
abbreviation (input) UACPI_RANGE_IO :: u8 where "UACPI_RANGE_IO \<equiv> 1"
abbreviation (input) UACPI_SHARED :: u8 where "UACPI_SHARED \<equiv> 1"
abbreviation (input) UACPI_TRIGGERING_EDGE :: u8 where "UACPI_TRIGGERING_EDGE \<equiv> 1"
abbreviation (input) CmResourceTypeDevicePrivate :: u8 where "CmResourceTypeDevicePrivate \<equiv> 129"
abbreviation (input) CmResourceShareDeviceExclusive :: u8 where "CmResourceShareDeviceExclusive \<equiv> 1"
abbreviation (input) IO_RESOURCE_ALTERNATIVE :: u8 where "IO_RESOURCE_ALTERNATIVE \<equiv> 8"
abbreviation (input) CM_RESOURCE_PORT_IO :: u16 where "CM_RESOURCE_PORT_IO \<equiv> 1"
abbreviation (input) CM_RESOURCE_MEMORY_READ_WRITE :: u16 where "CM_RESOURCE_MEMORY_READ_WRITE \<equiv> 0"
abbreviation (input) CM_RESOURCE_MEMORY_LARGE_40 :: u16 where "CM_RESOURCE_MEMORY_LARGE_40 \<equiv> 0x200"

record address_window =
  aw_WindowType :: u8
  aw_Direction :: u8
  aw_Start :: u64
  aw_Length :: u64

definition UacpiNtGetAddressWindow :: "crs_resource \<Rightarrow> bool \<times> address_window" where
  "UacpiNtGetAddressWindow R =
     (case R of
        RAddress16 t d mn l \<Rightarrow> (True, \<lparr>aw_WindowType = t, aw_Direction = d, aw_Start = ucast mn, aw_Length = ucast l\<rparr>)
      | RAddress32 t d mn l \<Rightarrow> (True, \<lparr>aw_WindowType = t, aw_Direction = d, aw_Start = ucast mn, aw_Length = ucast l\<rparr>)
      | RAddress64 t d mn l \<Rightarrow> (True, \<lparr>aw_WindowType = t, aw_Direction = d, aw_Start = mn, aw_Length = l\<rparr>)
      | RAddress64Extended t d mn l \<Rightarrow> (True, \<lparr>aw_WindowType = t, aw_Direction = d, aw_Start = mn, aw_Length = l\<rparr>)
      | _ \<Rightarrow> (False, \<lparr>aw_WindowType = 0, aw_Direction = 0, aw_Start = 0, aw_Length = 0\<rparr>))"

text \<open>The number of lines, the triggering and the sharing.\<close>

definition UacpiNtGetInterrupts :: "crs_resource \<Rightarrow> nat \<times> u8 \<times> u8" where
  "UacpiNtGetInterrupts R =
     (case R of
        RIrq tr sh irqs \<Rightarrow> (length irqs, tr, sh)
      | RExtendedIrq tr sh irqs \<Rightarrow> (length irqs, tr, sh)
      | _ \<Rightarrow> (0, 0, 0))"

definition UacpiNtGetInterrupt :: "crs_resource \<Rightarrow> nat \<Rightarrow> u32" where
  "UacpiNtGetInterrupt R i =
     (case R of RIrq tr sh irqs \<Rightarrow> ucast (irqs ! i) | RExtendedIrq tr sh irqs \<Rightarrow> irqs ! i | _ \<Rightarrow> 0)"

section \<open>Resource descriptors\<close>

definition zero_cm :: cm_desc where
  "zero_cm = \<lparr>cm_Type = 0, cm_ShareDisposition = 0, cm_Flags = 0, cm_Start = 0, cm_Length = 0, cm_BusStart = 0,
     cm_BusLength = 0, cm_Vector = 0, cm_Level = 0, cm_Affinity = 0\<rparr>"

definition cm_range :: "u8 \<Rightarrow> u16 \<Rightarrow> u64 \<Rightarrow> u32 \<Rightarrow> cm_desc" where
  "cm_range ty fl s l = zero_cm\<lparr>cm_Type := ty, cm_Flags := fl, cm_ShareDisposition := CmResourceShareDeviceExclusive,
     cm_Start := s, cm_Length := l\<rparr>"

definition cm_line :: "u8 \<Rightarrow> u8 \<Rightarrow> u32 \<Rightarrow> cm_desc" where
  "cm_line tr sh v = zero_cm\<lparr>cm_Type := CmResourceTypeInterrupt,
     cm_ShareDisposition := if sh = UACPI_SHARED then CmResourceShareShared else CmResourceShareDeviceExclusive,
     cm_Flags := if tr = UACPI_TRIGGERING_EDGE then 1 else 0, cm_Level := v, cm_Vector := v, cm_Affinity := - 1\<rparr>"

definition cm_window :: "address_window \<Rightarrow> cm_desc" where
  "cm_window W =
     (if aw_WindowType W = UACPI_RANGE_MEMORY
      then if aw_Length W \<le> 0xFFFFFFFF
           then cm_range CmResourceTypeMemory CM_RESOURCE_MEMORY_READ_WRITE (aw_Start W) (ucast (aw_Length W))
           else cm_range CmResourceTypeMemoryLarge (CM_RESOURCE_MEMORY_READ_WRITE OR CM_RESOURCE_MEMORY_LARGE_40) (aw_Start W)
                  (ucast (drop_bit 8 (aw_Length W)))
      else if aw_WindowType W = UACPI_RANGE_IO
      then cm_range CmResourceTypePort CM_RESOURCE_PORT_IO (aw_Start W) (ucast (aw_Length W))
      else zero_cm\<lparr>cm_Type := CmResourceTypeBusNumber, cm_ShareDisposition := CmResourceShareDeviceExclusive,
             cm_BusStart := ucast (aw_Start W), cm_BusLength := ucast (aw_Length W)\<rparr>)"

text \<open>UacpiNtEmitCm without a descriptor, which only counts, and with one, which writes a run of them.\<close>

definition emit_cm_count :: "crs_resource \<Rightarrow> nat" where
  "emit_cm_count R =
     (case R of
        RIrq _ _ _ \<Rightarrow> fst (UacpiNtGetInterrupts R) | RExtendedIrq _ _ _ \<Rightarrow> fst (UacpiNtGetInterrupts R)
      | RIo _ _ \<Rightarrow> 1 | RFixedIo _ _ \<Rightarrow> 1 | RMemory32 _ _ \<Rightarrow> 1 | RFixedMemory32 _ _ \<Rightarrow> 1
      | ROther \<Rightarrow> 0
      | _ \<Rightarrow> if aw_Length (snd (UacpiNtGetAddressWindow R)) = 0 then 0 else 1)"

definition UacpiNtEmitCm :: "crs_resource \<Rightarrow> cm_desc list" where
  "UacpiNtEmitCm R =
     (let lines = (let (Count, tr, sh) = UacpiNtGetInterrupts R
                   in map (\<lambda>i. cm_line tr sh (UacpiNtGetInterrupt R i)) [0..<Count])
      in case R of
           RIrq _ _ _ \<Rightarrow> lines
         | RExtendedIrq _ _ _ \<Rightarrow> lines
         | RIo s l \<Rightarrow> [cm_range CmResourceTypePort CM_RESOURCE_PORT_IO (ucast s) (ucast l)]
         | RFixedIo s l \<Rightarrow> [cm_range CmResourceTypePort CM_RESOURCE_PORT_IO (ucast s) (ucast l)]
         | RMemory32 s l \<Rightarrow> [cm_range CmResourceTypeMemory CM_RESOURCE_MEMORY_READ_WRITE (ucast s) l]
         | RFixedMemory32 s l \<Rightarrow> [cm_range CmResourceTypeMemory CM_RESOURCE_MEMORY_READ_WRITE (ucast s) l]
         | ROther \<Rightarrow> []
         | _ \<Rightarrow> let W = snd (UacpiNtGetAddressWindow R) in if aw_Length W = 0 then [] else [cm_window W])"

section \<open>Requirement descriptors\<close>

definition zero_io :: io_desc where
  "zero_io = \<lparr>io_Option = 0, io_Type = 0, io_ShareDisposition = 0, io_Flags = 0, io_Length = 0, io_Alignment = 0,
     io_MinimumAddress = 0, io_MaximumAddress = 0, io_BusLength = 0, io_MinBusNumber = 0, io_MaxBusNumber = 0,
     io_MinimumVector = 0, io_MaximumVector = 0, io_TargetedProcessors = 0\<rparr>"

definition io_range :: "u8 \<Rightarrow> u16 \<Rightarrow> u64 \<Rightarrow> u32 \<Rightarrow> u64 \<Rightarrow> io_desc" where
  "io_range ty fl s l mx = zero_io\<lparr>io_Type := ty, io_Flags := fl, io_ShareDisposition := CmResourceShareDeviceExclusive,
     io_Length := l, io_Alignment := 1, io_MinimumAddress := s, io_MaximumAddress := mx\<rparr>"

definition io_line :: "u8 \<Rightarrow> u8 \<Rightarrow> nat \<Rightarrow> u32 \<Rightarrow> io_desc" where
  "io_line tr sh i v = zero_io\<lparr>io_Option := if i = 0 then 0 else IO_RESOURCE_ALTERNATIVE, io_Type := CmResourceTypeInterrupt,
     io_ShareDisposition := if sh = UACPI_SHARED then CmResourceShareShared else CmResourceShareDeviceExclusive,
     io_Flags := if tr = UACPI_TRIGGERING_EDGE then 1 else 0, io_MinimumVector := v, io_MaximumVector := v\<rparr>"

definition io_window :: "address_window \<Rightarrow> io_desc" where
  "io_window W =
     (let s = aw_Start W; l = aw_Length W; mx = s + l - 1
      in if aw_WindowType W = UACPI_RANGE_MEMORY \<and> l \<le> 0xFFFFFFFF
         then io_range CmResourceTypeMemory CM_RESOURCE_MEMORY_READ_WRITE s (ucast l) mx
         else if aw_WindowType W = UACPI_RANGE_MEMORY
         then io_range CmResourceTypeMemoryLarge (CM_RESOURCE_MEMORY_READ_WRITE OR CM_RESOURCE_MEMORY_LARGE_40) s
                (ucast (drop_bit 8 l)) mx
         else if aw_WindowType W = UACPI_RANGE_IO
         then io_range CmResourceTypePort CM_RESOURCE_PORT_IO s (ucast l) mx
         else zero_io\<lparr>io_Type := CmResourceTypeBusNumber, io_ShareDisposition := CmResourceShareDeviceExclusive,
                io_BusLength := ucast l, io_MinBusNumber := ucast s, io_MaxBusNumber := ucast mx\<rparr>)"

definition emit_io_count :: "crs_resource \<Rightarrow> nat" where
  "emit_io_count R =
     (case R of
        RIrq _ _ _ \<Rightarrow> fst (UacpiNtGetInterrupts R) | RExtendedIrq _ _ _ \<Rightarrow> fst (UacpiNtGetInterrupts R)
      | RIo _ _ \<Rightarrow> 1 | RFixedIo _ _ \<Rightarrow> 1 | RMemory32 _ _ \<Rightarrow> 1 | RFixedMemory32 _ _ \<Rightarrow> 1
      | ROther \<Rightarrow> 0
      | _ \<Rightarrow> let W = snd (UacpiNtGetAddressWindow R)
             in if aw_Length W = 0 then 0 else if aw_Direction W = UACPI_PRODUCER then 2 else 1)"

definition UacpiNtEmitIo :: "crs_resource \<Rightarrow> io_desc list" where
  "UacpiNtEmitIo R =
     (let lines = (let (Count, tr, sh) = UacpiNtGetInterrupts R
                   in map (\<lambda>i. io_line tr sh i (UacpiNtGetInterrupt R i)) [0..<Count]);
          fixed = (\<lambda>ty fl s l. [io_range ty fl s l (s + ucast l - 1)])
      in case R of
           RIrq _ _ _ \<Rightarrow> lines
         | RExtendedIrq _ _ _ \<Rightarrow> lines
         | RIo s l \<Rightarrow> fixed CmResourceTypePort CM_RESOURCE_PORT_IO (ucast s) (ucast l)
         | RFixedIo s l \<Rightarrow> fixed CmResourceTypePort CM_RESOURCE_PORT_IO (ucast s) (ucast l)
         | RMemory32 s l \<Rightarrow> fixed CmResourceTypeMemory CM_RESOURCE_MEMORY_READ_WRITE (ucast s) l
         | RFixedMemory32 s l \<Rightarrow> fixed CmResourceTypeMemory CM_RESOURCE_MEMORY_READ_WRITE (ucast s) l
         | ROther \<Rightarrow> []
         | _ \<Rightarrow> let W = snd (UacpiNtGetAddressWindow R)
                in if aw_Length W = 0 then []
                   else if aw_Direction W = UACPI_PRODUCER
                   then [io_window W, zero_io\<lparr>io_Type := CmResourceTypeDevicePrivate, io_Flags := 1\<rparr>]
                   else [io_window W])"

section \<open>Connections\<close>

text \<open>A connection descriptor, in its requirement and in its resource form.\<close>

record connection =
  cn_ShareDisposition :: u8
  cn_Flags :: u16
  cn_Class :: u8
  cn_Type :: u8
  cn_IdLowPart :: u32
  cn_IdHighPart :: u32

datatype cm_entry = CmDescriptor cm_desc | CmConnection connection
datatype io_entry = IoDescriptor io_desc | IoConnection connection

definition UacpiNtConnectionIoToCm :: "connection \<Rightarrow> cm_entry" where
  "UacpiNtConnectionIoToCm Io = CmConnection Io"

text \<open>
  The hub: the status, the buffer size it leaves and the descriptor it gives for a raw descriptor and
  the size of the buffer offered; None while no interface is bound. \<open>pool\<close> is whether the buffer can be
  allocated on the first and on the second try.
\<close>

type_synonym hub = "(u8 list \<Rightarrow> u32 \<Rightarrow> ntstatus \<times> u32 \<times> connection) option"

abbreviation (input) UACPINT_TRANSLATION_BUFFER_SIZE :: u32 where "UACPINT_TRANSLATION_BUFFER_SIZE \<equiv> 120"

definition UacpiNtTranslateConnectionDescriptor :: "hub \<Rightarrow> bool \<times> bool \<Rightarrow> u8 list \<Rightarrow> ntstatus \<times> connection option" where
  "UacpiNtTranslateConnectionDescriptor Hub pool Descriptor =
     (case Hub of
        None \<Rightarrow> (STATUS_NOT_SUPPORTED, None)
      | Some translate \<Rightarrow>
          if \<not> fst pool then (STATUS_INSUFFICIENT_RESOURCES, None)
          else
            let (Status, Size, Result) = translate Descriptor UACPINT_TRANSLATION_BUFFER_SIZE
            in if NT_SUCCESS Status then (Status, Some Result)
               else if Status \<noteq> STATUS_BUFFER_TOO_SMALL \<or> Size = 0 then (Status, None)
               else if \<not> snd pool then (STATUS_INSUFFICIENT_RESOURCES, None)
               else
                 let (Status, Size, Result) = translate Descriptor Size
                 in (Status, if NT_SUCCESS Status then Some Result else None))"

definition UacpiNtRawItemLength :: "u8 list \<Rightarrow> nat \<Rightarrow> nat" where
  "UacpiNtRawItemLength Buffer Offset =
     (let Item = (\<lambda>k. Buffer ! (Offset + k));
          checked = (\<lambda>ItemLength. if Offset + ItemLength > length Buffer then 0 else ItemLength)
      in if Item 0 AND 0x80 = 0
         then if Item 0 AND 0x78 = 0x78 then 0 else checked (unat (Item 0 AND 7) + 1)
         else if Offset + 3 > length Buffer then 0
         else checked (unat (Item 1) + 256 * unat (Item 2) + 3))"

lemma RawItemLength_fits: "UacpiNtRawItemLength Buffer Offset \<noteq> 0 \<Longrightarrow> Offset + UacpiNtRawItemLength Buffer Offset \<le> length Buffer"
  by (auto simp: UacpiNtRawItemLength_def Let_def split: if_splits)

text \<open>
  The walk over the items of the buffer from an offset; \<open>translate\<close> is what the hub makes of the
  descriptor at an offset.
\<close>

abbreviation (input) GPIO_INTERRUPT_IO_DESCRIPTOR :: u8 where "GPIO_INTERRUPT_IO_DESCRIPTOR \<equiv> 0x8C"
abbreviation (input) FUNCTION_CONFIG_DESCRIPTOR :: u8 where "FUNCTION_CONFIG_DESCRIPTOR \<equiv> 0x8D"
abbreviation (input) SERIAL_BUS_DESCRIPTOR :: u8 where "SERIAL_BUS_DESCRIPTOR \<equiv> 0x8E"

definition connection_tag :: "u8 \<Rightarrow> bool" where
  "connection_tag b \<longleftrightarrow>
     b = GPIO_INTERRUPT_IO_DESCRIPTOR \<or> b = FUNCTION_CONFIG_DESCRIPTOR \<or> b = SERIAL_BUS_DESCRIPTOR"

function walk_connections :: "(nat \<Rightarrow> u8 list \<Rightarrow> connection option) \<Rightarrow> u8 list \<Rightarrow> nat \<Rightarrow> connection list" where
  "walk_connections translate Buffer Offset =
     (if Offset \<ge> length Buffer \<or> UacpiNtRawItemLength Buffer Offset = 0 then []
      else
        let ItemLength = UacpiNtRawItemLength Buffer Offset; Item = take ItemLength (drop Offset Buffer);
            rest = walk_connections translate Buffer (Offset + ItemLength)
        in if \<not> connection_tag (Buffer ! Offset) then rest
           else case translate Offset Item of None \<Rightarrow> rest | Some c \<Rightarrow> c # rest)"
  by pat_completeness auto
termination
  by (relation "measure (\<lambda>(t, b, k). length b - k)") auto

declare walk_connections.simps [simp del]

text \<open>
  One evaluation of _CRS, None when it is not a buffer, with the hub and the pool as they are when the
  descriptor at an offset is translated.
\<close>

record crs_pass =
  cp_Crs :: "u8 list option"
  cp_Hub :: "nat \<Rightarrow> hub"
  cp_Pool :: "nat \<Rightarrow> bool \<times> bool"

definition UacpiNtWalkCrsConnections :: "crs_pass \<Rightarrow> connection list" where
  "UacpiNtWalkCrsConnections P =
     (case cp_Crs P of
        None \<Rightarrow> []
      | Some Buffer \<Rightarrow>
          walk_connections (\<lambda>k d. snd (UacpiNtTranslateConnectionDescriptor (cp_Hub P k) (cp_Pool P k) d)) Buffer 0)"

definition UacpiNtCrsConnectionCount :: "crs_pass \<Rightarrow> nat" where
  "UacpiNtCrsConnectionCount P = length (UacpiNtWalkCrsConnections P)"

definition UacpiNtCrsEmitConnections :: "crs_pass \<Rightarrow> io_entry list" where
  "UacpiNtCrsEmitConnections P = map IoConnection (UacpiNtWalkCrsConnections P)"

definition UacpiNtCrsEmitConnectionsCm :: "crs_pass \<Rightarrow> cm_entry list" where
  "UacpiNtCrsEmitConnectionsCm P = map UacpiNtConnectionIoToCm (UacpiNtWalkCrsConnections P)"

section \<open>Lists\<close>

text \<open>
  A list is allocated for the counted descriptors, zeroed, and written from its start. Writing more
  than was counted runs past the allocation: \<open>ListOverrun\<close> holds what fits and how many descriptors
  were written behind it. \<open>Counting\<close> and \<open>Filling\<close> are the two evaluations of the raw _CRS.
\<close>

datatype 'a built = ListFailed ntstatus | ListBuilt "'a list" | ListOverrun "'a list" nat

definition fill_list :: "'a \<Rightarrow> nat \<Rightarrow> 'a list \<Rightarrow> 'a built" where
  "fill_list zero Count written =
     (if length written \<le> Count then ListBuilt (written @ replicate (Count - length written) zero)
      else ListOverrun (take Count written) (length written - Count))"

definition UacpiNtCrsToCmList ::
    "crs_resource list option \<Rightarrow> bool \<Rightarrow> crs_pass \<Rightarrow> crs_pass \<Rightarrow> bool \<Rightarrow> cm_entry built" where
  "UacpiNtCrsToCmList Current DeviceObject Counting Filling pool =
     (case Current of
        None \<Rightarrow> ListFailed STATUS_NOT_FOUND
      | Some Resources \<Rightarrow>
          let Connections = (if DeviceObject then UacpiNtCrsConnectionCount Counting else 0);
              Count = sum_list (map emit_cm_count Resources) + Connections
          in if Count = 0 then ListFailed STATUS_NOT_FOUND
             else if \<not> pool then ListFailed STATUS_INSUFFICIENT_RESOURCES
             else fill_list (CmDescriptor zero_cm) Count
                    (map CmDescriptor (concat (map UacpiNtEmitCm Resources)) @
                     (if Connections \<noteq> 0 then UacpiNtCrsEmitConnectionsCm Filling else [])))"

definition UacpiNtPrsToRequirements ::
    "crs_resource list option \<Rightarrow> crs_resource list option \<Rightarrow> bool \<Rightarrow> bool \<Rightarrow> crs_pass \<Rightarrow> crs_pass \<Rightarrow> bool \<Rightarrow> io_entry built" where
  "UacpiNtPrsToRequirements Current PossibleResources Possible DeviceObject Counting Filling pool =
     (case if Possible then PossibleResources else Current of
        None \<Rightarrow> ListFailed STATUS_NOT_FOUND
      | Some Resources \<Rightarrow>
          let Connections = (if \<not> Possible \<and> DeviceObject then UacpiNtCrsConnectionCount Counting else 0);
              Count = sum_list (map emit_io_count Resources) + Connections
          in if Count = 0 then ListFailed STATUS_NOT_FOUND
             else if \<not> pool then ListFailed STATUS_INSUFFICIENT_RESOURCES
             else fill_list (IoDescriptor zero_io) Count
                    (map IoDescriptor (concat (map UacpiNtEmitIo Resources)) @
                     (if Connections \<noteq> 0 then UacpiNtCrsEmitConnections Filling else [])))"

definition UacpiNtCrsToRequirements ::
    "crs_resource list option \<Rightarrow> crs_resource list option \<Rightarrow> bool \<Rightarrow> crs_pass \<Rightarrow> crs_pass \<Rightarrow> bool \<Rightarrow> io_entry built" where
  "UacpiNtCrsToRequirements Current PossibleResources DeviceObject Counting Filling pool =
     UacpiNtPrsToRequirements Current PossibleResources False DeviceObject Counting Filling pool"

section \<open>Lemmas\<close>

lemma EmitCm_counted: "length (UacpiNtEmitCm R) = emit_cm_count R"
  by (cases R) (simp_all add: UacpiNtEmitCm_def emit_cm_count_def UacpiNtGetInterrupts_def Let_def)

lemma EmitIo_counted: "length (UacpiNtEmitIo R) = emit_io_count R"
  by (cases R) (simp_all add: UacpiNtEmitIo_def emit_io_count_def UacpiNtGetInterrupts_def Let_def)

lemma emitted_counted:
  "sum_list (map emit_cm_count Rs) = length (concat (map UacpiNtEmitCm Rs))"
  "sum_list (map emit_io_count Rs) = length (concat (map UacpiNtEmitIo Rs))"
  by (simp_all add: length_concat EmitCm_counted EmitIo_counted o_def)

lemma fill_list_exact: "length written = Count \<Longrightarrow> fill_list zero Count written = ListBuilt written"
  by (simp add: fill_list_def)

lemma fill_list_overrun: "(\<exists>ws n. fill_list zero Count written = ListOverrun ws n) \<longleftrightarrow> Count < length written"
  by (simp add: fill_list_def)

text \<open>The raw items: a short item that is not the end tag, or a long one, of the length its header says.\<close>

definition raw_item :: "u8 list \<Rightarrow> bool" where
  "raw_item it \<longleftrightarrow>
     (if it ! 0 AND 0x80 = 0
      then it ! 0 AND 0x78 \<noteq> 0x78 \<and> length it = unat (it ! 0 AND 7) + 1
      else length it = unat (it ! 1) + 256 * unat (it ! 2) + 3)"

primrec item_connections :: "(nat \<Rightarrow> u8 list \<Rightarrow> connection option) \<Rightarrow> nat \<Rightarrow> u8 list list \<Rightarrow> connection list" where
  "item_connections translate Offset [] = []"
| "item_connections translate Offset (it # its) =
     (if connection_tag (it ! 0) then case translate Offset it of None \<Rightarrow> [] | Some c \<Rightarrow> [c] else []) @
     item_connections translate (Offset + length it) its"

lemma raw_item_nonempty: "raw_item it \<Longrightarrow> it \<noteq> []"
  by (auto simp: raw_item_def split: if_splits)

lemma RawItemLength_of_item:
  assumes "raw_item it"
  shows "UacpiNtRawItemLength (pre @ it @ rest) (length pre) = length it"
proof (cases "it ! 0 AND 0x80 = 0")
  case True
  with assms show ?thesis
    by (simp add: UacpiNtRawItemLength_def raw_item_def Let_def nth_append)
next
  case False
  then have l: "length it = unat (it ! 1) + 256 * unat (it ! 2) + 3" using assms by (simp add: raw_item_def)
  then have "(it @ rest) ! 0 = it ! 0" "(it @ rest) ! 1 = it ! 1" "(it @ rest) ! 2 = it ! 2"
    by (simp_all add: nth_append)
  then show ?thesis using False l by (simp add: UacpiNtRawItemLength_def Let_def nth_append)
qed

lemma walk_connections_step:
  assumes "raw_item it"
  shows "walk_connections t (pre @ it @ rest) (length pre) =
    (if connection_tag (it ! 0) then case t (length pre) it of None \<Rightarrow> [] | Some c \<Rightarrow> [c] else []) @
    walk_connections t ((pre @ it) @ rest) (length (pre @ it))"
proof -
  have n: "it \<noteq> []" by (rule raw_item_nonempty [OF assms])
  then have h: "(pre @ it @ rest) ! length pre = it ! 0" by (simp add: nth_append)
  show ?thesis
    using n by (subst walk_connections.simps) (simp add: RawItemLength_of_item [OF assms] h Let_def split: option.split)
qed

lemma walk_connections_stop:
  assumes "b AND 0x80 = 0" and "b AND 0x78 = 0x78"
  shows "walk_connections t (pre @ b # rest) (length pre) = []"
  using assms by (subst walk_connections.simps) (simp add: UacpiNtRawItemLength_def nth_append)

lemma walk_connections_items:
  assumes "\<And>it. it \<in> set its \<Longrightarrow> raw_item it" and "b AND 0x80 = 0" and "b AND 0x78 = 0x78"
  shows "walk_connections t (pre @ concat its @ b # rest) (length pre) = item_connections t (length pre) its"
  using assms(1)
proof (induction its arbitrary: pre)
  case Nil
  then show ?case using walk_connections_stop [OF assms(2,3)] by simp
next
  case (Cons it its)
  from Cons.IH [of "pre @ it"] Cons.prems show ?case
    using walk_connections_step [of it t pre "concat its @ b # rest"] by simp
qed

text \<open>The window a resource other than an interrupt describes.\<close>

definition resource_window :: "crs_resource \<Rightarrow> address_window option" where
  "resource_window R =
     (case R of
        RIo s l \<Rightarrow> Some \<lparr>aw_WindowType = UACPI_RANGE_IO, aw_Direction = 1, aw_Start = ucast s, aw_Length = ucast l\<rparr>
      | RFixedIo s l \<Rightarrow> Some \<lparr>aw_WindowType = UACPI_RANGE_IO, aw_Direction = 1, aw_Start = ucast s, aw_Length = ucast l\<rparr>
      | RMemory32 s l \<Rightarrow> Some \<lparr>aw_WindowType = UACPI_RANGE_MEMORY, aw_Direction = 1, aw_Start = ucast s, aw_Length = ucast l\<rparr>
      | RFixedMemory32 s l \<Rightarrow> Some \<lparr>aw_WindowType = UACPI_RANGE_MEMORY, aw_Direction = 1, aw_Start = ucast s, aw_Length = ucast l\<rparr>
      | _ \<Rightarrow> if fst (UacpiNtGetAddressWindow R) then Some (snd (UacpiNtGetAddressWindow R)) else None)"

lemma u32_widened: "ucast (l :: u32) \<le> (0xFFFFFFFF :: u64)"
proof -
  have "unat (ucast l :: u64) = unat l" by (rule unat_ucast_widen) simp
  moreover have "unat l < 2 ^ 32" using unsigned_less [where w = l] by simp
  ultimately show ?thesis by (simp add: word_le_nat_alt)
qed

lemma widened_narrow:
  "ucast (ucast (l :: u32) :: u64) = l" "ucast (ucast (k :: u8) :: u64) = (ucast k :: u32)"
  "ucast (ucast (k :: u8) :: u32) = (ucast k :: u64)"
  by (rule bit_word_eqI; auto simp: bit_simps dest: bit_imp_le_length)+

lemma emit_of_window:
  assumes "resource_window R = Some W" and "aw_Length W \<noteq> 0"
  shows "UacpiNtEmitCm R = [cm_window W]" and "\<exists>ds. UacpiNtEmitIo R = io_window W # ds"
  using assms
  by (cases R; auto simp: resource_window_def UacpiNtEmitCm_def UacpiNtEmitIo_def UacpiNtGetAddressWindow_def
      cm_window_def io_window_def Let_def u32_widened widened_narrow)+

section \<open>Properties\<close>

text \<open>
  C25: when both passes see the same raw _CRS and the hub answers them alike, the lists are filled
  exactly: with a raw _CRS of well-formed items before the end tag, the resource list and the
  requirements list hold the descriptors of every parsed resource in order, followed by one
  connection for every connection item the hub can translate, in the order of the items, and not a
  single slot is left over. A device without any descriptor has no list.
\<close>
theorem Crs_lists_complete:
  assumes "\<And>it. it \<in> set its \<Longrightarrow> raw_item it"
    and "cp_Crs P = Some (concat its @ 0x79 # rest)"
    and "cs = item_connections (\<lambda>k d. snd (UacpiNtTranslateConnectionDescriptor (cp_Hub P k) (cp_Pool P k) d)) 0 its"
    and "cms = map CmDescriptor (concat (map UacpiNtEmitCm Rs)) @ map CmConnection cs"
    and "ios = map IoDescriptor (concat (map UacpiNtEmitIo Rs)) @ map IoConnection cs"
  shows "UacpiNtCrsToCmList (Some Rs) True P P True = (if cms = [] then ListFailed STATUS_NOT_FOUND else ListBuilt cms) \<and>
    UacpiNtCrsToRequirements (Some Rs) Prs True P P True =
      (if ios = [] then ListFailed STATUS_NOT_FOUND else ListBuilt ios)"
proof -
  have w: "UacpiNtWalkCrsConnections P = cs"
    using walk_connections_items [where its = its and b = "0x79" and pre = "[]" and rest = rest] assms(1-3) by (simp add: UacpiNtWalkCrsConnections_def)
  have cm: "UacpiNtCrsEmitConnectionsCm P = map CmConnection cs"
    by (simp add: UacpiNtCrsEmitConnectionsCm_def w UacpiNtConnectionIoToCm_def)
  have io: "UacpiNtCrsEmitConnections P = map IoConnection cs" by (simp add: UacpiNtCrsEmitConnections_def w)
  have n: "UacpiNtCrsConnectionCount P = length cs" by (simp add: UacpiNtCrsConnectionCount_def w)
  have "UacpiNtCrsToCmList (Some Rs) True P P True = (if cms = [] then ListFailed STATUS_NOT_FOUND else ListBuilt cms)"
    unfolding assms(4) by (auto simp: UacpiNtCrsToCmList_def Let_def n cm emitted_counted fill_list_exact)
  moreover have "UacpiNtCrsToRequirements (Some Rs) Prs True P P True =
      (if ios = [] then ListFailed STATUS_NOT_FOUND else ListBuilt ios)"
    unfolding assms(5)
    by (auto simp: UacpiNtCrsToRequirements_def UacpiNtPrsToRequirements_def Let_def n io emitted_counted fill_list_exact)
  ultimately show ?thesis by blast
qed

definition sample_hub :: "nat \<Rightarrow> hub" where
  "sample_hub k = Some (\<lambda>d n. if n < 200 then (STATUS_BUFFER_TOO_SMALL, 200, undefined)
     else (STATUS_SUCCESS, 200, \<lparr>cn_ShareDisposition = 1, cn_Flags = 0, cn_Class = 1, cn_Type = 2,
       cn_IdLowPart = ucast (d ! 3), cn_IdHighPart = 0\<rparr>))"

definition sample_pass :: crs_pass where
  "sample_pass = \<lparr>cp_Crs = Some (concat [[0x22, 0x10, 0], [0x8C, 1, 0, 5]] @ 0x79 # [0]),
     cp_Hub = sample_hub, cp_Pool = (\<lambda>k. (True, True))\<rparr>"

lemma Crs_lists_complete_witness:
  "UacpiNtCrsToCmList (Some [RIrq 1 0 [4]]) True sample_pass sample_pass True =
     ListBuilt [CmDescriptor (cm_line 1 0 4), CmConnection \<lparr>cn_ShareDisposition = 1, cn_Flags = 0, cn_Class = 1,
       cn_Type = 2, cn_IdLowPart = 5, cn_IdHighPart = 0\<rparr>]"
proof -
  have c: "cp_Crs sample_pass = Some (concat [[0x22, 0x10, 0], [0x8C, 1, 0, 5]] @ 0x79 # [0])"
    by (simp add: sample_pass_def)
  have "raw_item it" if "it \<in> set [[0x22, 0x10, 0], [0x8C, 1, 0, 5]]" for it
    using that by (auto simp: raw_item_def)
  from Crs_lists_complete [OF this c refl refl refl, of "[RIrq 1 0 [4]]" None] show ?thesis
    by (simp add: sample_pass_def sample_hub_def UacpiNtTranslateConnectionDescriptor_def connection_tag_def
        UacpiNtEmitCm_def UacpiNtGetInterrupts_def UacpiNtGetInterrupt_def)
qed



text \<open>
  C39: the raw _CRS is evaluated and the hub is asked again to fill the list. The fill runs past the
  allocation exactly when the first pass found a connection and the second finds more of them.
\<close>
theorem Second_pass_overruns:
  "(\<exists>ws n. UacpiNtCrsToCmList (Some Rs) Dev P1 P2 pool = ListOverrun ws n) \<longleftrightarrow>
     pool \<and> Dev \<and> 0 < UacpiNtCrsConnectionCount P1 \<and> UacpiNtCrsConnectionCount P1 < UacpiNtCrsConnectionCount P2"
proof (cases "Dev \<and> pool \<and> UacpiNtCrsConnectionCount P1 \<noteq> 0")
  case True
  then show ?thesis
    by (simp add: UacpiNtCrsToCmList_def Let_def fill_list_overrun emitted_counted UacpiNtCrsEmitConnectionsCm_def
        UacpiNtCrsConnectionCount_def)
next
  case False
  then show ?thesis
    by (auto simp: UacpiNtCrsToCmList_def Let_def emitted_counted fill_list_exact)
qed

text \<open>
  A memory window of 4GB or more does not survive the arbiter. Its requirement carries the length
  divided by 256 in the large memory form, which the codec of the arbiters reads and packs as a plain
  memory length: what is assigned is a 256th part of the window.
\<close>
theorem Large_window_shrinks:
  assumes "resource_window R = Some W" and "aw_WindowType W = UACPI_RANGE_MEMORY" and "0xFFFFFFFF < aw_Length W"
  shows "\<exists>io ds. UacpiNtEmitIo R = io # ds \<and>
    snd (UacpiNtResUnpackResource (snd (UacpiNtResPackResource io (aw_Start W) zero_cm))) =
      (aw_Start W, ucast (ucast (drop_bit 8 (aw_Length W)) :: u32))"
proof -
  have "aw_Length W \<noteq> 0" using assms(3) by auto
  from emit_of_window(2) [OF assms(1) this] obtain ds where "UacpiNtEmitIo R = io_window W # ds" by blast
  then show ?thesis
    using assms(2,3)
    by (simp add: io_window_def io_range_def zero_io_def zero_cm_def Let_def UacpiNtResPackResource_def
        UacpiNtResUnpackResource_def not_le [symmetric])
qed

lemma Large_window_shrinks_witness:
  "\<exists>io ds. UacpiNtEmitIo (RAddress64 0 1 0x4000000000 0x200000000) = io # ds \<and>
    snd (UacpiNtResUnpackResource (snd (UacpiNtResPackResource io 0x4000000000 zero_cm))) = (0x4000000000, 0x2000000)"
  using Large_window_shrinks [of "RAddress64 0 1 0x4000000000 0x200000000"
      "\<lparr>aw_WindowType = 0, aw_Direction = 1, aw_Start = 0x4000000000, aw_Length = 0x200000000\<rparr>"]
  by (simp add: resource_window_def UacpiNtGetAddressWindow_def)

end
