(* ===== verification/Thermal_Zone.thy ===== *)
theory Thermal_Zone
  imports Power_States
begin

text \<open>
  Thermal zones (drivers/thermal.c), the part that talks to the firmware: trip points and temperature,
  the rearming of the platform notification, active cooling through the power states of the cooling
  devices, and the data handed to the power manager and to WMI. The build for Windows 10, for 8 and for
  earlier releases differ; \<open>release\<close> stands for NTDDI_VERSION.
\<close>

section \<open>Data\<close>

datatype release = BeforeWin8 | Win8 | Win10

definition at_least_win8 :: "release \<Rightarrow> bool" where
  "at_least_win8 r \<longleftrightarrow> r \<noteq> BeforeWin8"

record thermal_info =
  ti_ThermalStamp :: u32
  ti_ThermalConstant1 :: u32
  ti_ThermalConstant2 :: u32
  ti_SamplingPeriod :: u32
  ti_CurrentTemperature :: u32
  ti_PassiveTripPoint :: u32
  ti_StandbyTripPoint :: u32
  ti_CriticalTripPoint :: u32
  ti_S4TripPoint :: u32
  ti_ActiveTripPointCount :: nat
  ti_ActiveTripPoint :: "u32 list"
  ti_MinimumThrottle :: u32
  ti_OverThrottleThreshold :: u32
  ti_Processors :: u64

text \<open>The fields the worker owns; the queue and the work flags are in \<open>Thermal_Requests\<close>.\<close>

record thermal_zone =
  tz_Node :: "acpi_node option"
  tz_DtiArmed :: bool
  tz_TripDelta :: u32
  tz_NotifiedTemperature :: u32
  tz_DsmFunctions :: u32
  tz_Description :: "u16 list option"
  tz_Info :: thermal_info

text \<open>
  What _DSM and _STR return, by the evaluations so far; \<open>te_Objects\<close> whether argument objects and
  \<open>te_Pool\<close> whether the copy of the description can be allocated.
\<close>

datatype dsm_result = DsmBuffer "u8 list" | DsmInteger u64 | DsmOther

record thermal_env =
  te_Fw :: firmware
  te_Release :: release
  te_Dsm :: "fw_call list \<Rightarrow> u32 \<Rightarrow> dsm_result option"
  te_Str :: "fw_call list \<Rightarrow> u8 list option"
  te_Objects :: bool
  te_Pool :: bool
  te_ActiveProcessors :: u64

abbreviation (input) MAX_ACTIVE_COOLING_LEVELS :: nat where "MAX_ACTIVE_COOLING_LEVELS \<equiv> 10"

section \<open>Evaluation\<close>

definition UacpiNtThermalEvalInteger :: "firmware \<Rightarrow> acpi_node option \<Rightarrow> string \<Rightarrow> fw_call list \<Rightarrow> u32 option \<times> fw_call list" where
  "UacpiNtThermalEvalInteger F Node Method log =
     (case Node of
        None \<Rightarrow> (None, log)
      | Some n \<Rightarrow>
          (case uacpi_eval_simple_integer F (n, Method, []) log of
             (None, log) \<Rightarrow> (None, log)
           | (Some Result, log) \<Rightarrow> (Some (ucast Result), log)))"

definition UacpiNtThermalEvalDefault ::
    "firmware \<Rightarrow> acpi_node option \<Rightarrow> string \<Rightarrow> u32 \<Rightarrow> fw_call list \<Rightarrow> u32 \<times> fw_call list" where
  "UacpiNtThermalEvalDefault F Node Method Default log =
     (case UacpiNtThermalEvalInteger F Node Method log of
        (Some Value, log) \<Rightarrow> (Value, log)
      | (None, log) \<Rightarrow> (Default, log))"

definition UacpiNtThermalCallWithInteger ::
    "thermal_env \<Rightarrow> acpi_node option \<Rightarrow> string \<Rightarrow> u32 \<Rightarrow> fw_call list \<Rightarrow> fw_call list" where
  "UacpiNtThermalCallWithInteger E Node Method Argument log =
     (case Node of
        None \<Rightarrow> log
      | Some n \<Rightarrow>
          if \<not> UacpiNtNodeHasChild (te_Fw E) Node Method \<or> \<not> te_Objects E then log
          else snd (uacpi_eval (te_Fw E) (n, Method, [ucast Argument]) log))"

fun active_trips_loop :: "firmware \<Rightarrow> acpi_node option \<Rightarrow> nat \<Rightarrow> nat \<Rightarrow> u32 list \<Rightarrow> fw_call list \<Rightarrow> u32 list \<times> fw_call list" where
  "active_trips_loop F Node Count 0 trips log = (trips, log)"
| "active_trips_loop F Node Count (Suc n) trips log =
     (case UacpiNtThermalEvalInteger F Node (''_AC'' @ [digit Count]) log of
        (None, log) \<Rightarrow> (trips, log)
      | (Some v, log) \<Rightarrow> active_trips_loop F Node (Suc Count) n (trips @ [v]) log)"

text \<open>The trip points found; their number is the length.\<close>

definition UacpiNtThermalReadActiveTrips :: "firmware \<Rightarrow> acpi_node option \<Rightarrow> fw_call list \<Rightarrow> u32 list \<times> fw_call list" where
  "UacpiNtThermalReadActiveTrips F Node log = active_trips_loop F Node 0 MAX_ACTIVE_COOLING_LEVELS [] log"

definition UacpiNtThermalEvalDsm :: "thermal_env \<Rightarrow> thermal_zone \<Rightarrow> u32 \<Rightarrow> fw_call list \<Rightarrow> dsm_result option \<times> fw_call list" where
  "UacpiNtThermalEvalDsm E Z Function log =
     (case tz_Node Z of
        None \<Rightarrow> (None, log)
      | Some n \<Rightarrow>
          if \<not> UacpiNtNodeHasChild (te_Fw E) (Some n) ''_DSM'' \<or> \<not> te_Objects E then (None, log)
          else (te_Dsm E log Function, log @ [(n, ''_DSM'', [0, ucast Function])]))"

definition UacpiNtThermalDsmPercent :: "thermal_env \<Rightarrow> thermal_zone \<Rightarrow> u32 \<Rightarrow> fw_call list \<Rightarrow> u32 option \<times> fw_call list" where
  "UacpiNtThermalDsmPercent E Z Function log =
     (if \<not> bit (tz_DsmFunctions Z) (unat Function) then (None, log)
      else case UacpiNtThermalEvalDsm E Z Function log of
             (Some (DsmInteger Value), log) \<Rightarrow> (Some (if Value > 100 then 100 else ucast Value), log)
           | (_, log) \<Rightarrow> (None, log))"

text \<open>The UTF-16 text of a buffer, up to its first terminator.\<close>

fun wide_chars :: "u8 list \<Rightarrow> u16 list" where
  "wide_chars (a # b # rest) = (ucast a + 256 * ucast b) # wide_chars rest"
| "wide_chars _ = []"

definition UacpiNtThermalReadDescription :: "thermal_env \<Rightarrow> thermal_zone \<Rightarrow> fw_call list \<Rightarrow> thermal_zone \<times> fw_call list" where
  "UacpiNtThermalReadDescription E Z log =
     (case tz_Node Z of
        None \<Rightarrow> (Z, log)
      | Some n \<Rightarrow>
          let View = te_Str E log; log = log @ [(n, ''_STR'', [])]
          in case View of
               None \<Rightarrow> (Z, log)
             | Some bytes \<Rightarrow>
                 if length bytes > 2 \<and> length bytes mod 2 = 0 \<and> length bytes \<le> 0xFFFF \<and> last (wide_chars bytes) = 0 \<and> te_Pool E
                 then (Z\<lparr>tz_Description := Some (takeWhile (\<lambda>c. c \<noteq> 0) (wide_chars bytes))\<rparr>, log)
                 else (Z, log))"

text \<open>The copy handed out, if there is a description and pool for it.\<close>

definition UacpiNtThermalCopyDescription :: "bool \<Rightarrow> thermal_zone \<Rightarrow> u16 list option" where
  "UacpiNtThermalCopyDescription pool Z = (if pool then tz_Description Z else None)"

definition UacpiNtThermalReadThrottleLimits :: "thermal_env \<Rightarrow> thermal_zone \<Rightarrow> fw_call list \<Rightarrow> thermal_zone \<times> fw_call list" where
  "UacpiNtThermalReadThrottleLimits E Z log =
     (let (mtl, log) = UacpiNtThermalEvalInteger (te_Fw E) (tz_Node Z) ''_MTL'' log;
          (minimum, log) =
            (case mtl of
               Some Value \<Rightarrow> (if Value > 100 then 100 else Value, log)
             | None \<Rightarrow> (case UacpiNtThermalDsmPercent E Z 1 log of (Some p, log) \<Rightarrow> (p, log) | (None, log) \<Rightarrow> (0, log)));
          (over, log) = (case UacpiNtThermalDsmPercent E Z 3 log of (Some p, log) \<Rightarrow> (p, log) | (None, log) \<Rightarrow> (0, log))
      in (Z\<lparr>tz_Info := (tz_Info Z)\<lparr>ti_MinimumThrottle := minimum, ti_OverThrottleThreshold := over\<rparr>\<rparr>, log))"

definition UacpiNtThermalInit :: "thermal_env \<Rightarrow> thermal_zone \<Rightarrow> fw_call list \<Rightarrow> thermal_zone \<times> fw_call list" where
  "UacpiNtThermalInit E Z log =
     (let (Z, log) =
            (if te_Release E = Win10
             then let (r, log) = UacpiNtThermalEvalDsm E Z 0 log;
                      Z = Z\<lparr>tz_DsmFunctions := (case r of Some (DsmBuffer (b # _)) \<Rightarrow> ucast b | _ \<Rightarrow> 0)\<rparr>
                  in if tz_Description Z = None then UacpiNtThermalReadDescription E Z log else (Z, log)
             else (Z, log))
      in (Z\<lparr>tz_DtiArmed := False\<rparr>, log))"

definition UacpiNtThermalPassiveProcessors :: "thermal_env \<Rightarrow> thermal_zone \<Rightarrow> fw_call list \<Rightarrow> u64 \<times> fw_call list" where
  "UacpiNtThermalPassiveProcessors E Z log =
     (case tz_Node Z of
        None \<Rightarrow> (0, log)
      | Some n \<Rightarrow>
          (case uacpi_eval (te_Fw E) (n, ''_PSL'', []) log of (r, log) \<Rightarrow>
             (case fw_package r of
                None \<Rightarrow> (0, log)
              | Some os \<Rightarrow> (if list_ex (\<lambda>ob. package_target (te_Fw E) n ob \<noteq> None) os then te_ActiveProcessors E else 0, log))))"

section \<open>Trip points\<close>

definition UacpiNtThermalReadTrips :: "thermal_env \<Rightarrow> thermal_zone \<Rightarrow> fw_call list \<Rightarrow> thermal_zone \<times> fw_call list" where
  "UacpiNtThermalReadTrips E Z log =
     (let F = te_Fw E; N = tz_Node Z; I = tz_Info Z;
          (tc1, log) = UacpiNtThermalEvalDefault F N ''_TC1'' 0 log;
          (tc2, log) = UacpiNtThermalEvalDefault F N ''_TC2'' 0 log;
          (psv, log) = UacpiNtThermalEvalDefault F N ''_PSV'' 0 log;
          (crt, log) = UacpiNtThermalEvalDefault F N ''_CRT'' 0 log;
          I = I\<lparr>ti_ThermalConstant1 := tc1, ti_ThermalConstant2 := tc2, ti_PassiveTripPoint := psv, ti_CriticalTripPoint := crt\<rparr>;
          (I, log) =
            (if te_Release E = Win10
             then let (tfp, log) = UacpiNtThermalEvalInteger F N ''_TFP'' log;
                      (period, log) = (case tfp of
                                         Some v \<Rightarrow> (v, log)
                                       | None \<Rightarrow> let (tsp, log) = UacpiNtThermalEvalDefault F N ''_TSP'' 0 log in (tsp * 100, log));
                      (cr3, log) = UacpiNtThermalEvalDefault F N ''_CR3'' 0 log
                  in (I\<lparr>ti_SamplingPeriod := period, ti_StandbyTripPoint := cr3\<rparr>, log)
             else let (tsp, log) = UacpiNtThermalEvalDefault F N ''_TSP'' 0 log in (I\<lparr>ti_SamplingPeriod := tsp\<rparr>, log));
          (I, delta, log) =
            (if at_least_win8 (te_Release E)
             then let (hot, log) = UacpiNtThermalEvalDefault F N ''_HOT'' 0 log;
                      (ntt, log) = UacpiNtThermalEvalDefault F N ''_NTT'' 0 log
                  in (I\<lparr>ti_S4TripPoint := hot\<rparr>, ntt, log)
             else (I, tz_TripDelta Z, log));
          (trips, log) = UacpiNtThermalReadActiveTrips F N log;
          I = I\<lparr>ti_ActiveTripPointCount := length trips,
                ti_ActiveTripPoint := trips @ replicate (MAX_ACTIVE_COOLING_LEVELS - length trips) 0\<rparr>;
          Z = Z\<lparr>tz_Info := I, tz_TripDelta := delta\<rparr>
      in case te_Release E of
           Win10 \<Rightarrow> UacpiNtThermalReadThrottleLimits E Z log
         | Win8 \<Rightarrow> (Z, log)
         | BeforeWin8 \<Rightarrow> (case UacpiNtThermalPassiveProcessors E Z log of
                           (p, log) \<Rightarrow> (Z\<lparr>tz_Info := I\<lparr>ti_Processors := p\<rparr>\<rparr>, log)))"

definition trip_points :: "release \<Rightarrow> thermal_info \<Rightarrow> u32 list" where
  "trip_points r I =
     [ti_PassiveTripPoint I, ti_CriticalTripPoint I, ti_S4TripPoint I] @ (if r = Win10 then [ti_StandbyTripPoint I] else []) @
     take (ti_ActiveTripPointCount I) (ti_ActiveTripPoint I)"

fun crossed_loop :: "u32 list \<Rightarrow> u32 \<Rightarrow> u32 \<Rightarrow> bool" where
  "crossed_loop [] Current Notified = False"
| "crossed_loop (Trip # Trips) Current Notified =
     (if Trip = 0 then crossed_loop Trips Current Notified
      else if Notified < Trip \<and> Trip \<le> Current \<or> Current \<le> Trip \<and> Trip < Notified then True
      else crossed_loop Trips Current Notified)"

definition UacpiNtThermalCrossedTrip :: "release \<Rightarrow> thermal_info \<Rightarrow> u32 \<Rightarrow> bool" where
  "UacpiNtThermalCrossedTrip r I NotifiedTemperature =
     crossed_loop (trip_points r I) (ti_CurrentTemperature I) NotifiedTemperature"

definition UacpiNtThermalCheckDti :: "thermal_env \<Rightarrow> thermal_zone \<Rightarrow> fw_call list \<Rightarrow> thermal_zone \<times> fw_call list" where
  "UacpiNtThermalCheckDti E Z log =
     (let Current = ti_CurrentTemperature (tz_Info Z); Notified = tz_NotifiedTemperature Z; Delta = tz_TripDelta Z
      in if \<not> UacpiNtNodeHasChild (te_Fw E) (tz_Node Z) ''_DTI'' then (Z, log)
         else
           let Rearm = \<not> tz_DtiArmed Z;
               Rearm = (if \<not> Rearm \<and> Delta \<noteq> 0
                        then Notified > Delta \<and> Current \<le> Notified - Delta \<or>
                             Notified \<le> 0xFFFFFFFF - Delta \<and> Current \<ge> Notified + Delta
                        else Rearm);
               Rearm = (if \<not> Rearm then UacpiNtThermalCrossedTrip (te_Release E) (tz_Info Z) Notified else Rearm)
           in if \<not> Rearm then (Z, log)
              else (Z\<lparr>tz_NotifiedTemperature := Current, tz_DtiArmed := True\<rparr>,
                    UacpiNtThermalCallWithInteger E (tz_Node Z) ''_DTI'' Current log))"

definition UacpiNtThermalReadTemperature :: "thermal_env \<Rightarrow> thermal_zone \<Rightarrow> fw_call list \<Rightarrow> thermal_zone \<times> fw_call list" where
  "UacpiNtThermalReadTemperature E Z log =
     (let Z = Z\<lparr>tz_Info := (tz_Info Z)\<lparr>ti_ThermalStamp := ti_ThermalStamp (tz_Info Z) + 1\<rparr>\<rparr>;
          (t, log) = UacpiNtThermalEvalInteger (te_Fw E) (tz_Node Z) ''_TMP'' log;
          Z = (case t of None \<Rightarrow> Z | Some Temperature \<Rightarrow> Z\<lparr>tz_Info := (tz_Info Z)\<lparr>ti_CurrentTemperature := Temperature\<rparr>\<rparr>)
      in if at_least_win8 (te_Release E) then UacpiNtThermalCheckDti E Z log else (Z, log))"

section \<open>Active cooling\<close>

text \<open>\<open>Coolers\<close> are the device objects by their nodes.\<close>

type_synonym coolers = "acpi_node \<Rightarrow> power_pdo option"

definition cool_one :: "firmware \<Rightarrow> acpi_node \<Rightarrow> device_power_state \<Rightarrow> fw_object \<Rightarrow> coolers \<times> power_state \<Rightarrow> coolers \<times> power_state" where
  "cool_one F Zone State ob w =
     (case w of (Coolers, S) \<Rightarrow>
        (case package_target F Zone ob of
           None \<Rightarrow> w
         | Some Device \<Rightarrow>
             (case Coolers Device of
                None \<Rightarrow> w
              | Some Cooler \<Rightarrow>
                  if \<not> pd_DStateKnown Cooler \<or> pd_CurrentDState Cooler \<noteq> State
                  then (case UacpiNtPowerSetDeviceState F Cooler State S of
                          (st, Cooler, S) \<Rightarrow> (Coolers(Device \<mapsto> Cooler), S))
                  else w)))"

definition UacpiNtThermalApplyActiveList ::
    "firmware \<Rightarrow> acpi_node \<Rightarrow> fw_object list \<Rightarrow> device_power_state \<Rightarrow> coolers \<times> power_state \<Rightarrow> coolers \<times> power_state" where
  "UacpiNtThermalApplyActiveList F Zone Elements State w = fold (cool_one F Zone State) Elements w"

fun active_loop :: "firmware \<Rightarrow> acpi_node \<Rightarrow> nat \<Rightarrow> nat \<Rightarrow> nat \<Rightarrow> coolers \<times> power_state \<Rightarrow> coolers \<times> power_state" where
  "active_loop F Zone Level Index 0 w = w"
| "active_loop F Zone Level Index (Suc n) w =
     (case w of (Coolers, S) \<Rightarrow>
        (case power_eval F (Zone, ''_AL'' @ [digit Index], []) S of (r, S) \<Rightarrow>
           (case fw_package r of
              None \<Rightarrow> (Coolers, S)
            | Some Elements \<Rightarrow>
                active_loop F Zone Level (Suc Index) n
                  (UacpiNtThermalApplyActiveList F Zone Elements (if Index \<ge> Level then PowerDeviceD0 else PowerDeviceD3) (Coolers, S)))))"

definition UacpiNtThermalRunActive :: "firmware \<Rightarrow> acpi_node \<Rightarrow> u8 \<Rightarrow> coolers \<times> power_state \<Rightarrow> coolers \<times> power_state" where
  "UacpiNtThermalRunActive F Zone Level w = active_loop F Zone (unat Level) 0 MAX_ACTIVE_COOLING_LEVELS w"

section \<open>What is reported\<close>

text \<open>The query layouts are subsets of the zone data; a field a release does not have is 0 here.\<close>

definition UacpiNtThermalFillQuery :: "release \<Rightarrow> thermal_info \<Rightarrow> thermal_info" where
  "UacpiNtThermalFillQuery r Info =
     \<lparr>ti_ThermalStamp = ti_ThermalStamp Info, ti_ThermalConstant1 = ti_ThermalConstant1 Info,
      ti_ThermalConstant2 = ti_ThermalConstant2 Info, ti_SamplingPeriod = ti_SamplingPeriod Info,
      ti_CurrentTemperature = ti_CurrentTemperature Info, ti_PassiveTripPoint = ti_PassiveTripPoint Info,
      ti_StandbyTripPoint = (if r = Win10 then ti_StandbyTripPoint Info else 0),
      ti_CriticalTripPoint = ti_CriticalTripPoint Info,
      ti_S4TripPoint = (if at_least_win8 r then ti_S4TripPoint Info else 0),
      ti_ActiveTripPointCount = ti_ActiveTripPointCount Info mod 256,
      ti_ActiveTripPoint = take MAX_ACTIVE_COOLING_LEVELS (ti_ActiveTripPoint Info),
      ti_MinimumThrottle = (if r = Win10 then ti_MinimumThrottle Info else 0),
      ti_OverThrottleThreshold = (if r = Win10 then ti_OverThrottleThreshold Info else 0),
      ti_Processors = (if at_least_win8 r then 0 else ti_Processors Info)\<rparr>"

abbreviation (input) STATUS_WMI_GUID_NOT_FOUND :: ntstatus where "STATUS_WMI_GUID_NOT_FOUND \<equiv> 0xC0000295"
abbreviation (input) UACPINT_THERMAL_WMI_DEFAULT_TEMP :: u32 where "UACPINT_THERMAL_WMI_DEFAULT_TEMP \<equiv> 2732"

record thermal_wmi =
  tw_ThermalStamp :: u32
  tw_ThermalConstant1 :: u32
  tw_ThermalConstant2 :: u32
  tw_SamplingPeriod :: u32
  tw_CurrentTemperature :: u32
  tw_PassiveTripPoint :: u32
  tw_CriticalTripPoint :: u32
  tw_ActiveTripPoint :: "u32 list"

text \<open>The status, the data block (76 bytes), the global stamp after it and the evaluations.\<close>

definition UacpiNtThermalQueryWmiDataBlock ::
    "firmware \<Rightarrow> acpi_node option \<Rightarrow> nat \<Rightarrow> nat \<Rightarrow> bool \<Rightarrow> u32 \<Rightarrow> fw_call list \<Rightarrow>
     ntstatus \<times> thermal_wmi option \<times> u32 \<times> fw_call list" where
  "UacpiNtThermalQueryWmiDataBlock F N GuidIndex BufferAvail Buffers Stamp log =
     (if GuidIndex \<noteq> 0 then (STATUS_WMI_GUID_NOT_FOUND, None, Stamp, log)
      else if BufferAvail < 76 \<or> \<not> Buffers then (STATUS_BUFFER_TOO_SMALL, None, Stamp, log)
      else
        let (tc1, log) = UacpiNtThermalEvalDefault F N ''_TC1'' 0 log;
            (tc2, log) = UacpiNtThermalEvalDefault F N ''_TC2'' 0 log;
            (tsp, log) = UacpiNtThermalEvalDefault F N ''_TSP'' 0 log;
            (tmp, log) = UacpiNtThermalEvalDefault F N ''_TMP'' UACPINT_THERMAL_WMI_DEFAULT_TEMP log;
            (psv, log) = UacpiNtThermalEvalDefault F N ''_PSV'' 0 log;
            (crt, log) = UacpiNtThermalEvalDefault F N ''_CRT'' 0 log;
            (trips, log) = UacpiNtThermalReadActiveTrips F N log
        in (STATUS_SUCCESS,
            Some \<lparr>tw_ThermalStamp = Stamp + 1, tw_ThermalConstant1 = tc1, tw_ThermalConstant2 = tc2, tw_SamplingPeriod = tsp,
              tw_CurrentTemperature = tmp, tw_PassiveTripPoint = psv, tw_CriticalTripPoint = crt, tw_ActiveTripPoint = trips\<rparr>,
            Stamp + 1, log))"

section \<open>Lemmas\<close>

lemma crossed_loop_iff:
  "crossed_loop ts Current Notified \<longleftrightarrow>
     (\<exists>t\<in>set ts. t \<noteq> 0 \<and> (Notified < t \<and> t \<le> Current \<or> Current \<le> t \<and> t < Notified))"
  by (induction ts) auto

lemma active_trips_bounded: "length (fst (active_trips_loop F N c n ts log)) \<le> length ts + n"
proof (induction n arbitrary: c ts log)
  case (Suc n)
  show ?case
    using Suc [of "Suc c" "ts @ [v]" for v] by (auto split: prod.split option.split)
qed simp

text \<open>Setting a device of a known node to a D state.\<close>

lemma SetDeviceState_state:
  assumes "UacpiNtPowerSetDeviceState F C st S = (s, C', S')" and "pd_Node C \<noteq> None" and "PowerDeviceD0 \<le> st" and "st \<le> PowerDeviceD3"
  shows "pd_Node C' = pd_Node C \<and> pd_DStateKnown C' \<and> pd_CurrentDState C' = st"
  using assms by (auto simp: UacpiNtPowerSetDeviceState_def Let_def split: prod.splits)

definition cools :: "firmware \<Rightarrow> acpi_node \<Rightarrow> fw_object list \<Rightarrow> acpi_node \<Rightarrow> bool" where
  "cools F Zone os d \<longleftrightarrow> (\<exists>ob\<in>set os. package_target F Zone ob = Some d)"

text \<open>A device object of the zone: it has a node, and it is in the state given.\<close>

definition in_state :: "coolers \<Rightarrow> acpi_node \<Rightarrow> device_power_state \<Rightarrow> bool" where
  "in_state Cs d st \<longleftrightarrow> (\<exists>C. Cs d = Some C \<and> pd_Node C \<noteq> None \<and> pd_DStateKnown C \<and> pd_CurrentDState C = st)"

definition has_cooler :: "coolers \<Rightarrow> acpi_node \<Rightarrow> bool" where
  "has_cooler Cs d \<longleftrightarrow> (\<exists>C. Cs d = Some C \<and> pd_Node C \<noteq> None)"

lemma cool_one_effect:
  assumes "has_cooler Cs d" and "st \<in> {PowerDeviceD0, PowerDeviceD3}" and "cool_one F Z st ob (Cs, S) = (Cs', S')"
  shows "if package_target F Z ob = Some d then in_state Cs' d st else Cs' d = Cs d"
proof (cases "package_target F Z ob")
  case None
  with assms show ?thesis by (simp add: cool_one_def)
next
  case (Some e)
  show ?thesis
  proof (cases "e = d")
    case True
    from assms(1) obtain C where C: "Cs d = Some C" "pd_Node C \<noteq> None" by (auto simp: has_cooler_def)
    obtain s C' S1 where p: "UacpiNtPowerSetDeviceState F C st S = (s, C', S1)" by (metis prod_cases3)
    have "pd_Node C' = pd_Node C \<and> pd_DStateKnown C' \<and> pd_CurrentDState C' = st"
      using SetDeviceState_state [OF p C(2)] assms(2) by auto
    with C p Some True assms(3) show ?thesis by (auto simp: cool_one_def in_state_def split: if_splits)
  next
    case False
    with Some assms(3) show ?thesis by (auto simp: cool_one_def split: option.splits if_splits prod.splits)
  qed
qed

lemma in_state_cooler: "in_state Cs d st \<Longrightarrow> has_cooler Cs d"
  by (auto simp: in_state_def has_cooler_def)

lemma ApplyActiveList_effect:
  assumes "has_cooler Cs d" and "st \<in> {PowerDeviceD0, PowerDeviceD3}" and "UacpiNtThermalApplyActiveList F Z os st (Cs, S) = (Cs', S')"
  shows "if cools F Z os d then in_state Cs' d st else Cs' d = Cs d"
  using assms(1,3) unfolding UacpiNtThermalApplyActiveList_def
proof (induction os arbitrary: Cs S)
  case Nil
  then show ?case by (simp add: cools_def)
next
  case (Cons ob os)
  obtain Cs1 S1 where c: "cool_one F Z st ob (Cs, S) = (Cs1, S1)" by fastforce
  note e = cool_one_effect [OF Cons.prems(1) assms(2) c]
  have h: "has_cooler Cs1 d" using e Cons.prems(1) in_state_cooler by (auto simp: has_cooler_def split: if_splits)
  from Cons.IH [OF h] Cons.prems(2) c have r: "if cools F Z os d then in_state Cs' d st else Cs' d = Cs1 d" by simp
  show ?case
  proof (cases "cools F Z os d")
    case True
    with r show ?thesis by (auto simp: cools_def)
  next
    case False
    with r e show ?thesis by (auto simp: cools_def in_state_def split: if_splits)
  qed
qed

lemma active_loop_effect:
  assumes "\<forall>log. \<forall>k<10. fw_package (fw_Eval F log (Z, ''_AL'' @ [digit k], [])) = (if k < length Ls then Some (Ls ! k) else None)"
    and "has_cooler Cs d" and "i + n \<le> 10" and "active_loop F Z L i n (Cs, S) = (Cs', S')"
  shows "(\<exists>k. i \<le> k \<and> k < i + n \<and> k < length Ls \<and> cools F Z (Ls ! k) d \<and>
      (\<forall>j. k < j \<and> j < i + n \<and> j < length Ls \<longrightarrow> \<not> cools F Z (Ls ! j) d) \<and>
      in_state Cs' d (if L \<le> k then PowerDeviceD0 else PowerDeviceD3)) \<or>
    (\<forall>k. i \<le> k \<and> k < i + n \<and> k < length Ls \<longrightarrow> \<not> cools F Z (Ls ! k) d) \<and> Cs' d = Cs d"
  using assms(2-)
proof (induction n arbitrary: i Cs S)
  case 0
  then show ?case by auto
next
  case (Suc n)
  define S1 where "S1 = snd (power_eval F (Z, ''_AL'' @ [digit i], []) S)"
  have ev: "power_eval F (Z, ''_AL'' @ [digit i], []) S = (fw_Eval F (pw_Log S) (Z, ''_AL'' @ [digit i], []), S1)"
    by (simp add: S1_def power_eval_def uacpi_eval_def split: prod.split)
  have pk: "fw_package (fw_Eval F (pw_Log S) (Z, ''_AL'' @ [digit i], [])) = (if i < length Ls then Some (Ls ! i) else None)"
    using assms(1) Suc.prems(2) by simp
  show ?case
  proof (cases "i < length Ls")
    case False
    with Suc.prems(3) ev pk show ?thesis by auto
  next
    case True
    let ?st = "if L \<le> i then PowerDeviceD0 else PowerDeviceD3"
    obtain Cs2 S2 where a: "UacpiNtThermalApplyActiveList F Z (Ls ! i) ?st (Cs, S1) = (Cs2, S2)" by fastforce
    have e: "if cools F Z (Ls ! i) d then in_state Cs2 d ?st else Cs2 d = Cs d"
      by (rule ApplyActiveList_effect [OF Suc.prems(1) _ a]) auto
    have h: "has_cooler Cs2 d" using e Suc.prems(1) in_state_cooler by (auto simp: has_cooler_def split: if_splits)
    have l: "active_loop F Z L (Suc i) n (Cs2, S2) = (Cs', S')" using Suc.prems(3) ev pk True a by simp
    have b: "Suc i + n \<le> 10" using Suc.prems(2) by simp
    from Suc.IH [OF h b l] show ?thesis
    proof (elim disjE exE conjE)
      fix k assume "Suc i \<le> k" "k < Suc i + n" "k < length Ls" "cools F Z (Ls ! k) d"
        "\<forall>j. k < j \<and> j < Suc i + n \<and> j < length Ls \<longrightarrow> \<not> cools F Z (Ls ! j) d"
        "in_state Cs' d (if L \<le> k then PowerDeviceD0 else PowerDeviceD3)"
      then show ?thesis by (intro disjI1 exI [of _ k]) auto
    next
      assume n: "\<forall>k. Suc i \<le> k \<and> k < Suc i + n \<and> k < length Ls \<longrightarrow> \<not> cools F Z (Ls ! k) d" and c: "Cs' d = Cs2 d"
      show ?thesis
      proof (cases "cools F Z (Ls ! i) d")
        case True
        with e c have "in_state Cs' d ?st" by (simp add: in_state_def)
        with True \<open>i < length Ls\<close> n show ?thesis by (intro disjI1 exI [of _ i]) auto
      next
        case False
        with e c have "Cs' d = Cs d" by simp
        moreover have "\<not> cools F Z (Ls ! k) d" if "i \<le> k" "k < i + Suc n" "k < length Ls" for k
          using n False that by (cases "k = i") auto
        ultimately show ?thesis by blast
      qed
    qed
  qed
qed

section \<open>Properties\<close>

lemma word32_top_minus: "(n::u32) \<le> 0xFFFFFFFF - d \<longleftrightarrow> unat n + unat d < 2 ^ 32"
proof -
  have m: "(0xFFFFFFFF :: u32) = - 1" by simp
  have d: "unat d < 4294967296" using unsigned_less [of d] by simp
  then have "unat (0xFFFFFFFF - d) = 2 ^ 32 - 1 - unat d" by (simp add: unat_sub_if_size word_size)
  with d show ?thesis by (auto simp: word_le_nat_alt)
qed

lemma moved_down: "(d::u32) < n \<and> c \<le> n - d \<longleftrightarrow> unat d < unat n \<and> unat c + unat d \<le> unat n"
  by (auto simp: word_le_nat_alt word_less_nat_alt unat_sub_if_size)

lemma moved_up: "(n::u32) \<le> 0xFFFFFFFF - d \<and> n + d \<le> c \<longleftrightarrow> unat n + unat d \<le> unat c"
proof -
  have c: "unat c < 2 ^ 32" using unsigned_less [of c] by simp
  have "unat (n + d) = unat n + unat d" if "unat n + unat d < 2 ^ 32" using that by (simp add: unat_add_nowrap)
  with c show ?thesis unfolding word32_top_minus by (auto simp: word_le_nat_alt)
qed

text \<open>
  A temperature that has left the one last notified: it is the platform's step or more away, or a trip
  point lies between the two.
\<close>

definition dti_due :: "u32 \<Rightarrow> u32 list \<Rightarrow> u32 \<Rightarrow> u32 \<Rightarrow> bool" where
  "dti_due Delta Trips Notified Current \<longleftrightarrow>
     Delta \<noteq> 0 \<and> uint Delta \<le> \<bar>uint Current - uint Notified\<bar> \<or>
     (\<exists>t\<in>set Trips. t \<noteq> 0 \<and> (Notified < t \<and> t \<le> Current \<or> Current \<le> t \<and> t < Notified))"

text \<open>The temperature _TMP answers, or the last one when it answers no integer.\<close>

definition temperature_read :: "firmware \<Rightarrow> acpi_node \<Rightarrow> fw_call list \<Rightarrow> u32 \<Rightarrow> u32" where
  "temperature_read F n log Last =
     (case fw_Eval F log (n, ''_TMP'', []) of Some (Some (OInteger v)) \<Rightarrow> ucast v | _ \<Rightarrow> Last)"

text \<open>A fall by the step is seen unless it ends at absolute zero.\<close>

lemma step_distance:
  assumes "Current \<noteq> (0::u32)" and "Delta \<noteq> (0::u32)"
  shows "Delta < Notified \<and> Current \<le> Notified - Delta \<or> Notified \<le> 0xFFFFFFFF - Delta \<and> Notified + Delta \<le> Current \<longleftrightarrow>
    uint Delta \<le> \<bar>uint Current - uint Notified\<bar>"
proof -
  have "0 < unat Current" "0 < unat Delta" using assms by (simp_all add: unat_gt_0)
  then show ?thesis unfolding moved_down moved_up uint_nat by linarith
qed

lemma CheckDti_eq:
  assumes "tz_Node Z = Some n" and "UacpiNtNodeHasChild (te_Fw E) (Some n) ''_DTI''" and "te_Objects E"
    and "ti_CurrentTemperature (tz_Info Z) \<noteq> 0"
  shows "UacpiNtThermalCheckDti E Z log =
    (let C = ti_CurrentTemperature (tz_Info Z)
     in if \<not> tz_DtiArmed Z \<or> dti_due (tz_TripDelta Z) (trip_points (te_Release E) (tz_Info Z)) (tz_NotifiedTemperature Z) C
        then (Z\<lparr>tz_NotifiedTemperature := C, tz_DtiArmed := True\<rparr>, log @ [(n, ''_DTI'', [ucast C])])
        else (Z, log))"
proof -
  show ?thesis
  proof (cases "tz_TripDelta Z = 0")
    case True
    with assms(1-3) show ?thesis
      by (auto simp: UacpiNtThermalCheckDti_def UacpiNtThermalCallWithInteger_def uacpi_eval_def Let_def dti_due_def
          UacpiNtThermalCrossedTrip_def crossed_loop_iff)
  next
    case False
    with assms(1-3) show ?thesis
      by (auto simp: UacpiNtThermalCheckDti_def UacpiNtThermalCallWithInteger_def uacpi_eval_def Let_def dti_due_def
          UacpiNtThermalCrossedTrip_def crossed_loop_iff step_distance [OF assms(4) False, symmetric])
  qed
qed

lemma dti_due_refl: "\<not> dti_due Delta Trips t t"
  by (auto simp: dti_due_def uint_0_iff not_le order.order_iff_strict)

lemma ReadTemperature_eq:
  assumes "tz_Node Z = Some n" and "at_least_win8 (te_Release E)"
  shows "UacpiNtThermalReadTemperature E Z log =
    (let I = (tz_Info Z)\<lparr>ti_ThermalStamp := ti_ThermalStamp (tz_Info Z) + 1,
           ti_CurrentTemperature := temperature_read (te_Fw E) n log (ti_CurrentTemperature (tz_Info Z))\<rparr>
     in UacpiNtThermalCheckDti E (Z\<lparr>tz_Info := I\<rparr>) (log @ [(n, ''_TMP'', [])]))"
  using assms
  by (auto simp: UacpiNtThermalReadTemperature_def UacpiNtThermalEvalInteger_def uacpi_eval_simple_integer_def uacpi_eval_def Let_def
      temperature_read_def split: option.splits fw_object.splits)


text \<open>A zone at 300.0 K whose platform step is 2 K and whose passive trip point is at 305.0 K.\<close>

definition demo_zone :: "u32 \<Rightarrow> thermal_zone" where
  "demo_zone t = \<lparr>tz_Node = Some 7, tz_DtiArmed = True, tz_TripDelta = 20, tz_NotifiedTemperature = 3000, tz_DsmFunctions = 0,
     tz_Description = None,
     tz_Info = \<lparr>ti_ThermalStamp = 4, ti_ThermalConstant1 = 0, ti_ThermalConstant2 = 0, ti_SamplingPeriod = 0,
       ti_CurrentTemperature = t, ti_PassiveTripPoint = 3050, ti_StandbyTripPoint = 0, ti_CriticalTripPoint = 3700,
       ti_S4TripPoint = 0, ti_ActiveTripPointCount = 0, ti_ActiveTripPoint = replicate 10 0, ti_MinimumThrottle = 0,
       ti_OverThrottleThreshold = 0, ti_Processors = 0\<rparr>\<rparr>"

definition demo_thermal_fw :: "u64 \<Rightarrow> firmware" where
  "demo_thermal_fw t =
     \<lparr>fw_Eval = (\<lambda>log c. case c of (n, m, a) \<Rightarrow>
          if m = ''_TMP'' then Some (Some (OInteger t))
          else if m = ''_AL0'' then Some (Some (OPackage [ONamepath ''FAN0'', ONamepath ''FAN1'']))
          else if m = ''_AL1'' then Some (Some (OPackage [ONamepath ''FAN0''])) else None),
      fw_Resolve = (\<lambda>n p. if p = ''FAN0'' then Some 20 else if p = ''FAN1'' then Some 21 else None),
      fw_Child = (\<lambda>n c. n = 7 \<and> c = ''_DTI''), fw_Root = 1, fw_PowerNodes = []\<rparr>"

definition demo_thermal_env :: "u64 \<Rightarrow> thermal_env" where
  "demo_thermal_env t = \<lparr>te_Fw = demo_thermal_fw t, te_Release = Win10, te_Dsm = (\<lambda>log f. None), te_Str = (\<lambda>log. None),
     te_Objects = True, te_Pool = True, te_ActiveProcessors = 0\<rparr>"


text \<open>The levels, of those with a method, whose lists name a device.\<close>

definition levels_of :: "firmware \<Rightarrow> acpi_node \<Rightarrow> fw_object list list \<Rightarrow> acpi_node \<Rightarrow> nat list" where
  "levels_of F Z Ls d = filter (\<lambda>k. cools F Z (Ls ! k) d) [0..<min 10 (length Ls)]"

lemma levels_of_last:
  assumes "k < 10" and "k < length Ls" and "cools F Z (Ls ! k) d" and "\<And>j. k < j \<Longrightarrow> j < 10 \<Longrightarrow> j < length Ls \<Longrightarrow> \<not> cools F Z (Ls ! j) d"
  shows "levels_of F Z Ls d \<noteq> []" and "last (levels_of F Z Ls d) = k"
proof -
  have "[0..<min 10 (length Ls)] = [0..<k] @ k # [Suc k..<min 10 (length Ls)]"
    using assms(1,2) upt_add_eq_append [of 0 k "min 10 (length Ls) - k"] upt_conv_Cons [of k "min 10 (length Ls)"] by simp
  moreover have "filter (\<lambda>k. cools F Z (Ls ! k) d) [Suc k..<min 10 (length Ls)] = []"
    using assms(4) by (auto simp: filter_empty_conv)
  ultimately have "levels_of F Z Ls d = filter (\<lambda>k. cools F Z (Ls ! k) d) [0..<k] @ [k]"
    using assms(3) by (simp add: levels_of_def)
  then show "levels_of F Z Ls d \<noteq> []" "last (levels_of F Z Ls d) = k" by simp_all
qed

text \<open>
  C35: Active cooling at a level, for a zone whose _ALx return the lists \<open>Ls\<close>: a cooling device named by
  some list ends in D0 when the last list that names it has an index of at least the level and in D3
  otherwise; a device no list names keeps its state.
\<close>

theorem Thermal_active_levels:
  assumes "\<forall>log. \<forall>k<10. fw_package (fw_Eval F log (Z, ''_AL'' @ [digit k], [])) = (if k < length Ls then Some (Ls ! k) else None)"
    and "has_cooler Cs d" and "UacpiNtThermalRunActive F Z Level (Cs, S) = (Cs', S')"
  shows "if levels_of F Z Ls d = [] then Cs' d = Cs d
         else in_state Cs' d (if unat Level \<le> last (levels_of F Z Ls d) then PowerDeviceD0 else PowerDeviceD3)"
proof -
  have l: "active_loop F Z (unat Level) 0 10 (Cs, S) = (Cs', S')" using assms(3) by (simp add: UacpiNtThermalRunActive_def)
  consider (named) k where "k < 10" "k < length Ls" "cools F Z (Ls ! k) d"
      "\<And>j. k < j \<Longrightarrow> j < 10 \<Longrightarrow> j < length Ls \<Longrightarrow> \<not> cools F Z (Ls ! j) d" "in_state Cs' d (if unat Level \<le> k then PowerDeviceD0 else PowerDeviceD3)"
    | (none) "\<And>k. k < 10 \<Longrightarrow> k < length Ls \<Longrightarrow> \<not> cools F Z (Ls ! k) d" "Cs' d = Cs d"
    using active_loop_effect [OF assms(1,2) _ l] by auto
  then show ?thesis
  proof cases
    case named
    from levels_of_last [OF named(1-4)] named(5) show ?thesis by simp
  next
    case none
    then have "levels_of F Z Ls d = []" by (auto simp: levels_of_def filter_empty_conv)
    with none(2) show ?thesis by simp
  qed
qed

definition demo_cooler :: "acpi_node \<Rightarrow> power_pdo" where
  "demo_cooler n = \<lparr>pd_Node = Some n, pd_HeldResources = [], pd_CurrentDState = PowerDeviceD3, pd_DStateKnown = True,
     pd_CapsMap = no_caps, pd_CapsMapDone = False\<rparr>"

text \<open>At level 1 the fan that both lists name runs, the one only _AL0 names does not.\<close>

theorem Thermal_active_levels_witness:
  "in_state (fst (UacpiNtThermalRunActive (demo_thermal_fw 3000) 7 1 ([20 \<mapsto> demo_cooler 20, 21 \<mapsto> demo_cooler 21], demo_power))) 20 PowerDeviceD0 \<and>
   in_state (fst (UacpiNtThermalRunActive (demo_thermal_fw 3000) 7 1 ([20 \<mapsto> demo_cooler 20, 21 \<mapsto> demo_cooler 21], demo_power))) 21 PowerDeviceD3"
proof -
  let ?F = "demo_thermal_fw 3000" and ?Ls = "[[ONamepath ''FAN0'', ONamepath ''FAN1''], [ONamepath ''FAN0'']]"
    and ?Cs = "[20 \<mapsto> demo_cooler 20, 21 \<mapsto> demo_cooler 21]"
  have l: "\<forall>log. \<forall>k<10. fw_package (fw_Eval ?F log (7, ''_AL'' @ [digit k], [])) = (if k < length ?Ls then Some (?Ls ! k) else None)"
  proof (intro allI impI)
    fix log and k :: nat
    assume "k < 10"
    then have "k \<in> {0, 1, 2, 3, 4, 5, 6, 7, 8, 9}" by auto
    then show "fw_package (fw_Eval ?F log (7, ''_AL'' @ [digit k], [])) = (if k < length ?Ls then Some (?Ls ! k) else None)"
      by (elim insertE emptyE) (simp_all add: demo_thermal_fw_def fw_package_def digit_def char_of_def bit_0)
  qed
  have c: "has_cooler ?Cs 20" "has_cooler ?Cs 21" by (simp_all add: has_cooler_def demo_cooler_def)
  have v: "levels_of ?F 7 ?Ls 20 = [0, 1]" "levels_of ?F 7 ?Ls 21 = [0]"
    by (auto simp: levels_of_def cools_def package_target_def demo_thermal_fw_def upt_rec)
  note t = Thermal_active_levels [OF l, OF _ prod.collapse [symmetric], where Level = 1 and S = demo_power]
  from t [OF c(1)] t [OF c(2)] v show ?thesis by simp
qed

end
