(* ===== verification/Irp_Queue.thy ===== *)
theory Irp_Queue
  imports Nt_Prelude
begin

text \<open>
  Queues of pending requests that can be cancelled. The I/O manager takes the cancel routine of a request
  and runs it, concurrently to the driver; whoever gets the routine (IoSetCancelRoutine returns it) owns
  the request. The class drivers queue requests under a spin lock, so each of their functions is one step
  on the pool, and the cancel routine's own locked part another.
\<close>

section \<open>Requests\<close>

text \<open>
  The requests handed to the driver, the queue, the requests whose cancel routine is set, those whose
  cancel routine was taken by the I/O manager and has not run yet, and the completions in order.
\<close>

record irp_pool =
  iq_Started :: "nat set"
  iq_Queue :: "nat list"
  iq_Armed :: "nat set"
  iq_Cancelling :: "nat set"
  iq_Done :: "(nat \<times> ntstatus) list"

abbreviation (input) STATUS_CANCELLED :: ntstatus where "STATUS_CANCELLED \<equiv> 0xC0000120"
abbreviation (input) STATUS_PENDING :: ntstatus where "STATUS_PENDING \<equiv> 0x103"
abbreviation (input) STATUS_DELETE_PENDING :: ntstatus where "STATUS_DELETE_PENDING \<equiv> 0xC0000056"

definition complete_irp :: "nat \<Rightarrow> ntstatus \<Rightarrow> irp_pool \<Rightarrow> irp_pool" where
  "complete_irp i Status q = q\<lparr>iq_Done := iq_Done q @ [(i, Status)]\<rparr>"

text \<open>IoSetCancelRoutine (Irp, NULL): whether there was a routine.\<close>

definition clear_cancel :: "nat \<Rightarrow> irp_pool \<Rightarrow> bool \<times> irp_pool" where
  "clear_cancel i q = (i \<in> iq_Armed q, q\<lparr>iq_Armed := iq_Armed q - {i}\<rparr>)"

text \<open>IoCancelIrp up to the call of the routine.\<close>

definition cancel_request :: "nat \<Rightarrow> irp_pool \<Rightarrow> irp_pool" where
  "cancel_request i q =
     (if i \<in> iq_Armed q then q\<lparr>iq_Armed := iq_Armed q - {i}, iq_Cancelling := insert i (iq_Cancelling q)\<rparr> else q)"

text \<open>
  The common body of the drivers' cancel routines: unlink the request under the lock and complete it.
  Unlinking a request that was left linked to itself does nothing.
\<close>

definition cancel_routine :: "nat \<Rightarrow> irp_pool \<Rightarrow> irp_pool" where
  "cancel_routine i q =
     complete_irp i STATUS_CANCELLED (q\<lparr>iq_Cancelling := iq_Cancelling q - {i}, iq_Queue := removeAll i (iq_Queue q)\<rparr>)"

text \<open>
  Queueing a request that can be cancelled. It may have been cancelled before its routine was set, or
  after that and before the driver looked at its cancel flag.
\<close>

datatype cancel_timing = NotCancelled | CancelledBefore | CancelledMeanwhile

definition queue_cancellable :: "cancel_timing \<Rightarrow> nat \<Rightarrow> irp_pool \<Rightarrow> ntstatus \<times> irp_pool" where
  "queue_cancellable timing i q =
     (let q = q\<lparr>iq_Armed := insert i (iq_Armed q)\<rparr>;
          q = (if timing = CancelledMeanwhile then cancel_request i q else q);
          (owned, q) = (if timing \<noteq> NotCancelled then clear_cancel i q else (False, q))
      in if owned then (STATUS_CANCELLED, complete_irp i STATUS_CANCELLED q)
         else (STATUS_PENDING, q\<lparr>iq_Queue := iq_Queue q @ [i]\<rparr>))"

definition start_irp :: "nat \<Rightarrow> irp_pool \<Rightarrow> irp_pool" where
  "start_irp i q = q\<lparr>iq_Started := insert i (iq_Started q)\<rparr>"

definition empty_pool :: irp_pool where
  "empty_pool = \<lparr>iq_Started = {}, iq_Queue = [], iq_Armed = {}, iq_Cancelling = {}, iq_Done = []\<rparr>"

section \<open>Invariant\<close>

text \<open>
  Every request is either pending (queued or being cancelled) or was completed once; \<open>held\<close> are requests
  a running function of the driver has in hand.
\<close>

definition pool_inv :: "nat set \<Rightarrow> irp_pool \<Rightarrow> bool" where
  "pool_inv held q \<longleftrightarrow> distinct (iq_Queue q) \<and> iq_Armed q \<subseteq> set (iq_Queue q) \<and> iq_Armed q \<inter> iq_Cancelling q = {} \<and>
     distinct (map fst (iq_Done q)) \<and>
     iq_Started q = set (iq_Queue q) \<union> iq_Cancelling q \<union> fst ` set (iq_Done q) \<union> held \<and>
     held \<inter> (set (iq_Queue q) \<union> iq_Cancelling q \<union> fst ` set (iq_Done q)) = {} \<and>
     (set (iq_Queue q) \<union> iq_Cancelling q) \<inter> fst ` set (iq_Done q) = {}"

lemma pool_inv_empty: "pool_inv {} empty_pool"
  by (simp add: pool_inv_def empty_pool_def)

lemma pool_start: "pool_inv {} q \<Longrightarrow> i \<notin> iq_Started q \<Longrightarrow> pool_inv {i} (start_irp i q)"
  by (auto simp: pool_inv_def start_irp_def)

lemma pool_complete: "pool_inv (insert i held) q \<Longrightarrow> i \<notin> held \<Longrightarrow> pool_inv held (complete_irp i st q)"
  by (auto simp: pool_inv_def complete_irp_def)

lemma pool_queue:
  assumes "pool_inv {i} q"
  shows "pool_inv {} (snd (queue_cancellable timing i q))"
  using assms by (cases timing) (auto simp: pool_inv_def queue_cancellable_def cancel_request_def clear_cancel_def complete_irp_def)

lemma pool_append: "pool_inv {i} q \<Longrightarrow> pool_inv {} (q\<lparr>iq_Queue := iq_Queue q @ [i]\<rparr>)"
  by (auto simp: pool_inv_def)

lemma pool_cancel: "pool_inv held q \<Longrightarrow> pool_inv held (cancel_request i q)"
  by (auto simp: pool_inv_def cancel_request_def)

lemma pool_cancel_routine: "pool_inv {} q \<Longrightarrow> i \<in> iq_Cancelling q \<Longrightarrow> pool_inv {} (cancel_routine i q)"
  by (auto simp: pool_inv_def cancel_routine_def complete_irp_def distinct_removeAll)

lemma pool_armed:
  assumes "pool_inv held q" and "i \<in> iq_Armed q"
  shows "i \<in> set (iq_Queue q) \<and> i \<notin> iq_Cancelling q"
proof -
  have "iq_Armed q \<subseteq> set (iq_Queue q)" "iq_Armed q \<inter> iq_Cancelling q = {}" using assms(1) by (simp_all add: pool_inv_def)
  with assms(2) show ?thesis by blast
qed

text \<open>Taking requests with a cancel routine off the queue.\<close>

definition take_irp :: "nat \<Rightarrow> irp_pool \<Rightarrow> irp_pool" where
  "take_irp i q = q\<lparr>iq_Armed := iq_Armed q - {i}, iq_Queue := remove1 i (iq_Queue q)\<rparr>"

lemma pool_take:
  "pool_inv held q \<Longrightarrow> i \<in> set (iq_Queue q) \<Longrightarrow> i \<notin> iq_Cancelling q \<Longrightarrow> pool_inv (insert i held) (take_irp i q)"
  by (auto simp: pool_inv_def take_irp_def)

lemma pool_unlink:
  assumes "pool_inv {} q" and "i \<in> iq_Cancelling q"
  shows "pool_inv {} (q\<lparr>iq_Queue := remove1 i (iq_Queue q)\<rparr>)"
proof -
  have "distinct (iq_Queue q)" and a: "iq_Armed q \<subseteq> set (iq_Queue q)" "iq_Armed q \<inter> iq_Cancelling q = {}"
    using assms(1) by (simp_all add: pool_inv_def)
  then have r: "set (remove1 i (iq_Queue q)) = set (iq_Queue q) - {i}" "distinct (remove1 i (iq_Queue q))" by simp_all
  have u: "set (iq_Queue q) - {i} \<union> iq_Cancelling q = set (iq_Queue q) \<union> iq_Cancelling q" using assms(2) by blast
  have "iq_Armed q \<subseteq> set (iq_Queue q) - {i}" using a assms(2) by blast
  with assms(1) show ?thesis by (simp add: pool_inv_def r u)
qed

text \<open>Completed once, and pending otherwise.\<close>

definition completions :: "nat \<Rightarrow> irp_pool \<Rightarrow> nat" where
  "completions i q = length (filter (\<lambda>d. fst d = i) (iq_Done q))"

lemma distinct_filter_key: "distinct (map f xs) \<Longrightarrow> length (filter (\<lambda>x. f x = i) xs) \<le> 1"
  by (induction xs) (auto simp: filter_empty_conv image_iff)

lemma completions_once:
  assumes "pool_inv {} q"
  shows "completions i q \<le> 1" and "i \<in> iq_Started q \<Longrightarrow> completions i q = 0 \<longleftrightarrow> i \<in> set (iq_Queue q) \<union> iq_Cancelling q"
proof -
  have "distinct (map fst (iq_Done q))" using assms by (simp add: pool_inv_def)
  then show "completions i q \<le> 1" unfolding completions_def by (rule distinct_filter_key)
  have "completions i q = 0 \<longleftrightarrow> i \<notin> fst ` set (iq_Done q)" by (auto simp: completions_def filter_empty_conv)
  then show "i \<in> iq_Started q \<Longrightarrow> completions i q = 0 \<longleftrightarrow> i \<in> set (iq_Queue q) \<union> iq_Cancelling q"
    using assms by (auto simp: pool_inv_def)
qed

end
