(* ===== verification/Thermal_Requests.thy ===== *)
theory Thermal_Requests
  imports Thermal_Zone Irp_Queue
begin

text \<open>
  The requests of the kernel's thermal manager (drivers/thermal.c): control requests are queued under the
  zone's lock, one worker evaluates the firmware and completes them. Sizes are those of a 64-bit build.
  Each locked section is one step, and so is the worker's run of firmware methods between two of them:
  what that run writes is read elsewhere only under the lock (the stamp) or by the worker.
\<close>

section \<open>State\<close>

datatype thermal_ioctl =
    IOCTL_THERMAL_QUERY_INFORMATION | IOCTL_THERMAL_SET_COOLING_POLICY | IOCTL_RUN_ACTIVE_COOLING_METHOD
  | IOCTL_THERMAL_SET_PASSIVE_LIMIT | IOCTL_UACPINT_THERMAL_DESCRIPTION | OtherIoctl

text \<open>A request: its input stamp or byte, by its code.\<close>

record thermal_request =
  rq_Code :: thermal_ioctl
  rq_KernelMode :: bool
  rq_InputLength :: nat
  rq_OutputLength :: nat
  rq_Buffer :: bool
  rq_Stamp :: u32
  rq_Byte :: u8

text \<open>What a completed request carries.\<close>

datatype thermal_output = QueryData thermal_info | Description "u16 list option" | NoData

text \<open>A worker: at the top of its loop, with work taken, or with the queued requests still to complete.\<close>

datatype worker = WTop | WBusy u32 u8 u8 | WComplete

text \<open>
  \<open>th_Callers\<close> are callers told to queue the worker that have not done it, \<open>th_Items\<close> the queued work items,
  \<open>th_Stopping\<close> the stops that have still to complete the queue, \<open>th_Failed\<close> that a work item could not be
  allocated since the worker was last asked for.
\<close>

record thermal =
  th_Zone :: thermal_zone
  th_Coolers :: coolers
  th_Power :: power_state
  th_Irps :: irp_pool
  th_Request :: "nat \<Rightarrow> thermal_request"
  th_Out :: "(nat \<times> thermal_output) list"
  th_Work :: u32
  th_Active :: bool
  th_Running :: bool
  th_Delivered :: bool
  th_CoolingPolicy :: u8
  th_FanLevel :: u8
  th_ThrottleLimit :: u8
  th_Callers :: nat
  th_Items :: nat
  th_Workers :: "worker list"
  th_Stopping :: nat
  th_Failed :: bool

abbreviation (input) WORK_INIT :: u32 where "WORK_INIT \<equiv> 0x01"
abbreviation (input) WORK_POLICY :: u32 where "WORK_POLICY \<equiv> 0x02"
abbreviation (input) WORK_TRIPS :: u32 where "WORK_TRIPS \<equiv> 0x04"
abbreviation (input) WORK_ACTIVE :: u32 where "WORK_ACTIVE \<equiv> 0x08"
abbreviation (input) WORK_TEMPERATURE :: u32 where "WORK_TEMPERATURE \<equiv> 0x10"
abbreviation (input) WORK_COMPLETE :: u32 where "WORK_COMPLETE \<equiv> 0x20"
abbreviation (input) WORK_ALL :: u32 where "WORK_ALL \<equiv> 0x3F"

abbreviation (input) STATUS_NO_SUCH_DEVICE :: ntstatus where "STATUS_NO_SUCH_DEVICE \<equiv> 0xC000000E"

section \<open>Completion\<close>

fun complete_scan :: "(nat \<Rightarrow> bool) \<Rightarrow> nat list \<Rightarrow> irp_pool \<Rightarrow> nat list \<times> bool \<times> irp_pool" where
  "complete_scan query [] q = ([], False, q)"
| "complete_scan query (Irp # Irps) q =
     (if query Irp \<and> \<not> fst (clear_cancel Irp q) then complete_scan query Irps q
      else
        let q = (if query Irp then snd (clear_cancel Irp q) else q);
            (Completed, HadQuery, q) = complete_scan query Irps (q\<lparr>iq_Queue := remove1 Irp (iq_Queue q)\<rparr>)
        in (Irp # Completed, query Irp \<or> HadQuery, q))"

definition request_output :: "thermal_env \<Rightarrow> bool \<Rightarrow> thermal_zone \<Rightarrow> thermal_info \<Rightarrow> thermal_ioctl \<Rightarrow> thermal_output" where
  "request_output E pool Zone Snapshot Code =
     (case Code of
        IOCTL_THERMAL_QUERY_INFORMATION \<Rightarrow> QueryData (UacpiNtThermalFillQuery (te_Release E) Snapshot)
      | IOCTL_UACPINT_THERMAL_DESCRIPTION \<Rightarrow>
          if te_Release E = Win10 then Description (UacpiNtThermalCopyDescription pool Zone) else NoData
      | _ \<Rightarrow> NoData)"

text \<open>\<open>pool i\<close>: whether the copy of the description for request \<open>i\<close> can be allocated.\<close>

definition UacpiNtThermalCompleteIrps :: "thermal_env \<Rightarrow> (nat \<Rightarrow> bool) \<Rightarrow> thermal \<Rightarrow> thermal" where
  "UacpiNtThermalCompleteIrps E pool T =
     (let code = (\<lambda>i. rq_Code (th_Request T i));
          (Completed, HadQuery, q) = complete_scan (\<lambda>i. code i = IOCTL_THERMAL_QUERY_INFORMATION) (iq_Queue (th_Irps T)) (th_Irps T);
          T = (if HadQuery then T\<lparr>th_Delivered := True\<rparr> else T);
          Snapshot = tz_Info (th_Zone T)
      in T\<lparr>th_Irps := fold (\<lambda>i. complete_irp i STATUS_SUCCESS) Completed q,
           th_Out := th_Out T @ map (\<lambda>i. (i, request_output E (pool i) (th_Zone T) Snapshot (code i))) Completed\<rparr>)"

section \<open>Worker\<close>

definition on_log :: "(fw_call list \<Rightarrow> thermal_zone \<times> fw_call list) \<Rightarrow> power_state \<Rightarrow> thermal_zone \<times> power_state" where
  "on_log f S = (let (Z, log) = f (pw_Log S) in (Z, S\<lparr>pw_Log := log\<rparr>))"

text \<open>The steps of one pass, in their order. A thermal zone is created for a node of the namespace.\<close>

definition worker_steps ::
    "thermal_env \<Rightarrow> u32 \<Rightarrow> u8 \<Rightarrow> u8 \<Rightarrow> thermal_zone \<times> coolers \<times> power_state \<Rightarrow> thermal_zone \<times> coolers \<times> power_state" where
  "worker_steps E Work CoolingPolicy FanLevel w =
     (case w of (Z, Cs, S) \<Rightarrow>
        let Work = (if at_least_win8 (te_Release E) \<and> Work AND (WORK_INIT OR WORK_TRIPS OR WORK_ACTIVE) \<noteq> 0
                    then Work OR WORK_TEMPERATURE else Work);
            (Z, S) = (if Work AND WORK_INIT \<noteq> 0 then on_log (UacpiNtThermalInit E Z) S else (Z, S));
            S = (if Work AND WORK_POLICY \<noteq> 0
                 then S\<lparr>pw_Log := UacpiNtThermalCallWithInteger E (tz_Node Z) ''_SCP'' (ucast CoolingPolicy) (pw_Log S)\<rparr> else S);
            (Z, S) = (if Work AND WORK_TRIPS \<noteq> 0 then on_log (UacpiNtThermalReadTrips E Z) S else (Z, S));
            (Cs, S) = (if Work AND WORK_ACTIVE \<noteq> 0
                       then (case tz_Node Z of None \<Rightarrow> (Cs, S) | Some n \<Rightarrow> UacpiNtThermalRunActive (te_Fw E) n FanLevel (Cs, S))
                       else (Cs, S));
            (Z, S) = (if Work AND WORK_TEMPERATURE \<noteq> 0 then on_log (UacpiNtThermalReadTemperature E Z) S else (Z, S))
        in (Z, Cs, S))"

text \<open>One step of the loop: taking the work, doing it, completing the queue; no worker is left when it ends.\<close>

definition UacpiNtThermalWorker :: "thermal_env \<Rightarrow> (nat \<Rightarrow> bool) \<Rightarrow> worker \<Rightarrow> thermal \<Rightarrow> worker option \<times> thermal" where
  "UacpiNtThermalWorker E pool w T =
     (case w of
        WTop \<Rightarrow>
          let Work = th_Work T; T = T\<lparr>th_Work := 0\<rparr>
          in if Work = 0 then (None, T\<lparr>th_Running := False\<rparr>)
             else (Some (WBusy Work (th_CoolingPolicy T) (th_FanLevel T)), T)
      | WBusy Work CoolingPolicy FanLevel \<Rightarrow>
          (case worker_steps E Work CoolingPolicy FanLevel (th_Zone T, th_Coolers T, th_Power T) of
             (Z, Cs, S) \<Rightarrow>
               (Some (if Work AND WORK_COMPLETE \<noteq> 0 then WComplete else WTop),
                T\<lparr>th_Zone := Z, th_Coolers := Cs, th_Power := S\<rparr>))
      | WComplete \<Rightarrow> (Some WTop, UacpiNtThermalCompleteIrps E pool T))"

section \<open>Requests\<close>

text \<open>Whether the caller must queue the worker.\<close>

definition UacpiNtThermalAddWork :: "u32 \<Rightarrow> thermal \<Rightarrow> bool \<times> thermal" where
  "UacpiNtThermalAddWork Work T =
     (let T = (if Work AND WORK_COMPLETE \<noteq> 0 then T\<lparr>th_Delivered := False\<rparr> else T);
          T = T\<lparr>th_Work := th_Work T OR Work\<rparr>
      in if th_Work T = 0 \<or> th_Running T then (False, T) else (True, T\<lparr>th_Running := True\<rparr>))"

text \<open>The call to queue the worker is made after the lock is released: a caller of its own until then.\<close>

definition add_caller :: "bool \<times> thermal \<Rightarrow> thermal" where
  "add_caller r = (case r of (QueueWorker, T) \<Rightarrow> if QueueWorker then T\<lparr>th_Callers := Suc (th_Callers T), th_Failed := False\<rparr> else T)"

definition UacpiNtThermalQueueWorker :: "bool \<Rightarrow> thermal \<Rightarrow> thermal" where
  "UacpiNtThermalQueueWorker allocated T =
     (if allocated then T\<lparr>th_Items := Suc (th_Items T)\<rparr> else T\<lparr>th_Running := False, th_Failed := True\<rparr>)"

definition UacpiNtThermalKick :: "u32 \<Rightarrow> thermal \<Rightarrow> thermal" where
  "UacpiNtThermalKick Work T = (if th_Active T then add_caller (UacpiNtThermalAddWork Work T) else T)"

definition UacpiNtThermalCancel :: "nat \<Rightarrow> thermal \<Rightarrow> thermal" where
  "UacpiNtThermalCancel Irp T = T\<lparr>th_Irps := cancel_routine Irp (th_Irps T)\<rparr>"

definition UacpiNtThermalRequestSizes :: "release \<Rightarrow> thermal_ioctl \<Rightarrow> (nat \<times> nat) option" where
  "UacpiNtThermalRequestSizes r Code =
     (case Code of
        IOCTL_THERMAL_QUERY_INFORMATION \<Rightarrow> Some (4, if r = Win8 then 76 else 88)
      | IOCTL_THERMAL_SET_COOLING_POLICY \<Rightarrow> Some (1, 0)
      | IOCTL_RUN_ACTIVE_COOLING_METHOD \<Rightarrow> Some (1, 0)
      | IOCTL_THERMAL_SET_PASSIVE_LIMIT \<Rightarrow> if at_least_win8 r then Some (1, 0) else None
      | IOCTL_UACPINT_THERMAL_DESCRIPTION \<Rightarrow> if r = Win10 then Some (0, 16) else None
      | OtherIoctl \<Rightarrow> None)"

definition thermal_complete :: "nat \<Rightarrow> ntstatus \<Rightarrow> thermal \<Rightarrow> bool \<times> ntstatus \<times> thermal" where
  "thermal_complete Irp Status T = (True, Status, T\<lparr>th_Irps := complete_irp Irp Status (th_Irps T)\<rparr>)"

text \<open>The work of a request, with the value it brings recorded.\<close>

definition request_work :: "thermal_request \<Rightarrow> thermal \<Rightarrow> u32 \<times> thermal" where
  "request_work Rq T =
     (case rq_Code Rq of
        IOCTL_THERMAL_QUERY_INFORMATION \<Rightarrow>
          (if rq_Stamp Rq \<noteq> ti_ThermalStamp (tz_Info (th_Zone T)) then WORK_TEMPERATURE OR WORK_COMPLETE
           else if \<not> th_Delivered T then WORK_COMPLETE else 0, T)
      | IOCTL_THERMAL_SET_COOLING_POLICY \<Rightarrow> (WORK_POLICY OR WORK_TRIPS OR WORK_COMPLETE, T\<lparr>th_CoolingPolicy := rq_Byte Rq\<rparr>)
      | IOCTL_RUN_ACTIVE_COOLING_METHOD \<Rightarrow> (WORK_ACTIVE OR WORK_COMPLETE, T\<lparr>th_FanLevel := rq_Byte Rq\<rparr>)
      | IOCTL_THERMAL_SET_PASSIVE_LIMIT \<Rightarrow> (WORK_TEMPERATURE OR WORK_COMPLETE, T\<lparr>th_ThrottleLimit := rq_Byte Rq\<rparr>)
      | _ \<Rightarrow> (WORK_COMPLETE, T))"

text \<open>A request put on the queue: the pool afterwards, whether it was cancelled before.\<close>

definition enqueue :: "cancel_timing \<Rightarrow> nat \<Rightarrow> thermal_request \<Rightarrow> irp_pool \<Rightarrow> ntstatus \<times> irp_pool" where
  "enqueue timing Irp Rq q =
     (if rq_Code Rq = IOCTL_THERMAL_QUERY_INFORMATION then queue_cancellable timing Irp q
      else (STATUS_PENDING, q\<lparr>iq_Queue := iq_Queue q @ [Irp]\<rparr>))"

text \<open>Handled, the status returned; a request that is not handled stays with the caller.\<close>

definition UacpiNtThermalDeviceControl ::
    "release \<Rightarrow> cancel_timing \<Rightarrow> nat \<Rightarrow> thermal_request \<Rightarrow> thermal \<Rightarrow> bool \<times> ntstatus \<times> thermal" where
  "UacpiNtThermalDeviceControl r timing Irp Rq T =
     (case UacpiNtThermalRequestSizes r (rq_Code Rq) of
        None \<Rightarrow> (False, STATUS_NOT_SUPPORTED, T)
      | Some (InputSize, OutputSize) \<Rightarrow>
          let T = T\<lparr>th_Irps := start_irp Irp (th_Irps T), th_Request := (th_Request T)(Irp := Rq)\<rparr>
          in if \<not> rq_KernelMode Rq then thermal_complete Irp STATUS_NOT_IMPLEMENTED T
             else if \<not> rq_Buffer Rq \<and> (InputSize \<noteq> 0 \<or> OutputSize \<noteq> 0) \<or> rq_InputLength Rq < InputSize \<or> rq_OutputLength Rq < OutputSize
             then thermal_complete Irp STATUS_BUFFER_TOO_SMALL T
             else if \<not> th_Active T then thermal_complete Irp STATUS_NO_SUCH_DEVICE T
             else
               let (Work, T) = request_work Rq T;
                   (Status, q) = enqueue timing Irp Rq (th_Irps T);
                   T = T\<lparr>th_Irps := q\<rparr>
               in if Status = STATUS_CANCELLED then (True, STATUS_CANCELLED, T)
                  else (True, STATUS_PENDING, add_caller (UacpiNtThermalAddWork Work T)))"

definition UacpiNtThermalNotify :: "u32 \<Rightarrow> thermal \<Rightarrow> thermal" where
  "UacpiNtThermalNotify NotifyValue T =
     (if NotifyValue = 0x80 then UacpiNtThermalKick (WORK_TEMPERATURE OR WORK_COMPLETE) T
      else if NotifyValue = 0x81 then UacpiNtThermalKick (WORK_TRIPS OR WORK_TEMPERATURE OR WORK_COMPLETE) T
      else T)"

definition UacpiNtThermalZoneStart :: "thermal \<Rightarrow> thermal" where
  "UacpiNtThermalZoneStart T =
     (if \<not> th_Active T
      then add_caller (UacpiNtThermalAddWork WORK_ALL
             (T\<lparr>th_Active := True, th_CoolingPolicy := 1, th_FanLevel := 0, th_ThrottleLimit := 100\<rparr>))
      else T)"

text \<open>The locked part of a stop; its completion of the queue is a step of its own.\<close>

definition UacpiNtThermalZoneStop :: "thermal \<Rightarrow> thermal" where
  "UacpiNtThermalZoneStop T = T\<lparr>th_Active := False, th_Work := 0, th_Stopping := Suc (th_Stopping T)\<rparr>"

section \<open>Interleavings\<close>

definition initial_thermal :: "thermal_zone \<Rightarrow> coolers \<Rightarrow> power_state \<Rightarrow> thermal" where
  "initial_thermal Z Cs S =
     \<lparr>th_Zone = Z, th_Coolers = Cs, th_Power = S, th_Irps = empty_pool,
      th_Request = (\<lambda>_. \<lparr>rq_Code = OtherIoctl, rq_KernelMode = False, rq_InputLength = 0, rq_OutputLength = 0,
        rq_Buffer = False, rq_Stamp = 0, rq_Byte = 0\<rparr>),
      th_Out = [], th_Work = 0, th_Active = False, th_Running = False, th_Delivered = False, th_CoolingPolicy = 0,
      th_FanLevel = 0, th_ThrottleLimit = 0, th_Callers = 0, th_Items = 0, th_Workers = [], th_Stopping = 0, th_Failed = False\<rparr>"

inductive thermal_step :: "thermal_env \<Rightarrow> thermal \<Rightarrow> thermal \<Rightarrow> bool" for E :: thermal_env where
  control: "Irp \<notin> iq_Started (th_Irps T) \<Longrightarrow> UacpiNtThermalDeviceControl (te_Release E) timing Irp Rq T = (h, st, T') \<Longrightarrow>
    thermal_step E T T'"
| cancel: "thermal_step E T (T\<lparr>th_Irps := cancel_request Irp (th_Irps T)\<rparr>)"
| cancelled: "Irp \<in> iq_Cancelling (th_Irps T) \<Longrightarrow> thermal_step E T (UacpiNtThermalCancel Irp T)"
| notify: "thermal_step E T (UacpiNtThermalNotify v T)"
| start: "thermal_step E T (UacpiNtThermalZoneStart T)"
| stop: "thermal_step E T (UacpiNtThermalZoneStop T)"
| stopped: "th_Stopping T = Suc n \<Longrightarrow> thermal_step E T (UacpiNtThermalCompleteIrps E pool (T\<lparr>th_Stopping := n\<rparr>))"
| queue: "th_Callers T = Suc n \<Longrightarrow> thermal_step E T (UacpiNtThermalQueueWorker allocated (T\<lparr>th_Callers := n\<rparr>))"
| run: "th_Items T = Suc n \<Longrightarrow> thermal_step E T (T\<lparr>th_Items := n, th_Workers := th_Workers T @ [WTop]\<rparr>)"
| work: "th_Workers T = as @ w # bs \<Longrightarrow> UacpiNtThermalWorker E pool w T = (w', T') \<Longrightarrow>
    thermal_step E T (T'\<lparr>th_Workers := as @ (case w' of None \<Rightarrow> [] | Some v \<Rightarrow> [v]) @ bs\<rparr>)"

section \<open>Completion of the queue\<close>

text \<open>What a scan of part of the queue takes off: everything but the queries a cancel routine owns.\<close>

lemma complete_scan_eq:
  assumes "distinct (iq_Queue q)" and "distinct is" and "set is \<subseteq> set (iq_Queue q)" and "\<forall>i\<in>set is. \<not> query i \<longrightarrow> i \<notin> iq_Armed q"
  shows "complete_scan query is q =
    (filter (\<lambda>i. query i \<longrightarrow> i \<in> iq_Armed q) is, \<exists>i\<in>set is. query i \<and> i \<in> iq_Armed q,
     q\<lparr>iq_Queue := filter (\<lambda>i. i \<in> set is \<longrightarrow> query i \<and> i \<notin> iq_Armed q) (iq_Queue q), iq_Armed := iq_Armed q - set is\<rparr>)"
  using assms
proof (induction "is" arbitrary: q)
  case Nil
  then show ?case by simp
next
  case (Cons i rest)
  show ?case
  proof (cases "query i \<and> i \<notin> iq_Armed q")
    case True
    have "filter (\<lambda>j. j \<in> set rest \<longrightarrow> query j \<and> j \<notin> iq_Armed q) (iq_Queue q) =
        filter (\<lambda>j. j = i \<or> j \<in> set rest \<longrightarrow> query j \<and> j \<notin> iq_Armed q) (iq_Queue q)"
      using True by (intro filter_cong) auto
    moreover have "complete_scan query rest q =
        (filter (\<lambda>i. query i \<longrightarrow> i \<in> iq_Armed q) rest, \<exists>i\<in>set rest. query i \<and> i \<in> iq_Armed q,
         q\<lparr>iq_Queue := filter (\<lambda>i. i \<in> set rest \<longrightarrow> query i \<and> i \<notin> iq_Armed q) (iq_Queue q), iq_Armed := iq_Armed q - set rest\<rparr>)"
      using Cons.prems by (intro Cons.IH) auto
    moreover have "iq_Armed q - insert i (set rest) = iq_Armed q - set rest" using True by blast
    ultimately show ?thesis using True by (simp add: clear_cancel_def)
  next
    case False
    define q' where "q' = q\<lparr>iq_Armed := iq_Armed q - {i}, iq_Queue := remove1 i (iq_Queue q)\<rparr>"
    have n: "i \<notin> set rest" using Cons.prems(2) by simp
    have m: "filter P (remove1 i (iq_Queue q)) = filter (\<lambda>j. j \<noteq> i \<and> P j) (iq_Queue q)" for P
      using Cons.prems(1) by (simp add: distinct_remove1_removeAll removeAll_filter_not_eq conj_commute eq_commute)
    have ih: "complete_scan query rest q' =
        (filter (\<lambda>j. query j \<longrightarrow> j \<in> iq_Armed q') rest, \<exists>j\<in>set rest. query j \<and> j \<in> iq_Armed q',
         q'\<lparr>iq_Queue := filter (\<lambda>j. j \<in> set rest \<longrightarrow> query j \<and> j \<notin> iq_Armed q') (iq_Queue q'), iq_Armed := iq_Armed q' - set rest\<rparr>)"
      using Cons.prems n by (intro Cons.IH) (auto simp: q'_def)
    have step: "complete_scan query (i # rest) q = (let (Cs, h, p) = complete_scan query rest q' in (i # Cs, query i \<or> h, p))"
    proof (cases "query i")
      case True
      with False show ?thesis by (simp add: clear_cancel_def q'_def Let_def del: split_paired_Ex)
    next
      case nq: False
      then have "q' = q\<lparr>iq_Queue := remove1 i (iq_Queue q)\<rparr>" using Cons.prems(4) by (simp add: q'_def)
      with nq show ?thesis by (simp add: Let_def)
    qed
    have f: "filter (\<lambda>j. query j \<longrightarrow> j \<in> iq_Armed q') rest = filter (\<lambda>j. query j \<longrightarrow> j \<in> iq_Armed q) rest"
      using n by (intro filter_cong) (auto simp: q'_def)
    have g: "filter (\<lambda>j. j \<in> set rest \<longrightarrow> query j \<and> j \<notin> iq_Armed q') (remove1 i (iq_Queue q)) =
        filter (\<lambda>j. j = i \<or> j \<in> set rest \<longrightarrow> query j \<and> j \<notin> iq_Armed q) (iq_Queue q)"
      unfolding m using False by (intro filter_cong) (auto simp: q'_def)
    have e: "(\<exists>j\<in>set rest. query j \<and> j \<in> iq_Armed q') = (\<exists>j\<in>set rest. query j \<and> j \<in> iq_Armed q)"
      using n by (auto simp: q'_def)
    have "iq_Armed q - {i} - set rest = iq_Armed q - insert i (set rest)" by blast
    then have p: "q'\<lparr>iq_Queue := filter (\<lambda>j. j \<in> set rest \<longrightarrow> query j \<and> j \<notin> iq_Armed q') (iq_Queue q'), iq_Armed := iq_Armed q' - set rest\<rparr> =
        q\<lparr>iq_Queue := filter (\<lambda>j. j = i \<or> j \<in> set rest \<longrightarrow> query j \<and> j \<notin> iq_Armed q) (iq_Queue q), iq_Armed := iq_Armed q - insert i (set rest)\<rparr>"
      using g unfolding q'_def by simp
    have h: "(query i \<or> (\<exists>j\<in>set rest. query j \<and> j \<in> iq_Armed q)) = (\<exists>j\<in>set (i # rest). query j \<and> j \<in> iq_Armed q)"
      using False by auto
    show ?thesis unfolding step ih f e p Let_def case_prod_conv h using False by simp
  qed
qed

lemma fold_complete:
  assumes "pool_inv (set is) q" and "distinct is"
  shows "pool_inv {} (fold (\<lambda>i. complete_irp i st) is q)"
  using assms
proof (induction "is" arbitrary: q)
  case (Cons i rest)
  have "pool_inv (set rest) (complete_irp i st q)" using Cons.prems by (intro pool_complete) simp_all
  with Cons show ?case by simp
qed simp

lemma fold_complete_frame:
  "iq_Queue (fold (\<lambda>i. complete_irp i st) is q) = iq_Queue q" "iq_Armed (fold (\<lambda>i. complete_irp i st) is q) = iq_Armed q"
  "iq_Cancelling (fold (\<lambda>i. complete_irp i st) is q) = iq_Cancelling q" "iq_Started (fold (\<lambda>i. complete_irp i st) is q) = iq_Started q"
  "iq_Done (fold (\<lambda>i. complete_irp i st) is q) = iq_Done q @ map (\<lambda>i. (i, st)) is"
  by (induction "is" arbitrary: q) (simp_all add: complete_irp_def)

section \<open>Invariant\<close>

definition is_query :: "thermal \<Rightarrow> nat \<Rightarrow> bool" where
  "is_query T i \<longleftrightarrow> rq_Code (th_Request T i) = IOCTL_THERMAL_QUERY_INFORMATION"

text \<open>The queue: only queries can be cancelled, and a queued query can be or is being cancelled.\<close>

definition queue_inv :: "thermal \<Rightarrow> bool" where
  "queue_inv T \<longleftrightarrow> pool_inv {} (th_Irps T) \<and> (\<forall>i\<in>iq_Armed (th_Irps T) \<union> iq_Cancelling (th_Irps T). is_query T i) \<and>
     (\<forall>i\<in>set (iq_Queue (th_Irps T)). is_query T i \<longrightarrow> i \<in> iq_Armed (th_Irps T) \<union> iq_Cancelling (th_Irps T))"

text \<open>The worker: one caller, work item or worker while the zone is running, none otherwise.\<close>

definition worker_inv :: "thermal \<Rightarrow> bool" where
  "worker_inv T \<longleftrightarrow> th_Callers T + th_Items T + length (th_Workers T) = of_bool (th_Running T) \<and>
     (th_Work T \<noteq> 0 \<longrightarrow> bit (th_Work T) 5) \<and> (\<forall>W p f. WBusy W p f \<in> set (th_Workers T) \<longrightarrow> bit W 5) \<and>
     (th_Work T \<noteq> 0 \<and> \<not> th_Running T \<longrightarrow> th_Failed T)"

definition waiting :: "thermal \<Rightarrow> nat \<Rightarrow> bool" where
  "waiting T i \<longleftrightarrow> i \<in> set (iq_Queue (th_Irps T)) \<and> i \<notin> iq_Cancelling (th_Irps T)"

text \<open>A pass that completes the queue is still to come: flagged, or in the hands of a worker or a stop.\<close>

definition covered :: "thermal \<Rightarrow> bool" where
  "covered T \<longleftrightarrow> bit (th_Work T) 5 \<or> (\<exists>w\<in>set (th_Workers T). w \<noteq> WTop) \<or> 0 < th_Stopping T"

definition up_to_date :: "thermal \<Rightarrow> nat \<Rightarrow> bool" where
  "up_to_date T i \<longleftrightarrow> is_query T i \<and> th_Delivered T \<and> rq_Stamp (th_Request T i) = ti_ThermalStamp (tz_Info (th_Zone T))"

definition service_inv :: "thermal \<Rightarrow> bool" where
  "service_inv T \<longleftrightarrow> (\<forall>i. waiting T i \<longrightarrow> covered T \<or> up_to_date T i)"

definition thermal_inv :: "thermal \<Rightarrow> bool" where
  "thermal_inv T \<longleftrightarrow> queue_inv T \<and> worker_inv T \<and> service_inv T"

lemma and_complete: "(W::u32) AND WORK_COMPLETE \<noteq> 0 \<longleftrightarrow> bit W 5"
proof -
  have "WORK_COMPLETE = (push_bit 5 1 :: u32)" by simp
  then show ?thesis by (simp only: bit_iff_and_push_bit_not_eq_0)
qed

text \<open>After a completion pass nobody waits.\<close>

lemma CompleteIrps_irps:
  assumes "queue_inv T"
  shows "queue_inv (UacpiNtThermalCompleteIrps E pool T)" and "\<not> waiting (UacpiNtThermalCompleteIrps E pool T) i"
    and "waiting T i \<Longrightarrow> (i, STATUS_SUCCESS) \<in> set (iq_Done (th_Irps (UacpiNtThermalCompleteIrps E pool T)))"
proof -
  let ?q = "th_Irps T" and ?query = "\<lambda>i. rq_Code (th_Request T i) = IOCTL_THERMAL_QUERY_INFORMATION"
  have I: "pool_inv {} ?q" "\<forall>i\<in>iq_Armed ?q \<union> iq_Cancelling ?q. ?query i" "\<forall>i\<in>set (iq_Queue ?q). ?query i \<longrightarrow> i \<in> iq_Armed ?q \<union> iq_Cancelling ?q"
    using assms by (simp_all add: queue_inv_def is_query_def)
  have d: "distinct (iq_Queue ?q)" and a: "iq_Armed ?q \<subseteq> set (iq_Queue ?q)" "iq_Armed ?q \<inter> iq_Cancelling ?q = {}" using I(1) by (simp_all add: pool_inv_def)
  define Cs where "Cs = filter (\<lambda>i. ?query i \<longrightarrow> i \<in> iq_Armed ?q) (iq_Queue ?q)"
  define Q where "Q = filter (\<lambda>i. ?query i \<and> i \<notin> iq_Armed ?q) (iq_Queue ?q)"
  define q where "q = ?q\<lparr>iq_Queue := Q, iq_Armed := {}\<rparr>"
  have scan: "fst (complete_scan ?query (iq_Queue ?q) ?q) = Cs" "snd (snd (complete_scan ?query (iq_Queue ?q) ?q)) = q"
  proof -
    have n: "\<forall>i\<in>set (iq_Queue ?q). \<not> ?query i \<longrightarrow> i \<notin> iq_Armed ?q" using I(2) by blast
    have e: "iq_Armed ?q - set (iq_Queue ?q) = {}" using a(1) by blast
    have f: "filter (\<lambda>i. i \<in> set (iq_Queue ?q) \<longrightarrow> ?query i \<and> i \<notin> iq_Armed ?q) (iq_Queue ?q) = Q" unfolding Q_def by (rule filter_cong) auto
    show "fst (complete_scan ?query (iq_Queue ?q) ?q) = Cs" "snd (snd (complete_scan ?query (iq_Queue ?q) ?q)) = q"
      unfolding complete_scan_eq [OF d d subset_refl n] e f by (simp_all add: Cs_def q_def)
  qed
  have C: "set Cs = set (iq_Queue ?q) - set Q" "set Q \<subseteq> iq_Cancelling ?q" "set Cs \<inter> iq_Cancelling ?q = {}"
    using I(2,3) a(2) by (auto simp: Cs_def Q_def)
  have dC: "distinct Cs" "distinct Q" using d by (simp_all add: Cs_def Q_def)
  have "pool_inv (set Cs) q"
    using I(1) C dC(2) by (auto simp: pool_inv_def q_def Cs_def Q_def)
  then have p: "pool_inv {} (fold (\<lambda>i. complete_irp i STATUS_SUCCESS) Cs q)" using dC(1) by (rule fold_complete)
  have T': "th_Irps (UacpiNtThermalCompleteIrps E pool T) = fold (\<lambda>i. complete_irp i STATUS_SUCCESS) Cs q"
    "th_Request (UacpiNtThermalCompleteIrps E pool T) = th_Request T"
    using scan by (auto simp: UacpiNtThermalCompleteIrps_def Let_def split: prod.split)
  show "queue_inv (UacpiNtThermalCompleteIrps E pool T)"
    using p C(2) I(2) unfolding queue_inv_def is_query_def T' by (auto simp: fold_complete_frame q_def)
  show "\<not> waiting (UacpiNtThermalCompleteIrps E pool T) i"
    using C(2) unfolding waiting_def T' by (auto simp: fold_complete_frame q_def)
  show "(i, STATUS_SUCCESS) \<in> set (iq_Done (th_Irps (UacpiNtThermalCompleteIrps E pool T)))" if "waiting T i"
    using that C(1,2) unfolding waiting_def T' by (auto simp: fold_complete_frame)
qed

lemma CompleteIrps_frame:
  "th_Work (UacpiNtThermalCompleteIrps E pool T) = th_Work T" "th_Running (UacpiNtThermalCompleteIrps E pool T) = th_Running T"
  "th_Callers (UacpiNtThermalCompleteIrps E pool T) = th_Callers T" "th_Items (UacpiNtThermalCompleteIrps E pool T) = th_Items T"
  "th_Workers (UacpiNtThermalCompleteIrps E pool T) = th_Workers T" "th_Failed (UacpiNtThermalCompleteIrps E pool T) = th_Failed T"
  "th_Stopping (UacpiNtThermalCompleteIrps E pool T) = th_Stopping T" "th_Zone (UacpiNtThermalCompleteIrps E pool T) = th_Zone T"
  by (simp_all add: UacpiNtThermalCompleteIrps_def Let_def split: prod.split)

lemma CompleteIrps_inv: "queue_inv T \<Longrightarrow> worker_inv T \<Longrightarrow> thermal_inv (UacpiNtThermalCompleteIrps E pool T)"
  using CompleteIrps_irps(1,2) [where T = T and E = E and pool = pool] by (simp add: thermal_inv_def service_inv_def worker_inv_def CompleteIrps_frame)

lemma add_caller_frame:
  "th_Irps (add_caller (UacpiNtThermalAddWork W T)) = th_Irps T" "th_Request (add_caller (UacpiNtThermalAddWork W T)) = th_Request T"
  "th_Zone (add_caller (UacpiNtThermalAddWork W T)) = th_Zone T" "th_Workers (add_caller (UacpiNtThermalAddWork W T)) = th_Workers T"
  "th_Stopping (add_caller (UacpiNtThermalAddWork W T)) = th_Stopping T" "th_Items (add_caller (UacpiNtThermalAddWork W T)) = th_Items T"
  "th_Work (add_caller (UacpiNtThermalAddWork W T)) = th_Work T OR W"
  by (auto simp: add_caller_def UacpiNtThermalAddWork_def Let_def)

lemma AddWork_worker:
  assumes "worker_inv T" and "W \<noteq> 0 \<longrightarrow> bit W 5"
  shows "worker_inv (add_caller (UacpiNtThermalAddWork W T))"
  using assms by (auto simp: worker_inv_def add_caller_def UacpiNtThermalAddWork_def Let_def or_eq_0_iff bit_or_iff)

lemma AddWork_inv:
  assumes "queue_inv T" and "worker_inv T" and "W \<noteq> 0 \<longrightarrow> bit W 5"
    and "\<And>i. waiting T i \<Longrightarrow> bit W 5 \<or> covered T \<or> up_to_date T i"
  shows "thermal_inv (add_caller (UacpiNtThermalAddWork W T))"
proof -
  let ?T = "add_caller (UacpiNtThermalAddWork W T)"
  have q: "queue_inv ?T" using assms(1) by (simp add: queue_inv_def is_query_def add_caller_frame)
  have "service_inv ?T"
  proof (cases "bit W 5")
    case True
    then show ?thesis by (simp add: service_inv_def covered_def add_caller_frame bit_or_iff)
  next
    case False
    with assms(3) have "W = 0" by blast
    then have "th_Delivered ?T = th_Delivered T" by (auto simp: add_caller_def UacpiNtThermalAddWork_def Let_def)
    with assms(4) False show ?thesis
      by (simp add: service_inv_def covered_def waiting_def up_to_date_def is_query_def add_caller_frame bit_or_iff)
  qed
  with q AddWork_worker [OF assms(2,3)] show ?thesis by (simp add: thermal_inv_def)
qed

lemma thermal_invD:
  assumes "thermal_inv T"
  shows "queue_inv T" and "worker_inv T" and "waiting T i \<Longrightarrow> covered T \<or> up_to_date T i"
  using assms by (auto simp: thermal_inv_def service_inv_def)

lemma thermal_inv_initial: "thermal_inv (initial_thermal Z Cs S)"
  by (simp add: thermal_inv_def queue_inv_def worker_inv_def service_inv_def initial_thermal_def pool_inv_empty waiting_def)
    (simp add: empty_pool_def)

lemma Notify_inv: "thermal_inv T \<Longrightarrow> thermal_inv (UacpiNtThermalNotify v T)"
  by (auto simp: UacpiNtThermalNotify_def UacpiNtThermalKick_def bit_numeral_rec intro!: AddWork_inv thermal_invD)

lemma ZoneStart_inv:
  assumes "thermal_inv T"
  shows "thermal_inv (UacpiNtThermalZoneStart T)"
proof -
  let ?T = "T\<lparr>th_Active := True, th_CoolingPolicy := 1, th_FanLevel := 0, th_ThrottleLimit := 100\<rparr>"
  have "queue_inv ?T" "worker_inv ?T" using thermal_invD [OF assms] by (simp_all add: queue_inv_def worker_inv_def is_query_def)
  then have "thermal_inv (add_caller (UacpiNtThermalAddWork WORK_ALL ?T))" by (rule AddWork_inv) simp_all
  with assms show ?thesis by (simp add: UacpiNtThermalZoneStart_def)
qed

lemma ZoneStop_inv: "thermal_inv T \<Longrightarrow> thermal_inv (UacpiNtThermalZoneStop T)"
  by (simp add: thermal_inv_def queue_inv_def worker_inv_def service_inv_def UacpiNtThermalZoneStop_def is_query_def covered_def)

text \<open>Whoever serves the zone is alone.\<close>

lemma sole_caller: "worker_inv T \<Longrightarrow> th_Callers T = Suc n \<Longrightarrow> n = 0 \<and> th_Items T = 0 \<and> th_Workers T = [] \<and> th_Running T"
  by (cases "th_Running T") (simp_all add: worker_inv_def)

lemma sole_worker: "worker_inv T \<Longrightarrow> th_Workers T = as @ w # bs \<Longrightarrow> as = [] \<and> bs = [] \<and> th_Callers T = 0 \<and> th_Items T = 0 \<and> th_Running T"
  by (cases "th_Running T") (simp_all add: worker_inv_def)

lemma QueueWorker_inv:
  assumes "thermal_inv T" and "th_Callers T = Suc n"
  shows "thermal_inv (UacpiNtThermalQueueWorker allocated (T\<lparr>th_Callers := n\<rparr>))"
  using sole_caller [OF thermal_invD(2) [OF assms(1)] assms(2)] assms by (auto simp: thermal_inv_def queue_inv_def worker_inv_def service_inv_def UacpiNtThermalQueueWorker_def is_query_def covered_def
      waiting_def up_to_date_def)

lemma run_inv:
  assumes "thermal_inv T" and "th_Items T = Suc n"
  shows "thermal_inv (T\<lparr>th_Items := n, th_Workers := th_Workers T @ [WTop]\<rparr>)"
  using assms by (auto simp: thermal_inv_def queue_inv_def worker_inv_def service_inv_def is_query_def covered_def waiting_def up_to_date_def)

text \<open>A change of the requests alone, after which no other request waits.\<close>

lemma irps_inv:
  assumes "thermal_inv T" and "queue_inv (T\<lparr>th_Irps := q, th_Request := R\<rparr>)"
    and "\<And>i. i \<in> set (iq_Queue q) \<Longrightarrow> i \<notin> iq_Cancelling q \<Longrightarrow> waiting T i \<and> R i = th_Request T i"
  shows "thermal_inv (T\<lparr>th_Irps := q, th_Request := R\<rparr>)"
proof -
  let ?T = "T\<lparr>th_Irps := q, th_Request := R\<rparr>"
  have w: "worker_inv ?T" using thermal_invD(2) [OF assms(1)] by (simp add: worker_inv_def)
  have c: "covered ?T = covered T" by (simp add: covered_def)
  have "covered ?T \<or> up_to_date ?T i" if "waiting ?T i" for i
  proof -
    have "waiting T i" "R i = th_Request T i" using assms(3) [of i] that by (simp_all add: waiting_def)
    with thermal_invD(3) [OF assms(1), of i] c show ?thesis by (simp add: up_to_date_def is_query_def)
  qed
  with w assms(2) show ?thesis by (simp add: thermal_inv_def service_inv_def)
qed

lemma thermal_cancel_inv:
  assumes "thermal_inv T"
  shows "thermal_inv (T\<lparr>th_Irps := cancel_request i (th_Irps T)\<rparr>)"
proof -
  let ?q = "cancel_request i (th_Irps T)"
  have f: "iq_Queue ?q = iq_Queue (th_Irps T)" "iq_Armed ?q \<union> iq_Cancelling ?q = iq_Armed (th_Irps T) \<union> iq_Cancelling (th_Irps T)"
    "iq_Cancelling (th_Irps T) \<subseteq> iq_Cancelling ?q" by (auto simp: cancel_request_def)
  have Q: "queue_inv (T\<lparr>th_Irps := ?q, th_Request := th_Request T\<rparr>)"
    using thermal_invD(1) [OF assms] pool_cancel [of "{}" "th_Irps T" i] by (simp add: queue_inv_def is_query_def f)
  have "thermal_inv (T\<lparr>th_Irps := ?q, th_Request := th_Request T\<rparr>)"
    using irps_inv [OF assms Q] f(1,3) by (auto simp: waiting_def)
  then show ?thesis by simp
qed

lemma cancelled_inv:
  assumes "thermal_inv T" and "i \<in> iq_Cancelling (th_Irps T)"
  shows "thermal_inv (UacpiNtThermalCancel i T)"
proof -
  let ?q = "cancel_routine i (th_Irps T)"
  have f: "iq_Queue ?q = removeAll i (iq_Queue (th_Irps T))" "iq_Armed ?q = iq_Armed (th_Irps T)"
    "iq_Cancelling ?q = iq_Cancelling (th_Irps T) - {i}"
    by (simp_all add: cancel_routine_def complete_irp_def)
  have Q: "queue_inv (T\<lparr>th_Irps := ?q, th_Request := th_Request T\<rparr>)"
    using thermal_invD(1) [OF assms(1)] pool_cancel_routine [of "th_Irps T" i] assms(2) by (auto simp: queue_inv_def is_query_def f)
  have "thermal_inv (T\<lparr>th_Irps := ?q, th_Request := th_Request T\<rparr>)"
    using irps_inv [OF assms(1) Q] f(1,3) by (auto simp: waiting_def)
  then show ?thesis by (simp add: UacpiNtThermalCancel_def)
qed

lemma Worker_inv:
  assumes "thermal_inv T" and "th_Workers T = as @ w # bs" and "UacpiNtThermalWorker E pool w T = (w', T')"
  shows "thermal_inv (T'\<lparr>th_Workers := as @ (case w' of None \<Rightarrow> [] | Some v \<Rightarrow> [v]) @ bs\<rparr>)"
proof -
  note I = thermal_invD [OF assms(1)] and S = sole_worker [OF thermal_invD(2) [OF assms(1)] assms(2)]
  show ?thesis
  proof (cases w)
    case WTop
    show ?thesis
    proof (cases "th_Work T = 0")
      case True
      with WTop assms(3) have "w' = None" "T' = T\<lparr>th_Work := 0, th_Running := False\<rparr>" by (simp_all add: UacpiNtThermalWorker_def Let_def)
      with S assms True WTop show ?thesis
        by (auto simp: thermal_inv_def queue_inv_def worker_inv_def service_inv_def is_query_def covered_def waiting_def up_to_date_def)
    next
      case False
      with WTop assms(3) have w': "w' = Some (WBusy (th_Work T) (th_CoolingPolicy T) (th_FanLevel T))" "T' = T\<lparr>th_Work := 0\<rparr>"
        by (auto simp: UacpiNtThermalWorker_def Let_def)
      have "bit (th_Work T) 5" using I(2) False by (simp add: worker_inv_def)
      with S I(1) w' show ?thesis by (simp add: thermal_inv_def queue_inv_def worker_inv_def service_inv_def is_query_def covered_def)
    qed
  next
    case (WBusy W p f)
    obtain Z Cs P where s: "worker_steps E W p f (th_Zone T, th_Coolers T, th_Power T) = (Z, Cs, P)" using prod_cases3 by blast
    have "bit W 5" using I(2) assms(2) WBusy by (auto simp: worker_inv_def)
    then have "w' = Some WComplete" "T' = T\<lparr>th_Zone := Z, th_Coolers := Cs, th_Power := P\<rparr>"
      using assms(3) WBusy s unfolding UacpiNtThermalWorker_def and_complete by simp_all
    with S I(1,2) show ?thesis by (simp add: thermal_inv_def queue_inv_def worker_inv_def service_inv_def is_query_def covered_def)
  next
    case WComplete
    then have w': "w' = Some WTop" "T' = UacpiNtThermalCompleteIrps E pool T" using assms(3) by (simp_all add: UacpiNtThermalWorker_def)
    have "thermal_inv T'" "\<And>i. \<not> waiting T' i" using CompleteIrps_inv [OF I(1,2)] CompleteIrps_irps(2) [OF I(1)] w' by simp_all
    moreover have "th_Callers T' = 0 \<and> th_Items T' = 0 \<and> th_Running T'" using S w' by (simp add: CompleteIrps_frame)
    moreover have "\<not> waiting (T'\<lparr>th_Workers := [WTop]\<rparr>) i" for i using \<open>\<not> waiting T' i\<close> by (simp add: waiting_def)
    ultimately show ?thesis
      using S w'(1) by (simp add: thermal_inv_def queue_inv_def worker_inv_def service_inv_def is_query_def)
  qed
qed

lemma request_work_bits:
  assumes "request_work Rq T = (W, T')"
  shows "W \<noteq> 0 \<longrightarrow> bit W 5"
    and "\<not> bit W 5 \<Longrightarrow> rq_Code Rq = IOCTL_THERMAL_QUERY_INFORMATION \<and> th_Delivered T \<and> rq_Stamp Rq = ti_ThermalStamp (tz_Info (th_Zone T))"
proof -
  have b: "bit (WORK_TEMPERATURE OR WORK_COMPLETE) 5" "bit (WORK_POLICY OR WORK_TRIPS OR WORK_COMPLETE) 5" "bit (WORK_ACTIVE OR WORK_COMPLETE) 5"
    "bit WORK_COMPLETE 5" by simp_all
  have W: "W = fst (request_work Rq T)" using assms by simp
  show "W \<noteq> 0 \<longrightarrow> bit W 5"
    unfolding W request_work_def using b by (simp split: thermal_ioctl.split)
  show "rq_Code Rq = IOCTL_THERMAL_QUERY_INFORMATION \<and> th_Delivered T \<and> rq_Stamp Rq = ti_ThermalStamp (tz_Info (th_Zone T))" if "\<not> bit W 5"
    using that unfolding W request_work_def using b by (simp split: thermal_ioctl.split_asm if_split_asm)
qed

lemma request_work_frame:
  "th_Irps (snd (request_work Rq T)) = th_Irps T" "th_Request (snd (request_work Rq T)) = th_Request T"
  "th_Zone (snd (request_work Rq T)) = th_Zone T" "th_Delivered (snd (request_work Rq T)) = th_Delivered T"
  "worker_inv (snd (request_work Rq T)) = worker_inv T" "covered (snd (request_work Rq T)) = covered T"
  by (simp_all add: request_work_def worker_inv_def covered_def split: thermal_ioctl.split)

lemma fresh_request:
  assumes "thermal_inv T" and "i \<notin> iq_Started (th_Irps T)"
  shows "i \<notin> set (iq_Queue (th_Irps T))" and "i \<notin> iq_Armed (th_Irps T)" and "i \<notin> iq_Cancelling (th_Irps T)"
    and "pool_inv {i} (start_irp i (th_Irps T))"
proof -
  have p: "pool_inv {} (th_Irps T)" using thermal_invD(1) [OF assms(1)] by (simp add: queue_inv_def)
  then have s: "iq_Started (th_Irps T) = set (iq_Queue (th_Irps T)) \<union> iq_Cancelling (th_Irps T) \<union> fst ` set (iq_Done (th_Irps T))"
    "iq_Armed (th_Irps T) \<subseteq> set (iq_Queue (th_Irps T))" by (simp_all add: pool_inv_def)
  with assms(2) show "i \<notin> set (iq_Queue (th_Irps T))" "i \<notin> iq_Armed (th_Irps T)" "i \<notin> iq_Cancelling (th_Irps T)" by blast+
  show "pool_inv {i} (start_irp i (th_Irps T))" using p assms(2) by (rule pool_start)
qed

lemma thermal_complete_inv:
  assumes "thermal_inv T" and "i \<notin> iq_Started (th_Irps T)"
    and "thermal_complete i st (T\<lparr>th_Irps := start_irp i (th_Irps T), th_Request := (th_Request T)(i := Rq)\<rparr>) = (h, st', T')"
  shows "thermal_inv T'"
proof -
  note n = fresh_request [OF assms(1,2)]
  let ?q = "complete_irp i st (start_irp i (th_Irps T))" and ?R = "(th_Request T)(i := Rq)"
  have f: "iq_Queue ?q = iq_Queue (th_Irps T)" "iq_Armed ?q = iq_Armed (th_Irps T)" "iq_Cancelling ?q = iq_Cancelling (th_Irps T)"
    by (simp_all add: complete_irp_def start_irp_def)
  have "pool_inv {} ?q" using pool_complete [OF n(4)] by simp
  then have Q: "queue_inv (T\<lparr>th_Irps := ?q, th_Request := ?R\<rparr>)"
    using thermal_invD(1) [OF assms(1)] n(1-3) by (auto simp: queue_inv_def is_query_def f)
  have "thermal_inv (T\<lparr>th_Irps := ?q, th_Request := ?R\<rparr>)"
    by (rule irps_inv [OF assms(1) Q]) (use f n(1) in \<open>auto simp: waiting_def\<close>)
  moreover have "T' = T\<lparr>th_Irps := ?q, th_Request := ?R\<rparr>" using assms(3) by (auto simp: thermal_complete_def)
  ultimately show ?thesis by simp
qed

lemma queue_cancellable_cases:
  assumes "queue_cancellable timing i q = (st, q')" and "i \<notin> iq_Armed q" and "i \<notin> iq_Cancelling q"
  shows "st = STATUS_CANCELLED \<and> iq_Queue q' = iq_Queue q \<and> iq_Armed q' = iq_Armed q \<and> iq_Cancelling q' = iq_Cancelling q \<or>
    st = STATUS_PENDING \<and> iq_Queue q' = iq_Queue q @ [i] \<and> iq_Armed q' \<union> iq_Cancelling q' = insert i (iq_Armed q \<union> iq_Cancelling q) \<and>
      iq_Cancelling q \<subseteq> iq_Cancelling q'"
  using assms by (cases timing) (auto simp: queue_cancellable_def clear_cancel_def cancel_request_def complete_irp_def)

lemma enqueue_pool:
  assumes "thermal_inv T" and "i \<notin> iq_Started (th_Irps T)" and "enqueue timing i Rq (start_irp i (th_Irps T)) = (st, q)"
  shows "pool_inv {} q \<and> set (iq_Queue q) \<subseteq> (if st = STATUS_CANCELLED then {} else {i}) \<union> set (iq_Queue (th_Irps T)) \<and>
    iq_Cancelling (th_Irps T) \<subseteq> iq_Cancelling q \<and>
    iq_Armed (th_Irps T) \<union> iq_Cancelling (th_Irps T) \<subseteq> iq_Armed q \<union> iq_Cancelling q \<and>
    iq_Armed q \<union> iq_Cancelling q \<subseteq>
      (if rq_Code Rq = IOCTL_THERMAL_QUERY_INFORMATION then {i} else {}) \<union> (iq_Armed (th_Irps T) \<union> iq_Cancelling (th_Irps T)) \<and>
    (i \<in> set (iq_Queue q) \<and> rq_Code Rq = IOCTL_THERMAL_QUERY_INFORMATION \<longrightarrow> i \<in> iq_Armed q \<union> iq_Cancelling q)"
proof -
  note n = fresh_request [OF assms(1,2)]
  let ?p = "th_Irps T"
  have s: "iq_Queue (start_irp i ?p) = iq_Queue ?p" "iq_Armed (start_irp i ?p) = iq_Armed ?p" "iq_Cancelling (start_irp i ?p) = iq_Cancelling ?p"
    by (simp_all add: start_irp_def)
  show ?thesis
  proof (cases "rq_Code Rq = IOCTL_THERMAL_QUERY_INFORMATION")
    case True
    then have e: "queue_cancellable timing i (start_irp i ?p) = (st, q)" using assms(3) by (simp add: enqueue_def)
    then have p: "pool_inv {} q" using pool_queue [OF n(4), of timing] by simp
    from queue_cancellable_cases [OF e] n(2,3) s have c: "st = STATUS_CANCELLED \<and> iq_Queue q = iq_Queue ?p \<and> iq_Armed q = iq_Armed ?p \<and> iq_Cancelling q = iq_Cancelling ?p \<or>
      st = STATUS_PENDING \<and> iq_Queue q = iq_Queue ?p @ [i] \<and> iq_Armed q \<union> iq_Cancelling q = insert i (iq_Armed ?p \<union> iq_Cancelling ?p) \<and>
      iq_Cancelling ?p \<subseteq> iq_Cancelling q" by simp
    then show ?thesis
    proof (elim disjE conjE)
      assume "st = STATUS_CANCELLED" "iq_Queue q = iq_Queue ?p" "iq_Armed q = iq_Armed ?p" "iq_Cancelling q = iq_Cancelling ?p"
      with p True n(1) show ?thesis by auto
    next
      assume "st = STATUS_PENDING" "iq_Queue q = iq_Queue ?p @ [i]" "iq_Cancelling ?p \<subseteq> iq_Cancelling q" and
        u: "iq_Armed q \<union> iq_Cancelling q = insert i (iq_Armed ?p \<union> iq_Cancelling ?p)"
      with p True show ?thesis unfolding u by simp blast
    qed
  next
    case False
    then have e: "st = STATUS_PENDING" "q = (start_irp i ?p)\<lparr>iq_Queue := iq_Queue ?p @ [i]\<rparr>" using assms(3) s by (simp_all add: enqueue_def)
    have p: "pool_inv {} q" using pool_append [OF n(4)] e(2) s(1) by simp
    have f: "iq_Queue q = iq_Queue ?p @ [i]" "iq_Armed q = iq_Armed ?p" "iq_Cancelling q = iq_Cancelling ?p" using s by (simp_all add: e(2))
    from p False e(1) show ?thesis by (simp add: f)
  qed
qed

lemma enqueue_queue_inv:
  assumes "thermal_inv T" and "i \<notin> iq_Started (th_Irps T)" and "enqueue timing i Rq (start_irp i (th_Irps T)) = (st, q)"
  shows "queue_inv (T\<lparr>th_Irps := q, th_Request := (th_Request T)(i := Rq)\<rparr>)"
proof -
  let ?p = "th_Irps T"
  have Q: "\<And>j. j \<in> iq_Armed ?p \<union> iq_Cancelling ?p \<Longrightarrow> is_query T j"
    "\<And>j. j \<in> set (iq_Queue ?p) \<Longrightarrow> is_query T j \<Longrightarrow> j \<in> iq_Armed ?p \<union> iq_Cancelling ?p"
    using thermal_invD(1) [OF assms(1)] by (simp_all add: queue_inv_def)
  note n = fresh_request [OF assms(1,2)] and E = enqueue_pool [OF assms]
  let ?R = "(th_Request T)(i := Rq)"
  have q1: "rq_Code (?R j) = IOCTL_THERMAL_QUERY_INFORMATION" if "j \<in> iq_Armed q \<union> iq_Cancelling q" for j
  proof (cases "j = i")
    case True
    with that E n show ?thesis by (auto split: if_splits)
  next
    case False
    with that E have "j \<in> iq_Armed ?p \<union> iq_Cancelling ?p" by (auto split: if_splits)
    with False Q(1) show ?thesis by (simp add: is_query_def)
  qed
  have q2: "j \<in> iq_Armed q \<union> iq_Cancelling q" if "j \<in> set (iq_Queue q)" "rq_Code (?R j) = IOCTL_THERMAL_QUERY_INFORMATION" for j
  proof (cases "j = i")
    case True
    with that E show ?thesis by simp
  next
    case False
    with that E have "j \<in> set (iq_Queue ?p)" "is_query T j" by (auto simp: is_query_def split: if_splits)
    with Q(2) E show ?thesis by blast
  qed
  from E q1 q2 show ?thesis by (simp add: queue_inv_def is_query_def)
qed

lemma DeviceControl_inv:
  assumes "thermal_inv T" and "i \<notin> iq_Started (th_Irps T)" and "UacpiNtThermalDeviceControl r timing i Rq T = (h, st, T')"
  shows "thermal_inv T'"
proof -
  let ?R = "(th_Request T)(i := Rq)"
  let ?T = "T\<lparr>th_Irps := start_irp i (th_Irps T), th_Request := ?R\<rparr>"
  obtain W T1 where w: "request_work Rq ?T = (W, T1)" by fastforce
  obtain st1 q where e: "enqueue timing i Rq (start_irp i (th_Irps T)) = (st1, q)" by fastforce
  have f: "th_Irps T1 = start_irp i (th_Irps T)" "th_Request T1 = ?R" "th_Zone T1 = th_Zone T" "th_Delivered T1 = th_Delivered T"
    "worker_inv T1 = worker_inv ?T" "covered T1 = covered ?T"
    using request_work_frame [of Rq ?T] by (simp_all add: w)
  have f': "worker_inv (T1\<lparr>th_Irps := q\<rparr>)" "covered (T1\<lparr>th_Irps := q\<rparr>) = covered T"
    using f(5,6) thermal_invD(2) [OF assms(1)] by (simp_all add: worker_inv_def covered_def)
  have Q: "queue_inv (T1\<lparr>th_Irps := q\<rparr>)"
    using enqueue_queue_inv [OF assms(1,2) e] f(2) by (simp add: queue_inv_def is_query_def)
  note E = enqueue_pool [OF assms(1,2) e]
  have old: "covered (T1\<lparr>th_Irps := q\<rparr>) \<or> up_to_date (T1\<lparr>th_Irps := q\<rparr>) j" if "waiting (T1\<lparr>th_Irps := q\<rparr>) j" "j \<noteq> i" for j
  proof -
    have "waiting T j" using that E by (auto simp: waiting_def split: if_splits)
    with thermal_invD(3) [OF assms(1)] that(2) f f'(2) show ?thesis by (simp add: up_to_date_def is_query_def)
  qed
  have new: "bit W 5 \<or> up_to_date (T1\<lparr>th_Irps := q\<rparr>) i"
    using request_work_bits(2) [OF w] f by (auto simp: up_to_date_def is_query_def)
  have pend: "thermal_inv (add_caller (UacpiNtThermalAddWork W (T1\<lparr>th_Irps := q\<rparr>)))"
    by (rule AddWork_inv [OF Q f'(1) request_work_bits(1) [OF w]]) (use old new in blast)
  have canc: "thermal_inv (T1\<lparr>th_Irps := q\<rparr>)" if "st1 = STATUS_CANCELLED"
  proof -
    have "\<not> waiting (T1\<lparr>th_Irps := q\<rparr>) i" using that E fresh_request(1) [OF assms(1,2)] by (auto simp: waiting_def)
    with old Q f'(1) show ?thesis by (auto simp: thermal_inv_def service_inv_def)
  qed
  from assms(3) have "T' = T \<or> (\<exists>s. thermal_complete i s ?T = (h, st, T')) \<or>
      st1 = STATUS_CANCELLED \<and> T' = T1\<lparr>th_Irps := q\<rparr> \<or> T' = add_caller (UacpiNtThermalAddWork W (T1\<lparr>th_Irps := q\<rparr>))"
    unfolding UacpiNtThermalDeviceControl_def Let_def w case_prod_conv f(1) e
    by (auto split: option.splits prod.splits if_splits)
  then show ?thesis using assms(1) pend canc thermal_complete_inv [OF assms(1,2)] by blast
qed

lemma thermal_step_inv: "thermal_step E T T' \<Longrightarrow> thermal_inv T \<Longrightarrow> thermal_inv T'"
proof (induction rule: thermal_step.induct)
  case (stopped T n pool)
  have "queue_inv (T\<lparr>th_Stopping := n\<rparr>)" "worker_inv (T\<lparr>th_Stopping := n\<rparr>)"
    using thermal_invD(1,2) [OF stopped.prems] by (simp_all add: queue_inv_def worker_inv_def is_query_def)
  then show ?case by (rule CompleteIrps_inv)
qed (simp_all add: DeviceControl_inv thermal_cancel_inv cancelled_inv Notify_inv ZoneStart_inv ZoneStop_inv QueueWorker_inv run_inv Worker_inv)

lemma thermal_reachable_inv: "(thermal_step E)\<^sup>*\<^sup>* (initial_thermal Z Cs S) T \<Longrightarrow> thermal_inv T"
  by (induction rule: rtranclp_induct) (auto intro: thermal_inv_initial thermal_step_inv)

section \<open>Properties\<close>

text \<open>
  C32: Under every interleaving of control requests, cancellations, notifications, starts, stops and the
  worker's steps: a request is completed at most once, and exactly when it is no longer queued or being
  cancelled; at most one caller, work item or worker serves the zone; a request that waits and is not
  being cancelled has a completion pass to come (flagged, or in the hands of a worker or a stop) unless it is a
  query that holds the stamp of the current reading and these data were delivered before; and flagged work
  has someone to do it unless a work item could not be allocated since.
\<close>

theorem Thermal_requests_served:
  assumes "(thermal_step E)\<^sup>*\<^sup>* (initial_thermal Z Cs S) T"
  shows "completions i (th_Irps T) \<le> 1 \<and>
    (i \<in> iq_Started (th_Irps T) \<longrightarrow> completions i (th_Irps T) = 0 \<longleftrightarrow> i \<in> set (iq_Queue (th_Irps T)) \<union> iq_Cancelling (th_Irps T)) \<and>
    th_Callers T + th_Items T + length (th_Workers T) = of_bool (th_Running T) \<and>
    (waiting T i \<longrightarrow> covered T \<or> up_to_date T i) \<and>
    (th_Work T \<noteq> 0 \<longrightarrow> th_Running T \<or> th_Failed T)"
proof -
  note I = thermal_invD [OF thermal_reachable_inv [OF assms]]
  have p: "pool_inv {} (th_Irps T)" using I(1) by (simp add: queue_inv_def)
  show ?thesis using completions_once [OF p, of i] I(2) I(3) [of i] by (auto simp: worker_inv_def)
qed

text \<open>What a completion pass gives out: every request that waits, in the order of the queue.\<close>

lemma CompleteIrps_served:
  assumes "queue_inv T"
  defines "ws \<equiv> filter (waiting T) (iq_Queue (th_Irps T))"
  shows "iq_Done (th_Irps (UacpiNtThermalCompleteIrps E pool T)) = iq_Done (th_Irps T) @ map (\<lambda>i. (i, STATUS_SUCCESS)) ws"
    and "th_Out (UacpiNtThermalCompleteIrps E pool T) = th_Out T @
      map (\<lambda>i. (i, request_output E (pool i) (th_Zone T) (tz_Info (th_Zone T)) (rq_Code (th_Request T i)))) ws"
proof -
  let ?q = "th_Irps T" and ?query = "\<lambda>i. rq_Code (th_Request T i) = IOCTL_THERMAL_QUERY_INFORMATION"
  have I: "pool_inv {} ?q" "\<forall>i\<in>iq_Armed ?q \<union> iq_Cancelling ?q. ?query i"
    "\<forall>i\<in>set (iq_Queue ?q). ?query i \<longrightarrow> i \<in> iq_Armed ?q \<union> iq_Cancelling ?q"
    using assms by (simp_all add: queue_inv_def is_query_def)
  have d: "distinct (iq_Queue ?q)" and a: "iq_Armed ?q \<inter> iq_Cancelling ?q = {}" using I(1) by (simp_all add: pool_inv_def)
  have n: "\<forall>i\<in>set (iq_Queue ?q). \<not> ?query i \<longrightarrow> i \<notin> iq_Armed ?q" using I(2) by blast
  have f: "filter (\<lambda>i. ?query i \<longrightarrow> i \<in> iq_Armed ?q) (iq_Queue ?q) = ws"
    unfolding ws_def waiting_def using I(2,3) a by (intro filter_cong) auto
  show "iq_Done (th_Irps (UacpiNtThermalCompleteIrps E pool T)) = iq_Done (th_Irps T) @ map (\<lambda>i. (i, STATUS_SUCCESS)) ws"
    and "th_Out (UacpiNtThermalCompleteIrps E pool T) = th_Out T @
      map (\<lambda>i. (i, request_output E (pool i) (th_Zone T) (tz_Info (th_Zone T)) (rq_Code (th_Request T i)))) ws"
    by (simp_all add: UacpiNtThermalCompleteIrps_def complete_scan_eq [OF d d subset_refl n] f fold_complete_frame Let_def)
qed

text \<open>The worker's own steps from a point of its loop on, at most \<open>n\<close> of them, with nobody else running.\<close>

fun worker_run :: "thermal_env \<Rightarrow> (nat \<Rightarrow> bool) \<Rightarrow> nat \<Rightarrow> worker option \<times> thermal \<Rightarrow> worker option \<times> thermal" where
  "worker_run E pool n (None, T) = (None, T)"
| "worker_run E pool 0 (Some w, T) = (Some w, T)"
| "worker_run E pool (Suc n) (Some w, T) = worker_run E pool n (UacpiNtThermalWorker E pool w T)"

text \<open>
  C33: A worker that starts with work flagged ends after its next four steps when nothing else runs: it takes
  the work, does it, completes the queue and finds nothing more to do. It leaves the zone, the coolers
  and the power state as the steps of one pass make them; it completes exactly the requests that waited, in
  the order of the queue, with success and with the data of the zone that the pass just read; no request waits
  any more, no work is flagged and the zone is no longer running.
\<close>

theorem Thermal_worker_serves:
  assumes "(thermal_step E)\<^sup>*\<^sup>* (initial_thermal Z Cs S) T" and "th_Workers T = [WTop]" and "th_Work T \<noteq> 0"
    and "worker_steps E (th_Work T) (th_CoolingPolicy T) (th_FanLevel T) (th_Zone T, th_Coolers T, th_Power T) = (Z1, Cs1, S1)"
  shows "\<exists>T'. worker_run E pool 4 (Some WTop, T) = (None, T') \<and>
    th_Zone T' = Z1 \<and> th_Coolers T' = Cs1 \<and> th_Power T' = S1 \<and> th_Work T' = 0 \<and> \<not> th_Running T' \<and>
    (\<forall>i. \<not> waiting T' i) \<and>
    iq_Done (th_Irps T') = iq_Done (th_Irps T) @ map (\<lambda>i. (i, STATUS_SUCCESS)) (filter (waiting T) (iq_Queue (th_Irps T))) \<and>
    th_Out T' = th_Out T @ map (\<lambda>i. (i, request_output E (pool i) Z1 (tz_Info Z1) (rq_Code (th_Request T i))))
      (filter (waiting T) (iq_Queue (th_Irps T)))"
proof -
  note I = thermal_invD [OF thermal_reachable_inv [OF assms(1)]]
  let ?W = "th_Work T" and ?p = "th_CoolingPolicy T" and ?f = "th_FanLevel T"
  define T2 where "T2 = T\<lparr>th_Work := 0, th_Zone := Z1, th_Coolers := Cs1, th_Power := S1\<rparr>"
  define T3 where "T3 = UacpiNtThermalCompleteIrps E pool T2"
  have b: "?W AND WORK_COMPLETE \<noteq> 0" using I(2) assms(3) unfolding and_complete by (simp add: worker_inv_def)
  have f: "th_Work T3 = 0" "th_Zone T3 = Z1" "th_Coolers T3 = Cs1" "th_Power T3 = S1"
    by (simp_all add: T3_def T2_def CompleteIrps_frame UacpiNtThermalCompleteIrps_def Let_def split: prod.split)
  have s1: "UacpiNtThermalWorker E pool WTop T = (Some (WBusy ?W ?p ?f), T\<lparr>th_Work := 0\<rparr>)"
    using assms(3) by (simp add: UacpiNtThermalWorker_def Let_def)
  have s2: "UacpiNtThermalWorker E pool (WBusy ?W ?p ?f) (T\<lparr>th_Work := 0\<rparr>) = (Some WComplete, T2)"
    using assms(4) b by (simp add: UacpiNtThermalWorker_def T2_def)
  have s3: "UacpiNtThermalWorker E pool WComplete T2 = (Some WTop, T3)"
    by (simp add: UacpiNtThermalWorker_def T3_def)
  have s4: "UacpiNtThermalWorker E pool WTop T3 = (None, T3\<lparr>th_Work := 0, th_Running := False\<rparr>)"
    using f(1) by (simp add: UacpiNtThermalWorker_def)
  have run: "worker_run E pool 4 (Some WTop, T) = (None, T3\<lparr>th_Work := 0, th_Running := False\<rparr>)"
    by (simp add: eval_nat_numeral s1 s2 s3 s4)
  have q: "queue_inv T2" using I(1) by (simp add: queue_inv_def is_query_def T2_def)
  have w: "waiting T2 = waiting T" "iq_Queue (th_Irps T2) = iq_Queue (th_Irps T)"
    by (simp_all add: waiting_def T2_def fun_eq_iff)
  show ?thesis
    using run f CompleteIrps_irps(2) [OF q, where E = E and pool = pool, folded T3_def]
      CompleteIrps_served [OF q, where E = E and pool = pool, folded T3_def, unfolded w]
    by (intro exI [of _ "T3\<lparr>th_Work := 0, th_Running := False\<rparr>"]) (simp add: waiting_def T2_def)
qed

text \<open>A zone that is started while a query with an old stamp arrives; the worker is about to run.\<close>

definition demo_query :: thermal_request where
  "demo_query = \<lparr>rq_Code = IOCTL_THERMAL_QUERY_INFORMATION, rq_KernelMode = True, rq_InputLength = 4, rq_OutputLength = 88,
     rq_Buffer = True, rq_Stamp = 3, rq_Byte = 0\<rparr>"

definition demo_thermal_start :: thermal where
  "demo_thermal_start = initial_thermal (demo_zone 3000) (\<lambda>_. None) demo_power"

definition demo_waiting :: thermal where
  "demo_waiting = snd (snd (UacpiNtThermalDeviceControl Win10 NotCancelled 5 demo_query (UacpiNtThermalZoneStart demo_thermal_start)))"

definition demo_running :: thermal where
  "demo_running = (UacpiNtThermalQueueWorker True (demo_waiting\<lparr>th_Callers := 0\<rparr>))\<lparr>th_Items := 0, th_Workers := [WTop]\<rparr>"

lemma demo_control:
  "UacpiNtThermalDeviceControl Win10 NotCancelled 5 demo_query (UacpiNtThermalZoneStart demo_thermal_start) = (True, STATUS_PENDING, demo_waiting)"
  "iq_Started (th_Irps (UacpiNtThermalZoneStart demo_thermal_start)) = {}" "th_Callers demo_waiting = 1" "th_Items demo_waiting = 0"
  "th_Workers demo_waiting = []" "th_Work demo_waiting = WORK_ALL" "iq_Queue (th_Irps demo_waiting) = [5]" "iq_Cancelling (th_Irps demo_waiting) = {}"
  by (simp_all add: demo_waiting_def UacpiNtThermalDeviceControl_def demo_query_def UacpiNtThermalZoneStart_def UacpiNtThermalRequestSizes_def
      demo_thermal_start_def initial_thermal_def request_work_def enqueue_def queue_cancellable_def UacpiNtThermalAddWork_def add_caller_def
      demo_zone_def start_irp_def empty_pool_def Let_def)

lemma demo_reachable: "(thermal_step (demo_thermal_env 3050))\<^sup>*\<^sup>* demo_thermal_start demo_running"
proof -
  let ?E = "demo_thermal_env 3050"
  have r: "te_Release ?E = Win10" by (simp add: demo_thermal_env_def)
  have "thermal_step ?E demo_thermal_start (UacpiNtThermalZoneStart demo_thermal_start)" by (rule thermal_step.start)
  moreover have "thermal_step ?E (UacpiNtThermalZoneStart demo_thermal_start) demo_waiting"
    by (rule thermal_step.control [where Irp = 5 and Rq = demo_query and timing = NotCancelled]) (simp_all add: demo_control r)
  moreover have "thermal_step ?E demo_waiting (UacpiNtThermalQueueWorker True (demo_waiting\<lparr>th_Callers := 0\<rparr>))"
    by (rule thermal_step.queue) (simp add: demo_control)
  moreover have "thermal_step ?E (UacpiNtThermalQueueWorker True (demo_waiting\<lparr>th_Callers := 0\<rparr>)) demo_running"
    using thermal_step.run [of "UacpiNtThermalQueueWorker True (demo_waiting\<lparr>th_Callers := 0\<rparr>)" 0 ?E]
    by (simp add: demo_running_def UacpiNtThermalQueueWorker_def demo_control)
  ultimately show ?thesis by (meson converse_rtranclp_into_rtranclp rtranclp.rtrancl_refl)
qed

lemma demo_running_fields: "th_Workers demo_running = [WTop]" "th_Work demo_running = WORK_ALL" "waiting demo_running 5"
  by (simp_all add: demo_running_def UacpiNtThermalQueueWorker_def demo_control waiting_def)

theorem Thermal_requests_served_witness: "waiting demo_running 5 \<and> completions 5 (th_Irps demo_running) \<le> 1 \<and> (covered demo_running \<or> up_to_date demo_running 5)"
  using Thermal_requests_served [OF demo_reachable [unfolded demo_thermal_start_def], of 5] demo_running_fields(3) by blast

theorem Thermal_worker_serves_witness:
  "\<exists>T'. worker_run (demo_thermal_env 3050) (\<lambda>_. True) 4 (Some WTop, demo_running) = (None, T') \<and>
     (5, STATUS_SUCCESS) \<in> set (iq_Done (th_Irps T')) \<and> \<not> th_Running T'"
proof -
  have w: "th_Work demo_running \<noteq> 0" by (simp add: demo_running_fields)
  obtain Z Cs S where "worker_steps (demo_thermal_env 3050) (th_Work demo_running) (th_CoolingPolicy demo_running)
      (th_FanLevel demo_running) (th_Zone demo_running, th_Coolers demo_running, th_Power demo_running) = (Z, Cs, S)"
    using prod_cases3 by blast
  from Thermal_worker_serves [OF demo_reachable [unfolded demo_thermal_start_def] demo_running_fields(1) w this, of "\<lambda>_. True"]
    demo_running_fields(3)
  show ?thesis by (auto simp: waiting_def)
qed

end
