(* ===== verification/Button_Driver.thy ===== *)
theory Button_Driver
  imports Irp_Queue Power_Wake
begin

text \<open>
  Buttons and the lid (drivers/button.c): events are handed to waiting requests or latched until one
  comes. The requests are a pool of \<open>Irp_Queue\<close>; fixed buttons are latched by the interrupt and delivered
  by a DPC.
\<close>

section \<open>Data\<close>

abbreviation (input) SYS_BUTTON_POWER :: u32 where "SYS_BUTTON_POWER \<equiv> 1"
abbreviation (input) SYS_BUTTON_SLEEP :: u32 where "SYS_BUTTON_SLEEP \<equiv> 2"
abbreviation (input) SYS_BUTTON_LID :: u32 where "SYS_BUTTON_LID \<equiv> 4"
abbreviation (input) SYS_BUTTON_WAKE :: u32 where "SYS_BUTTON_WAKE \<equiv> 0x80000000"
abbreviation (input) SYS_BUTTON_LID_INITIAL :: u32 where "SYS_BUTTON_LID_INITIAL \<equiv> 0x40000"
abbreviation (input) SYS_BUTTON_LID_CHANGED :: u32 where "SYS_BUTTON_LID_CHANGED \<equiv> 0x80000"
abbreviation (input) UACPINT_LID_EVENT_OPEN :: u32 where "UACPINT_LID_EVENT_OPEN \<equiv> 0x80080000"
abbreviation (input) UACPINT_LID_EVENT_CLOSED :: u32 where "UACPINT_LID_EVENT_CLOSED \<equiv> 0x80004"
abbreviation (input) UACPINT_NOTIFY_BUTTON :: u32 where "UACPINT_NOTIFY_BUTTON \<equiv> 0x80"
abbreviation (input) UACPINT_NOTIFY_WAKE :: u32 where "UACPINT_NOTIFY_WAKE \<equiv> 2"

text \<open>
  The button fields of UACPINT_PDO. \<open>bt_Dpc\<close> is whether the DPC is in its queue, \<open>bt_Out\<close> the event values
  put into completed requests, \<open>bt_Requests\<close> the WAIT_WAKE requests made, \<open>bt_Calls\<close> the states its interface was
  set to.
\<close>

record button =
  bt_Caps :: u32
  bt_Events :: u32
  bt_Irps :: irp_pool
  bt_Deferred :: u32
  bt_Dpc :: bool
  bt_IfRegistered :: bool
  bt_PowerCallback :: bool
  bt_PowerCallbackHandle :: bool
  bt_LidCloseNoAction :: bool
  bt_LidInitialReported :: bool
  bt_Wake :: wake
  bt_Out :: "(nat \<times> u32) list"
  bt_Requests :: "system_power_state list"
  bt_Calls :: "bool list"

definition lower :: "char \<Rightarrow> char" where
  "lower c = (if 65 \<le> (of_char c :: nat) \<and> (of_char c :: nat) \<le> 90 then char_of ((of_char c :: nat) + 32) else c)"

definition stricmp_equal :: "string \<Rightarrow> string \<Rightarrow> bool" where
  "stricmp_equal a b \<longleftrightarrow> map lower a = map lower b"

definition UacpiNtButtonClassify :: "string \<Rightarrow> button \<Rightarrow> bool \<times> button" where
  "UacpiNtButtonClassify Hid B =
     (let Caps = (if stricmp_equal Hid ''PNP0C0C'' then SYS_BUTTON_WAKE OR SYS_BUTTON_POWER
                  else if stricmp_equal Hid ''PNP0C0E'' then SYS_BUTTON_WAKE OR SYS_BUTTON_SLEEP
                  else if stricmp_equal Hid ''PNP0C0D'' then SYS_BUTTON_LID else 0)
      in if Caps = 0 then (False, B\<lparr>bt_Caps := 0\<rparr>) else (True, B\<lparr>bt_Caps := Caps, bt_Irps := empty_pool\<rparr>))"

section \<open>Events\<close>

text \<open>\<open>Action\<close> is the lid close action of the current policy, None when it cannot be read: 0 none, 1 reserved.\<close>

definition UacpiNtLidPowerStateCallback :: "bool \<Rightarrow> nat option \<Rightarrow> button \<Rightarrow> button" where
  "UacpiNtLidPowerStateCallback Argument1 Action B =
     (if Argument1 then B
      else case Action of None \<Rightarrow> B | Some a \<Rightarrow> B\<lparr>bt_LidCloseNoAction := a = 0 \<or> a = 1\<rparr>)"

definition UacpiNtLidHookPolicy :: "bool \<Rightarrow> bool \<Rightarrow> nat option \<Rightarrow> button \<Rightarrow> button" where
  "UacpiNtLidHookPolicy created registered Action B =
     (if \<not> created then B
      else UacpiNtLidPowerStateCallback False Action (B\<lparr>bt_PowerCallback := True, bt_PowerCallbackHandle := registered\<rparr>))"

text \<open>The event is handed to the first waiting request, or latched.\<close>

definition UacpiNtButtonDeliverEvent :: "u32 \<Rightarrow> button \<Rightarrow> button" where
  "UacpiNtButtonDeliverEvent Event B =
     (let q = bt_Irps B; latch = B\<lparr>bt_Events := bt_Events B OR Event\<rparr>
      in case iq_Queue q of
           [] \<Rightarrow> latch
         | Head # _ \<Rightarrow>
             if fst (clear_cancel Head q)
             then B\<lparr>bt_Irps := complete_irp Head STATUS_SUCCESS (take_irp Head q), bt_Out := bt_Out B @ [(Head, Event)]\<rparr>
             else latch)"

text \<open>\<open>Lid\<close> is the value of _LID, None when it fails or there is no node.\<close>

definition UacpiNtLidReadEvent :: "u64 option \<Rightarrow> button \<Rightarrow> u32 \<times> button" where
  "UacpiNtLidReadEvent Lid B =
     (let LidOpen = (case Lid of None \<Rightarrow> 1 | Some v \<Rightarrow> v);
          Event = (if LidOpen \<noteq> 0 then UACPINT_LID_EVENT_OPEN else UACPINT_LID_EVENT_CLOSED)
      in if \<not> bt_LidInitialReported B then (Event OR SYS_BUTTON_LID_INITIAL, B\<lparr>bt_LidInitialReported := True\<rparr>)
         else (Event, B))"

definition UacpiNtButtonNotify :: "u64 option \<Rightarrow> u32 \<Rightarrow> button \<Rightarrow> button" where
  "UacpiNtButtonNotify Lid NotifyValue B =
     (if bt_Caps B = 0 then B
      else if NotifyValue = UACPINT_NOTIFY_WAKE then UacpiNtButtonDeliverEvent SYS_BUTTON_WAKE B
      else if NotifyValue = UACPINT_NOTIFY_BUTTON
      then if bt_Caps B AND SYS_BUTTON_LID \<noteq> 0
           then let (Event, B) = UacpiNtLidReadEvent Lid B in UacpiNtButtonDeliverEvent Event B
           else UacpiNtButtonDeliverEvent (bt_Caps B AND NOT SYS_BUTTON_WAKE) B
      else B)"

section \<open>Requests\<close>

definition UacpiNtButtonCancel :: "nat \<Rightarrow> button \<Rightarrow> button" where
  "UacpiNtButtonCancel Irp B = B\<lparr>bt_Irps := cancel_routine Irp (bt_Irps B)\<rparr>"

definition UacpiNtButtonWaitForEvent :: "cancel_timing \<Rightarrow> nat \<Rightarrow> button \<Rightarrow> ntstatus \<times> button" where
  "UacpiNtButtonWaitForEvent timing Irp B =
     (if bt_Events B \<noteq> 0
      then (STATUS_SUCCESS, B\<lparr>bt_Events := 0, bt_Irps := complete_irp Irp STATUS_SUCCESS (bt_Irps B),
              bt_Out := bt_Out B @ [(Irp, bt_Events B)]\<rparr>)
      else let (Status, q) = queue_cancellable timing Irp (bt_Irps B) in (Status, B\<lparr>bt_Irps := q\<rparr>))"

datatype button_ioctl = GetButtonCaps | GetButtonEvent | ButtonOtherIoctl

text \<open>Whether the request is a button request, and the caps a caps request is answered with.\<close>

definition UacpiNtButtonDeviceControl ::
    "button_ioctl \<Rightarrow> bool \<Rightarrow> nat \<Rightarrow> bool \<Rightarrow> cancel_timing \<Rightarrow> nat \<Rightarrow> button \<Rightarrow> bool \<times> ntstatus \<times> u32 option \<times> button" where
  "UacpiNtButtonDeviceControl Code KernelMode OutputLength Output timing Irp B =
     (if bt_Caps B = 0 \<or> Code = ButtonOtherIoctl then (False, STATUS_NOT_SUPPORTED, None, B)
      else
        let fail = (\<lambda>s. (True, s, None, B\<lparr>bt_Irps := complete_irp Irp s (start_irp Irp (bt_Irps B))\<rparr>));
            B1 = B\<lparr>bt_Irps := start_irp Irp (bt_Irps B)\<rparr>
        in if \<not> KernelMode then fail STATUS_NOT_IMPLEMENTED
           else if OutputLength < 4 \<or> \<not> Output then fail STATUS_BUFFER_TOO_SMALL
           else if Code = GetButtonEvent
           then let (Status, B2) = UacpiNtButtonWaitForEvent timing Irp B1 in (True, Status, None, B2)
           else (True, STATUS_SUCCESS, Some (bt_Caps B), B1\<lparr>bt_Irps := complete_irp Irp STATUS_SUCCESS (bt_Irps B1)\<rparr>))"

section \<open>Fixed buttons\<close>

definition UacpiNtFixedButtonDefer :: "u32 \<Rightarrow> button \<Rightarrow> button" where
  "UacpiNtFixedButtonDefer Event B = B\<lparr>bt_Deferred := bt_Deferred B OR Event, bt_Dpc := True\<rparr>"

definition UacpiNtFixedPowerButton :: "button \<Rightarrow> button" where
  "UacpiNtFixedPowerButton B = UacpiNtFixedButtonDefer SYS_BUTTON_POWER B"

definition UacpiNtFixedSleepButton :: "button \<Rightarrow> button" where
  "UacpiNtFixedSleepButton B = UacpiNtFixedButtonDefer SYS_BUTTON_SLEEP B"

definition UacpiNtFixedButtonDpc :: "bool \<Rightarrow> button \<Rightarrow> button" where
  "UacpiNtFixedButtonDpc Resuming B =
     (let Pending = bt_Deferred B; B = B\<lparr>bt_Deferred := 0\<rparr>
      in if Pending = 0 then B
         else if Resuming then UacpiNtButtonDeliverEvent SYS_BUTTON_WAKE B
         else let B = (if Pending AND SYS_BUTTON_POWER \<noteq> 0 then UacpiNtButtonDeliverEvent SYS_BUTTON_POWER B else B)
              in if Pending AND SYS_BUTTON_SLEEP \<noteq> 0 then UacpiNtButtonDeliverEvent SYS_BUTTON_SLEEP B else B)"

definition UacpiNtFixedButtonCaps :: "u32 \<Rightarrow> u32" where
  "UacpiNtFixedButtonCaps flags =
     (if flags AND 0x10 = 0 then SYS_BUTTON_POWER else 0) OR (if flags AND 0x20 = 0 then SYS_BUTTON_SLEEP else 0)"

text \<open>
  The fixed button device: whether it has been decided, the device, and the fixed event handlers
  installed. The FADT is None while there is none, \<open>created\<close> is the outcome of IoCreateDevice.
\<close>

definition blank_wake :: wake where
  "blank_wake = \<lparr>wk_Node = None, wk_WaitWakeIrp = None, wk_GpeLine = 0, wk_GpeParsed = False, wk_GpeValid = False,
     wk_SystemWake = 0, wk_DeviceWake = 0, wk_RequestedSystemState = 0, wk_PswParsed = False, wk_HasDsw = False,
     wk_HasPsw = False, wk_SetupDone = False, wk_Armed = False, wk_DepthSuspended = False, wk_DisarmQueued = False,
     wk_WakeResources = []\<rparr>"

definition blank_button :: button where
  "blank_button = \<lparr>bt_Caps = 0, bt_Events = 0, bt_Irps = empty_pool, bt_Deferred = 0, bt_Dpc = False, bt_IfRegistered = False,
     bt_PowerCallback = False, bt_PowerCallbackHandle = False, bt_LidCloseNoAction = False, bt_LidInitialReported = False,
     bt_Wake = blank_wake, bt_Out = [], bt_Requests = [], bt_Calls = []\<rparr>"

definition UacpiNtFixedButtonInit ::
    "u32 option \<Rightarrow> bool \<Rightarrow> bool \<times> button option \<times> u32 \<Rightarrow> bool \<times> button option \<times> u32" where
  "UacpiNtFixedButtonInit Fadt created s =
     (case s of (Created, Device, handlers) \<Rightarrow>
        if Created then s
        else case Fadt of
               None \<Rightarrow> s
             | Some flags \<Rightarrow>
                 let Caps = UacpiNtFixedButtonCaps flags
                 in if Caps = 0 \<or> \<not> created then (True, Device, handlers)
                    else (True, Some (blank_button\<lparr>bt_Caps := Caps OR SYS_BUTTON_WAKE, bt_Wake := UacpiNtWakeInit blank_wake None\<rparr>),
                          handlers OR Caps))"

section \<open>Start and removal\<close>

definition UacpiNtButtonArmWaitWake :: "wake_env \<Rightarrow> button \<Rightarrow> hardware \<Rightarrow> button \<times> hardware" where
  "UacpiNtButtonArmWaitWake E B X =
     (if bt_Caps B = 0 \<or> bt_Caps B AND SYS_BUTTON_LID \<noteq> 0 \<and> bt_LidCloseNoAction B then (B, X)
      else
        let (prw, W, X) = (if wk_Node (bt_Wake B) \<noteq> None then UacpiNtWakeHasPrw E (bt_Wake B) X else (False, bt_Wake B, X));
            B = B\<lparr>bt_Wake := W\<rparr>
        in if prw \<and> wk_SystemWake W = PowerSystemUnspecified then (B, X)
           else (B\<lparr>bt_Requests := bt_Requests B @ [if prw then wk_SystemWake W else PowerSystemSleeping3]\<rparr>, X))"

definition UacpiNtButtonWaitWakeDone :: "wake_env \<Rightarrow> ntstatus option \<Rightarrow> button \<Rightarrow> hardware \<Rightarrow> button \<times> hardware" where
  "UacpiNtButtonWaitWakeDone E IoStatus B X =
     (case IoStatus of
        None \<Rightarrow> (B, X)
      | Some Status \<Rightarrow> if NT_SUCCESS Status then UacpiNtButtonArmWaitWake E B X else (B, X))"

definition UacpiNtButtonStart ::
    "wake_env \<Rightarrow> bool \<Rightarrow> bool \<Rightarrow> bool \<Rightarrow> nat option \<Rightarrow> u64 option \<Rightarrow> button \<Rightarrow> hardware \<Rightarrow> button \<times> hardware" where
  "UacpiNtButtonStart E interface created registered Action Lid B X =
     (if bt_Caps B = 0 \<or> bt_IfRegistered B \<or> \<not> interface then (B, X)
      else
        let B = B\<lparr>bt_IfRegistered := True, bt_Calls := bt_Calls B @ [True]\<rparr>;
            B = (if bt_Caps B AND SYS_BUTTON_LID \<noteq> 0
                 then UacpiNtButtonNotify Lid UACPINT_NOTIFY_BUTTON (UacpiNtLidHookPolicy created registered Action B) else B)
        in UacpiNtButtonArmWaitWake E B X)"

text \<open>Every queued request is taken off; the ones a cancel routine already owns are left to it.\<close>

fun remove_loop :: "nat list \<Rightarrow> irp_pool \<Rightarrow> irp_pool" where
  "remove_loop [] q = q"
| "remove_loop (Irp # Irps) q =
     (if fst (clear_cancel Irp q) then remove_loop Irps (complete_irp Irp STATUS_DELETE_PENDING (take_irp Irp q))
      else remove_loop Irps (q\<lparr>iq_Queue := remove1 Irp (iq_Queue q)\<rparr>))"

definition UacpiNtButtonRemove :: "button \<Rightarrow> button" where
  "UacpiNtButtonRemove B =
     (if bt_Caps B = 0 then B
      else B\<lparr>bt_IfRegistered := False, bt_Calls := (if bt_IfRegistered B then bt_Calls B @ [False] else bt_Calls B),
             bt_PowerCallbackHandle := False, bt_PowerCallback := False,
             bt_Irps := remove_loop (iq_Queue (bt_Irps B)) (bt_Irps B)\<rparr>)"

section \<open>Interleavings\<close>

text \<open>What a notification reports, from its value, the kind of button and the state of the lid.\<close>

definition notified_event :: "u64 option \<Rightarrow> u32 \<Rightarrow> button \<Rightarrow> u32" where
  "notified_event Lid v B =
     (if bt_Caps B = 0 then 0
      else if v = UACPINT_NOTIFY_WAKE then SYS_BUTTON_WAKE
      else if v \<noteq> UACPINT_NOTIFY_BUTTON then 0
      else if bt_Caps B AND SYS_BUTTON_LID = 0 then bt_Caps B AND NOT SYS_BUTTON_WAKE
      else (if Lid = Some 0 then SYS_BUTTON_LID_CHANGED OR SYS_BUTTON_LID else SYS_BUTTON_LID_CHANGED OR SYS_BUTTON_WAKE) OR
           (if bt_LidInitialReported B then 0 else SYS_BUTTON_LID_INITIAL))"

text \<open>
  One step of the button, labelled with the event it brings in: a press of a fixed button at the interrupt, a
  notification, or nothing. \<open>resumed\<close> is whether the DPC may run in the resume window.
\<close>

inductive button_step :: "bool \<Rightarrow> u32 \<Rightarrow> button \<Rightarrow> button \<Rightarrow> bool" for resumed :: bool where
  ioctl: "Irp \<notin> iq_Started (bt_Irps B) \<Longrightarrow> UacpiNtButtonDeviceControl Code km len out timing Irp B = (h, st, caps, B') \<Longrightarrow>
    button_step resumed 0 B B'"
| cancel: "button_step resumed 0 B (B\<lparr>bt_Irps := cancel_request Irp (bt_Irps B)\<rparr>)"
| cancelled: "Irp \<in> iq_Cancelling (bt_Irps B) \<Longrightarrow> button_step resumed 0 B (UacpiNtButtonCancel Irp B)"
| notify: "button_step resumed (notified_event Lid v B) B (UacpiNtButtonNotify Lid v B)"
| power: "button_step resumed SYS_BUTTON_POWER B (UacpiNtFixedPowerButton B)"
| sleep: "button_step resumed SYS_BUTTON_SLEEP B (UacpiNtFixedSleepButton B)"
| dpc: "bt_Dpc B \<Longrightarrow> Resuming \<longrightarrow> resumed \<Longrightarrow> button_step resumed 0 B (UacpiNtFixedButtonDpc Resuming (B\<lparr>bt_Dpc := False\<rparr>))"
| remove: "button_step resumed 0 B (UacpiNtButtonRemove B)"

text \<open>A run of the button with the events it brought in.\<close>

inductive button_run :: "bool \<Rightarrow> u32 list \<Rightarrow> button \<Rightarrow> button \<Rightarrow> bool" for resumed :: bool where
  none: "button_run resumed [] B B"
| more: "button_run resumed es B C \<Longrightarrow> button_step resumed e C D \<Longrightarrow> button_run resumed (es @ [e]) B D"

definition out_bits :: "(nat \<times> u32) list \<Rightarrow> u32" where
  "out_bits os = foldr (\<lambda>x a. snd x OR a) os 0"

text \<open>The events handed out since the first \<open>n\<close> answers, or latched for the next request.\<close>

definition reported :: "nat \<Rightarrow> button \<Rightarrow> u32" where
  "reported n B = out_bits (drop n (bt_Out B)) OR bt_Events B"

text \<open>
  Every queued request can be cancelled or is being cancelled; only presses of the fixed buttons are deferred,
  and their DPC is queued.
\<close>

definition button_inv :: "button \<Rightarrow> bool" where
  "button_inv B \<longleftrightarrow> pool_inv {} (bt_Irps B) \<and>
     set (iq_Queue (bt_Irps B)) \<subseteq> iq_Armed (bt_Irps B) \<union> iq_Cancelling (bt_Irps B) \<and>
     (bt_Deferred B = 0 \<or> bt_Dpc B) \<and> (\<forall>k. bit (bt_Deferred B) k \<longrightarrow> k < 2)"

lemma out_bits_snoc: "out_bits (os @ [(i, e)]) = out_bits os OR e"
  by (induction os) (simp_all add: out_bits_def ac_simps)

lemma bit_button:
  "bit SYS_BUTTON_POWER k \<longleftrightarrow> k = 0" "bit SYS_BUTTON_SLEEP k \<longleftrightarrow> k = 1" "bit SYS_BUTTON_WAKE k \<longleftrightarrow> k = 31"
proof -
  have "SYS_BUTTON_WAKE = push_bit 31 1" by simp
  then have "bit SYS_BUTTON_WAKE k \<longleftrightarrow> bit (push_bit 31 (1 :: u32)) k" by (simp only:)
  then show "bit SYS_BUTTON_WAKE k \<longleftrightarrow> k = 31" unfolding bit_push_bit_iff by (auto simp: bit_1_iff)
qed (auto simp: bit_1_iff bit_2_iff)

lemma button_invD:
  assumes "button_inv B"
  shows "pool_inv {} (bt_Irps B)" and "set (iq_Queue (bt_Irps B)) \<subseteq> iq_Armed (bt_Irps B) \<union> iq_Cancelling (bt_Irps B)"
    and "bt_Deferred B = 0 \<or> bt_Dpc B" and "(\<forall>k. bit (bt_Deferred B) k \<longrightarrow> k < 2)"
  using assms by (simp_all add: button_inv_def)

lemma DeliverEvent_frame [simp]:
  "bt_Deferred (UacpiNtButtonDeliverEvent Event B) = bt_Deferred B" "bt_Dpc (UacpiNtButtonDeliverEvent Event B) = bt_Dpc B"
  "bt_Caps (UacpiNtButtonDeliverEvent Event B) = bt_Caps B" "bt_Calls (UacpiNtButtonDeliverEvent Event B) = bt_Calls B"
  "bt_IfRegistered (UacpiNtButtonDeliverEvent Event B) = bt_IfRegistered B"
  by (simp_all add: UacpiNtButtonDeliverEvent_def Let_def split: list.split)

text \<open>Delivering an event reports exactly it.\<close>

lemma DeliverEvent_reports:
  "n \<le> length (bt_Out B) \<Longrightarrow> reported n (UacpiNtButtonDeliverEvent Event B) = reported n B OR Event"
  "length (bt_Out B) \<le> length (bt_Out (UacpiNtButtonDeliverEvent Event B))"
  by (auto simp: UacpiNtButtonDeliverEvent_def reported_def out_bits_snoc Let_def ac_simps split: list.split)

lemma DeliverEvent_inv:
  assumes "button_inv B"
  shows "button_inv (UacpiNtButtonDeliverEvent Event B)"
proof (cases "\<exists>i is. iq_Queue (bt_Irps B) = i # is \<and> i \<in> iq_Armed (bt_Irps B)")
  case True
  then obtain i rest where q: "iq_Queue (bt_Irps B) = i # rest" "i \<in> iq_Armed (bt_Irps B)" by blast
  note I = button_invD [OF assms]
  have "i \<notin> iq_Cancelling (bt_Irps B)" using pool_armed [OF I(1) q(2)] by blast
  from pool_take [OF I(1) _ this] q have "pool_inv {i} (take_irp i (bt_Irps B))" by simp
  then have p: "pool_inv {} (complete_irp i STATUS_SUCCESS (take_irp i (bt_Irps B)))" by (intro pool_complete) auto
  have "i \<notin> set rest" using I(1) q(1) by (simp add: pool_inv_def)
  with I(2) q(1) have "set rest \<subseteq> iq_Armed (bt_Irps B) - {i} \<union> iq_Cancelling (bt_Irps B)" by auto
  with p q I(3,4) show ?thesis
    by (simp add: UacpiNtButtonDeliverEvent_def clear_cancel_def button_inv_def)
      (simp add: complete_irp_def take_irp_def)
next
  case False
  then have "UacpiNtButtonDeliverEvent Event B = B\<lparr>bt_Events := bt_Events B OR Event\<rparr>"
    by (auto simp: UacpiNtButtonDeliverEvent_def clear_cancel_def Let_def split: list.split)
  with button_invD [OF assms] show ?thesis by (simp add: button_inv_def)
qed

lemma WaitForEvent_inv:
  assumes "pool_inv {i} (bt_Irps B)" and "set (iq_Queue (bt_Irps B)) \<subseteq> iq_Armed (bt_Irps B) \<union> iq_Cancelling (bt_Irps B)"
    and "bt_Deferred B = 0 \<or> bt_Dpc B" and "(\<forall>k. bit (bt_Deferred B) k \<longrightarrow> k < 2)"
    and "UacpiNtButtonWaitForEvent timing i B = (st, B')"
  shows "button_inv B'"
proof (cases "bt_Events B = 0")
  case True
  have "i \<notin> set (iq_Queue (bt_Irps B))" using assms(1) by (auto simp: pool_inv_def)
  with assms(2) have "set (iq_Queue (bt_Irps B)) \<subseteq> iq_Armed (bt_Irps B) - {i} \<union> iq_Cancelling (bt_Irps B)" by blast
  with True pool_queue [OF assms(1), of timing] assms show ?thesis
    by (cases timing) (auto simp: UacpiNtButtonWaitForEvent_def button_inv_def queue_cancellable_def clear_cancel_def cancel_request_def
        complete_irp_def)
next
  case False
  from pool_complete [of i "{}"] assms(1) have "pool_inv {} (complete_irp i STATUS_SUCCESS (bt_Irps B))" by simp
  with False assms show ?thesis
    by (auto simp: UacpiNtButtonWaitForEvent_def button_inv_def complete_irp_def)
qed

lemma remove_loop_inv:
  assumes "pool_inv {} q" and "set (iq_Queue q) \<subseteq> iq_Armed q \<union> iq_Cancelling q" and "is = iq_Queue q"
  shows "pool_inv {} (remove_loop is q) \<and> iq_Queue (remove_loop is q) = []"
  using assms
proof (induction "is" arbitrary: q)
  case Nil
  then show ?case by simp
next
  case (Cons i rest)
  then have q: "iq_Queue q = i # rest" by simp
  have d: "i \<notin> set rest" using Cons.prems(1) q by (simp add: pool_inv_def)
  show ?case
  proof (cases "i \<in> iq_Armed q")
    case True
    have "i \<notin> iq_Cancelling q" using pool_armed [OF Cons.prems(1) True] by blast
    from pool_take [OF Cons.prems(1) _ this] q have "pool_inv {i} (take_irp i q)" by simp
    let ?q = "complete_irp i STATUS_DELETE_PENDING (take_irp i q)"
    have p: "pool_inv {} ?q" using \<open>pool_inv {i} (take_irp i q)\<close> by (intro pool_complete) auto
    have r: "rest = iq_Queue ?q" using q by (simp add: complete_irp_def take_irp_def)
    have "set (iq_Queue ?q) \<subseteq> iq_Armed ?q \<union> iq_Cancelling ?q"
      using Cons.prems(2) [unfolded q] d by (auto simp: r [symmetric]) (auto simp: complete_irp_def take_irp_def)
    from Cons.IH [OF p this r] True show ?thesis by (simp only: remove_loop.simps clear_cancel_def fst_conv if_True)
  next
    case False
    then have c: "i \<in> iq_Cancelling q" using Cons.prems(2) q by auto
    let ?q = "q\<lparr>iq_Queue := remove1 i (iq_Queue q)\<rparr>"
    have p: "pool_inv {} ?q" by (rule pool_unlink [OF Cons.prems(1) c])
    have r: "rest = iq_Queue ?q" using q by simp
    have "set (iq_Queue ?q) \<subseteq> iq_Armed ?q \<union> iq_Cancelling ?q"
      using Cons.prems(2) [unfolded q] unfolding r [symmetric] by simp
    from Cons.IH [OF p this r] False show ?thesis by (simp only: remove_loop.simps clear_cancel_def fst_conv if_False)
  qed
qed

lemma FixedButtonDpc_inv:
  assumes "button_inv B"
  shows "button_inv (UacpiNtFixedButtonDpc Resuming (B\<lparr>bt_Dpc := False\<rparr>))"
proof -
  have "button_inv (B\<lparr>bt_Dpc := False, bt_Deferred := 0\<rparr>)" using assms by (simp add: button_inv_def)
  then show ?thesis by (auto simp: UacpiNtFixedButtonDpc_def Let_def intro!: DeliverEvent_inv)
qed

lemma button_step_inv: "button_step resumed e B B' \<Longrightarrow> button_inv B \<Longrightarrow> button_inv B'"
proof (induction rule: button_step.induct)
  case (ioctl Irp B Code km len out timing h st caps B')
  note I = button_invD [OF ioctl(3)]
  have s: "pool_inv {Irp} (start_irp Irp (bt_Irps B))" using pool_start [OF I(1) ioctl(1)] .
  then have c: "pool_inv {} (complete_irp Irp st' (start_irp Irp (bt_Irps B)))" for st' by (intro pool_complete) auto
  obtain st2 B2 where w: "UacpiNtButtonWaitForEvent timing Irp (B\<lparr>bt_Irps := start_irp Irp (bt_Irps B)\<rparr>) = (st2, B2)" by fastforce
  from WaitForEvent_inv [OF _ _ _ _ w] s I(2-4) have "button_inv B2" by (simp add: start_irp_def)
  with ioctl(2,3) w c I(2-4) show ?case
    by (auto simp: UacpiNtButtonDeviceControl_def button_inv_def complete_irp_def start_irp_def Let_def split: if_splits)
next
  case (cancel B Irp)
  with pool_cancel [OF button_invD(1) [OF cancel]] show ?case by (auto simp: button_inv_def cancel_request_def)
next
  case (cancelled Irp B)
  with pool_cancel_routine [OF button_invD(1) [OF cancelled(2)] cancelled(1)] show ?case
    by (auto simp: button_inv_def UacpiNtButtonCancel_def cancel_routine_def complete_irp_def)
next
  case (notify Lid v B)
  have "button_inv (B\<lparr>bt_LidInitialReported := True\<rparr>)" using notify by (simp add: button_inv_def)
  with notify show ?case
    by (auto simp: UacpiNtButtonNotify_def UacpiNtLidReadEvent_def Let_def intro!: DeliverEvent_inv)
next
  case (dpc B Resuming)
  then show ?case by (intro FixedButtonDpc_inv)
next
  case (remove B)
  with remove_loop_inv [OF button_invD(1,2) [OF remove] refl] show ?case
    by (auto simp: UacpiNtButtonRemove_def button_inv_def)
qed (auto simp: UacpiNtFixedPowerButton_def UacpiNtFixedSleepButton_def UacpiNtFixedButtonDefer_def button_inv_def
       bit_or_iff bit_button simp del: bit_numeral_word_iff)

lemma button_run_inv: "button_run resumed es B B' \<Longrightarrow> button_inv B \<Longrightarrow> button_inv B'"
  by (induction rule: button_run.induct) (auto dest: button_step_inv)

lemma blank_button_inv: "button_inv (blank_button\<lparr>bt_Caps := Caps\<rparr>)"
  using pool_inv_empty by (simp add: button_inv_def blank_button_def) (simp add: empty_pool_def)

section \<open>What becomes of an event\<close>

text \<open>Reported, or deferred to the DPC.\<close>

definition in_hand :: "nat \<Rightarrow> button \<Rightarrow> u32" where
  "in_hand n B = reported n B OR bt_Deferred B"

lemma deferred_presses:
  assumes "\<forall>k. bit P k \<longrightarrow> k < 2"
  shows "(if P AND SYS_BUTTON_POWER \<noteq> 0 then SYS_BUTTON_POWER else 0) OR (if P AND SYS_BUTTON_SLEEP \<noteq> 0 then SYS_BUTTON_SLEEP else 0) = P"
proof (intro bit_word_eqI)
  fix k
  have p: "P AND 1 \<noteq> 0 \<longleftrightarrow> bit P 0" and s: "P AND 2 \<noteq> 0 \<longleftrightarrow> bit P 1"
    using bit_iff_and_push_bit_not_eq_0 [of P 0] bit_iff_and_push_bit_not_eq_0 [of P 1] by simp_all
  show "bit ((if P AND SYS_BUTTON_POWER \<noteq> 0 then SYS_BUTTON_POWER else 0) OR (if P AND SYS_BUTTON_SLEEP \<noteq> 0 then SYS_BUTTON_SLEEP else 0)) k =
      bit P k"
    unfolding p s using assms less_2_cases [of k] by (auto simp: bit_or_iff bit_button simp del: bit_numeral_word_iff split: if_splits)
qed

lemma FixedButtonDpc_reports:
  fixes Resuming :: bool and B :: button
  assumes "button_inv B" and "n \<le> length (bt_Out B)"
  defines "B' \<equiv> UacpiNtFixedButtonDpc Resuming (B\<lparr>bt_Dpc := False\<rparr>)"
  shows "bt_Deferred B' = 0 \<and> n \<le> length (bt_Out B') \<and>
    reported n B' = reported n B OR (if Resuming \<and> bt_Deferred B \<noteq> 0 then SYS_BUTTON_WAKE else bt_Deferred B)"
proof -
  let ?P = "bt_Deferred B" and ?B = "B\<lparr>bt_Dpc := False, bt_Deferred := 0\<rparr>"
  have r: "reported n ?B = reported n B" "n \<le> length (bt_Out ?B)" using assms(2) by (simp_all add: reported_def)
  let ?C = "if ?P AND SYS_BUTTON_POWER \<noteq> 0 then UacpiNtButtonDeliverEvent SYS_BUTTON_POWER ?B else ?B"
  let ?D = "if ?P AND SYS_BUTTON_SLEEP \<noteq> 0 then UacpiNtButtonDeliverEvent SYS_BUTTON_SLEEP ?C else ?C"
  have C: "reported n ?C = reported n B OR (if ?P AND SYS_BUTTON_POWER \<noteq> 0 then SYS_BUTTON_POWER else 0)" "n \<le> length (bt_Out ?C)"
    using DeliverEvent_reports(1) [of n ?B SYS_BUTTON_POWER] DeliverEvent_reports(2) [of ?B SYS_BUTTON_POWER] r by auto
  have D: "reported n ?D = reported n ?C OR (if ?P AND SYS_BUTTON_SLEEP \<noteq> 0 then SYS_BUTTON_SLEEP else 0)" "n \<le> length (bt_Out ?D)"
    using DeliverEvent_reports(1) [of n ?C SYS_BUTTON_SLEEP] DeliverEvent_reports(2) [of ?C SYS_BUTTON_SLEEP] C(2) by (auto simp del: DeliverEvent_frame)
  have "reported n ?D = reported n B OR ?P"
    unfolding D(1) C(1) or.assoc deferred_presses [OF button_invD(4) [OF assms(1)]] ..
  then show ?thesis
    using r D(2) DeliverEvent_reports(1) [of n ?B SYS_BUTTON_WAKE] DeliverEvent_reports(2) [of ?B SYS_BUTTON_WAKE]
    by (cases "?P = 0"; cases Resuming) (simp_all add: B'_def UacpiNtFixedButtonDpc_def Let_def)
qed

text \<open>A step reports what it brings or defers it; only a DPC in the resume window turns presses into the wake event.\<close>

lemma button_step_effect:
  assumes "button_step resumed e B B'" and "button_inv B" and "n \<le> length (bt_Out B)"
  shows "n \<le> length (bt_Out B') \<and>
    (in_hand n B' = in_hand n B OR e \<and> reported n B' OR reported n B = reported n B' \<or>
     resumed \<and> e = 0 \<and> bt_Deferred B' = 0 \<and> reported n B' = reported n B OR SYS_BUTTON_WAKE)"
  using assms
proof (induction rule: button_step.induct)
  case (ioctl Irp B Code km len out timing h st caps B')
  have "reported n B' = reported n B \<and> bt_Deferred B' = bt_Deferred B \<and> n \<le> length (bt_Out B')"
    using ioctl(2,4)
    by (auto simp: UacpiNtButtonDeviceControl_def UacpiNtButtonWaitForEvent_def reported_def out_bits_snoc Let_def
        split: if_splits prod.splits)
  then show ?case by (simp add: in_hand_def)
next
  case (notify Lid v B)
  let ?C = "B\<lparr>bt_LidInitialReported := True\<rparr>"
  have r: "reported n ?C = reported n B" "bt_Deferred ?C = bt_Deferred B" "n \<le> length (bt_Out ?C)"
    using notify(2) by (simp_all add: reported_def)
  have "UacpiNtButtonNotify Lid v B = B \<and> notified_event Lid v B = 0 \<or>
      UacpiNtButtonNotify Lid v B = UacpiNtButtonDeliverEvent (notified_event Lid v B) B \<or>
      UacpiNtButtonNotify Lid v B = UacpiNtButtonDeliverEvent (notified_event Lid v B) ?C"
    by (auto simp: UacpiNtButtonNotify_def UacpiNtLidReadEvent_def notified_event_def Let_def split: option.splits)
  moreover have "n \<le> length (bt_Out (UacpiNtButtonDeliverEvent ev D)) \<and> in_hand n (UacpiNtButtonDeliverEvent ev D) = in_hand n D OR ev \<and>
      reported n (UacpiNtButtonDeliverEvent ev D) OR reported n D = reported n (UacpiNtButtonDeliverEvent ev D)"
    if "n \<le> length (bt_Out D)" for ev D
    using DeliverEvent_reports(1) [OF that, of ev] DeliverEvent_reports(2) [of D ev] that by (simp add: in_hand_def ac_simps)
  note deliver = this
  from r have C: "in_hand n ?C = in_hand n B" by (simp add: in_hand_def)
  ultimately show ?case
    using notify(2) deliver [OF notify(2), of "notified_event Lid v B"] deliver [OF r(3), of "notified_event Lid v B", unfolded C r(1)] by auto
next
  case (dpc B Resuming)
  from FixedButtonDpc_reports [OF dpc(3,4), of Resuming] dpc(2) show ?case by (auto simp: in_hand_def ac_simps)
qed (simp_all add: in_hand_def reported_def UacpiNtButtonCancel_def UacpiNtButtonRemove_def UacpiNtFixedPowerButton_def
       UacpiNtFixedSleepButton_def UacpiNtFixedButtonDefer_def ac_simps)

lemma button_run_carries:
  assumes "button_run resumed es B B'" and "button_inv B" and "n \<le> length (bt_Out B)"
    and "(\<forall>k. bit e k \<longrightarrow> bit (in_hand n B) k) \<or> resumed \<and> bit (reported n B) 31"
  shows "(\<forall>k. bit e k \<longrightarrow> bit (in_hand n B') k) \<or> resumed \<and> bit (reported n B') 31" and "n \<le> length (bt_Out B')"
proof -
  have "n \<le> length (bt_Out B') \<and> ((\<forall>k. bit e k \<longrightarrow> bit (in_hand n B') k) \<or> resumed \<and> bit (reported n B') 31)"
    using assms
  proof (induction rule: button_run.induct)
    case (more es B C x D)
    have inv: "button_inv C" using button_run_inv [OF more.hyps(1) more.prems(1)] .
    have wake: "bit (0x80000000 :: u32) 31" by simp
    have ih: "n \<le> length (bt_Out C)" "(\<forall>k. bit e k \<longrightarrow> bit (in_hand n C) k) \<or> resumed \<and> bit (reported n C) 31"
      using more.IH [OF more.prems] by blast+
    from button_step_effect [OF more.hyps(2) inv ih(1)] ih(2) wake show ?case by (metis bit_or_iff)
  qed simp
  then show "(\<forall>k. bit e k \<longrightarrow> bit (in_hand n B') k) \<or> resumed \<and> bit (reported n B') 31" and "n \<le> length (bt_Out B')" by blast+
qed

lemma button_run_sound:
  assumes "button_run resumed es B B'" and "button_inv B" and "bit (in_hand 0 B') k"
  shows "bit (in_hand 0 B) k \<or> (\<exists>e\<in>set es. bit e k) \<or> resumed \<and> k = 31"
  using assms
proof (induction rule: button_run.induct)
  case (more es B C x D)
  have inv: "button_inv C" using button_run_inv [OF more.hyps(1) more.prems(1)] .
  have "in_hand 0 D = in_hand 0 C OR x \<or> resumed \<and> in_hand 0 D = reported 0 C OR SYS_BUTTON_WAKE"
    using button_step_effect [OF more.hyps(2) inv, of 0] by (auto simp: in_hand_def)
  moreover have "bit (reported 0 C) k \<Longrightarrow> bit (in_hand 0 C) k" by (simp add: in_hand_def bit_or_iff)
  ultimately have "bit (in_hand 0 C) k \<or> bit x k \<or> resumed \<and> k = 31"
    using more.prems(2) by (auto simp: bit_or_iff bit_button simp del: bit_numeral_word_iff)
  with more.IH [OF more.prems(1)] show ?case by auto
qed simp

section \<open>Properties\<close>


definition waiting_twice :: button where
  "waiting_twice = blank_button\<lparr>bt_Caps := 1, bt_Irps := empty_pool\<lparr>iq_Started := {1, 2}, iq_Queue := [1, 2], iq_Armed := {1, 2}\<rparr>\<rparr>"

lemma waiting_twice_reachable: "button_run resumed ([] @ [0] @ [0]) (blank_button\<lparr>bt_Caps := 1\<rparr>) waiting_twice"
proof -
  let ?B0 = "blank_button\<lparr>bt_Caps := 1\<rparr>"
  let ?B1 = "?B0\<lparr>bt_Irps := empty_pool\<lparr>iq_Started := {1}, iq_Queue := [1], iq_Armed := {1}\<rparr>\<rparr>"
  have 1: "button_step resumed 0 ?B0 ?B1"
    by (rule button_step.ioctl [where Irp = 1 and Code = GetButtonEvent and km = True and len = 4 and out = True and
          timing = NotCancelled and h = True and st = STATUS_PENDING and caps = None])
      (simp_all add: blank_button_def empty_pool_def UacpiNtButtonDeviceControl_def UacpiNtButtonWaitForEvent_def
        queue_cancellable_def start_irp_def)
  have 2: "button_step resumed 0 ?B1 waiting_twice"
    by (rule button_step.ioctl [where Irp = 2 and Code = GetButtonEvent and km = True and len = 4 and out = True and
          timing = NotCancelled and h = True and st = STATUS_PENDING and caps = None])
      (auto simp: waiting_twice_def blank_button_def empty_pool_def UacpiNtButtonDeviceControl_def UacpiNtButtonWaitForEvent_def
        queue_cancellable_def start_irp_def)
  from button_run.more [OF button_run.more [OF button_run.none 1] 2] show ?thesis by simp
qed


text \<open>
  An event can be latched while a request waits for it. Only the first request of the queue is
  tried: when that one is being cancelled, the event is latched although the next request could take it,
  and that request stays pending until another event comes.
\<close>
theorem Latched_behind_cancelled:
  "\<exists>B es. button_run False es (blank_button\<lparr>bt_Caps := SYS_BUTTON_POWER\<rparr>) B \<and> bt_Events B = SYS_BUTTON_POWER \<and>
     2 \<in> set (iq_Queue (bt_Irps B)) \<and> 2 \<in> iq_Armed (bt_Irps B)"
proof -
  let ?C = "waiting_twice\<lparr>bt_Irps := cancel_request 1 (bt_Irps waiting_twice)\<rparr>"
  let ?B = "UacpiNtButtonNotify None UACPINT_NOTIFY_BUTTON ?C"
  have "\<exists>es. button_run False es (blank_button\<lparr>bt_Caps := 1\<rparr>) ?B"
    using button_run.more [OF button_run.more [OF waiting_twice_reachable button_step.cancel] button_step.notify] by blast
  moreover have "bt_Events ?B = 1 \<and> 2 \<in> set (iq_Queue (bt_Irps ?B)) \<and> 2 \<in> iq_Armed (bt_Irps ?B)"
    by (simp add: waiting_twice_def blank_button_def empty_pool_def UacpiNtButtonNotify_def UacpiNtButtonDeliverEvent_def
        cancel_request_def clear_cancel_def Let_def)
  ultimately show ?thesis by blast
qed

text \<open>A press in the resume window is reported as the wake event only, never as a press.\<close>

lemma Fixed_press_in_resume:
  "bt_Deferred B \<noteq> 0 \<Longrightarrow> UacpiNtFixedButtonDpc True B = UacpiNtButtonDeliverEvent SYS_BUTTON_WAKE (B\<lparr>bt_Deferred := 0\<rparr>)"
  by (simp add: UacpiNtFixedButtonDpc_def)

end
