(* ===== verification/Ec_Transport.thy ===== *)
theory Ec_Transport
  imports Nt_Prelude
begin

text \<open>
  The byte protocol of the embedded controller (drivers/ec.c): polling the status port, the read,
  write and query transactions, the address space handler AML reaches the controller through, and the
  read and write requests of other drivers. The controller behind the two ports is a parameter; what
  ACPI documents of it is the predicate \<open>ec_contract\<close>.
\<close>

section \<open>Ports\<close>

text \<open>
  Port accesses and the stall of the processor as functions on the state of the hardware. Two functions
  each for the control port and for the data port of the controller.
\<close>

record 'h ec_ports =
  hw_ReadStatus :: "'h \<Rightarrow> u8 \<times> 'h"
  hw_WriteCommand :: "u8 \<Rightarrow> 'h \<Rightarrow> 'h"
  hw_ReadData :: "'h \<Rightarrow> u8 \<times> 'h"
  hw_WriteData :: "u8 \<Rightarrow> 'h \<Rightarrow> 'h"
  hw_Stall :: "'h \<Rightarrow> 'h"

abbreviation (input) UACPINT_EC_COMMAND_READ :: u8 where "UACPINT_EC_COMMAND_READ \<equiv> 0x80"
abbreviation (input) UACPINT_EC_COMMAND_WRITE :: u8 where "UACPINT_EC_COMMAND_WRITE \<equiv> 0x81"
abbreviation (input) UACPINT_EC_COMMAND_QUERY :: u8 where "UACPINT_EC_COMMAND_QUERY \<equiv> 0x84"
abbreviation (input) UACPINT_EC_STATUS_OBF :: u8 where "UACPINT_EC_STATUS_OBF \<equiv> 1"
abbreviation (input) UACPINT_EC_STATUS_IBF :: u8 where "UACPINT_EC_STATUS_IBF \<equiv> 2"
abbreviation (input) UACPINT_EC_STATUS_SCI_EVT :: u8 where "UACPINT_EC_STATUS_SCI_EVT \<equiv> 0x20"
abbreviation (input) UACPINT_EC_SPACE_SIZE :: nat where "UACPINT_EC_SPACE_SIZE \<equiv> 256"
abbreviation (input) UACPINT_EC_TIMEOUT_US :: nat where "UACPINT_EC_TIMEOUT_US \<equiv> 10000"
abbreviation (input) UACPINT_EC_POLL_US :: nat where "UACPINT_EC_POLL_US \<equiv> 10"

definition UacpiNtEcReadStatus :: "'h ec_ports \<Rightarrow> 'h \<Rightarrow> u8 \<times> 'h" where
  "UacpiNtEcReadStatus Ec = hw_ReadStatus Ec"

definition UacpiNtEcWriteCommand :: "'h ec_ports \<Rightarrow> u8 \<Rightarrow> 'h \<Rightarrow> 'h" where
  "UacpiNtEcWriteCommand Ec Command = hw_WriteCommand Ec Command"

definition UacpiNtEcReadData :: "'h ec_ports \<Rightarrow> 'h \<Rightarrow> u8 \<times> 'h" where
  "UacpiNtEcReadData Ec = hw_ReadData Ec"

definition UacpiNtEcWriteData :: "'h ec_ports \<Rightarrow> u8 \<Rightarrow> 'h \<Rightarrow> 'h" where
  "UacpiNtEcWriteData Ec Data = hw_WriteData Ec Data"

lemmas ec_port_defs =
  UacpiNtEcReadStatus_def UacpiNtEcWriteCommand_def UacpiNtEcReadData_def UacpiNtEcWriteData_def

function wait_loop :: "'h ec_ports \<Rightarrow> u8 \<Rightarrow> u8 \<Rightarrow> nat \<Rightarrow> 'h \<Rightarrow> bool \<times> 'h" where
  "wait_loop Ec Mask Expected Elapsed h =
     (let (s, h) = UacpiNtEcReadStatus Ec h
      in if s AND Mask = Expected then (True, h)
         else if Elapsed \<ge> UACPINT_EC_TIMEOUT_US then (False, h)
         else wait_loop Ec Mask Expected (Elapsed + UACPINT_EC_POLL_US) (hw_Stall Ec h))"
  by pat_completeness auto
termination
  by (relation "measure (\<lambda>(Ec, m, e, Elapsed, h). UACPINT_EC_TIMEOUT_US - Elapsed)") auto

declare wait_loop.simps [simp del]

definition UacpiNtEcWaitStatus :: "'h ec_ports \<Rightarrow> u8 \<Rightarrow> u8 \<Rightarrow> 'h \<Rightarrow> bool \<times> 'h" where
  "UacpiNtEcWaitStatus Ec Mask Expected h = wait_loop Ec Mask Expected 0 h"

definition UacpiNtEcWaitInputEmpty :: "'h ec_ports \<Rightarrow> 'h \<Rightarrow> bool \<times> 'h" where
  "UacpiNtEcWaitInputEmpty Ec = UacpiNtEcWaitStatus Ec UACPINT_EC_STATUS_IBF 0"

definition UacpiNtEcWaitOutputFull :: "'h ec_ports \<Rightarrow> 'h \<Rightarrow> bool \<times> 'h" where
  "UacpiNtEcWaitOutputFull Ec = UacpiNtEcWaitStatus Ec UACPINT_EC_STATUS_OBF UACPINT_EC_STATUS_OBF"

section \<open>Transactions\<close>

text \<open>
  A transaction runs under the fast mutex of the controller, so it is one step of the model. \<open>None\<close> is
  a timeout.
\<close>

definition UacpiNtEcReadByte :: "'h ec_ports \<Rightarrow> u8 \<Rightarrow> 'h \<Rightarrow> u8 option \<times> 'h" where
  "UacpiNtEcReadByte Ec Address h =
     (let (Success, h) = UacpiNtEcWaitInputEmpty Ec h;
          (Success, h) = (if Success then UacpiNtEcWaitInputEmpty Ec (UacpiNtEcWriteCommand Ec UACPINT_EC_COMMAND_READ h)
                          else (False, h));
          (Success, h) = (if Success then UacpiNtEcWaitOutputFull Ec (UacpiNtEcWriteData Ec Address h) else (False, h))
      in if Success then let (Value, h) = UacpiNtEcReadData Ec h in (Some Value, h) else (None, h))"

definition UacpiNtEcWriteByte :: "'h ec_ports \<Rightarrow> u8 \<Rightarrow> u8 \<Rightarrow> 'h \<Rightarrow> bool \<times> 'h" where
  "UacpiNtEcWriteByte Ec Address Value h =
     (let (Success, h) = UacpiNtEcWaitInputEmpty Ec h;
          (Success, h) = (if Success then UacpiNtEcWaitInputEmpty Ec (UacpiNtEcWriteCommand Ec UACPINT_EC_COMMAND_WRITE h)
                          else (False, h));
          (Success, h) = (if Success then UacpiNtEcWaitInputEmpty Ec (UacpiNtEcWriteData Ec Address h) else (False, h))
      in if Success then (True, UacpiNtEcWriteData Ec Value h) else (False, h))"

text \<open>The transaction of a query, under the locks.\<close>

definition query_transaction :: "'h ec_ports \<Rightarrow> 'h \<Rightarrow> u8 \<times> 'h" where
  "query_transaction Ec h =
     (let (s, h) = UacpiNtEcReadStatus Ec h
      in if s AND UACPINT_EC_STATUS_SCI_EVT = 0 then (0, h)
         else let (Success, h) = UacpiNtEcWaitInputEmpty Ec h
              in if \<not> Success then (0, h)
                 else let (Success, h) = UacpiNtEcWaitOutputFull Ec (UacpiNtEcWriteCommand Ec UACPINT_EC_COMMAND_QUERY h)
                      in if Success then UacpiNtEcReadData Ec h else (0, h))"

section \<open>The address space of AML\<close>

datatype uacpi_status = UACPI_STATUS_OK | UACPI_STATUS_AML_BAD_ENCODING | UACPI_STATUS_UNIMPLEMENTED

definition region_width :: "u8 \<Rightarrow> nat" where
  "region_width byte_width = (if byte_width \<noteq> 0 then unat byte_width else 1)"

fun region_read_loop :: "'h ec_ports \<Rightarrow> u64 \<Rightarrow> nat \<Rightarrow> nat \<Rightarrow> u64 \<Rightarrow> 'h \<Rightarrow> uacpi_status \<times> u64 \<times> 'h" where
  "region_read_loop Ec offset Index 0 value h = (UACPI_STATUS_OK, value, h)"
| "region_read_loop Ec offset Index (Suc n) value h =
     (if offset + of_nat Index \<ge> of_nat UACPINT_EC_SPACE_SIZE then (UACPI_STATUS_AML_BAD_ENCODING, value, h)
      else case UacpiNtEcReadByte Ec (ucast (offset + of_nat Index)) h of
             (None, h) \<Rightarrow> (UACPI_STATUS_AML_BAD_ENCODING, value, h)
           | (Some Value, h) \<Rightarrow>
               region_read_loop Ec offset (Suc Index) n (value OR push_bit (Index * 8) (ucast Value)) h)"

definition UacpiNtEcRegionRead :: "'h ec_ports \<Rightarrow> u64 \<Rightarrow> u8 \<Rightarrow> 'h \<Rightarrow> uacpi_status \<times> u64 \<times> 'h" where
  "UacpiNtEcRegionRead Ec offset byte_width h = region_read_loop Ec offset 0 (region_width byte_width) 0 h"

fun region_write_loop :: "'h ec_ports \<Rightarrow> u64 \<Rightarrow> u64 \<Rightarrow> nat \<Rightarrow> nat \<Rightarrow> 'h \<Rightarrow> uacpi_status \<times> 'h" where
  "region_write_loop Ec offset value Index 0 h = (UACPI_STATUS_OK, h)"
| "region_write_loop Ec offset value Index (Suc n) h =
     (if offset + of_nat Index \<ge> of_nat UACPINT_EC_SPACE_SIZE then (UACPI_STATUS_AML_BAD_ENCODING, h)
      else case UacpiNtEcWriteByte Ec (ucast (offset + of_nat Index)) (ucast (drop_bit (Index * 8) value)) h of
             (False, h) \<Rightarrow> (UACPI_STATUS_AML_BAD_ENCODING, h)
           | (True, h) \<Rightarrow> region_write_loop Ec offset value (Suc Index) n h)"

definition UacpiNtEcRegionWrite :: "'h ec_ports \<Rightarrow> u64 \<Rightarrow> u8 \<Rightarrow> u64 \<Rightarrow> 'h \<Rightarrow> uacpi_status \<times> 'h" where
  "UacpiNtEcRegionWrite Ec offset byte_width value h = region_write_loop Ec offset value 0 (region_width byte_width) h"

text \<open>An operation of uACPI on the region; a read returns its value.\<close>

datatype region_op = RegionAttach | RegionDetach | RegionRead u64 u8 | RegionWrite u64 u8 u64 | RegionOther

definition UacpiNtEcRegionHandler :: "'h ec_ports \<Rightarrow> region_op \<Rightarrow> 'h \<Rightarrow> uacpi_status \<times> u64 \<times> 'h" where
  "UacpiNtEcRegionHandler Ec Operation h =
     (case Operation of
        RegionAttach \<Rightarrow> (UACPI_STATUS_OK, 0, h)
      | RegionDetach \<Rightarrow> (UACPI_STATUS_OK, 0, h)
      | RegionRead offset byte_width \<Rightarrow> UacpiNtEcRegionRead Ec offset byte_width h
      | RegionWrite offset byte_width value \<Rightarrow>
          (case UacpiNtEcRegionWrite Ec offset byte_width value h of (s, h) \<Rightarrow> (s, value, h))
      | RegionOther \<Rightarrow> (UACPI_STATUS_UNIMPLEMENTED, 0, h))"

section \<open>Polling\<close>

text \<open>The hardware after a round of polling: a status read and a stall.\<close>

definition poll_round :: "'h ec_ports \<Rightarrow> 'h \<Rightarrow> 'h" where
  "poll_round Ec h = hw_Stall Ec (snd (hw_ReadStatus Ec h))"

definition poll_matches :: "'h ec_ports \<Rightarrow> u8 \<Rightarrow> u8 \<Rightarrow> 'h \<Rightarrow> bool" where
  "poll_matches Ec Mask Expected h \<longleftrightarrow> fst (hw_ReadStatus Ec h) AND Mask = Expected"

lemma wait_loop_polls:
  assumes "Elapsed + UACPINT_EC_POLL_US * n = UACPINT_EC_TIMEOUT_US"
  shows "fst (wait_loop Ec m e Elapsed h) \<longleftrightarrow> (\<exists>k\<le>n. poll_matches Ec m e ((poll_round Ec ^^ k) h))"
  using assms
proof (induction n arbitrary: Elapsed h)
  case 0
  then show ?case
    by (subst wait_loop.simps) (simp add: ec_port_defs poll_matches_def split: prod.split)
next
  case (Suc n)
  obtain s h' where s: "hw_ReadStatus Ec h = (s, h')" by fastforce
  have step: "(\<exists>k\<le>Suc n. P k) \<longleftrightarrow> P 0 \<or> (\<exists>k\<le>n. P (Suc k))" for P :: "nat \<Rightarrow> bool"
    by (metis Suc_le_mono le0 not0_implies_Suc)
  have next_round: "(poll_round Ec ^^ Suc k) h = (poll_round Ec ^^ k) (hw_Stall Ec h')" for k
    by (simp add: funpow_swap1 poll_round_def s)
  from Suc.prems Suc.IH [of "Elapsed + UACPINT_EC_POLL_US" "hw_Stall Ec h'"] show ?case
    unfolding step next_round
    by (subst wait_loop.simps) (simp add: ec_port_defs s poll_matches_def)
qed

section \<open>The controller\<close>

text \<open>
  What ACPI documents of the controller. \<open>mem\<close> is its address space, \<open>ph\<close> how far a transaction has
  come, \<open>ibf\<close> whether it still has to take what was written, \<open>out\<close> the byte in its output buffer. While
  time passes the controller may at most answer an outstanding read. The status bits report the input
  and the output buffer. A command or data byte counts when it is written to an empty input buffer, and
  reading the data port takes the byte of a full output buffer.
\<close>

datatype ec_phase = EcIdle | EcReadAddress | EcAnswer u8 | EcWriteAddress | EcWriteData u8

definition settles ::
    "('h \<Rightarrow> u8 \<Rightarrow> u8) \<Rightarrow> ('h \<Rightarrow> ec_phase) \<Rightarrow> ('h \<Rightarrow> u8 option) \<Rightarrow> 'h \<Rightarrow> 'h \<Rightarrow> bool" where
  "settles mem ph out h h' \<longleftrightarrow> mem h' = mem h \<and>
     (ph h' = ph h \<and> out h' = out h \<or>
      (\<exists>a. ph h = EcAnswer a \<and> out h = None \<and> ph h' = EcIdle \<and> out h' = Some (mem h a)))"

definition ec_contract ::
    "'h ec_ports \<Rightarrow> ('h \<Rightarrow> u8 \<Rightarrow> u8) \<Rightarrow> ('h \<Rightarrow> ec_phase) \<Rightarrow> ('h \<Rightarrow> bool) \<Rightarrow> ('h \<Rightarrow> u8 option) \<Rightarrow> bool" where
  "ec_contract Ec mem ph ibf out \<longleftrightarrow>
     (\<forall>h s h'. hw_ReadStatus Ec h = (s, h') \<longrightarrow> settles mem ph out h h' \<and>
        (s AND UACPINT_EC_STATUS_IBF = 0 \<longrightarrow> \<not> ibf h') \<and> (s AND UACPINT_EC_STATUS_OBF = UACPINT_EC_STATUS_OBF \<longrightarrow> out h' \<noteq> None)) \<and>
     (\<forall>h. settles mem ph out h (hw_Stall Ec h)) \<and>
     (\<forall>h c. \<not> ibf h \<longrightarrow> mem (hw_WriteCommand Ec c h) = mem h \<and> out (hw_WriteCommand Ec c h) = out h \<and>
        (c = UACPINT_EC_COMMAND_READ \<longrightarrow> ph (hw_WriteCommand Ec c h) = EcReadAddress) \<and>
        (c = UACPINT_EC_COMMAND_WRITE \<longrightarrow> ph (hw_WriteCommand Ec c h) = EcWriteAddress)) \<and>
     (\<forall>h d. \<not> ibf h \<longrightarrow> out (hw_WriteData Ec d h) = out h \<and>
        (ph h = EcReadAddress \<longrightarrow> mem (hw_WriteData Ec d h) = mem h \<and> ph (hw_WriteData Ec d h) = EcAnswer d) \<and>
        (ph h = EcWriteAddress \<longrightarrow> mem (hw_WriteData Ec d h) = mem h \<and> ph (hw_WriteData Ec d h) = EcWriteData d) \<and>
        (\<forall>a. ph h = EcWriteData a \<longrightarrow> mem (hw_WriteData Ec d h) = (mem h)(a := d) \<and> ph (hw_WriteData Ec d h) = EcIdle)) \<and>
     (\<forall>h v. out h = Some v \<longrightarrow> fst (hw_ReadData Ec h) = v \<and> out (snd (hw_ReadData Ec h)) = None \<and>
        mem (snd (hw_ReadData Ec h)) = mem h \<and> ph (snd (hw_ReadData Ec h)) = ph h)"

lemma contract_status:
  assumes "ec_contract Ec mem ph ibf out" and "hw_ReadStatus Ec h = (s, h')"
  shows "settles mem ph out h h'" and "s AND UACPINT_EC_STATUS_IBF = 0 \<Longrightarrow> \<not> ibf h'"
    and "s AND UACPINT_EC_STATUS_OBF = UACPINT_EC_STATUS_OBF \<Longrightarrow> out h' \<noteq> None"
  using assms by (auto simp: ec_contract_def)

lemma contract_stall: "ec_contract Ec mem ph ibf out \<Longrightarrow> settles mem ph out h (hw_Stall Ec h)"
  by (auto simp: ec_contract_def)

lemma contract_command:
  assumes "ec_contract Ec mem ph ibf out" and "\<not> ibf h"
  shows "mem (hw_WriteCommand Ec c h) = mem h" and "out (hw_WriteCommand Ec c h) = out h"
    and "c = UACPINT_EC_COMMAND_READ \<Longrightarrow> ph (hw_WriteCommand Ec c h) = EcReadAddress"
    and "c = UACPINT_EC_COMMAND_WRITE \<Longrightarrow> ph (hw_WriteCommand Ec c h) = EcWriteAddress"
  using assms by (auto simp: ec_contract_def)

lemma contract_data:
  assumes "ec_contract Ec mem ph ibf out" and "\<not> ibf h"
  shows "out (hw_WriteData Ec d h) = out h"
    and "ph h = EcReadAddress \<Longrightarrow> mem (hw_WriteData Ec d h) = mem h \<and> ph (hw_WriteData Ec d h) = EcAnswer d"
    and "ph h = EcWriteAddress \<Longrightarrow> mem (hw_WriteData Ec d h) = mem h \<and> ph (hw_WriteData Ec d h) = EcWriteData d"
    and "ph h = EcWriteData a \<Longrightarrow> mem (hw_WriteData Ec d h) = (mem h)(a := d) \<and> ph (hw_WriteData Ec d h) = EcIdle"
  using assms by (auto simp: ec_contract_def)

lemma contract_read:
  assumes "ec_contract Ec mem ph ibf out" and "out h = Some v" and "hw_ReadData Ec h = (r, h')"
  shows "r = v" and "out h' = None" and "mem h' = mem h" and "ph h' = ph h"
proof -
  have "fst (hw_ReadData Ec h) = v \<and> out (snd (hw_ReadData Ec h)) = None \<and>
      mem (snd (hw_ReadData Ec h)) = mem h \<and> ph (snd (hw_ReadData Ec h)) = ph h"
    using assms(1,2) unfolding ec_contract_def by blast
  with assms(3) show "r = v" and "out h' = None" and "mem h' = mem h" and "ph h' = ph h" by simp_all
qed

lemma settles_refl [simp]: "settles mem ph out h h"
  by (simp add: settles_def)

lemma settles_trans: "settles mem ph out h h1 \<Longrightarrow> settles mem ph out h1 h2 \<Longrightarrow> settles mem ph out h h2"
  by (auto simp: settles_def) (metis+)?

text \<open>Only an outstanding read can change what is visible.\<close>

lemma settles_same:
  "settles mem ph out h h' \<Longrightarrow> (\<forall>a. ph h \<noteq> EcAnswer a) \<or> out h \<noteq> None \<Longrightarrow> mem h' = mem h \<and> ph h' = ph h \<and> out h' = out h"
  by (auto simp: settles_def)

lemma wait_loop_settles:
  assumes "ec_contract Ec mem ph ibf out" and "wait_loop Ec m e Elapsed h = (b, h')"
  shows "settles mem ph out h h' \<and> (b \<longrightarrow> (\<exists>h0 s. hw_ReadStatus Ec h0 = (s, h') \<and> s AND m = e))"
  using assms(2)
proof (induction "UACPINT_EC_TIMEOUT_US - Elapsed" arbitrary: Elapsed h rule: less_induct)
  case less
  obtain s h1 where s: "hw_ReadStatus Ec h = (s, h1)" by fastforce
  note st = contract_status(1) [OF assms(1) s]
  show ?case
  proof (cases "s AND m = e \<or> UACPINT_EC_TIMEOUT_US \<le> Elapsed")
    case True
    then have "h' = h1 \<and> b = (s AND m = e)"
      using less.prems by (subst (asm) wait_loop.simps) (auto simp: ec_port_defs s split: if_splits)
    with s st show ?thesis by blast
  next
    case False
    then have w: "wait_loop Ec m e (Elapsed + UACPINT_EC_POLL_US) (hw_Stall Ec h1) = (b, h')"
      using less.prems by (subst (asm) wait_loop.simps) (simp add: ec_port_defs s)
    have "UACPINT_EC_TIMEOUT_US - (Elapsed + UACPINT_EC_POLL_US) < UACPINT_EC_TIMEOUT_US - Elapsed" using False by linarith
    note ih = less.hyps [OF this w]
    from settles_trans [OF settles_trans [OF st contract_stall [OF assms(1)]] conjunct1 [OF ih]] conjunct2 [OF ih]
    show ?thesis by (rule conjI)
  qed
qed

lemma WaitInputEmpty_settles:
  assumes "ec_contract Ec mem ph ibf out" and "UacpiNtEcWaitInputEmpty Ec h = (b, h')"
  shows "settles mem ph out h h'" and "b \<Longrightarrow> \<not> ibf h'"
proof -
  have "wait_loop Ec UACPINT_EC_STATUS_IBF 0 0 h = (b, h')"
    using assms(2) by (simp add: UacpiNtEcWaitInputEmpty_def UacpiNtEcWaitStatus_def)
  from wait_loop_settles [OF assms(1) this] contract_status(2) [OF assms(1)]
  show "settles mem ph out h h'" and "b \<Longrightarrow> \<not> ibf h'" by blast+
qed

lemma WaitOutputFull_settles:
  assumes "ec_contract Ec mem ph ibf out" and "UacpiNtEcWaitOutputFull Ec h = (b, h')"
  shows "settles mem ph out h h'" and "b \<Longrightarrow> out h' \<noteq> None"
proof -
  have "wait_loop Ec UACPINT_EC_STATUS_OBF UACPINT_EC_STATUS_OBF 0 h = (b, h')"
    using assms(2) by (simp add: UacpiNtEcWaitOutputFull_def UacpiNtEcWaitStatus_def)
  from wait_loop_settles [OF assms(1) this] contract_status(3) [OF assms(1)]
  show "settles mem ph out h h'" and "b \<Longrightarrow> out h' \<noteq> None" by blast+
qed

text \<open>No byte waits in the output buffer and no answer is outstanding.\<close>

definition quiet :: "('h \<Rightarrow> ec_phase) \<Rightarrow> ('h \<Rightarrow> u8 option) \<Rightarrow> 'h \<Rightarrow> bool" where
  "quiet ph out h \<longleftrightarrow> out h = None \<and> (\<forall>a. ph h \<noteq> EcAnswer a)"

lemma settles_quiet:
  "settles mem ph out h h' \<Longrightarrow> quiet ph out h \<Longrightarrow> mem h' = mem h \<and> ph h' = ph h \<and> out h' = out h \<and> quiet ph out h'"
  by (auto simp: settles_def quiet_def)

lemma WriteByte_sound:
  assumes c: "ec_contract Ec mem ph ibf out" and q: "quiet ph out h"
    and w: "UacpiNtEcWriteByte Ec a v h = (b, h')"
  shows "mem h' = (if b then (mem h)(a := v) else mem h) \<and> quiet ph out h'"
proof -
  note wait = WaitInputEmpty_settles [OF c]
  obtain b1 h1 where 1: "UacpiNtEcWaitInputEmpty Ec h = (b1, h1)" by fastforce
  note s1 = settles_quiet [OF wait(1) [OF 1] q]
  let ?c = "hw_WriteCommand Ec UACPINT_EC_COMMAND_WRITE h1"
  obtain b2 h2 where 2: "UacpiNtEcWaitInputEmpty Ec ?c = (b2, h2)" by fastforce
  obtain b3 h3 where 3: "UacpiNtEcWaitInputEmpty Ec (hw_WriteData Ec a h2) = (b3, h3)" by fastforce
  show ?thesis
  proof (cases b1)
    case False
    with w 1 s1 show ?thesis by (auto simp: UacpiNtEcWriteByte_def)
  next
    case b1: True
    note cmd = contract_command [OF c wait(2) [OF 1 b1]]
    have o1: "out h1 = None" using s1 unfolding quiet_def by blast
    have "quiet ph out ?c" using cmd(2,4) o1 by (simp add: quiet_def)
    with settles_quiet [OF wait(1) [OF 2]] cmd(1,2,4) s1 o1 have s2: "mem h2 = mem h" "ph h2 = EcWriteAddress" "out h2 = None"
      by (simp_all add: quiet_def)
    show ?thesis
    proof (cases b2)
      case False
      with w b1 1 2 s2 show ?thesis by (auto simp: UacpiNtEcWriteByte_def ec_port_defs quiet_def)
    next
      case b2: True
      note dat = contract_data [OF c wait(2) [OF 2 b2]]
      have "quiet ph out (hw_WriteData Ec a h2)" using dat(1,3) s2 by (simp add: quiet_def)
      with settles_quiet [OF wait(1) [OF 3]] dat(1,3) s2
      have s3: "mem h3 = mem h" "ph h3 = EcWriteData a" "out h3 = None" by (simp_all add: quiet_def)
      show ?thesis
      proof (cases b3)
        case False
        with w b1 b2 1 2 3 s3 show ?thesis by (auto simp: UacpiNtEcWriteByte_def ec_port_defs quiet_def)
      next
        case b3: True
        note fin = contract_data [OF c wait(2) [OF 3 b3]]
        have "h' = hw_WriteData Ec v h3 \<and> b" using w b1 b2 b3 1 2 3 by (simp add: UacpiNtEcWriteByte_def ec_port_defs)
        then show ?thesis using fin(1,4) s3 by (simp add: quiet_def)
      qed
    qed
  qed
qed

text \<open>
  A read: the address space is untouched, and the byte read is the one that was waiting in the output
  buffer when there was one.
\<close>

lemma ReadByte_answer:
  assumes c: "ec_contract Ec mem ph ibf out"
    and r: "UacpiNtEcReadByte Ec a h = (Some r, h')"
  shows "\<exists>h1. settles mem ph out h h1 \<and> mem h' = mem h \<and> out h' = None \<and>
    (case out h1 of None \<Rightarrow> r = mem h a \<and> ph h' = EcIdle | Some v \<Rightarrow> r = v \<and> ph h' = EcAnswer a)"
proof -
  note wait = WaitInputEmpty_settles [OF c]
  obtain b1 h1 where 1: "UacpiNtEcWaitInputEmpty Ec h = (b1, h1)" by fastforce
  let ?c = "hw_WriteCommand Ec UACPINT_EC_COMMAND_READ h1"
  obtain b2 h2 where 2: "UacpiNtEcWaitInputEmpty Ec ?c = (b2, h2)" by fastforce
  obtain b3 h3 where 3: "UacpiNtEcWaitOutputFull Ec (hw_WriteData Ec a h2) = (b3, h3)" by fastforce
  obtain v h4 where 4: "hw_ReadData Ec h3 = (v, h4)" by fastforce
  have b: b1 b2 b3 and h: "v = r" "h4 = h'"
    using r 1 2 3 4 by (auto simp: UacpiNtEcReadByte_def ec_port_defs split: if_splits)
  note s1 = wait(1) [OF 1]
  note cmd = contract_command [OF c wait(2) [OF 1 b(1)], of UACPINT_EC_COMMAND_READ]
  have s2: "mem h2 = mem h1" "ph h2 = EcReadAddress" "out h2 = out h1"
    using settles_same [OF wait(1) [OF 2]] cmd by simp_all
  note dat = contract_data [OF c wait(2) [OF 2 b(2)], of a]
  have s3: "settles mem ph out (hw_WriteData Ec a h2) h3" and o: "out h3 \<noteq> None"
    using WaitOutputFull_settles [OF c 3] b(3) by auto
  have m: "mem h3 = mem h" using s1 s2 s3 dat(2) by (auto simp: settles_def)
  have a: "case out h1 of None \<Rightarrow> out h3 = Some (mem h a) \<and> ph h3 = EcIdle | Some v \<Rightarrow> out h3 = Some v \<and> ph h3 = EcAnswer a"
    using s1 s2 s3 dat(1,2) o by (auto simp: settles_def split: option.split)
  from o obtain w where w: "out h3 = Some w" by blast
  note rd = contract_read [OF c w 4]
  show ?thesis using s1 m a w rd h by (intro exI [of _ h1]) (auto split: option.splits)
qed

lemma ReadByte_frame:
  assumes c: "ec_contract Ec mem ph ibf out" and r: "UacpiNtEcReadByte Ec a h = (r, h')"
  shows "mem h' = mem h"
proof (cases r)
  case (Some v)
  with ReadByte_answer [OF c] r show ?thesis by blast
next
  case None
  note wait = WaitInputEmpty_settles [OF c]
  obtain b1 h1 where 1: "UacpiNtEcWaitInputEmpty Ec h = (b1, h1)" by fastforce
  let ?c = "hw_WriteCommand Ec UACPINT_EC_COMMAND_READ h1"
  obtain b2 h2 where 2: "UacpiNtEcWaitInputEmpty Ec ?c = (b2, h2)" by fastforce
  obtain b3 h3 where 3: "UacpiNtEcWaitOutputFull Ec (hw_WriteData Ec a h2) = (b3, h3)" by fastforce
  have m1: "mem h1 = mem h" using wait(1) [OF 1] by (simp add: settles_def)
  show ?thesis
  proof (cases "b1 \<and> b2")
    case True
    then have "\<not> ibf h1" "\<not> ibf h2" using wait(2) 1 2 by blast+
    note cmd = contract_command [OF c this(1), of UACPINT_EC_COMMAND_READ]
      and dat = contract_data(2) [OF c this(2), of a]
    have "mem h2 = mem h1" "ph h2 = EcReadAddress" using settles_same [OF wait(1) [OF 2]] cmd by simp_all
    moreover have "mem h3 = mem (hw_WriteData Ec a h2)" using WaitOutputFull_settles(1) [OF c 3] by (simp add: settles_def)
    moreover have "h' = h3" using None r 1 2 3 True by (auto simp: UacpiNtEcReadByte_def ec_port_defs split: if_splits prod.splits)
    ultimately show ?thesis using m1 dat by simp
  next
    case False
    then have "h' = h1 \<and> \<not> b1 \<or> h' = h2 \<and> b1"
      using r 1 2 by (auto simp: UacpiNtEcReadByte_def ec_port_defs split: if_splits)
    then show ?thesis
      using m1 wait(1) [OF 2] wait(2) [OF 1] contract_command(1) [OF c] by (auto simp: settles_def)
  qed
qed

lemma ReadByte_sound:
  assumes c: "ec_contract Ec mem ph ibf out" and q: "quiet ph out h"
    and r: "UacpiNtEcReadByte Ec a h = (Some v, h')"
  shows "v = mem h a \<and> mem h' = mem h \<and> quiet ph out h'"
proof -
  from ReadByte_answer [OF c r] obtain h1 where
    h1: "settles mem ph out h h1" "mem h' = mem h" "out h' = None"
      "case out h1 of None \<Rightarrow> v = mem h a \<and> ph h' = EcIdle | Some w \<Rightarrow> v = w \<and> ph h' = EcAnswer a" by blast
  have "out h1 = None" using settles_quiet [OF h1(1) q] unfolding quiet_def by blast
  with h1 show ?thesis by (simp add: quiet_def)
qed

section \<open>Regions\<close>

text \<open>The address space after \<open>k\<close> bytes of a value from its byte \<open>i\<close> on, and the value of \<open>n\<close> bytes.\<close>

definition written :: "nat \<Rightarrow> nat \<Rightarrow> nat \<Rightarrow> u64 \<Rightarrow> (u8 \<Rightarrow> u8) \<Rightarrow> u8 \<Rightarrow> u8" where
  "written off i k value m =
     (\<lambda>x. if off + i \<le> unat x \<and> unat x < off + i + k then ucast (drop_bit ((unat x - off) * 8) value) else m x)"

primrec gather :: "(u8 \<Rightarrow> u8) \<Rightarrow> nat \<Rightarrow> nat \<Rightarrow> nat \<Rightarrow> u64" where
  "gather m off i 0 = 0"
| "gather m off i (Suc n) = push_bit (i * 8) (ucast (m (of_nat (off + i)))) OR gather m off (Suc i) n"

lemma written_none [simp]: "written off i 0 value m = m"
  by (auto simp: written_def fun_eq_iff)

lemma unat_of_nat_small: "n < 2 ^ LENGTH('a) \<Longrightarrow> unat (of_nat n :: 'a::len word) = n"
  by (simp add: unsigned_of_nat take_bit_nat_eq_self)

lemma written_step:
  assumes "off + i < 256"
  shows "written off (Suc i) k value (m(of_nat (off + i) := ucast (drop_bit (i * 8) value))) = written off i (Suc k) value m"
proof
  fix x :: u8
  have u: "unat (of_nat (off + i) :: u8) = off + i" using assms by (intro unat_of_nat_small) simp
  have "x = of_nat (off + i) \<longleftrightarrow> unat x = off + i" using u by (metis word_unat_eq_iff)
  then show "written off (Suc i) k value (m(of_nat (off + i) := ucast (drop_bit (i * 8) value))) x = written off i (Suc k) value m x"
    by (auto simp: written_def)
qed

text \<open>The address of a byte of a region in the 256 bytes of the space.\<close>

lemma region_address:
  fixes off :: u64
  assumes "unat off < 256" and "i < 256"
  shows "unat (off + of_nat i) = unat off + i" and "ucast (off + of_nat i) = (of_nat (unat off + i) :: u8)"
    and "256 \<le> off + of_nat i \<longleftrightarrow> 256 \<le> unat off + i"
proof -
  have i: "unat (of_nat i :: u64) = i" using assms(2) by (intro unat_of_nat_small) simp
  then show u: "unat (off + of_nat i) = unat off + i" using assms by (subst unat_add_nowrap) simp_all
  show "ucast (off + of_nat i) = (of_nat (unat off + i) :: u8)"
    by (simp add: word_unat_eq_iff unsigned_ucast_eq unsigned_of_nat u del: of_nat_add)
  show "256 \<le> off + of_nat i \<longleftrightarrow> 256 \<le> unat off + i"
    by (simp add: word_le_nat_alt u)
qed

lemma region_write_loop_sound:
  assumes c: "ec_contract Ec mem ph ibf out" and "quiet ph out h" and off: "unat off < 256" and "i + n \<le> 256"
    and "region_write_loop Ec off value i n h = (s, h')"
  shows "\<exists>k\<le>n. mem h' = written (unat off) i k value (mem h) \<and> quiet ph out h' \<and>
    (s = UACPI_STATUS_OK \<longleftrightarrow> k = n) \<and> (k \<noteq> 0 \<longrightarrow> unat off + i + k \<le> 256)"
  using assms(2,4,5)
proof (induction n arbitrary: i h)
  case 0
  then show ?case by simp
next
  case (Suc n)
  have "i < 256" using Suc.prems(2) by simp
  note adr = region_address [OF off this]
  obtain b h1 where w: "UacpiNtEcWriteByte Ec (of_nat (unat off + i)) (ucast (drop_bit (i * 8) value)) h = (b, h1)" by fastforce
  note w1 = WriteByte_sound [OF c Suc.prems(1) w]
  show ?case
  proof (cases "unat off + i < 256 \<and> b")
    case True
    then have l: "region_write_loop Ec off value (Suc i) n h1 = (s, h')"
      using Suc.prems(3) w by (simp add: adr del: of_nat_add)
    from Suc.IH [OF conjunct2 [OF w1] _ l] Suc.prems(2) obtain k where
      k: "k \<le> n" "mem h' = written (unat off) (Suc i) k value (mem h1)" "quiet ph out h'"
        "s = UACPI_STATUS_OK \<longleftrightarrow> k = n" "k \<noteq> 0 \<longrightarrow> unat off + Suc i + k \<le> 256" by auto
    have "mem h' = written (unat off) i (Suc k) value (mem h)"
      using k(2) w1 True written_step [of "unat off" i k "value" "mem h"] by (simp del: of_nat_add)
    with k True show ?thesis by (intro exI [of _ "Suc k"]) auto
  next
    case False
    then have "s \<noteq> UACPI_STATUS_OK" "mem h' = mem h" "quiet ph out h'"
      using Suc.prems(1,3) w w1 by (auto simp: adr simp del: of_nat_add split: if_splits)
    then show ?thesis by (intro exI [of _ 0]) simp
  qed
qed

lemma region_read_loop_sound:
  assumes c: "ec_contract Ec mem ph ibf out" and "quiet ph out h" and off: "unat off < 256" and "i + n \<le> 256"
    and "region_read_loop Ec off i n acc h = (UACPI_STATUS_OK, v, h')"
  shows "mem h' = mem h \<and> quiet ph out h' \<and> v = acc OR gather (mem h) (unat off) i n \<and> (n \<noteq> 0 \<longrightarrow> unat off + i + n \<le> 256)"
  using assms(2,4,5)
proof (induction n arbitrary: i h acc)
  case 0
  then show ?case by simp
next
  case (Suc n)
  have "i < 256" using Suc.prems(2) by simp
  note adr = region_address [OF off this]
  obtain r h1 where r: "UacpiNtEcReadByte Ec (of_nat (unat off + i)) h = (r, h1)" by fastforce
  with Suc.prems(3) obtain b where b: "r = Some b" "unat off + i < 256"
    "region_read_loop Ec off (Suc i) n (acc OR push_bit (i * 8) (ucast b)) h1 = (UACPI_STATUS_OK, v, h')"
    by (auto simp: adr simp del: of_nat_add split: if_splits option.splits)
  from ReadByte_sound [OF c Suc.prems(1) r [unfolded b(1)]]
  have h1: "b = mem h (of_nat (unat off + i))" "mem h1 = mem h" "quiet ph out h1" by auto
  from Suc.IH [OF h1(3) _ b(3)] Suc.prems(2) h1 b(2) show ?case by (auto simp: ac_simps simp del: of_nat_add)
qed

lemma bit_gather:
  "bit (gather m off i n) b \<longleftrightarrow> b < 64 \<and> i * 8 \<le> b \<and> b < (i + n) * 8 \<and> bit (m (of_nat (off + b div 8))) (b mod 8)"
proof (induction n arbitrary: i)
  case 0
  then show ?case by auto
next
  case (Suc n)
  let ?B = "bit (m (of_nat (off + b div 8))) (b mod 8)"
  have "bit (push_bit (i * 8) (ucast (m (of_nat (off + i)))) :: u64) b \<longleftrightarrow> b < 64 \<and> b div 8 = i \<and> ?B"
  proof (cases "b div 8 = i")
    case True
    then have q: "i * 8 \<le> b" "b - i * 8 = b mod 8" "b mod 8 < 64" by presburger+
    with True show ?thesis by (simp add: bit_push_bit_iff bit_ucast_iff q del: of_nat_add)
  next
    case False
    then have "i * 8 \<le> b \<Longrightarrow> 8 \<le> b - i * 8" by presburger
    then have "\<not> (i * 8 \<le> b \<and> bit (m (of_nat (off + i))) (b - i * 8))"
      using bit_imp_le_length [of "m (of_nat (off + i))" "b - i * 8"] by auto
    then show ?thesis using False by (auto simp: bit_push_bit_iff bit_ucast_iff simp del: of_nat_add)
  qed
  moreover have "b div 8 = i \<longleftrightarrow> i * 8 \<le> b \<and> b < Suc i * 8" by (auto simp: div_nat_eqI)
  ultimately have "bit (gather m off i (Suc n)) b \<longleftrightarrow>
      b < 64 \<and> ?B \<and> (i * 8 \<le> b \<and> b < Suc i * 8 \<or> Suc i * 8 \<le> b \<and> b < (Suc i + n) * 8)"
    using Suc [of "Suc i"] unfolding gather.simps bit_or_iff by blast
  also have "(i * 8 \<le> b \<and> b < Suc i * 8 \<or> Suc i * 8 \<le> b \<and> b < (Suc i + n) * 8) \<longleftrightarrow> i * 8 \<le> b \<and> b < (i + Suc n) * 8"
    by auto
  finally show ?case by blast
qed

lemma gather_written:
  assumes "off + n \<le> 256"
  shows "gather (written off 0 n value m) off 0 n = value AND mask (8 * n)"
proof (rule bit_word_eqI)
  fix b assume "b < LENGTH(64)"
  show "bit (gather (written off 0 n value m) off 0 n) b \<longleftrightarrow> bit (value AND mask (8 * n)) b"
  proof (cases "b < n * 8")
    case True
    then have q: "b div 8 < n" "b div 8 * 8 + b mod 8 = b" by auto
    have "off + b div 8 < 2 ^ LENGTH(8)" using q assms by simp
    then have u: "unat (of_nat (off + b div 8) :: u8) = off + b div 8" by (rule unat_of_nat_small)
    have "written off 0 n value m (of_nat (off + b div 8)) = ucast (drop_bit (b div 8 * 8) value)"
      using u q by (simp add: written_def del: of_nat_add)
    then show ?thesis
      using True q \<open>b < LENGTH(64)\<close> by (simp add: bit_gather bit_simps del: of_nat_add)
  next
    case False
    then show ?thesis by (simp add: bit_gather bit_simps)
  qed
qed

lemma region_width_pos: "0 < region_width w" "region_width w < 256"
proof -
  have "unat w < 2 ^ 8" using unsigned_less [where w = w] by simp
  then show "0 < region_width w" "region_width w < 256" by (auto simp: region_width_def unat_gt_0)
qed

lemma RegionWrite_offset:
  assumes "UacpiNtEcRegionWrite Ec off w v h = (UACPI_STATUS_OK, h')"
  shows "unat off < 256"
proof -
  obtain n where "region_width w = Suc n" using region_width_pos(1) gr0_conv_Suc by blast
  with assms have "\<not> (256 \<le> off)" by (auto simp: UacpiNtEcRegionWrite_def split: if_splits)
  then show ?thesis by (simp add: word_le_nat_alt)
qed

section \<open>A controller\<close>

text \<open>A controller that takes every byte at once and answers at the next look at its status.\<close>

record demo_ec =
  de_Mem :: "u8 \<Rightarrow> u8"
  de_Phase :: ec_phase
  de_Out :: "u8 option"

definition demo_status :: "demo_ec \<Rightarrow> u8 \<times> demo_ec" where
  "demo_status d =
     (let d = (case de_Phase d of EcAnswer a \<Rightarrow> if de_Out d = None then d\<lparr>de_Phase := EcIdle, de_Out := Some (de_Mem d a)\<rparr> else d
               | _ \<Rightarrow> d)
      in (if de_Out d = None then 0 else 1, d))"

definition demo_command :: "u8 \<Rightarrow> demo_ec \<Rightarrow> demo_ec" where
  "demo_command c d = d\<lparr>de_Phase := if c = UACPINT_EC_COMMAND_READ then EcReadAddress
     else if c = UACPINT_EC_COMMAND_WRITE then EcWriteAddress else EcIdle\<rparr>"

definition demo_data :: "u8 \<Rightarrow> demo_ec \<Rightarrow> demo_ec" where
  "demo_data v d =
     (case de_Phase d of
        EcReadAddress \<Rightarrow> d\<lparr>de_Phase := EcAnswer v\<rparr>
      | EcWriteAddress \<Rightarrow> d\<lparr>de_Phase := EcWriteData v\<rparr>
      | EcWriteData a \<Rightarrow> d\<lparr>de_Phase := EcIdle, de_Mem := (de_Mem d)(a := v)\<rparr>
      | _ \<Rightarrow> d)"

definition demo_ports :: "demo_ec ec_ports" where
  "demo_ports = \<lparr>hw_ReadStatus = demo_status, hw_WriteCommand = demo_command,
     hw_ReadData = (\<lambda>d. (case de_Out d of None \<Rightarrow> 0 | Some v \<Rightarrow> v, d\<lparr>de_Out := None\<rparr>)),
     hw_WriteData = demo_data, hw_Stall = (\<lambda>d. d)\<rparr>"

lemma demo_contract: "ec_contract demo_ports de_Mem de_Phase (\<lambda>_. False) de_Out"
  by (auto simp: ec_contract_def demo_ports_def demo_status_def demo_command_def demo_data_def settles_def Let_def
      split: ec_phase.splits if_splits)

definition demo_start :: demo_ec where
  "demo_start = \<lparr>de_Mem = (\<lambda>a. 0), de_Phase = EcIdle, de_Out = None\<rparr>"

lemma demo_quiet: "quiet de_Phase de_Out demo_start"
  by (simp add: quiet_def demo_start_def)

lemma wait_at_once: "hw_ReadStatus Ec h = (s, h') \<Longrightarrow> s AND m = e \<Longrightarrow> UacpiNtEcWaitStatus Ec m e h = (True, h')"
  by (simp add: UacpiNtEcWaitStatus_def wait_loop.simps [of Ec m e 0] ec_port_defs)

lemma demo_ports_simps:
  "hw_WriteCommand demo_ports = demo_command" "hw_WriteData demo_ports = demo_data"
  "hw_ReadData demo_ports = (\<lambda>d. (case de_Out d of None \<Rightarrow> 0 | Some v \<Rightarrow> v, d\<lparr>de_Out := None\<rparr>))"
  by (simp_all add: demo_ports_def)

lemma demo_waits:
  shows "de_Out d = None \<Longrightarrow> \<forall>a. de_Phase d \<noteq> EcAnswer a \<Longrightarrow> UacpiNtEcWaitInputEmpty demo_ports d = (True, d)"
    and "de_Phase d = EcAnswer a \<Longrightarrow> de_Out d = None \<Longrightarrow>
     UacpiNtEcWaitOutputFull demo_ports d = (True, d\<lparr>de_Phase := EcIdle, de_Out := Some (de_Mem d a)\<rparr>)"
    and "de_Out d = Some v \<Longrightarrow> UacpiNtEcWaitInputEmpty demo_ports d = (True, d)"
    and "de_Out d = Some v \<Longrightarrow> UacpiNtEcWaitOutputFull demo_ports d = (True, d)"
  unfolding UacpiNtEcWaitInputEmpty_def UacpiNtEcWaitOutputFull_def
  by (auto intro!: wait_at_once simp: demo_ports_def demo_status_def Let_def split: ec_phase.splits)

lemmas demo_transaction = demo_waits ec_port_defs demo_ports_simps demo_command_def demo_data_def

lemma demo_write:
  "de_Out d = None \<Longrightarrow> de_Phase d = EcIdle \<Longrightarrow>
     UacpiNtEcWriteByte demo_ports a v d = (True, d\<lparr>de_Mem := (de_Mem d)(a := v)\<rparr>)"
  by (simp add: UacpiNtEcWriteByte_def demo_transaction)

lemma demo_read:
  "de_Out d = None \<Longrightarrow> de_Phase d = EcIdle \<Longrightarrow> UacpiNtEcReadByte demo_ports a d = (Some (de_Mem d a), d)"
  by (simp add: UacpiNtEcReadByte_def demo_transaction)

section \<open>Properties\<close>

text \<open>
  C27: what AML writes to a field of the embedded controller is what it reads back. On a controller that
  keeps to the documented protocol, with no answer outstanding, a successful write of a field followed by
  a successful read of it gives the value in the width of the field, little endian, and the write has
  changed exactly the bytes of the field. The field lies within the 256 bytes of the space.
\<close>
theorem Ec_region_roundtrip:
  assumes "ec_contract Ec mem ph ibf out" and "quiet ph out h"
    and "UacpiNtEcRegionWrite Ec off w val h = (UACPI_STATUS_OK, h1)"
    and "UacpiNtEcRegionRead Ec off w h1 = (UACPI_STATUS_OK, v, h2)"
  shows "v = val AND mask (8 * region_width w) \<and> mem h2 = written (unat off) 0 (region_width w) val (mem h) \<and>
    unat off + region_width w \<le> 256"
proof -
  have off: "unat off < 256" by (rule RegionWrite_offset [OF assms(3)])
  from region_write_loop_sound [OF assms(1,2) off _ assms(3) [unfolded UacpiNtEcRegionWrite_def]] region_width_pos [of w]
  have w: "mem h1 = written (unat off) 0 (region_width w) val (mem h)" "quiet ph out h1" "unat off + region_width w \<le> 256"
    by auto
  from region_read_loop_sound [OF assms(1) w(2) off _ assms(4) [unfolded UacpiNtEcRegionRead_def]] region_width_pos [of w]
  have "v = gather (mem h1) (unat off) 0 (region_width w)" "mem h2 = mem h1" by auto
  with w gather_written show ?thesis by simp
qed

lemma Ec_region_roundtrip_witness:
  "\<exists>h1 h2. UacpiNtEcRegionWrite demo_ports 0x10 2 0x51234 demo_start = (UACPI_STATUS_OK, h1) \<and>
     UacpiNtEcRegionRead demo_ports 0x10 2 h1 = (UACPI_STATUS_OK, 0x1234, h2) \<and>
     de_Mem h2 = written 0x10 0 (region_width 2) 0x51234 (de_Mem demo_start)"
proof -
  let ?h = "demo_start\<lparr>de_Mem := (\<lambda>a. 0)(0x10 := 0x51234, 0x11 := 0x512)\<rparr>"
  have w: "region_width 2 = Suc (Suc 0)" by (simp add: region_width_def)
  have 1: "UacpiNtEcRegionWrite demo_ports 0x10 2 0x51234 demo_start = (UACPI_STATUS_OK, ?h)"
    by (simp add: UacpiNtEcRegionWrite_def w demo_write demo_start_def)
  have 2: "UacpiNtEcRegionRead demo_ports 0x10 2 ?h = (UACPI_STATUS_OK, 0x1234, ?h)"
    by (simp add: UacpiNtEcRegionRead_def w demo_read demo_start_def)
  from Ec_region_roundtrip [OF demo_contract demo_quiet 1 2] 1 2 show ?thesis by auto
qed

text \<open>
  C40: a byte left in the output buffer is never drained. When an earlier read gave up before the controller
  answered and the answer came later, the next successful read returns that old byte whatever address it
  asks for, and leaves its own answer outstanding for the read after it.
\<close>
theorem Stale_byte_returned:
  assumes "ec_contract Ec mem ph ibf out" and "out h = Some old"
    and "UacpiNtEcReadByte Ec a h = (Some v, h')"
  shows "v = old \<and> ph h' = EcAnswer a"
proof -
  from ReadByte_answer [OF assms(1,3)] obtain h1 where
    "settles mem ph out h h1" "case out h1 of None \<Rightarrow> v = mem h a \<and> ph h' = EcIdle | Some w \<Rightarrow> v = w \<and> ph h' = EcAnswer a"
    by blast
  with assms(2) show ?thesis by (auto simp: settles_def)
qed

lemma Stale_byte_returned_witness:
  "\<exists>h'. UacpiNtEcReadByte demo_ports 7 (demo_start\<lparr>de_Out := Some 0x55\<rparr>) = (Some 0x55, h') \<and> de_Phase h' = EcAnswer 7"
proof -
  let ?h = "demo_start\<lparr>de_Out := Some 0x55\<rparr>"
  obtain v h' where r: "UacpiNtEcReadByte demo_ports 7 ?h = (Some v, h')"
    by (simp add: UacpiNtEcReadByte_def demo_transaction demo_start_def)
  from Stale_byte_returned [OF demo_contract _ r] r show ?thesis by simp
qed

end
