(* ===== verification/Ec_Driver.thy ===== *)
theory Ec_Driver
  imports Ec_Transport Crs_Translation Acpi_Firmware
begin

text \<open>
  The embedded controller driver (drivers/ec.c): the requests of other drivers, the queries the
  controller raises and who handles them, how a query interrupt reaches the worker, and the bring up of
  controllers from the ECDT and from the namespace.
\<close>

section \<open>Data\<close>

text \<open>
  UACPINT_EC without its locks. The node is never null, and the GPE block is always the one of \_GPE.
\<close>

record ec =
  ec_Node :: acpi_node
  ec_Pdo :: "nat option"
  ec_DataPort :: u16
  ec_ControlPort :: u16
  ec_GpeLine :: u16
  ec_RegionInstalled :: bool
  ec_FromEcdt :: bool
  ec_GlobalLock :: bool
  ec_QueryRoutine :: "u8 \<Rightarrow> nat option"
  ec_QueryContext :: "u8 \<Rightarrow> nat"

text \<open>
  What the driver does that others see, in one order: the global lock of the firmware, the bytes it asks the
  controller to write or to read for a request, the query codes it gets, handlers and methods it runs.
\<close>

datatype ec_event = EcAcquired u32 | EcReleased u32 | EcAccess bool u8 | EcQueried u8 | EcRoutine nat u8 nat |
  EcMethod acpi_node string | EcGpeEnabled u16

text \<open>
  The surroundings: the ports of a controller by their addresses, whether the global lock can be taken
  after the events so far and with which sequence number, and what a handler or a method does to the
  registrations and to the hardware.
\<close>

type_synonym ec_tables = "(u8 \<Rightarrow> nat option) \<times> (u8 \<Rightarrow> nat)"

record 'h ec_env =
  ee_Ports :: "u16 \<Rightarrow> u16 \<Rightarrow> 'h ec_ports"
  ee_Glk :: "ec_event list \<Rightarrow> u32 option"
  ee_Routine :: "nat \<Rightarrow> u8 \<Rightarrow> nat \<Rightarrow> ec_tables \<times> 'h \<Rightarrow> ec_tables \<times> 'h"
  ee_Eval :: "acpi_node \<Rightarrow> string \<Rightarrow> ec_tables \<times> 'h \<Rightarrow> ec_tables \<times> 'h"

definition ports_of :: "'h ec_env \<Rightarrow> ec \<Rightarrow> 'h ec_ports" where
  "ports_of E Ec = ee_Ports E (ec_DataPort Ec) (ec_ControlPort Ec)"

definition UacpiNtEcLockGlobal :: "'h ec_env \<Rightarrow> ec \<Rightarrow> ec_event list \<Rightarrow> u32 option \<times> ec_event list" where
  "UacpiNtEcLockGlobal E Ec log =
     (if \<not> ec_GlobalLock Ec then (Some 0, log)
      else case ee_Glk E log of None \<Rightarrow> (None, log) | Some Sequence \<Rightarrow> (Some Sequence, log @ [EcAcquired Sequence]))"

definition UacpiNtEcUnlockGlobal :: "ec \<Rightarrow> u32 \<Rightarrow> ec_event list \<Rightarrow> ec_event list" where
  "UacpiNtEcUnlockGlobal Ec Sequence log = (if ec_GlobalLock Ec then log @ [EcReleased Sequence] else log)"

section \<open>Requests\<close>

abbreviation (input) STATUS_DEVICE_NOT_READY :: ntstatus where "STATUS_DEVICE_NOT_READY \<equiv> 0xC00000A3"
abbreviation (input) STATUS_INVALID_DEVICE_STATE :: ntstatus where "STATUS_INVALID_DEVICE_STATE \<equiv> 0xC0000184"
abbreviation (input) STATUS_DEVICE_BUSY :: ntstatus where "STATUS_DEVICE_BUSY \<equiv> 0x80000011"
abbreviation (input) STATUS_IO_TIMEOUT :: ntstatus where "STATUS_IO_TIMEOUT \<equiv> 0xC00000B5"
abbreviation (input) STATUS_INVALID_DEVICE_REQUEST :: ntstatus where "STATUS_INVALID_DEVICE_REQUEST \<equiv> 0xC0000010"

record ec_request =
  er_IsWrite :: bool
  er_Buffer :: "u8 list option"
  er_Length :: u32
  er_LowPart :: u32
  er_HighPart :: u32

text \<open>The number of bytes transferred, the buffer, the hardware and the events.\<close>

fun transfer_loop ::
    "'h ec_ports \<Rightarrow> bool \<Rightarrow> u32 \<Rightarrow> nat \<Rightarrow> nat \<Rightarrow> u8 list \<Rightarrow> 'h \<Rightarrow> ec_event list \<Rightarrow> nat \<times> u8 list \<times> 'h \<times> ec_event list" where
  "transfer_loop P IsWrite Offset Index 0 Buffer h log = (Index, Buffer, h, log)"
| "transfer_loop P IsWrite Offset Index (Suc n) Buffer h log =
     (let Address = ucast (Offset + of_nat Index); log = log @ [EcAccess IsWrite Address]
      in if IsWrite
         then case UacpiNtEcWriteByte P Address (Buffer ! Index) h of
                (False, h) \<Rightarrow> (Index, Buffer, h, log)
              | (True, h) \<Rightarrow> transfer_loop P IsWrite Offset (Suc Index) n Buffer h log
         else case UacpiNtEcReadByte P Address h of
                (None, h) \<Rightarrow> (Index, Buffer, h, log)
              | (Some v, h) \<Rightarrow> transfer_loop P IsWrite Offset (Suc Index) n (Buffer[Index := v]) h log)"

text \<open>The status and information of the completed request, its buffer, the hardware and the events.\<close>

definition UacpiNtEcReadWrite ::
    "'h ec_env \<Rightarrow> ec option \<Rightarrow> bool \<Rightarrow> ec_request \<Rightarrow> 'h \<Rightarrow> ec_event list \<Rightarrow>
     ntstatus \<times> nat \<times> u8 list option \<times> 'h \<times> ec_event list" where
  "UacpiNtEcReadWrite E PdoEc Passive R h log =
     (case PdoEc of
        None \<Rightarrow> (STATUS_DEVICE_NOT_READY, 0, er_Buffer R, h, log)
      | Some Ec \<Rightarrow>
          if \<not> ec_RegionInstalled Ec then (STATUS_DEVICE_NOT_READY, 0, er_Buffer R, h, log)
          else if \<not> Passive then (STATUS_INVALID_DEVICE_STATE, 0, er_Buffer R, h, log)
          else if er_Length R = 0 then (STATUS_SUCCESS, 0, er_Buffer R, h, log)
          else case er_Buffer R of
                 None \<Rightarrow> (STATUS_INVALID_PARAMETER, 0, None, h, log)
               | Some Buffer \<Rightarrow>
                   if er_HighPart R \<noteq> 0 \<or> er_LowPart R \<ge> 256 \<or> er_Length R > 256 - er_LowPart R
                   then (STATUS_INVALID_PARAMETER, 0, Some Buffer, h, log)
                   else case UacpiNtEcLockGlobal E Ec log of
                          (None, log) \<Rightarrow> (STATUS_DEVICE_BUSY, 0, Some Buffer, h, log)
                        | (Some Sequence, log) \<Rightarrow>
                            let (Index, Buffer, h, log) =
                                  transfer_loop (ports_of E Ec) (er_IsWrite R) (er_LowPart R) 0 (unat (er_Length R)) Buffer h log;
                                log = UacpiNtEcUnlockGlobal Ec Sequence log
                            in if Index < unat (er_Length R) then (STATUS_IO_TIMEOUT, Index, Some Buffer, h, log)
                               else (STATUS_SUCCESS, unat (er_Length R), Some Buffer, h, log))"

section \<open>Query registrations\<close>

record ec_registration =
  rg_QueryCode :: u8
  rg_Handler :: "nat option"
  rg_Context :: nat
  rg_Cookie :: u64

definition UacpiNtEcUpdateRegistration :: "ec \<Rightarrow> ec_registration \<Rightarrow> bool \<Rightarrow> ntstatus \<times> ec \<times> ec_registration" where
  "UacpiNtEcUpdateRegistration Ec Registration Register =
     (let QueryCode = rg_QueryCode Registration
      in if Register
         then if rg_Handler Registration \<noteq> None \<and> ec_QueryRoutine Ec QueryCode = None
              then (STATUS_SUCCESS,
                    Ec\<lparr>ec_QueryRoutine := (ec_QueryRoutine Ec)(QueryCode := rg_Handler Registration),
                       ec_QueryContext := (ec_QueryContext Ec)(QueryCode := rg_Context Registration)\<rparr>,
                    Registration\<lparr>rg_Cookie := ucast QueryCode + 1\<rparr>)
              else (STATUS_UNSUCCESSFUL, Ec, Registration)
         else if ec_QueryRoutine Ec QueryCode \<noteq> None
         then (STATUS_SUCCESS,
               Ec\<lparr>ec_QueryRoutine := (ec_QueryRoutine Ec)(QueryCode := None),
                  ec_QueryContext := (ec_QueryContext Ec)(QueryCode := 0)\<rparr>, Registration)
         else (STATUS_UNSUCCESSFUL, Ec, Registration))"

datatype ec_ioctl = EcRegisterQueryHandler | EcUnregisterQueryHandler | EcOtherIoctl

text \<open>
  Whether the code is one of the driver's, the status, and the controller and registration after it. A
  registration the caller's buffer is too short for is \<open>None\<close>.
\<close>

definition UacpiNtEcDeviceControl ::
    "ec option \<Rightarrow> ec_ioctl \<Rightarrow> bool \<Rightarrow> ec_registration option \<Rightarrow> bool \<times> ntstatus \<times> ec option \<times> ec_registration option" where
  "UacpiNtEcDeviceControl PdoEc Code KernelMode Input =
     (if Code = EcOtherIoctl then (False, STATUS_NOT_SUPPORTED, PdoEc, Input)
      else case PdoEc of
             None \<Rightarrow> (True, STATUS_DEVICE_NOT_READY, PdoEc, Input)
           | Some Ec \<Rightarrow>
               if \<not> KernelMode then (True, STATUS_INVALID_DEVICE_REQUEST, PdoEc, Input)
               else case Input of
                      None \<Rightarrow> (True, STATUS_BUFFER_TOO_SMALL, PdoEc, Input)
                    | Some Registration \<Rightarrow>
                        let (Status, Ec, Registration) =
                              UacpiNtEcUpdateRegistration Ec Registration (Code = EcRegisterQueryHandler)
                        in (True, Status, Some Ec, Some Registration))"

section \<open>Queries\<close>

definition hex_digit :: "nat \<Rightarrow> char" where
  "hex_digit n = char_of (if n < 10 then 48 + n else 55 + n)"

definition query_method :: "u8 \<Rightarrow> string" where
  "query_method q = ''_Q'' @ [hex_digit (unat q div 16), hex_digit (unat q mod 16)]"

type_synonym 'h ec_world = "ec \<times> 'h \<times> ec_event list"

definition UacpiNtEcFetchQuery :: "'h ec_env \<Rightarrow> 'h ec_world \<Rightarrow> u8 \<times> 'h ec_world" where
  "UacpiNtEcFetchQuery E w =
     (case w of (Ec, h, log) \<Rightarrow>
        (case UacpiNtEcLockGlobal E Ec log of
           (None, log) \<Rightarrow> (0, Ec, h, log)
         | (Some Sequence, log) \<Rightarrow>
             let (QueryCode, h) = query_transaction (ports_of E Ec) h
             in (QueryCode, Ec, h, UacpiNtEcUnlockGlobal Ec Sequence (log @ [EcQueried QueryCode]))))"

text \<open>A registered driver takes the code, otherwise _Qxx runs.\<close>

definition UacpiNtEcDispatchQuery :: "'h ec_env \<Rightarrow> u8 \<Rightarrow> 'h ec_world \<Rightarrow> 'h ec_world" where
  "UacpiNtEcDispatchQuery E QueryCode w =
     (case w of (Ec, h, log) \<Rightarrow>
        (let tables = ((ec_QueryRoutine Ec, ec_QueryContext Ec), h);
             (((r, c), h), ev) =
               (case ec_QueryRoutine Ec QueryCode of
                  Some Routine \<Rightarrow>
                    (ee_Routine E Routine QueryCode (ec_QueryContext Ec QueryCode) tables,
                     EcRoutine Routine QueryCode (ec_QueryContext Ec QueryCode))
                | None \<Rightarrow>
                    (ee_Eval E (ec_Node Ec) (query_method QueryCode) tables, EcMethod (ec_Node Ec) (query_method QueryCode)))
         in (Ec\<lparr>ec_QueryRoutine := r, ec_QueryContext := c\<rparr>, h, log @ [ev])))"

abbreviation (input) UACPINT_EC_QUERY_CODES :: nat where "UACPINT_EC_QUERY_CODES \<equiv> 256"

fun drain_loop :: "'h ec_env \<Rightarrow> nat \<Rightarrow> 'h ec_world \<Rightarrow> 'h ec_world" where
  "drain_loop E 0 w = w"
| "drain_loop E (Suc n) w =
     (let (QueryCode, w) = UacpiNtEcFetchQuery E w
      in if QueryCode = 0 then w else drain_loop E n (UacpiNtEcDispatchQuery E QueryCode w))"

definition UacpiNtEcDrainQueries :: "'h ec_env \<Rightarrow> 'h ec_world \<Rightarrow> 'h ec_world" where
  "UacpiNtEcDrainQueries E w = drain_loop E UACPINT_EC_QUERY_CODES w"

section \<open>From the query interrupt to the worker\<close>

text \<open>
  The flag of the controller, the DPC and the work item in their queues, workers that have been taken off
  the queue, and workers in the drain. \<open>pu_Twice\<close> records that the work item was queued while still in the
  queue, which would corrupt it; \<open>pu_Unseen\<close> that an interrupt came after the last drain was begun.
\<close>

record ec_pump =
  pu_WorkQueued :: bool
  pu_Dpc :: bool
  pu_Work :: bool
  pu_Begun :: nat
  pu_Draining :: nat
  pu_Twice :: bool
  pu_Unseen :: bool

definition UacpiNtEcGpeHandler :: "ec_pump \<Rightarrow> ec_pump" where
  "UacpiNtEcGpeHandler p =
     (if \<not> pu_WorkQueued p then p\<lparr>pu_WorkQueued := True, pu_Dpc := True, pu_Unseen := True\<rparr>
      else p\<lparr>pu_WorkQueued := True, pu_Unseen := True\<rparr>)"

definition UacpiNtEcQueryDpc :: "ec_pump \<Rightarrow> ec_pump" where
  "UacpiNtEcQueryDpc p = p\<lparr>pu_Work := True, pu_Twice := pu_Twice p \<or> pu_Work p\<rparr>"

text \<open>The worker up to the drain.\<close>

definition UacpiNtEcQueryWorker :: "ec_pump \<Rightarrow> ec_pump" where
  "UacpiNtEcQueryWorker p = p\<lparr>pu_WorkQueued := False, pu_Draining := Suc (pu_Draining p), pu_Unseen := False\<rparr>"

inductive pump_step :: "ec_pump \<Rightarrow> ec_pump \<Rightarrow> bool" where
  gpe: "pump_step p (UacpiNtEcGpeHandler p)"
| dpc: "pu_Dpc p \<Longrightarrow> pump_step p (UacpiNtEcQueryDpc (p\<lparr>pu_Dpc := False\<rparr>))"
| dequeue: "pu_Work p \<Longrightarrow> pump_step p (p\<lparr>pu_Work := False, pu_Begun := Suc (pu_Begun p)\<rparr>)"
| worker: "pu_Begun p = Suc n \<Longrightarrow> pump_step p (UacpiNtEcQueryWorker (p\<lparr>pu_Begun := n\<rparr>))"
| drained: "pu_Draining p = Suc n \<Longrightarrow> pump_step p (p\<lparr>pu_Draining := n\<rparr>)"

definition pump_start :: ec_pump where
  "pump_start = \<lparr>pu_WorkQueued = False, pu_Dpc = False, pu_Work = False, pu_Begun = 0, pu_Draining = 0,
     pu_Twice = False, pu_Unseen = False\<rparr>"

section \<open>Bring up\<close>

text \<open>
  What the pool, the firmware and uACPI answer while one controller is brought up: the block, _CRS, _GLK
  and _GPE, and whether the address space handler and the GPE handler can be installed.
\<close>

record ec_answers =
  ea_Pool :: bool
  ea_Crs :: "crs_resource list option"
  ea_Glk :: "u64 option"
  ea_Gpe :: "fw_object option option"
  ea_Region :: bool
  ea_GpeHandler :: bool

record ecdt =
  ed_Node :: "acpi_node option"
  ed_Control :: u64
  ed_Data :: u64
  ed_GpeBit :: u8

text \<open>\<open>es_Pdo\<close> is the link from a device object to its controller.\<close>

record 'h ec_system =
  es_List :: "ec list"
  es_Pdo :: "nat \<Rightarrow> acpi_node option"
  es_Hw :: 'h
  es_Log :: "ec_event list"

fun ports_loop :: "crs_resource list \<Rightarrow> u16 list \<Rightarrow> u16 list" where
  "ports_loop [] Ports = Ports"
| "ports_loop (R # Rs) Ports =
     (if length Ports \<ge> 2 then Ports
      else ports_loop Rs (case R of RIo mn _ \<Rightarrow> Ports @ [mn] | RFixedIo a _ \<Rightarrow> Ports @ [a] | _ \<Rightarrow> Ports))"

definition UacpiNtEcReadPorts :: "ec_answers \<Rightarrow> ec \<Rightarrow> ec option" where
  "UacpiNtEcReadPorts A Ec =
     (case ea_Crs A of
        None \<Rightarrow> None
      | Some Resources \<Rightarrow>
          let Ports = ports_loop Resources []
          in if length Ports < 2 then None else Some (Ec\<lparr>ec_DataPort := Ports ! 0, ec_ControlPort := Ports ! 1\<rparr>))"

definition UacpiNtEcReadGpe :: "ec_answers \<Rightarrow> ec \<Rightarrow> bool \<times> ec" where
  "UacpiNtEcReadGpe A Ec =
     (case ea_Gpe A of
        Some (Some (OInteger Index)) \<Rightarrow> (True, Ec\<lparr>ec_GpeLine := ucast Index\<rparr>)
      | Some (Some (OPackage Elements)) \<Rightarrow>
          (if length Elements \<ge> 2
           then case Elements ! 1 of OInteger Index \<Rightarrow> (True, Ec\<lparr>ec_GpeLine := ucast Index\<rparr>) | _ \<Rightarrow> (False, Ec)
           else (False, Ec))
      | _ \<Rightarrow> (False, Ec))"

definition UacpiNtEcReadGlk :: "ec_answers \<Rightarrow> ec \<Rightarrow> ec" where
  "UacpiNtEcReadGlk A Ec =
     (case ea_Glk A of Some Glk \<Rightarrow> if Glk \<noteq> 0 then Ec\<lparr>ec_GlobalLock := True\<rparr> else Ec | None \<Rightarrow> Ec)"

definition UacpiNtEcAllocate :: "ec_answers \<Rightarrow> acpi_node \<Rightarrow> ec option" where
  "UacpiNtEcAllocate A Node =
     (if ea_Pool A
      then Some \<lparr>ec_Node = Node, ec_Pdo = None, ec_DataPort = 0, ec_ControlPort = 0, ec_GpeLine = 0,
        ec_RegionInstalled = False, ec_FromEcdt = False, ec_GlobalLock = False, ec_QueryRoutine = (\<lambda>_. None),
        ec_QueryContext = (\<lambda>_. 0)\<rparr>
      else None)"

definition UacpiNtEcFindByNode :: "acpi_node \<Rightarrow> 'h ec_system \<Rightarrow> ec option" where
  "UacpiNtEcFindByNode Node S = find (\<lambda>Ec. ec_Node Ec = Node) (es_List S)"

definition UacpiNtEcConnectGpe :: "'h ec_env \<Rightarrow> ec_answers \<Rightarrow> 'h ec_world \<Rightarrow> 'h ec_world" where
  "UacpiNtEcConnectGpe E A w =
     (if \<not> ea_GpeHandler A then w
      else case w of (Ec, h, log) \<Rightarrow> UacpiNtEcDrainQueries E (Ec, h, log @ [EcGpeEnabled (ec_GpeLine Ec)]))"

text \<open>The controller is in the list before its GPE is connected; the queries drained then work on it there.\<close>

definition UacpiNtEcInstall :: "'h ec_env \<Rightarrow> ec_answers \<Rightarrow> ec \<Rightarrow> bool \<Rightarrow> 'h ec_system \<Rightarrow> bool \<times> 'h ec_system" where
  "UacpiNtEcInstall E A Ec HasGpe S =
     (if \<not> ea_Region A then (False, S)
      else
        let Ec = Ec\<lparr>ec_RegionInstalled := True\<rparr>;
            S = S\<lparr>es_List := Ec # es_List S\<rparr>
        in if HasGpe
           then case UacpiNtEcConnectGpe E A (Ec, es_Hw S, es_Log S) of
                  (Ec, h, log) \<Rightarrow> (True, S\<lparr>es_List := Ec # tl (es_List S), es_Hw := h, es_Log := log\<rparr>)
           else (True, S))"

text \<open>Whether a controller is returned: the one in the list for the node.\<close>

definition UacpiNtEcBringUpNode :: "'h ec_env \<Rightarrow> ec_answers \<Rightarrow> acpi_node \<Rightarrow> 'h ec_system \<Rightarrow> bool \<times> 'h ec_system" where
  "UacpiNtEcBringUpNode E A Node S =
     (if UacpiNtEcFindByNode Node S \<noteq> None then (True, S)
      else case UacpiNtEcAllocate A Node of
             None \<Rightarrow> (False, S)
           | Some Ec \<Rightarrow>
               (case UacpiNtEcReadPorts A Ec of
                  None \<Rightarrow> (False, S)
                | Some Ec \<Rightarrow>
                    let (HasGpe, Ec) = UacpiNtEcReadGpe A (UacpiNtEcReadGlk A Ec)
                    in UacpiNtEcInstall E A Ec HasGpe S))"

definition UacpiNtEcBringUpEcdt :: "'h ec_env \<Rightarrow> ec_answers \<Rightarrow> ecdt \<Rightarrow> 'h ec_system \<Rightarrow> bool \<times> 'h ec_system" where
  "UacpiNtEcBringUpEcdt E A Ecdt S =
     (case ed_Node Ecdt of
        None \<Rightarrow> (False, S)
      | Some Node \<Rightarrow>
          if UacpiNtEcFindByNode Node S \<noteq> None then (True, S)
          else case UacpiNtEcAllocate A Node of
                 None \<Rightarrow> (False, S)
               | Some Ec \<Rightarrow>
                   UacpiNtEcInstall E A
                     (Ec\<lparr>ec_ControlPort := ucast (ed_Control Ecdt), ec_DataPort := ucast (ed_Data Ecdt),
                        ec_GpeLine := ucast (ed_GpeBit Ecdt), ec_FromEcdt := True\<rparr>) True S)"

definition UacpiNtEcInitFromEcdt :: "'h ec_env \<Rightarrow> ec_answers \<Rightarrow> ecdt option \<Rightarrow> 'h ec_system \<Rightarrow> bool \<times> 'h ec_system" where
  "UacpiNtEcInitFromEcdt E A Table S =
     (case Table of None \<Rightarrow> (False, S) | Some Ecdt \<Rightarrow> UacpiNtEcBringUpEcdt E A Ecdt S)"

text \<open>\<open>IsEc\<close> is uacpi_device_matches_pnp_id for PNP0C09.\<close>

definition UacpiNtEcScanCallback ::
    "'h ec_env \<Rightarrow> ec_answers \<Rightarrow> (acpi_node \<Rightarrow> bool) \<Rightarrow> acpi_node \<Rightarrow> 'h ec_system \<Rightarrow> bool \<times> 'h ec_system" where
  "UacpiNtEcScanCallback E A IsEc Node S = (if \<not> IsEc Node then (False, S) else UacpiNtEcBringUpNode E A Node S)"

fun scan_loop :: "'h ec_env \<Rightarrow> (acpi_node \<Rightarrow> ec_answers) \<Rightarrow> (acpi_node \<Rightarrow> bool) \<Rightarrow> acpi_node list \<Rightarrow> 'h ec_system \<Rightarrow> 'h ec_system" where
  "scan_loop E A IsEc [] S = S"
| "scan_loop E A IsEc (Node # Nodes) S =
     (case UacpiNtEcScanCallback E (A Node) IsEc Node S of (stop, S) \<Rightarrow> if stop then S else scan_loop E A IsEc Nodes S)"

definition UacpiNtEcInitialize ::
    "'h ec_env \<Rightarrow> ec_answers \<Rightarrow> ecdt option \<Rightarrow> (acpi_node \<Rightarrow> ec_answers) \<Rightarrow> (acpi_node \<Rightarrow> bool) \<Rightarrow> acpi_node list \<Rightarrow>
     'h ec_system \<Rightarrow> 'h ec_system" where
  "UacpiNtEcInitialize E A Table NodeAnswers IsEc Nodes S =
     (case UacpiNtEcInitFromEcdt E A Table S of (Success, S) \<Rightarrow> if Success then S else scan_loop E NodeAnswers IsEc Nodes S)"

text \<open>The field \<open>Pdo\<close> of the controller of a node.\<close>

definition set_pdo :: "acpi_node \<Rightarrow> nat option \<Rightarrow> ec list \<Rightarrow> ec list" where
  "set_pdo Node Pdo = map (\<lambda>Ec. if ec_Node Ec = Node then Ec\<lparr>ec_Pdo := Pdo\<rparr> else Ec)"

definition UacpiNtEcStart ::
    "'h ec_env \<Rightarrow> ec_answers \<Rightarrow> (acpi_node \<Rightarrow> bool) \<Rightarrow> nat \<Rightarrow> acpi_node option \<Rightarrow> 'h ec_system \<Rightarrow> 'h ec_system" where
  "UacpiNtEcStart E A IsEc Pdo PdoNode S =
     (case PdoNode of
        None \<Rightarrow> S
      | Some Node \<Rightarrow>
          if \<not> IsEc Node then S
          else case UacpiNtEcBringUpNode E A Node S of
                 (False, S) \<Rightarrow> S
               | (True, S) \<Rightarrow> S\<lparr>es_List := set_pdo Node (Some Pdo) (es_List S), es_Pdo := (es_Pdo S)(Pdo := Some Node)\<rparr>)"

definition UacpiNtEcRemove :: "nat \<Rightarrow> 'h ec_system \<Rightarrow> 'h ec_system" where
  "UacpiNtEcRemove Pdo S =
     (case es_Pdo S Pdo of
        None \<Rightarrow> S
      | Some Node \<Rightarrow> S\<lparr>es_List := set_pdo Node None (es_List S), es_Pdo := (es_Pdo S)(Pdo := None)\<rparr>)"

section \<open>Lemmas on transfers\<close>

lemma request_address:
  fixes off :: u32
  assumes "unat off + i < 256"
  shows "ucast (off + of_nat i) = (of_nat (unat off + i) :: u8)"
proof -
  have "unat (of_nat i :: u32) = i" using assms by (intro unat_of_nat_small) simp
  then have "unat (off + of_nat i) = unat off + i" using assms by (subst unat_add_nowrap) simp_all
  then show ?thesis by (simp add: word_unat_eq_iff unsigned_ucast_eq unsigned_of_nat del: of_nat_add)
qed

definition stored :: "nat \<Rightarrow> nat \<Rightarrow> nat \<Rightarrow> u8 list \<Rightarrow> (u8 \<Rightarrow> u8) \<Rightarrow> u8 \<Rightarrow> u8" where
  "stored off i k bs m = (\<lambda>x. if off + i \<le> unat x \<and> unat x < off + k then bs ! (unat x - off) else m x)"

lemma stored_step:
  assumes "off + i < 256" and "Suc i \<le> k"
  shows "stored off (Suc i) k bs (m(of_nat (off + i) := bs ! i)) = stored off i k bs m"
proof
  fix x :: u8
  have u: "unat (of_nat (off + i) :: u8) = off + i" using assms by (intro unat_of_nat_small) simp
  have "x = of_nat (off + i) \<longleftrightarrow> unat x = off + i" using u by (metis word_unat_eq_iff)
  then show "stored off (Suc i) k bs (m(of_nat (off + i) := bs ! i)) x = stored off i k bs m x"
    using assms(2) by (auto simp: stored_def)
qed

text \<open>The accesses of a transfer that gets to its byte \<open>k\<close>.\<close>

definition accesses :: "bool \<Rightarrow> nat \<Rightarrow> nat \<Rightarrow> nat \<Rightarrow> ec_event list" where
  "accesses IsWrite off i k = map (\<lambda>j. EcAccess IsWrite (of_nat (off + j))) [i..<k]"

lemma accesses_step: "i < k \<Longrightarrow> accesses b off i k = EcAccess b (of_nat (off + i)) # accesses b off (Suc i) k"
  by (simp add: accesses_def upt_conv_Cons del: of_nat_add)

lemma accesses_empty [simp]: "accesses b off k k = []"
  by (simp add: accesses_def)

lemma transfer_write:
  assumes c: "ec_contract P mem ph ibf out" and "quiet ph out h" and "unat off + i + n \<le> 256"
    and "transfer_loop P True off i n bs h log = (k, bs', h', log')"
  shows "i \<le> k \<and> k \<le> i + n \<and> bs' = bs \<and> quiet ph out h' \<and> mem h' = stored (unat off) i k bs (mem h) \<and>
    log' = log @ accesses True (unat off) i (min (Suc k) (i + n))"
  using assms(2-)
proof (induction n arbitrary: i h log)
  case 0
  then show ?case by (auto simp: stored_def fun_eq_iff)
next
  case (Suc n)
  have lt: "unat off + i < 256" using Suc.prems(2) by simp
  obtain b h1 where w: "UacpiNtEcWriteByte P (of_nat (unat off + i)) (bs ! i) h = (b, h1)" by fastforce
  note w1 = WriteByte_sound [OF c Suc.prems(1) w]
  show ?case
  proof (cases b)
    case True
    then have "transfer_loop P True off (Suc i) n bs h1 (log @ [EcAccess True (of_nat (unat off + i))]) = (k, bs', h', log')"
      using Suc.prems(3) w by (simp add: request_address [OF lt] Let_def del: of_nat_add)
    from Suc.IH [OF conjunct2 [OF w1] _ this] Suc.prems(2)
    have "Suc i \<le> k" "k \<le> Suc (i + n)" "bs' = bs" "quiet ph out h'" "mem h' = stored (unat off) (Suc i) k bs (mem h1)"
      "log' = log @ EcAccess True (of_nat (unat off + i)) # accesses True (unat off) (Suc i) (min (Suc k) (Suc i + n))"
      by (auto simp del: of_nat_add)
    with w1 True stored_step [OF lt] show ?thesis by (simp add: accesses_step del: of_nat_add)
  next
    case False
    with Suc.prems(3) w w1 show ?thesis
      by (auto simp: request_address [OF lt] stored_def fun_eq_iff accesses_step Let_def simp del: of_nat_add)
  qed
qed

lemma transfer_read:
  assumes c: "ec_contract P mem ph ibf out" and "quiet ph out h" and "unat off + i + n \<le> 256" and "i + n \<le> length bs"
    and "transfer_loop P False off i n bs h log = (k, bs', h', log')"
  shows "i \<le> k \<and> k \<le> i + n \<and> mem h' = mem h \<and>
    bs' = take i bs @ map (\<lambda>j. mem h (of_nat (unat off + j))) [i..<k] @ drop k bs \<and>
    log' = log @ accesses False (unat off) i (min (Suc k) (i + n))"
  using assms(2-)
proof (induction n arbitrary: i h bs log)
  case 0
  then show ?case by simp
next
  case (Suc n)
  have lt: "unat off + i < 256" using Suc.prems(2) by simp
  obtain r h1 where r: "UacpiNtEcReadByte P (of_nat (unat off + i)) h = (r, h1)" by fastforce
  note f = ReadByte_frame [OF c r]
  show ?case
  proof (cases r)
    case (Some v)
    from ReadByte_sound [OF c Suc.prems(1) r [unfolded Some]] have v: "v = mem h (of_nat (unat off + i))" "quiet ph out h1" by auto
    have "transfer_loop P False off (Suc i) n (bs[i := v]) h1 (log @ [EcAccess False (of_nat (unat off + i))]) = (k, bs', h', log')"
      using Suc.prems(4) r Some by (simp add: request_address [OF lt] Let_def del: of_nat_add)
    from Suc.IH [OF v(2) _ _ this] Suc.prems(2,3) f
    have k: "Suc i \<le> k" "k \<le> Suc (i + n)" "mem h' = mem h"
      "bs' = take (Suc i) (bs[i := v]) @ map (\<lambda>j. mem h (of_nat (unat off + j))) [Suc i..<k] @ drop k (bs[i := v])"
      "log' = log @ EcAccess False (of_nat (unat off + i)) # accesses False (unat off) (Suc i) (min (Suc k) (Suc i + n))"
      by (auto simp del: of_nat_add)
    have "take (Suc i) (bs[i := v]) = take i bs @ [v]" using Suc.prems(3) by (simp add: take_Suc_conv_app_nth)
    moreover have "[i..<k] = i # [Suc i..<k]" using k(1) by (simp add: upt_conv_Cons)
    ultimately show ?thesis using k v(1) by (simp add: accesses_step del: of_nat_add)
  next
    case None
    with Suc.prems(4) r f show ?thesis by (auto simp: request_address [OF lt] accesses_step Let_def simp del: of_nat_add)
  qed
qed

section \<open>Lemmas on queries\<close>

text \<open>
  The events of one attempt to get a query code when the events before it are \<open>log\<close>: the code is got under
  the global lock where the controller needs it, and is 0 without a try when the lock cannot be taken.
\<close>

definition fetch_events :: "'h ec_env \<Rightarrow> ec \<Rightarrow> ec_event list \<Rightarrow> u8 \<Rightarrow> ec_event list \<Rightarrow> bool" where
  "fetch_events E Ec log q evs \<longleftrightarrow>
     (if ec_GlobalLock Ec
      then (case ee_Glk E log of None \<Rightarrow> q = 0 \<and> evs = [] | Some s \<Rightarrow> evs = [EcAcquired s, EcQueried q, EcReleased s])
      else evs = [EcQueried q])"

text \<open>Who has to handle a code.\<close>

definition handler_event :: "ec \<Rightarrow> u8 \<Rightarrow> ec_event" where
  "handler_event Ec q =
     (case ec_QueryRoutine Ec q of
        Some Routine \<Rightarrow> EcRoutine Routine q (ec_QueryContext Ec q)
      | None \<Rightarrow> EcMethod (ec_Node Ec) (query_method q))"

text \<open>Handlers and methods that leave the registrations alone.\<close>

definition registrations_fixed :: "'h ec_env \<Rightarrow> bool" where
  "registrations_fixed E \<longleftrightarrow> (\<forall>r q c w. fst (ee_Routine E r q c w) = fst w) \<and> (\<forall>n m w. fst (ee_Eval E n m w) = fst w)"

text \<open>What queries leave of a controller.\<close>

definition same_device :: "ec \<Rightarrow> ec \<Rightarrow> bool" where
  "same_device Ec Ec' \<longleftrightarrow> Ec' = Ec\<lparr>ec_QueryRoutine := ec_QueryRoutine Ec', ec_QueryContext := ec_QueryContext Ec'\<rparr>"

lemma same_device_refl [simp]: "same_device Ec Ec"
  by (simp add: same_device_def)

lemma same_device_trans: "same_device a b \<Longrightarrow> same_device b c \<Longrightarrow> same_device a c"
  unfolding same_device_def by (metis ec.surjective ec.update_convs(9,10))

lemma same_device_fields:
  assumes "same_device a b"
  shows "ec_Node b = ec_Node a" and "ec_RegionInstalled b = ec_RegionInstalled a" and "ec_GlobalLock b = ec_GlobalLock a"
    and "ec_FromEcdt b = ec_FromEcdt a" and "ec_Pdo b = ec_Pdo a"
  using assms unfolding same_device_def by (metis ec.select_convs ec.surjective ec.update_convs(9,10))+

lemma FetchQuery_log:
  assumes "UacpiNtEcFetchQuery E (Ec, h, log) = (q, Ec', h', log')"
  shows "Ec' = Ec \<and> (\<exists>l. log' = log @ l \<and> fetch_events E Ec log q l)"
  using assms
  by (auto simp: UacpiNtEcFetchQuery_def UacpiNtEcLockGlobal_def UacpiNtEcUnlockGlobal_def fetch_events_def
      split: option.splits if_splits prod.splits)

lemma DispatchQuery_log:
  assumes "UacpiNtEcDispatchQuery E q (Ec, h, log) = (Ec', h', log')"
  shows "same_device Ec Ec' \<and> log' = log @ [handler_event Ec q]"
  using assms
  by (auto simp: UacpiNtEcDispatchQuery_def Let_def same_device_def handler_event_def split: option.splits prod.splits)

lemma DispatchQuery_fixed:
  assumes "UacpiNtEcDispatchQuery E q (Ec, h, log) = (Ec', h', log')" and "registrations_fixed E"
  shows "Ec' = Ec"
proof -
  let ?w = "((ec_QueryRoutine Ec, ec_QueryContext Ec), h)"
  have f: "fst (ee_Routine E a b c ?w) = fst ?w" "fst (ee_Eval E n m ?w) = fst ?w" for a b c n m
    using assms(2) unfolding registrations_fixed_def by blast+
  show ?thesis
  proof (cases "ec_QueryRoutine Ec q")
    case None
    obtain x y z where e: "ee_Eval E (ec_Node Ec) (query_method q) ?w = ((x, y), z)" by (metis prod.exhaust)
    with f(2) [of "ec_Node Ec" "query_method q"] assms(1) None show ?thesis by (auto simp: UacpiNtEcDispatchQuery_def)
  next
    case (Some a)
    obtain x y z where e: "ee_Routine E a q (ec_QueryContext Ec q) ?w = ((x, y), z)" by (metis prod.exhaust)
    with f(1) [of a q "ec_QueryContext Ec q"] assms(1) Some show ?thesis by (auto simp: UacpiNtEcDispatchQuery_def)
  qed
qed

text \<open>
  The events of a drain of at most \<open>n\<close> rounds: each round gets a nonzero code and then has that very code
  handled; the drain ends with an attempt that gets no code, or when the rounds are used up.
\<close>

fun drain_events :: "'h ec_env \<Rightarrow> nat \<Rightarrow> ec \<Rightarrow> ec_event list \<Rightarrow> (u8 \<times> ec_event list) list \<Rightarrow> ec_event list \<Rightarrow> bool" where
  "drain_events E n Ec log [] rest \<longleftrightarrow> (if n = 0 then rest = [] else fetch_events E Ec log 0 rest)"
| "drain_events E n Ec log ((q, evs) # rounds) rest \<longleftrightarrow> 0 < n \<and> q \<noteq> 0 \<and>
     (\<exists>fetch Ec1. evs = fetch @ [handler_event Ec q] \<and> fetch_events E Ec log q fetch \<and>
        same_device Ec Ec1 \<and> (registrations_fixed E \<longrightarrow> Ec1 = Ec) \<and> drain_events E (n - 1) Ec1 (log @ evs) rounds rest)"

lemma drain_loop_log:
  assumes "drain_loop E n (Ec, h, log) = (Ec', h', log')"
  shows "same_device Ec Ec' \<and> (\<exists>rounds rest. log' = log @ concat (map snd rounds) @ rest \<and> drain_events E n Ec log rounds rest)"
  using assms
proof (induction n arbitrary: Ec h log)
  case 0
  then show ?case by (auto intro!: exI [of _ "[]"])
next
  case (Suc n)
  obtain q Ec1 h1 log1 where f: "UacpiNtEcFetchQuery E (Ec, h, log) = (q, Ec1, h1, log1)" by (metis prod_cases4)
  from FetchQuery_log [OF f] obtain l where l: "Ec1 = Ec" "log1 = log @ l" "fetch_events E Ec log q l" by blast
  show ?case
  proof (cases "q = 0")
    case True
    with Suc.prems f l show ?thesis by (auto intro!: exI [of _ "[]"] exI [of _ l])
  next
    case False
    obtain Ec2 h2 log2 where d: "UacpiNtEcDispatchQuery E q (Ec, h1, log1) = (Ec2, h2, log2)" by (metis prod_cases3)
    let ?evs = "l @ [handler_event Ec q]"
    from DispatchQuery_log [OF d] have ev: "same_device Ec Ec2" "log2 = log @ ?evs" using l by auto
    from Suc.prems f d False l(1) have "drain_loop E n (Ec2, h2, log2) = (Ec', h', log')" by simp
    from Suc.IH [OF this] obtain rounds rest where
      r: "same_device Ec2 Ec'" "log' = log2 @ concat (map snd rounds) @ rest" "drain_events E n Ec2 log2 rounds rest" by blast
    have "drain_events E (Suc n) Ec log ((q, ?evs) # rounds) rest"
      using False l(3) ev r(3) DispatchQuery_fixed [OF d] by auto
    with r(2) ev same_device_trans [OF ev(1) r(1)] show ?thesis
      by (intro conjI exI [of _ "(q, ?evs) # rounds"] exI [of _ rest]) simp_all
  qed
qed

lemma drain_events_length: "drain_events E n Ec log rounds rest \<Longrightarrow> length rounds \<le> n"
proof (induction rounds arbitrary: n Ec log)
  case (Cons r rounds)
  obtain q evs where r: "r = (q, evs)" by fastforce
  from Cons.prems obtain Ec1 where "0 < n" "drain_events E (n - 1) Ec1 (log @ evs) rounds rest" unfolding r by auto
  with Cons.IH show ?case by fastforce
qed simp

section \<open>Lemmas on the worker\<close>

definition pump_inv :: "ec_pump \<Rightarrow> bool" where
  "pump_inv p \<longleftrightarrow> of_bool (pu_Dpc p) + of_bool (pu_Work p) + pu_Begun p = (if pu_WorkQueued p then 1 else 0) \<and>
     \<not> pu_Twice p \<and> (pu_Unseen p \<longrightarrow> pu_WorkQueued p)"

lemma pump_step_inv: "pump_step p p' \<Longrightarrow> pump_inv p \<Longrightarrow> pump_inv p'"
  by (induction rule: pump_step.induct)
    (auto simp: pump_inv_def UacpiNtEcGpeHandler_def UacpiNtEcQueryDpc_def UacpiNtEcQueryWorker_def split: if_splits)

lemma pump_reachable: "pump_step\<^sup>*\<^sup>* pump_start p \<Longrightarrow> pump_inv p"
  by (induction rule: rtranclp_induct) (simp_all add: pump_step_inv, simp add: pump_inv_def pump_start_def)

text \<open>A queued request gets to the drain.\<close>

lemma pump_drains:
  assumes "pump_inv p" and "pu_WorkQueued p"
  shows "\<exists>p'. pump_step\<^sup>*\<^sup>* p p' \<and> \<not> pu_Unseen p' \<and> pu_Draining p' = Suc (pu_Draining p)"
proof -
  have begun: "\<exists>p'. pump_step\<^sup>*\<^sup>* p p' \<and> \<not> pu_Unseen p' \<and> pu_Draining p' = Suc (pu_Draining p)" if "pu_Begun p = Suc n" for p n
    using r_into_rtranclp [of pump_step, OF pump_step.worker [OF that]]
    by (intro exI [of _ "UacpiNtEcQueryWorker (p\<lparr>pu_Begun := n\<rparr>)"]) (simp add: UacpiNtEcQueryWorker_def)
  have work: "\<exists>p'. pump_step\<^sup>*\<^sup>* p p' \<and> \<not> pu_Unseen p' \<and> pu_Draining p' = Suc (pu_Draining p)" if "pu_Work p" for p
    using pump_step.dequeue [OF that] begun [of "p\<lparr>pu_Work := False, pu_Begun := Suc (pu_Begun p)\<rparr>"]
    by (auto intro: converse_rtranclp_into_rtranclp)
  from assms consider "pu_Dpc p" | "pu_Work p" | n where "pu_Begun p = Suc n"
    by (auto simp: pump_inv_def split: if_splits) (metis One_nat_def add_0 of_bool_eq(1))
  then show ?thesis
  proof cases
    case 1
    then show ?thesis
      using pump_step.dpc [OF 1] work [of "UacpiNtEcQueryDpc (p\<lparr>pu_Dpc := False\<rparr>)"]
      by (auto simp: UacpiNtEcQueryDpc_def intro: converse_rtranclp_into_rtranclp)
  qed (use begun work in blast)+
qed

section \<open>Lemmas on the list of controllers\<close>

inductive ec_step :: "'h ec_env \<Rightarrow> (acpi_node \<Rightarrow> bool) \<Rightarrow> 'h ec_system \<Rightarrow> 'h ec_system \<Rightarrow> bool" for E IsEc where
  start: "ec_step E IsEc S (UacpiNtEcStart E A IsEc Pdo PdoNode S)"
| remove: "ec_step E IsEc S (UacpiNtEcRemove Pdo S)"
| control: "UacpiNtEcFindByNode n S = Some Ec \<Longrightarrow> UacpiNtEcUpdateRegistration Ec R b = (st, Ec', R') \<Longrightarrow>
    ec_step E IsEc S (S\<lparr>es_List := map (\<lambda>e. if ec_Node e = n then Ec' else e) (es_List S)\<rparr>)"

definition ec_inv :: "'h ec_system \<Rightarrow> bool" where
  "ec_inv S \<longleftrightarrow> distinct (map ec_Node (es_List S)) \<and> (\<forall>Ec\<in>set (es_List S). ec_RegionInstalled Ec) \<and>
     (\<forall>p n. es_Pdo S p = Some n \<longrightarrow> n \<in> ec_Node ` set (es_List S))"

lemma FindByNode_None: "UacpiNtEcFindByNode n S = None \<longleftrightarrow> n \<notin> ec_Node ` set (es_List S)"
  by (auto simp: UacpiNtEcFindByNode_def find_None_iff)

lemma FindByNode_Some:
  "UacpiNtEcFindByNode n S = Some Ec \<Longrightarrow> Ec \<in> set (es_List S) \<and> ec_Node Ec = n"
  by (auto simp: UacpiNtEcFindByNode_def find_Some_iff)

lemma ConnectGpe_same:
  assumes "UacpiNtEcConnectGpe E A (Ec, h, log) = (Ec', h', log')"
  shows "same_device Ec Ec'"
  using assms drain_loop_log
  by (fastforce simp: UacpiNtEcConnectGpe_def UacpiNtEcDrainQueries_def split: if_splits)

lemma Install_inv:
  assumes "ec_inv S" and "UacpiNtEcFindByNode (ec_Node Ec) S = None" and "UacpiNtEcInstall E A Ec g S = (b, S')"
  shows "ec_inv S' \<and> es_Pdo S' = es_Pdo S \<and> (b \<longrightarrow> (\<exists>Ec'. es_List S' = Ec' # es_List S \<and>
    same_device (Ec\<lparr>ec_RegionInstalled := True\<rparr>) Ec'))"
proof (cases "ea_Region A")
  case False
  with assms show ?thesis by (simp add: UacpiNtEcInstall_def)
next
  case True
  let ?w = "(Ec\<lparr>ec_RegionInstalled := True\<rparr>, es_Hw S, es_Log S)"
  obtain Ec' h' log' where w: "(if g then UacpiNtEcConnectGpe E A ?w else ?w) = (Ec', h', log')" by (metis prod_cases3)
  then have d: "same_device (Ec\<lparr>ec_RegionInstalled := True\<rparr>) Ec'"
    using ConnectGpe_same [of E A] by (auto split: if_splits)
  have S': "b" "S' = S\<lparr>es_List := Ec' # es_List S, es_Hw := h', es_Log := log'\<rparr>"
    using assms(3) True w by (auto simp: UacpiNtEcInstall_def Let_def split: if_splits prod.splits)
  have "ec_Node Ec' = ec_Node Ec" "ec_RegionInstalled Ec'" using same_device_fields [OF d] by simp_all
  with assms(1,2) S' have "ec_inv S'" by (auto simp: ec_inv_def FindByNode_None)
  with S' d show ?thesis by simp
qed

lemma answers_node:
  "UacpiNtEcAllocate A n = Some Ec \<Longrightarrow> ec_Node Ec = n \<and> \<not> ec_GlobalLock Ec"
  "UacpiNtEcReadPorts A Ec = Some Ec1 \<Longrightarrow> ec_Node Ec1 = ec_Node Ec"
  "ec_Node (snd (UacpiNtEcReadGpe A Ec)) = ec_Node Ec"
  "ec_Node (UacpiNtEcReadGlk A Ec) = ec_Node Ec"
  by (auto simp: UacpiNtEcAllocate_def UacpiNtEcReadPorts_def UacpiNtEcReadGpe_def UacpiNtEcReadGlk_def Let_def
      split: if_splits option.splits fw_object.splits)

lemma BringUpNode_inv:
  assumes "ec_inv S" and "UacpiNtEcBringUpNode E A n S = (b, S')"
  shows "ec_inv S' \<and> es_Pdo S' = es_Pdo S \<and> (b \<longrightarrow> n \<in> ec_Node ` set (es_List S'))"
proof (cases "UacpiNtEcFindByNode n S = None \<and> ea_Pool A \<and> UacpiNtEcReadPorts A (the (UacpiNtEcAllocate A n)) \<noteq> None")
  case False
  with assms show ?thesis
    by (auto simp: UacpiNtEcBringUpNode_def UacpiNtEcAllocate_def FindByNode_None split: if_splits option.splits)
next
  case True
  then obtain Ec0 Ec1 where a: "UacpiNtEcAllocate A n = Some Ec0" "UacpiNtEcReadPorts A Ec0 = Some Ec1"
    by (auto simp: UacpiNtEcAllocate_def)
  obtain g Ec2 where g: "UacpiNtEcReadGpe A (UacpiNtEcReadGlk A Ec1) = (g, Ec2)" by fastforce
  have n: "ec_Node Ec2 = n" using answers_node a g by (metis snd_conv)
  have i: "UacpiNtEcInstall E A Ec2 g S = (b, S')" using assms(2) True a g by (simp add: UacpiNtEcBringUpNode_def)
  have "UacpiNtEcFindByNode (ec_Node Ec2) S = None" using True n by simp
  from Install_inv [OF assms(1) this i] n show ?thesis by (auto dest: same_device_fields(1))
qed

lemma BringUpEcdt_inv:
  assumes "ec_inv S" and "UacpiNtEcBringUpEcdt E A T S = (b, S')"
  shows "ec_inv S' \<and> es_Pdo S' = es_Pdo S"
proof (cases "\<exists>n Ec. ed_Node T = Some n \<and> UacpiNtEcFindByNode n S = None \<and> UacpiNtEcAllocate A n = Some Ec")
  case False
  with assms show ?thesis by (auto simp: UacpiNtEcBringUpEcdt_def split: option.splits if_splits)
next
  case True
  then obtain n Ec where a: "ed_Node T = Some n" "UacpiNtEcFindByNode n S = None" "UacpiNtEcAllocate A n = Some Ec" by blast
  let ?Ec = "Ec\<lparr>ec_ControlPort := ucast (ed_Control T), ec_DataPort := ucast (ed_Data T), ec_GpeLine := ucast (ed_GpeBit T),
    ec_FromEcdt := True\<rparr>"
  have "UacpiNtEcInstall E A ?Ec True S = (b, S')" using assms(2) a by (simp add: UacpiNtEcBringUpEcdt_def)
  moreover have "UacpiNtEcFindByNode (ec_Node ?Ec) S = None" using a answers_node(1) by simp
  ultimately show ?thesis using Install_inv [OF assms(1)] by blast
qed

lemma scan_inv: "ec_inv S \<Longrightarrow> ec_inv (scan_loop E A IsEc Nodes S)"
  by (induction Nodes arbitrary: S)
    (auto simp: UacpiNtEcScanCallback_def split: prod.split dest: BringUpNode_inv)

lemma Initialize_inv: "ec_inv S \<Longrightarrow> ec_inv (UacpiNtEcInitialize E A T NA IsEc Nodes S)"
  by (auto simp: UacpiNtEcInitialize_def UacpiNtEcInitFromEcdt_def scan_inv split: option.splits prod.splits
      dest: BringUpEcdt_inv)

lemma map_inv:
  assumes "ec_inv S"
    and f: "\<And>e. e \<in> set (es_List S) \<Longrightarrow> ec_Node (f e) = ec_Node e \<and> ec_RegionInstalled (f e) = ec_RegionInstalled e"
  shows "ec_inv (S\<lparr>es_List := map f (es_List S)\<rparr>)"
proof -
  have m: "map ec_Node (map f (es_List S)) = map ec_Node (es_List S)" using f by simp
  then have "ec_Node ` set (map f (es_List S)) = ec_Node ` set (es_List S)" by (metis set_map)
  with assms m show ?thesis by (auto simp: ec_inv_def simp del: map_map)
qed

lemma ec_step_inv: "ec_step E IsEc S S' \<Longrightarrow> ec_inv S \<Longrightarrow> ec_inv S'"
proof (induction rule: ec_step.induct)
  case (start S A Pdo PdoNode)
  show ?case
  proof (cases "\<exists>n S1. PdoNode = Some n \<and> IsEc n \<and> UacpiNtEcBringUpNode E A n S = (True, S1)")
    case True
    then obtain n S1 where s: "PdoNode = Some n" "IsEc n" "UacpiNtEcBringUpNode E A n S = (True, S1)" by blast
    note i = BringUpNode_inv [OF start s(3)]
    then have "ec_inv (S1\<lparr>es_List := set_pdo n (Some Pdo) (es_List S1)\<rparr>)"
      unfolding set_pdo_def by (intro map_inv) auto
    moreover have "map ec_Node (set_pdo n (Some Pdo) (es_List S1)) = map ec_Node (es_List S1)" by (simp add: set_pdo_def)
    then have "n \<in> ec_Node ` set (set_pdo n (Some Pdo) (es_List S1))" using i by (metis set_map)
    ultimately show ?thesis using s by (auto simp: UacpiNtEcStart_def ec_inv_def)
  next
    case False
    with start show ?thesis
      by (auto simp: UacpiNtEcStart_def split: option.splits prod.splits bool.splits dest: BringUpNode_inv)
  qed
next
  case (remove S Pdo)
  then have "ec_inv (S\<lparr>es_List := set_pdo n None (es_List S)\<rparr>)" for n
    unfolding set_pdo_def by (intro map_inv) auto
  with remove show ?case by (force simp: UacpiNtEcRemove_def ec_inv_def split: option.split)
next
  case (control n S Ec R b st Ec' R')
  from control(2) have "ec_Node Ec' = ec_Node Ec \<and> ec_RegionInstalled Ec' = ec_RegionInstalled Ec"
    by (auto simp: UacpiNtEcUpdateRegistration_def Let_def split: if_splits)
  with FindByNode_Some [OF control(1)] control(3) show ?case by (intro map_inv) (auto simp: ec_inv_def)
qed

section \<open>Properties\<close>


definition demo_env :: "demo_ec ec_env" where
  "demo_env = \<lparr>ee_Ports = (\<lambda>_ _. demo_ports), ee_Glk = (\<lambda>_. Some 7), ee_Routine = (\<lambda>r q c w. w), ee_Eval = (\<lambda>n m w. w)\<rparr>"

definition demo_device :: ec where
  "demo_device = \<lparr>ec_Node = 9, ec_Pdo = None, ec_DataPort = 0x62, ec_ControlPort = 0x66, ec_GpeLine = 0x17,
     ec_RegionInstalled = True, ec_FromEcdt = True, ec_GlobalLock = True, ec_QueryRoutine = (\<lambda>_. None),
     ec_QueryContext = (\<lambda>_. 0)\<rparr>"

definition demo_request :: ec_request where
  "demo_request = \<lparr>er_IsWrite = True, er_Buffer = Some [1, 2, 3], er_Length = 3, er_LowPart = 0xFD, er_HighPart = 0\<rparr>"


text \<open>
  C29: a query interrupt is never lost and the work item is never queued twice. Whatever interrupts, DPCs
  and workers interleave, at most one of the DPC, the queued work item and a worker that has not begun its
  drain exists, so the item is not queued while it is in the queue; and as long as an interrupt came after
  the last drain was begun, one of them exists and a further drain will begin.
\<close>
theorem Ec_interrupt_not_lost:
  assumes "pump_step\<^sup>*\<^sup>* pump_start p"
  shows "of_bool (pu_Dpc p) + of_bool (pu_Work p) + pu_Begun p \<le> (1 :: nat) \<and> \<not> pu_Twice p \<and>
    (\<not> pu_Unseen p \<or> (\<exists>p'. pump_step\<^sup>*\<^sup>* p p' \<and> \<not> pu_Unseen p' \<and> pu_Draining p' = Suc (pu_Draining p)))"
  using pump_reachable [OF assms] pump_drains [of p] by (auto simp: pump_inv_def split: if_splits)

lemma Ec_interrupt_not_lost_witness:
  "\<exists>p'. pump_step\<^sup>*\<^sup>* (UacpiNtEcGpeHandler pump_start) p' \<and> \<not> pu_Unseen p' \<and> pu_Draining p' = 1"
proof -
  have "pump_step\<^sup>*\<^sup>* pump_start (UacpiNtEcGpeHandler pump_start)" by (intro r_into_rtranclp pump_step.gpe)
  from Ec_interrupt_not_lost [OF this] show ?thesis by (simp add: UacpiNtEcGpeHandler_def pump_start_def)
qed

text \<open>
  C30: draining queries ends after at most 256 rounds, however long the controller keeps its event bit set.
  Each round gets a nonzero code, under the global lock where the controller is flagged for it, and then,
  with the lock given back, has that very code handled: by the routine registered for it with its
  context, or by the method _Qxx of the node; registrations only change if a handler changes them. The drain
  goes on until an attempt gets no code (none is waiting, it times out, or the lock cannot be taken) or 256
  codes were handled. The controller itself is untouched but for its registrations.
\<close>
theorem Ec_drain_rounds:
  assumes "UacpiNtEcDrainQueries E (Ec, h, log) = (Ec', h', log')"
  shows "same_device Ec Ec' \<and>
    (\<exists>rounds rest. log' = log @ concat (map snd rounds) @ rest \<and> length rounds \<le> 256 \<and> drain_events E 256 Ec log rounds rest)"
  using drain_loop_log [OF assms [unfolded UacpiNtEcDrainQueries_def]] drain_events_length by blast

text \<open>A controller with one code to give, 0x1F; it has no handler registered.\<close>

definition asking_env :: "bool ec_env" where
  "asking_env = \<lparr>ee_Ports = (\<lambda>_ _. \<lparr>hw_ReadStatus = (\<lambda>h. (if h then 0x21 else 0, h)), hw_WriteCommand = (\<lambda>c h. h),
       hw_ReadData = (\<lambda>h. (0x1F, False)), hw_WriteData = (\<lambda>v h. h), hw_Stall = (\<lambda>h. h)\<rparr>),
     ee_Glk = (\<lambda>_. Some 7), ee_Routine = (\<lambda>r q c w. w), ee_Eval = (\<lambda>n m w. w)\<rparr>"

lemma Ec_drain_rounds_witness:
  "snd (snd (UacpiNtEcDrainQueries asking_env (demo_device, True, []))) =
     [EcAcquired 7, EcQueried 0x1F, EcReleased 7, EcMethod 9 ''_Q1F'', EcAcquired 7, EcQueried 0, EcReleased 7] \<and>
   (\<exists>rounds rest. snd (snd (UacpiNtEcDrainQueries asking_env (demo_device, True, []))) = concat (map snd rounds) @ rest \<and>
     length rounds \<le> 256 \<and> drain_events asking_env 256 demo_device [] rounds rest)"
proof
  show "snd (snd (UacpiNtEcDrainQueries asking_env (demo_device, True, []))) =
     [EcAcquired 7, EcQueried 0x1F, EcReleased 7, EcMethod 9 ''_Q1F'', EcAcquired 7, EcQueried 0, EcReleased 7]"
    by code_simp
  obtain Ec' h' log' where d: "UacpiNtEcDrainQueries asking_env (demo_device, True, []) = (Ec', h', log')" by (metis prod_cases3)
  from Ec_drain_rounds [OF d] d show "\<exists>rounds rest. snd (snd (UacpiNtEcDrainQueries asking_env (demo_device, True, []))) =
      concat (map snd rounds) @ rest \<and> length rounds \<le> 256 \<and> drain_events asking_env 256 demo_device [] rounds rest" by simp
qed

text \<open>
  C31: there is at most one controller per namespace node, every controller in the list serves its address
  space, and a device object is only ever linked to a controller of the list, whatever mix of the ECDT,
  the namespace scan, starts, removals and registrations follows.
\<close>
theorem Ec_one_per_node:
  assumes "es_List S = []" and "es_Pdo S = (\<lambda>_. None)"
    and "(ec_step E IsEc)\<^sup>*\<^sup>* (UacpiNtEcInitialize E A T NA IsEc Nodes S) S'"
  shows "distinct (map ec_Node (es_List S')) \<and> list_all ec_RegionInstalled (es_List S') \<and>
    (es_Pdo S' p = None \<or> (\<exists>Ec. UacpiNtEcFindByNode (the (es_Pdo S' p)) S' = Some Ec))"
proof -
  have "ec_inv S" using assms(1,2) by (simp add: ec_inv_def)
  from Initialize_inv [OF this] have "ec_inv (UacpiNtEcInitialize E A T NA IsEc Nodes S)" .
  with assms(3) have "ec_inv S'" by (induction rule: rtranclp_induct) (auto dest: ec_step_inv)
  moreover from this have "es_Pdo S' p = None \<or> the (es_Pdo S' p) \<in> ec_Node ` set (es_List S')"
    by (cases "es_Pdo S' p") (auto simp: ec_inv_def)
  ultimately show ?thesis using FindByNode_None [of "the (es_Pdo S' p)" S'] by (auto simp: ec_inv_def list_all_iff)
qed

definition empty_system :: "demo_ec ec_system" where
  "empty_system = \<lparr>es_List = [], es_Pdo = (\<lambda>_. None), es_Hw = demo_start, es_Log = []\<rparr>"

definition demo_answers :: ec_answers where
  "demo_answers = \<lparr>ea_Pool = True, ea_Crs = Some [RIo 0x62 1, RIo 0x66 1], ea_Glk = Some 1,
     ea_Gpe = Some (Some (OInteger 0x17)), ea_Region = True, ea_GpeHandler = False\<rparr>"

definition demo_ecdt :: ecdt where
  "demo_ecdt = \<lparr>ed_Node = Some 9, ed_Control = 0x66, ed_Data = 0x62, ed_GpeBit = 0x17\<rparr>"

lemma Ec_one_per_node_witness:
  "distinct (map ec_Node (es_List (UacpiNtEcInitialize demo_env demo_answers (Some demo_ecdt) (\<lambda>_. demo_answers)
     (\<lambda>n. n = 9) [3, 9] empty_system)))"
  using Ec_one_per_node [of empty_system demo_env "\<lambda>n. n = 9" demo_answers "Some demo_ecdt" "\<lambda>_. demo_answers" "[3, 9]"]
  by (simp add: empty_system_def)

text \<open>
  A driver that registers for a query code owns it: the code goes to its routine with its context and
  the method is skipped, and nobody else can register the same code. Once it is unregistered the method
  runs again.
\<close>
theorem Ec_query_owner:
  assumes "UacpiNtEcUpdateRegistration Ec R True = (STATUS_SUCCESS, Ec1, R1)"
    and "rg_QueryCode R2 = rg_QueryCode R" and "UacpiNtEcUpdateRegistration Ec1 R2 False = (Status, Ec2, R3)"
  shows "\<exists>r. rg_Handler R = Some r \<and>
    snd (snd (UacpiNtEcDispatchQuery E (rg_QueryCode R) (Ec1, h, log))) = log @ [EcRoutine r (rg_QueryCode R) (rg_Context R)] \<and>
    UacpiNtEcUpdateRegistration Ec1 R2 True = (STATUS_UNSUCCESSFUL, Ec1, R2) \<and> Status = STATUS_SUCCESS \<and>
    snd (snd (UacpiNtEcDispatchQuery E (rg_QueryCode R) (Ec2, h, log))) =
      log @ [EcMethod (ec_Node Ec) (query_method (rg_QueryCode R))]"
  using assms
  by (auto simp: UacpiNtEcUpdateRegistration_def UacpiNtEcDispatchQuery_def Let_def split: if_splits prod.split)

definition demo_registration :: ec_registration where
  "demo_registration = \<lparr>rg_QueryCode = 0x1F, rg_Handler = Some 5, rg_Context = 6, rg_Cookie = 0\<rparr>"

lemma Ec_query_owner_witness:
  "\<exists>Ec1 R1. UacpiNtEcUpdateRegistration demo_device demo_registration True = (STATUS_SUCCESS, Ec1, R1) \<and>
     snd (snd (UacpiNtEcDispatchQuery demo_env 0x1F (Ec1, demo_start, []))) = [EcRoutine 5 0x1F 6]"
proof -
  obtain Ec1 R1 where r: "UacpiNtEcUpdateRegistration demo_device demo_registration True = (STATUS_SUCCESS, Ec1, R1)"
    by (simp add: UacpiNtEcUpdateRegistration_def demo_device_def demo_registration_def)
  obtain Status Ec2 R3 where "UacpiNtEcUpdateRegistration Ec1 demo_registration False = (Status, Ec2, R3)" by (metis prod_cases3)
  from Ec_query_owner [OF r refl this, of demo_env demo_start "[]"] r show ?thesis by (simp add: demo_registration_def)
qed

text \<open>
  A controller brought up from the ECDT never takes the global lock. The ECDT does not say whether
  the firmware shares the controller, _GLK is only read for a controller found in the namespace, and the
  start of the device finds the controller running and skips it.
\<close>
theorem Ecdt_controller_unlocked:
  assumes "es_List S = []" and "es_Pdo S = (\<lambda>_. None)" and "ed_Node T = Some n"
    and "UacpiNtEcInitFromEcdt E A (Some T) S = (True, S1)" and "IsEc n"
  shows "\<exists>Ec. UacpiNtEcFindByNode n (UacpiNtEcStart E (A2\<lparr>ea_Glk := Some 1\<rparr>) IsEc Pdo (Some n) S1) = Some Ec \<and>
    ec_Pdo Ec = Some Pdo \<and> \<not> ec_GlobalLock Ec \<and> UacpiNtEcLockGlobal E Ec log = (Some 0, log)"
proof -
  have inv: "ec_inv S" and none: "UacpiNtEcFindByNode m S = None" for m
    using assms(1,2) by (simp_all add: ec_inv_def UacpiNtEcFindByNode_def)
  obtain Ec where a: "UacpiNtEcAllocate A n = Some Ec"
    using assms(3,4) none by (auto simp: UacpiNtEcInitFromEcdt_def UacpiNtEcBringUpEcdt_def split: option.splits)
  let ?Ec = "Ec\<lparr>ec_ControlPort := ucast (ed_Control T), ec_DataPort := ucast (ed_Data T), ec_GpeLine := ucast (ed_GpeBit T),
    ec_FromEcdt := True\<rparr>"
  have "UacpiNtEcInstall E A ?Ec True S = (True, S1)"
    using assms(3,4) none a by (simp add: UacpiNtEcInitFromEcdt_def UacpiNtEcBringUpEcdt_def)
  from Install_inv [OF inv none this] assms(1) obtain Ec' where
    l: "es_List S1 = [Ec']" and d: "same_device (?Ec\<lparr>ec_RegionInstalled := True\<rparr>) Ec'" by auto
  have f: "ec_Node Ec' = n" "\<not> ec_GlobalLock Ec'" using same_device_fields [OF d] answers_node(1) [OF a] by simp_all
  have "UacpiNtEcBringUpNode E (A2\<lparr>ea_Glk := Some 1\<rparr>) n S1 = (True, S1)"
    using l f by (simp add: UacpiNtEcBringUpNode_def UacpiNtEcFindByNode_def)
  then have "UacpiNtEcFindByNode n (UacpiNtEcStart E (A2\<lparr>ea_Glk := Some 1\<rparr>) IsEc Pdo (Some n) S1) = Some (Ec'\<lparr>ec_Pdo := Some Pdo\<rparr>)"
    using assms(5) l f by (simp add: UacpiNtEcStart_def UacpiNtEcFindByNode_def set_pdo_def)
  with f show ?thesis by (simp add: UacpiNtEcLockGlobal_def)
qed

lemma Ecdt_controller_unlocked_witness:
  "\<exists>S1 Ec. UacpiNtEcInitFromEcdt demo_env demo_answers (Some demo_ecdt) empty_system = (True, S1) \<and>
    UacpiNtEcFindByNode 9 (UacpiNtEcStart demo_env (demo_answers\<lparr>ea_Glk := Some 1\<rparr>) (\<lambda>n. n = 9) 4 (Some 9) S1) = Some Ec \<and>
    \<not> ec_GlobalLock Ec"
proof -
  obtain S1 where s: "UacpiNtEcInitFromEcdt demo_env demo_answers (Some demo_ecdt) empty_system = (True, S1)"
    by (simp add: UacpiNtEcInitFromEcdt_def UacpiNtEcBringUpEcdt_def UacpiNtEcFindByNode_def UacpiNtEcAllocate_def
        UacpiNtEcInstall_def UacpiNtEcConnectGpe_def demo_answers_def demo_ecdt_def empty_system_def)
  from Ecdt_controller_unlocked [OF _ _ _ s, of 9 "\<lambda>n. n = 9" demo_answers 4 "[]"] s show ?thesis
    by (auto simp: empty_system_def demo_ecdt_def)
qed

end
