(* ===== verification/Class_Drivers.thy ===== *)
theory Class_Drivers
  imports Thermal_Requests Button_Driver Ec_Driver
begin

text \<open>
  The class drivers together (drivers/devif.c, processor.c, fan.c, applaunch.c and the start and remove
  routines of thermal.c): which device interfaces a device object exposes, and the start and the removal
  of a device, which every class driver is asked to handle.
\<close>

section \<open>Device interfaces\<close>

datatype class_interface = IfProcessor | IfThermalZone | IfFan | IfApplaunch | IfCooling

text \<open>
  A device object as the class drivers see it. \<open>cd_ClassIf\<close> and \<open>cd_CoolingIf\<close> are the links whose On flag is
  set; \<open>cd_Calls\<close> are the calls to IoSetDeviceInterfaceState so far for them (those for the button's own
  interface are in \<open>bt_Calls\<close>).
\<close>

record class_device =
  cd_Node :: "acpi_node option"
  cd_Hid :: string
  cd_IsProcessor :: bool
  cd_IsThermalZone :: bool
  cd_ClassIf :: "class_interface option"
  cd_CoolingIf :: "class_interface option"
  cd_ThermalWmi :: bool
  cd_Thermal :: thermal
  cd_Button :: button
  cd_Calls :: "(class_interface \<times> bool) list"

text \<open>\<open>register i\<close>: whether IoRegisterDeviceInterface succeeds for the interface.\<close>

definition UacpiNtEnableInterface :: "(class_interface \<Rightarrow> bool) \<Rightarrow> class_interface \<Rightarrow> class_device \<Rightarrow> bool \<times> class_device" where
  "UacpiNtEnableInterface register i Pdo =
     (if \<not> register i then (False, Pdo) else (True, Pdo\<lparr>cd_Calls := cd_Calls Pdo @ [(i, True)]\<rparr>))"

text \<open>The flag and the link after it, and the calls made.\<close>

definition UacpiNtDisableInterface ::
    "class_interface option \<Rightarrow> (class_interface \<times> bool) list \<Rightarrow> class_interface option \<times> (class_interface \<times> bool) list" where
  "UacpiNtDisableInterface Enabled calls =
     (case Enabled of None \<Rightarrow> (None, calls) | Some i \<Rightarrow> (None, calls @ [(i, False)]))"

definition UacpiNtDevIfRegister :: "(class_interface \<Rightarrow> bool) \<Rightarrow> class_interface \<Rightarrow> class_device \<Rightarrow> class_device" where
  "UacpiNtDevIfRegister register i Pdo =
     (if cd_ClassIf Pdo \<noteq> None then Pdo
      else case UacpiNtEnableInterface register i Pdo of (on, Pdo) \<Rightarrow> Pdo\<lparr>cd_ClassIf := (if on then Some i else None)\<rparr>)"

definition UacpiNtCoolingIfRegister :: "(class_interface \<Rightarrow> bool) \<Rightarrow> class_device \<Rightarrow> class_device" where
  "UacpiNtCoolingIfRegister register Pdo =
     (if cd_CoolingIf Pdo \<noteq> None then Pdo
      else case UacpiNtEnableInterface register IfCooling Pdo of (on, Pdo) \<Rightarrow> Pdo\<lparr>cd_CoolingIf := (if on then Some IfCooling else None)\<rparr>)"

definition UacpiNtDevIfRemove :: "class_device \<Rightarrow> class_device" where
  "UacpiNtDevIfRemove Pdo =
     (let (c, calls) = UacpiNtDisableInterface (cd_ClassIf Pdo) (cd_Calls Pdo);
          (k, calls) = UacpiNtDisableInterface (cd_CoolingIf Pdo) calls
      in Pdo\<lparr>cd_ClassIf := c, cd_CoolingIf := k, cd_Calls := calls\<rparr>)"

section \<open>The small drivers\<close>

definition UacpiNtFanStart :: "(class_interface \<Rightarrow> bool) \<Rightarrow> class_device \<Rightarrow> class_device" where
  "UacpiNtFanStart register Pdo =
     (if \<not> stricmp_equal (cd_Hid Pdo) ''PNP0C0B'' then Pdo
      else UacpiNtCoolingIfRegister register (UacpiNtDevIfRegister register IfFan Pdo))"

definition UacpiNtProcessorStart :: "firmware \<Rightarrow> (class_interface \<Rightarrow> bool) \<Rightarrow> class_device \<Rightarrow> class_device" where
  "UacpiNtProcessorStart F register Pdo =
     (if \<not> cd_IsProcessor Pdo \<and> \<not> stricmp_equal (cd_Hid Pdo) ''ACPI0007'' then Pdo
      else
        let Pdo = UacpiNtDevIfRegister register IfProcessor Pdo;
            CanThrottle = UacpiNtNodeHasChild F (cd_Node Pdo) ''_PTC'' \<or> UacpiNtNodeHasChild F (cd_Node Pdo) ''_TSS'' \<or>
                          UacpiNtNodeHasChild F (cd_Node Pdo) ''_PSS''
        in if CanThrottle then UacpiNtCoolingIfRegister register Pdo else Pdo)"

definition UacpiNtApplaunchStart :: "(class_interface \<Rightarrow> bool) \<Rightarrow> class_device \<Rightarrow> class_device" where
  "UacpiNtApplaunchStart register Pdo =
     (if \<not> stricmp_equal (cd_Hid Pdo) ''PNP0C32'' then Pdo else UacpiNtDevIfRegister register IfApplaunch Pdo)"

definition UacpiNtThermalWmiRegister :: "bool \<Rightarrow> class_device \<Rightarrow> class_device" where
  "UacpiNtThermalWmiRegister allocated Pdo = (if cd_ThermalWmi Pdo \<or> \<not> allocated then Pdo else Pdo\<lparr>cd_ThermalWmi := True\<rparr>)"

definition UacpiNtThermalStart :: "(class_interface \<Rightarrow> bool) \<Rightarrow> bool \<Rightarrow> class_device \<Rightarrow> class_device" where
  "UacpiNtThermalStart register allocated Pdo =
     (if \<not> cd_IsThermalZone Pdo then Pdo
      else
        let Pdo = UacpiNtThermalWmiRegister allocated (UacpiNtDevIfRegister register IfThermalZone Pdo)
        in Pdo\<lparr>cd_Thermal := UacpiNtThermalZoneStart (cd_Thermal Pdo)\<rparr>)"

text \<open>The stop's completion pass follows on its own; here it is taken at once.\<close>

definition UacpiNtThermalRemove :: "thermal_env \<Rightarrow> (nat \<Rightarrow> bool) \<Rightarrow> class_device \<Rightarrow> class_device" where
  "UacpiNtThermalRemove E pool Pdo =
     (if \<not> cd_IsThermalZone Pdo then Pdo
      else
        let T = UacpiNtThermalZoneStop (cd_Thermal Pdo);
            T = UacpiNtThermalCompleteIrps E pool (T\<lparr>th_Stopping := th_Stopping T - 1\<rparr>)
        in Pdo\<lparr>cd_Thermal := T, cd_ThermalWmi := False\<rparr>)"

text \<open>Dispositions of WmiLib; the status is the request's own when it is to be forwarded.\<close>

datatype wmi_disposition = IrpProcessed | IrpNotCompleted | IrpForward

definition UacpiNtThermalSystemControl :: "wmi_disposition \<Rightarrow> ntstatus \<Rightarrow> ntstatus \<Rightarrow> class_device \<Rightarrow> bool \<times> ntstatus \<times> bool" where
  "UacpiNtThermalSystemControl Disposition Status IrpStatus Pdo =
     (if \<not> cd_ThermalWmi Pdo then (False, STATUS_NOT_SUPPORTED, False)
      else case Disposition of
             IrpProcessed \<Rightarrow> (True, Status, False)
           | IrpNotCompleted \<Rightarrow> (True, Status, True)
           | IrpForward \<Rightarrow> (True, IrpStatus, True))"

section \<open>Start and removal of a device\<close>

record 'h class_env =
  ce_Fw :: firmware
  ce_Wake :: wake_env
  ce_Thermal :: thermal_env
  ce_Register :: "class_interface \<Rightarrow> bool"
  ce_Pool :: bool
  ce_Ec :: "'h ec_env"
  ce_EcAnswers :: ec_answers
  ce_IsEc :: "acpi_node \<Rightarrow> bool"
  ce_ButtonInterface :: bool
  ce_Callback :: "bool \<times> bool"
  ce_LidAction :: "nat option"
  ce_Lid :: "u64 option"

definition UacpiNtDriversStartDevice ::
    "'h class_env \<Rightarrow> nat \<Rightarrow> class_device \<times> hardware \<times> 'h ec_system \<Rightarrow> class_device \<times> hardware \<times> 'h ec_system" where
  "UacpiNtDriversStartDevice E Self w =
     (case w of (Pdo, X, S) \<Rightarrow>
        let (B, X) = UacpiNtButtonStart (ce_Wake E) (ce_ButtonInterface E) (fst (ce_Callback E)) (snd (ce_Callback E)) (ce_LidAction E)
                       (ce_Lid E) (cd_Button Pdo) X;
            Pdo = Pdo\<lparr>cd_Button := B\<rparr>;
            Pdo = UacpiNtProcessorStart (ce_Fw E) (ce_Register E) Pdo;
            Pdo = UacpiNtThermalStart (ce_Register E) (ce_Pool E) Pdo;
            Pdo = UacpiNtFanStart (ce_Register E) Pdo;
            Pdo = UacpiNtApplaunchStart (ce_Register E) Pdo
        in (Pdo, X, UacpiNtEcStart (ce_Ec E) (ce_EcAnswers E) (ce_IsEc E) Self (cd_Node Pdo) S))"

definition UacpiNtDriversRemoveDevice ::
    "'h class_env \<Rightarrow> (nat \<Rightarrow> bool) \<Rightarrow> nat \<Rightarrow> class_device \<times> 'h ec_system \<Rightarrow> class_device \<times> 'h ec_system" where
  "UacpiNtDriversRemoveDevice E pool Self w =
     (case w of (Pdo, S) \<Rightarrow>
        let Pdo = Pdo\<lparr>cd_Button := UacpiNtButtonRemove (cd_Button Pdo)\<rparr>;
            Pdo = UacpiNtDevIfRemove (UacpiNtThermalRemove (ce_Thermal E) pool Pdo)
        in (Pdo, UacpiNtEcRemove Self S))"

section \<open>Life of a device\<close>

text \<open>
  A device is started and removed, with whatever environment at the time, while its thermal requests and
  its button events go on and other devices of the embedded controllers come and go.
\<close>

inductive class_step ::
    "nat \<Rightarrow> class_device \<times> hardware \<times> 'h ec_system \<Rightarrow> class_device \<times> hardware \<times> 'h ec_system \<Rightarrow> bool" for Self :: nat where
  start: "class_step Self w (UacpiNtDriversStartDevice E Self w)"
| remove: "UacpiNtDriversRemoveDevice E pool Self (Pdo, S) = (Pdo', S') \<Longrightarrow> class_step Self (Pdo, X, S) (Pdo', X, S')"
| thermal: "thermal_step E (cd_Thermal Pdo) T \<Longrightarrow> class_step Self (Pdo, X, S) (Pdo\<lparr>cd_Thermal := T\<rparr>, X, S)"
| button: "button_step resumed e (cd_Button Pdo) B \<Longrightarrow> class_step Self (Pdo, X, S) (Pdo\<lparr>cd_Button := B\<rparr>, X, S)"
| other_start: "p \<noteq> Self \<Longrightarrow> class_step Self (Pdo, X, S) (Pdo, X, UacpiNtEcStart E A IsEc p n S)"
| other_remove: "p \<noteq> Self \<Longrightarrow> class_step Self (Pdo, X, S) (Pdo, X, UacpiNtEcRemove p S)"

text \<open>An interface has been enabled once more than disabled exactly while its flag is set.\<close>

definition if_balance :: "class_device \<Rightarrow> class_interface \<Rightarrow> bool" where
  "if_balance Pdo i \<longleftrightarrow> count_list (cd_Calls Pdo) (i, True) =
     count_list (cd_Calls Pdo) (i, False) + of_bool (cd_ClassIf Pdo = Some i) + of_bool (cd_CoolingIf Pdo = Some i)"

definition button_balance :: "button \<Rightarrow> bool" where
  "button_balance B \<longleftrightarrow> count_list (bt_Calls B) True = count_list (bt_Calls B) False + of_bool (bt_IfRegistered B) \<and>
     (bt_Caps B = 0 \<longrightarrow> \<not> bt_IfRegistered B)"

definition class_inv :: "class_device \<Rightarrow> bool" where
  "class_inv Pdo \<longleftrightarrow> (\<forall>i. if_balance Pdo i) \<and> thermal_inv (cd_Thermal Pdo) \<and> button_inv (cd_Button Pdo) \<and> button_balance (cd_Button Pdo)"

lemma count_list_snoc: "count_list (xs @ [x]) y = count_list xs y + of_bool (x = y)"
  by (induction xs) simp_all

lemma Notify_frame:
  "bt_Calls (UacpiNtButtonNotify Lid v B) = bt_Calls B" "bt_IfRegistered (UacpiNtButtonNotify Lid v B) = bt_IfRegistered B"
  "bt_Caps (UacpiNtButtonNotify Lid v B) = bt_Caps B"
  by (simp_all add: UacpiNtButtonNotify_def UacpiNtLidReadEvent_def Let_def)

lemma button_step_balance: "button_step resumed e B B' \<Longrightarrow> button_balance B \<Longrightarrow> button_balance B'"
proof (induction rule: button_step.induct)
  case (ioctl Irp B Code km len out timing h st caps B')
  then have "bt_Calls B' = bt_Calls B \<and> bt_IfRegistered B' = bt_IfRegistered B \<and> bt_Caps B' = bt_Caps B"
    by (auto simp: UacpiNtButtonDeviceControl_def UacpiNtButtonWaitForEvent_def Let_def split: if_splits prod.splits)
  with ioctl.prems show ?case by (simp add: button_balance_def)
qed (auto simp: button_balance_def Notify_frame UacpiNtButtonCancel_def UacpiNtFixedPowerButton_def UacpiNtFixedSleepButton_def
       UacpiNtFixedButtonDefer_def UacpiNtFixedButtonDpc_def UacpiNtButtonRemove_def count_list_snoc Let_def)

text \<open>A controller that refers to the device is the one the device is linked to, which is the one of its node.\<close>

definition ec_link :: "nat \<Rightarrow> acpi_node option \<Rightarrow> 'h ec_system \<Rightarrow> bool" where
  "ec_link Self Node S \<longleftrightarrow> (es_Pdo S Self = None \<or> es_Pdo S Self = Node) \<and>
     (\<forall>Ec\<in>set (es_List S). ec_Pdo Ec = Some Self \<longrightarrow> es_Pdo S Self = Some (ec_Node Ec))"

lemma Install_link:
  assumes "UacpiNtEcInstall E A Ec g S = (b, S')" and "ec_Pdo Ec = None" and "ec_link Self Node S"
  shows "ec_link Self Node S'"
proof -
  let ?Ec = "Ec\<lparr>ec_RegionInstalled := True\<rparr>"
  have "ec_Pdo Ec1 = None" if "UacpiNtEcConnectGpe E A (?Ec, es_Hw S, es_Log S) = (Ec1, h, log)" for Ec1 h log
    using same_device_fields(5) [OF ConnectGpe_same [OF that]] assms(2) by simp
  with assms show ?thesis by (auto simp: UacpiNtEcInstall_def ec_link_def Let_def split: if_splits prod.splits)
qed

lemma fresh_controller:
  "UacpiNtEcAllocate A n = Some Ec \<Longrightarrow> ec_Pdo Ec = None"
  "UacpiNtEcReadPorts A Ec = Some Ec1 \<Longrightarrow> ec_Pdo Ec1 = ec_Pdo Ec"
  "ec_Pdo (snd (UacpiNtEcReadGpe A Ec)) = ec_Pdo Ec"
  "ec_Pdo (UacpiNtEcReadGlk A Ec) = ec_Pdo Ec"
  by (auto simp: UacpiNtEcAllocate_def UacpiNtEcReadPorts_def UacpiNtEcReadGpe_def UacpiNtEcReadGlk_def Let_def
      split: if_splits option.splits fw_object.splits)

lemma BringUpNode_link:
  assumes "UacpiNtEcBringUpNode E A n S = (b, S')" and "ec_link Self Node S"
  shows "ec_link Self Node S'"
proof (cases "UacpiNtEcFindByNode n S = None \<and> (\<exists>Ec0 Ec1. UacpiNtEcAllocate A n = Some Ec0 \<and> UacpiNtEcReadPorts A Ec0 = Some Ec1)")
  case False
  with assms show ?thesis by (auto simp: UacpiNtEcBringUpNode_def split: if_splits option.splits)
next
  case True
  then obtain Ec0 Ec1 where a: "UacpiNtEcAllocate A n = Some Ec0" "UacpiNtEcReadPorts A Ec0 = Some Ec1" by blast
  obtain g Ec2 where g: "UacpiNtEcReadGpe A (UacpiNtEcReadGlk A Ec1) = (g, Ec2)" by fastforce
  have n: "ec_Pdo Ec2 = None" using fresh_controller a g by (metis snd_conv)
  have "UacpiNtEcInstall E A Ec2 g S = (b, S')" using assms(1) True a g by (simp add: UacpiNtEcBringUpNode_def)
  from Install_link [OF this n assms(2)] show ?thesis .
qed

lemma EcStart_link:
  assumes "ec_link Self Node S" and "p = Self \<longrightarrow> n = Node"
  shows "ec_link Self Node (UacpiNtEcStart E A IsEc p n S)"
proof (cases "\<exists>m. n = Some m \<and> IsEc m")
  case True
  then obtain m where m: "n = Some m" "IsEc m" by blast
  obtain b S1 where s: "UacpiNtEcBringUpNode E A m S = (b, S1)" by fastforce
  from BringUpNode_link [OF s assms(1)] have "ec_link Self Node S1" .
  note link = this [unfolded ec_link_def]
  let ?S = "S1\<lparr>es_List := set_pdo m (Some p) (es_List S1), es_Pdo := (es_Pdo S1)(p := Some m)\<rparr>"
  have ref: "es_Pdo ?S Self = Some (ec_Node Ec)" if e: "Ec \<in> set (es_List ?S)" "ec_Pdo Ec = Some Self" for Ec
  proof -
    from e(1) obtain Ec0 where Ec0: "Ec0 \<in> set (es_List S1)" "Ec = (if ec_Node Ec0 = m then Ec0\<lparr>ec_Pdo := Some p\<rparr> else Ec0)"
      by (auto simp: set_pdo_def)
    show ?thesis
    proof (cases "ec_Node Ec0 = m")
      case True
      with Ec0(2) e(2) show ?thesis by simp
    next
      case False
      with Ec0 e(2) link have "es_Pdo S1 Self = Some (ec_Node Ec)" by simp
      with False Ec0(2) link assms(2) m(1) show ?thesis by auto
    qed
  qed
  have "es_Pdo ?S Self = None \<or> es_Pdo ?S Self = Node" using link assms(2) m(1) by auto
  with ref have "ec_link Self Node ?S" unfolding ec_link_def by blast
  with m s \<open>ec_link Self Node S1\<close> show ?thesis by (cases b) (simp_all add: UacpiNtEcStart_def)
next
  case False
  with assms(1) show ?thesis by (cases n) (simp_all add: UacpiNtEcStart_def)
qed

lemma EcRemove_link:
  assumes "ec_link Self Node S"
  shows "ec_link Self Node (UacpiNtEcRemove p S)"
    and "es_Pdo (UacpiNtEcRemove Self S) Self = None \<and> (\<forall>Ec\<in>set (es_List (UacpiNtEcRemove Self S)). ec_Pdo Ec \<noteq> Some Self)"
  using assms by (auto simp: UacpiNtEcRemove_def ec_link_def set_pdo_def split: option.split)

lemma DevIfRegister_inv: "class_inv Pdo \<Longrightarrow> class_inv (UacpiNtDevIfRegister register i Pdo)"
  by (auto simp: class_inv_def if_balance_def UacpiNtDevIfRegister_def UacpiNtEnableInterface_def count_list_snoc)

lemma CoolingIfRegister_inv: "class_inv Pdo \<Longrightarrow> class_inv (UacpiNtCoolingIfRegister register Pdo)"
  by (auto simp: class_inv_def if_balance_def UacpiNtCoolingIfRegister_def UacpiNtEnableInterface_def count_list_snoc)

lemma DevIfRemove_inv: "class_inv Pdo \<Longrightarrow> class_inv (UacpiNtDevIfRemove Pdo)"
  by (auto simp: class_inv_def if_balance_def UacpiNtDevIfRemove_def UacpiNtDisableInterface_def count_list_snoc split: option.split)

lemma small_start_inv:
  assumes "class_inv Pdo"
  shows "class_inv (UacpiNtFanStart register Pdo)" and "class_inv (UacpiNtProcessorStart F register Pdo)"
    and "class_inv (UacpiNtApplaunchStart register Pdo)"
  using assms by (simp_all add: UacpiNtFanStart_def UacpiNtProcessorStart_def UacpiNtApplaunchStart_def Let_def DevIfRegister_inv CoolingIfRegister_inv)

lemma ThermalStart_inv:
  assumes "class_inv Pdo"
  shows "class_inv (UacpiNtThermalStart register allocated Pdo)"
proof -
  have "class_inv (UacpiNtThermalWmiRegister allocated P)" if "class_inv P" for P
    using that by (simp add: UacpiNtThermalWmiRegister_def class_inv_def if_balance_def)
  then have "class_inv (UacpiNtThermalWmiRegister allocated (UacpiNtDevIfRegister register IfThermalZone Pdo))" (is "class_inv ?P")
    using assms DevIfRegister_inv by blast
  then have "class_inv (?P\<lparr>cd_Thermal := UacpiNtThermalZoneStart (cd_Thermal ?P)\<rparr>)"
    using ZoneStart_inv by (simp add: class_inv_def if_balance_def)
  with assms show ?thesis by (simp add: UacpiNtThermalStart_def Let_def)
qed

lemma ButtonStart_inv:
  assumes "button_inv B" and "button_balance B" and "UacpiNtButtonStart E interface created registered Action Lid B X = (B', X')"
  shows "button_inv B'" and "button_balance B'"
proof -
  have f: "button_inv (C\<lparr>bt_IfRegistered := b\<rparr>) = button_inv C" "button_inv (C\<lparr>bt_Wake := W\<rparr>) = button_inv C"
    "button_inv (C\<lparr>bt_Requests := R\<rparr>) = button_inv C" "button_inv (C\<lparr>bt_IfRegistered := b, bt_Calls := cs\<rparr>) = button_inv C"
    for C b W R cs by (simp_all add: button_inv_def)
  have g: "button_balance (C\<lparr>bt_Wake := W\<rparr>) = button_balance C" "button_balance (C\<lparr>bt_Requests := R\<rparr>) = button_balance C"
    for C W R by (simp_all add: button_balance_def)
  have k: "button_balance (UacpiNtLidHookPolicy created registered Action C) = button_balance C" for C
    by (cases Action) (simp_all add: UacpiNtLidHookPolicy_def UacpiNtLidPowerStateCallback_def button_balance_def Let_def)
  have m: "button_balance C \<Longrightarrow> button_balance (UacpiNtButtonNotify Lid v C)" for C v by (rule button_step_balance [OF button_step.notify])
  have w: "button_balance (fst (UacpiNtButtonArmWaitWake E C Y)) = button_balance C" for C Y
    by (simp add: UacpiNtButtonArmWaitWake_def Let_def g split: prod.split)
  have on: "bt_Caps B \<noteq> 0 \<Longrightarrow> \<not> bt_IfRegistered B \<Longrightarrow> button_balance (B\<lparr>bt_IfRegistered := True, bt_Calls := bt_Calls B @ [True]\<rparr>)"
    using assms(2) by (simp add: button_balance_def count_list_snoc)
  have h: "button_inv (UacpiNtLidHookPolicy created registered Action C) = button_inv C" for C
    by (cases Action) (simp_all add: UacpiNtLidHookPolicy_def UacpiNtLidPowerStateCallback_def button_inv_def Let_def)
  have n: "button_inv C \<Longrightarrow> button_inv (UacpiNtButtonNotify Lid v C)" for C v by (rule button_step_inv [OF button_step.notify])
  have a: "button_inv (fst (UacpiNtButtonArmWaitWake E C Y)) = button_inv C" for C Y
    by (simp add: UacpiNtButtonArmWaitWake_def Let_def f split: prod.split)
  have "button_inv (fst (UacpiNtButtonStart E interface created registered Action Lid B X))"
    using assms(1) n by (simp add: UacpiNtButtonStart_def Let_def a f h)
  with assms(3) show "button_inv B'" by simp
  have "button_balance (fst (UacpiNtButtonStart E interface created registered Action Lid B X))"
    using assms(2) m on by (simp add: UacpiNtButtonStart_def Let_def w k)
  with assms(3) show "button_balance B'" by simp
qed

lemma StartDevice_inv:
  assumes "class_inv Pdo"
  shows "class_inv (fst (UacpiNtDriversStartDevice E Self (Pdo, X, S)))"
proof -
  obtain B X' where b: "UacpiNtButtonStart (ce_Wake E) (ce_ButtonInterface E) (fst (ce_Callback E)) (snd (ce_Callback E)) (ce_LidAction E)
      (ce_Lid E) (cd_Button Pdo) X = (B, X')" by fastforce
  have "button_inv B" "button_balance B" using ButtonStart_inv [OF _ _ b] assms by (simp_all add: class_inv_def)
  then have "class_inv (Pdo\<lparr>cd_Button := B\<rparr>)" using assms by (simp add: class_inv_def if_balance_def)
  then show ?thesis by (simp add: UacpiNtDriversStartDevice_def b Let_def small_start_inv ThermalStart_inv)
qed

lemma ThermalRemove_inv:
  assumes "class_inv Pdo"
  shows "class_inv (UacpiNtThermalRemove E pool Pdo)"
    and "cd_IsThermalZone Pdo \<Longrightarrow> \<not> cd_ThermalWmi (UacpiNtThermalRemove E pool Pdo) \<and>
      \<not> th_Active (cd_Thermal (UacpiNtThermalRemove E pool Pdo)) \<and> \<not> waiting (cd_Thermal (UacpiNtThermalRemove E pool Pdo)) i"
proof -
  let ?T = "UacpiNtThermalZoneStop (cd_Thermal Pdo)"
  let ?T1 = "?T\<lparr>th_Stopping := th_Stopping ?T - 1\<rparr>"
  have "thermal_inv ?T" using assms ZoneStop_inv by (simp add: class_inv_def)
  then have q: "queue_inv ?T1" "worker_inv ?T1" by (simp_all add: thermal_inv_def queue_inv_def worker_inv_def is_query_def)
  show "class_inv (UacpiNtThermalRemove E pool Pdo)"
    using assms CompleteIrps_inv [OF q] by (simp add: UacpiNtThermalRemove_def class_inv_def if_balance_def Let_def)
  have "\<not> th_Active (UacpiNtThermalCompleteIrps E pool ?T1)"
    by (simp add: UacpiNtThermalCompleteIrps_def UacpiNtThermalZoneStop_def Let_def split: prod.split)
  then show "cd_IsThermalZone Pdo \<Longrightarrow> \<not> cd_ThermalWmi (UacpiNtThermalRemove E pool Pdo) \<and>
      \<not> th_Active (cd_Thermal (UacpiNtThermalRemove E pool Pdo)) \<and> \<not> waiting (cd_Thermal (UacpiNtThermalRemove E pool Pdo)) i"
    using CompleteIrps_irps(2) [OF q(1), where E = E and pool = pool and i = i] by (simp add: UacpiNtThermalRemove_def Let_def)
qed

lemma RemoveDevice_inv:
  assumes "class_inv Pdo"
  shows "class_inv (fst (UacpiNtDriversRemoveDevice E pool Self (Pdo, S)))"
proof -
  have "button_inv (UacpiNtButtonRemove (cd_Button Pdo))" "button_balance (UacpiNtButtonRemove (cd_Button Pdo))"
    using assms button_step_inv [OF button_step.remove] button_step_balance [OF button_step.remove] by (simp_all add: class_inv_def)
  then have "class_inv (Pdo\<lparr>cd_Button := UacpiNtButtonRemove (cd_Button Pdo)\<rparr>)" using assms by (simp add: class_inv_def if_balance_def)
  then show ?thesis by (simp add: UacpiNtDriversRemoveDevice_def Let_def DevIfRemove_inv ThermalRemove_inv(1))
qed

lemma class_step_inv: "class_step Self w w' \<Longrightarrow> class_inv (fst w) \<Longrightarrow> class_inv (fst w')"
proof (induction rule: class_step.induct)
  case (start w E)
  then show ?case by (cases w) (simp add: StartDevice_inv)
next
  case (remove E pool Pdo S Pdo' S' X)
  then show ?case using RemoveDevice_inv [of Pdo E pool Self S] by simp
next
  case (thermal E Pdo T X S)
  then show ?case using thermal_step_inv by (auto simp: class_inv_def if_balance_def)
next
  case (button resumed e Pdo B X S)
  then show ?case using button_step_inv [OF button(1)] button_step_balance [OF button(1)] by (auto simp: class_inv_def if_balance_def)
qed simp_all

section \<open>Properties\<close>

definition blank_device :: "string \<Rightarrow> bool \<Rightarrow> bool \<Rightarrow> u32 \<Rightarrow> acpi_node option \<Rightarrow> thermal_zone \<Rightarrow> coolers \<Rightarrow> power_state \<Rightarrow> class_device" where
  "blank_device Hid processor zone Caps Node Z Cs S =
     \<lparr>cd_Node = Node, cd_Hid = Hid, cd_IsProcessor = processor, cd_IsThermalZone = zone, cd_ClassIf = None, cd_CoolingIf = None,
      cd_ThermalWmi = False, cd_Thermal = initial_thermal Z Cs S, cd_Button = blank_button\<lparr>bt_Caps := Caps\<rparr>, cd_Calls = []\<rparr>"

lemma blank_device_inv: "class_inv (blank_device Hid processor zone Caps Node Z Cs S)"
  using blank_button_inv [of Caps]
  by (simp add: class_inv_def if_balance_def blank_device_def thermal_inv_initial) (simp add: button_balance_def blank_button_def)

lemma start_node:
  "cd_Node (UacpiNtDevIfRegister register i P) = cd_Node P" "cd_Node (UacpiNtCoolingIfRegister register P) = cd_Node P"
  "cd_Node (UacpiNtFanStart register P) = cd_Node P" "cd_Node (UacpiNtProcessorStart F register P) = cd_Node P"
  "cd_Node (UacpiNtApplaunchStart register P) = cd_Node P" "cd_Node (UacpiNtThermalStart register allocated P) = cd_Node P"
proof -
  show d: "cd_Node (UacpiNtDevIfRegister register i P) = cd_Node P" for i P
    by (simp add: UacpiNtDevIfRegister_def UacpiNtEnableInterface_def)
  show c: "cd_Node (UacpiNtCoolingIfRegister register P) = cd_Node P" for P
    by (simp add: UacpiNtCoolingIfRegister_def UacpiNtEnableInterface_def)
  show "cd_Node (UacpiNtFanStart register P) = cd_Node P" "cd_Node (UacpiNtProcessorStart F register P) = cd_Node P"
    "cd_Node (UacpiNtApplaunchStart register P) = cd_Node P"
    by (simp_all add: UacpiNtFanStart_def UacpiNtProcessorStart_def UacpiNtApplaunchStart_def Let_def c d)
  show "cd_Node (UacpiNtThermalStart register allocated P) = cd_Node P"
    by (simp add: UacpiNtThermalStart_def UacpiNtThermalWmiRegister_def Let_def d)
qed

lemma class_step_link:
  "class_step Self w w' \<Longrightarrow> cd_Node (fst w) = Node \<and> ec_link Self Node (snd (snd w)) \<Longrightarrow>
     cd_Node (fst w') = Node \<and> ec_link Self Node (snd (snd w'))"
proof (induction rule: class_step.induct)
  case (start w E)
  obtain Pdo X S where w: "w = (Pdo, X, S)" by (metis prod_cases3)
  from start show ?case
    by (simp add: w UacpiNtDriversStartDevice_def Let_def start_node EcStart_link split: prod.split)
next
  case (remove E pool Pdo S Pdo' S' X)
  have "cd_Node (UacpiNtDevIfRemove (UacpiNtThermalRemove F q P)) = cd_Node P" for F q P
    by (simp add: UacpiNtDevIfRemove_def UacpiNtThermalRemove_def Let_def split: prod.split)
  with remove show ?case by (auto simp: UacpiNtDriversRemoveDevice_def Let_def EcRemove_link)
qed (simp_all add: EcStart_link EcRemove_link)

lemma class_reachable_inv:
  assumes "(class_step Self)\<^sup>*\<^sup>* w w'" and "class_inv (fst w)" and "cd_Node (fst w) = Node" and "ec_link Self Node (snd (snd w))"
  shows "class_inv (fst w')" and "ec_link Self Node (snd (snd w'))"
proof -
  have "class_inv (fst w') \<and> cd_Node (fst w') = Node \<and> ec_link Self Node (snd (snd w'))"
    using assms by (induction rule: rtranclp_induct) (use class_step_inv class_step_link in blast)+
  then show "class_inv (fst w')" and "ec_link Self Node (snd (snd w'))" by blast+
qed

text \<open>
  C37: However a new device was started, removed and used before, while other devices come and go, its
  removal by the class drivers leaves nothing behind: each of its interfaces, the button's own included, has
  been disabled as often as it was enabled and none is on; the lid's policy callback is gone; a thermal zone is
  inactive, has no WMI provider and no request waits in it; a button's queue is empty, what it held being
  completed or in the hands of its cancel routine; and the device and the embedded controllers no longer refer
  to each other.
\<close>

theorem Class_removal_complete:
  assumes "(class_step Self)\<^sup>*\<^sup>* (blank_device Hid processor zone Caps Node Z Cs P, X0, S0) (Pdo, X, S)"
    and "es_Pdo S0 Self = None" and "\<forall>Ec\<in>set (es_List S0). ec_Pdo Ec \<noteq> Some Self"
    and "UacpiNtDriversRemoveDevice E pool Self (Pdo, S) = (Pdo', S')"
  shows "cd_ClassIf Pdo' = None \<and> cd_CoolingIf Pdo' = None \<and> \<not> bt_IfRegistered (cd_Button Pdo') \<and>
    count_list (cd_Calls Pdo') (i, True) = count_list (cd_Calls Pdo') (i, False) \<and>
    count_list (bt_Calls (cd_Button Pdo')) True = count_list (bt_Calls (cd_Button Pdo')) False \<and>
    (cd_IsThermalZone Pdo \<longrightarrow> \<not> cd_ThermalWmi Pdo' \<and> \<not> th_Active (cd_Thermal Pdo') \<and> \<not> waiting (cd_Thermal Pdo') k) \<and>
    (bt_Caps (cd_Button Pdo) \<noteq> 0 \<longrightarrow> iq_Queue (bt_Irps (cd_Button Pdo')) = [] \<and> \<not> bt_PowerCallback (cd_Button Pdo') \<and>
      \<not> bt_PowerCallbackHandle (cd_Button Pdo')) \<and>
    es_Pdo S' Self = None \<and> (\<forall>Ec\<in>set (es_List S'). ec_Pdo Ec \<noteq> Some Self)"
proof -
  have l0: "ec_link Self Node S0" using assms(2,3) by (simp add: ec_link_def)
  have n0: "cd_Node (blank_device Hid processor zone Caps Node Z Cs P) = Node" by (simp add: blank_device_def)
  have inv: "class_inv Pdo" and link: "ec_link Self Node S"
    using class_reachable_inv [OF assms(1), of Node] blank_device_inv l0 n0 by simp_all
  let ?P = "Pdo\<lparr>cd_Button := UacpiNtButtonRemove (cd_Button Pdo)\<rparr>"
  have bi: "button_inv (UacpiNtButtonRemove (cd_Button Pdo))" "button_balance (UacpiNtButtonRemove (cd_Button Pdo))"
    using inv button_step_inv [OF button_step.remove] button_step_balance [OF button_step.remove] by (simp_all add: class_inv_def)
  then have p: "class_inv ?P" using inv by (simp add: class_inv_def if_balance_def)
  have e: "Pdo' = UacpiNtDevIfRemove (UacpiNtThermalRemove (ce_Thermal E) pool ?P)" "S' = UacpiNtEcRemove Self S"
    using assms(4) by (simp_all add: UacpiNtDriversRemoveDevice_def Let_def)
  have off: "cd_ClassIf Pdo' = None \<and> cd_CoolingIf Pdo' = None"
    by (simp add: e UacpiNtDevIfRemove_def UacpiNtDisableInterface_def Let_def split: option.split)
  have f: "cd_ThermalWmi Pdo' = cd_ThermalWmi (UacpiNtThermalRemove (ce_Thermal E) pool ?P)"
    "cd_Thermal Pdo' = cd_Thermal (UacpiNtThermalRemove (ce_Thermal E) pool ?P)" "cd_Button Pdo' = UacpiNtButtonRemove (cd_Button Pdo)"
    by (simp_all add: e UacpiNtDevIfRemove_def UacpiNtDisableInterface_def UacpiNtThermalRemove_def Let_def split: option.split)
  have "if_balance Pdo' i" using DevIfRemove_inv [OF ThermalRemove_inv(1) [OF p]] by (simp add: e class_inv_def)
  then have c: "count_list (cd_Calls Pdo') (i, True) = count_list (cd_Calls Pdo') (i, False)" using off by (simp add: if_balance_def)
  have "\<not> bt_IfRegistered (cd_Button Pdo')"
    using inv by (simp add: f UacpiNtButtonRemove_def class_inv_def button_balance_def)
  with bi(2) have d: "\<not> bt_IfRegistered (cd_Button Pdo')"
    "count_list (bt_Calls (cd_Button Pdo')) True = count_list (bt_Calls (cd_Button Pdo')) False"
    by (simp_all add: f button_balance_def)
  have b: "iq_Queue (bt_Irps (cd_Button Pdo')) = [] \<and> \<not> bt_PowerCallback (cd_Button Pdo') \<and> \<not> bt_PowerCallbackHandle (cd_Button Pdo')"
    if "bt_Caps (cd_Button Pdo) \<noteq> 0"
    using that remove_loop_inv [OF _ _ refl, of "bt_Irps (cd_Button Pdo)"] inv
    by (simp add: f UacpiNtButtonRemove_def class_inv_def button_inv_def)
  from off c d b ThermalRemove_inv(2) [OF p, of "ce_Thermal E" pool k] EcRemove_link(2) [OF link] show ?thesis by (simp add: f e(2))
qed

text \<open>A fan, started and removed: the class and the cooling interface go up and down once.\<close>

definition demo_class_env :: "demo_ec class_env" where
  "demo_class_env = \<lparr>ce_Fw = demo_thermal_fw 3000, ce_Wake = demo_wake_env, ce_Thermal = demo_thermal_env 3000, ce_Register = (\<lambda>_. True),
     ce_Pool = True, ce_Ec = demo_env, ce_EcAnswers = demo_answers, ce_IsEc = (\<lambda>_. False), ce_ButtonInterface = True,
     ce_Callback = (True, True), ce_LidAction = None, ce_Lid = None\<rparr>"

definition demo_fan :: class_device where
  "demo_fan = blank_device ''pnp0c0b'' False False 0 (Some 20) (demo_zone 3000) (\<lambda>_. None) demo_power"

definition demo_fan_started :: "class_device \<times> hardware \<times> demo_ec ec_system" where
  "demo_fan_started = UacpiNtDriversStartDevice demo_class_env 4 (demo_fan, \<lparr>hw_Power = demo_ready, hw_Gpe = []\<rparr>, empty_system)"

theorem Class_removal_complete_witness:
  "cd_Calls (fst demo_fan_started) = [(IfFan, True), (IfCooling, True)] \<and>
   cd_ClassIf (fst (UacpiNtDriversRemoveDevice demo_class_env (\<lambda>_. True) 4 (fst demo_fan_started, snd (snd demo_fan_started)))) = None \<and>
   count_list (cd_Calls (fst (UacpiNtDriversRemoveDevice demo_class_env (\<lambda>_. True) 4 (fst demo_fan_started, snd (snd demo_fan_started)))))
     (IfFan, True) =
   count_list (cd_Calls (fst (UacpiNtDriversRemoveDevice demo_class_env (\<lambda>_. True) 4 (fst demo_fan_started, snd (snd demo_fan_started)))))
     (IfFan, False)"
proof -
  let ?X0 = "\<lparr>hw_Power = demo_ready, hw_Gpe = []\<rparr>"
  have "class_step 4 (demo_fan, ?X0, empty_system) demo_fan_started" unfolding demo_fan_started_def by (rule class_step.start)
  then have r: "(class_step 4)\<^sup>*\<^sup>* (blank_device ''pnp0c0b'' False False 0 (Some 20) (demo_zone 3000) (\<lambda>_. None) demo_power, ?X0, empty_system)
      (fst demo_fan_started, fst (snd demo_fan_started), snd (snd demo_fan_started))" by (simp add: demo_fan_def)
  have c: "cd_Calls (fst demo_fan_started) = [(IfFan, True), (IfCooling, True)]"
    by (simp add: demo_fan_started_def UacpiNtDriversStartDevice_def demo_fan_def blank_device_def UacpiNtButtonStart_def blank_button_def
        UacpiNtProcessorStart_def UacpiNtThermalStart_def UacpiNtFanStart_def UacpiNtApplaunchStart_def stricmp_equal_def lower_def char_of_def bit_0
        UacpiNtDevIfRegister_def UacpiNtCoolingIfRegister_def UacpiNtEnableInterface_def demo_class_env_def Let_def)
  from c Class_removal_complete [OF r _ _ prod.collapse [symmetric], where i = IfFan and E = demo_class_env and pool = "\<lambda>_. True"] show ?thesis by (simp add: empty_system_def)
qed

end
