(* ===== verification/Spec2Isabelle.thy ===== *)
theory Spec2Isabelle
  imports Irq_Arbitration Power_Sleep Crs_Translation Class_Drivers
begin

text \<open>
  \<^bold>\<open>uACPI-NT: resource arbitration and power.\<close> The driver answers the PnP manager's resource questions
  through arbiters. An arbiter owns a committed allocation of its address space; the PnP manager
  asks it to test an arbitration list (find a placement for every request), to retest, commit or
  roll the tentative result back, to reserve boot configurations and to name conflicts. The library
  reactos-libs/arbiter implements the machinery; sys/resarb.c instantiates it for memory, I/O
  ports and bus numbers of a module device, and sys/irqarb.c for interrupts, with the vectors and the
  connection data in sys/irqlib.c. As the bus driver of ACPI devices it also moves them between power
  states, switches the power resources they share and arms them for wake.

  \<^bold>\<open>Theories.\<close>
  \<^item> \<open>Nt_Prelude\<close>: machine words, NTSTATUS, alignment.
  \<^item> \<open>Nt_Resources\<close>: descriptors, arbitration list entries, range lists, and \<open>nt_kernel\<close>, the record
    of the kernel routines the code calls. These are not part of the repository; what a property
    needs of them is a named contract (\<open>FindRange_contract\<close>, \<open>DeleteRange_contract\<close>,
    \<open>AddRange_contract\<close>, \<open>CopyRange_contract\<close>, \<open>DeleteOwners_contract\<close>), and every such property has a
    witness on a concrete kernel.
  \<^item> \<open>Arbiter_Ordering\<close> (ordering.c): ordering lists, the registry policy walk, the MMCONFIG table. The
    locale \<open>range_callback\<close> is the contract between the walk and its callbacks.
  \<^item> \<open>Arbiter_Range\<close> (range.c): priorities, the window walk (on fuel \<open>next_range_fuel\<close>, proved to be
    enough by a rank that every round lowers), the search for a free range with its two escapes.
  \<^item> \<open>Arbiter_Entry\<close> (entry.c): the sort, the backtracking search and the report. The locale
    \<open>arbiter_walker\<close> is what the search relies on of an arbiter's callbacks; under it the search is
    proved to end (a lexicographic measure over the stack) and to be sound. It is interpreted on the
    library's callbacks and on those of the memory and port arbiters.
  \<^item> \<open>Arbiter_Seed\<close> (ArbpSeedRangeList), \<open>Arbiter_Transaction\<close> (transaction.c), \<open>Arbiter_Handler\<close>
    (handler.c, arbiter.c; locale \<open>transaction_slots\<close> for the slots the dispatcher calls).
  \<^item> \<open>Resource_Codec\<close>: the locale of a codec whose packed assignments unpack to what was placed.
  \<^item> \<open>Res_Arbiter\<close> (sys/resarb.c).
  \<^item> \<open>Irq_Vectors\<close> (sys/irqlib.c): the IDT state of every processor, line, message and secondary
    vectors, connection data, MADT overrides, HAL entry points. \<open>Irq_Vector_Safety\<close> proves that no
    vector ever has two users: \<open>claim\<close> is the set of vectors of a line or of a message run, \<open>lib_step\<close>
    one call of an entry point, and every reachable state keeps \<open>vectors_ok\<close>.
  \<^item> \<open>Irq_Codec\<close>, \<open>Irq_Links\<close>, \<open>Irq_Arbiter\<close>, \<open>Irq_Arbitration\<close> (sys/irqarb.c): the codec and the
    message records; the PCI interrupt links, the _PRT and the climb through bridges, over a record
    \<open>route_env\<close> of the firmware and configuration space answers; the callbacks of the arbiter, its
    commit and set up; its properties. The callbacks interpret \<open>arbiter_walker\<close> with the cursor of
    the WorkSpace as the extra measure. To the search the routing is a function from devices to lines,
    since each state records the answer on its first visit.
  \<^item> \<open>Acpi_Firmware\<close>: the firmware as a function of the evaluations made so far, and the locale
    \<open>simulation\<close>. \<open>Power_Resources\<close> (sys/powerres.c): the reference counts, interpreted as a simulation
    of a specification with a set of users per resource, for all interleavings of the devices.
    \<open>Power_States\<close> (sys/power.c): D state transitions and the capability map. \<open>Power_Wake\<close> (sys/power.c):
    WAIT_WAKE requests, with a step relation \<open>wake_step\<close> that splits the functions where they drop the
    spin lock. \<open>Power_Sleep\<close> (sys/sleep.c): the sleep and resume transitions.
  \<^item> \<open>Crs_Translation\<close> (sys/resource.c, sys/reshub.c): the lists made of _CRS and _PRS in a counting and a
    filling pass, with the connections of the raw _CRS. The lists are composed with the codec of the
    arbiters: what _CRS describes is what the arbiters place.
  \<^item> \<open>Ec_Transport\<close>, \<open>Ec_Driver\<close> (drivers/ec.c): the byte protocol of the embedded controller over two
    ports, on any hardware that keeps to \<open>ec_contract\<close> (the ACPI description of the controller as a
    machine with phases and an output buffer); requests, queries, the interrupt to DPC to worker hand over
    as a step relation \<open>pump_step\<close>, and the list of controllers under \<open>ec_step\<close>.
  \<^item> \<open>Irp_Queue\<close>: queues of requests that can be cancelled, with the invariant that every request is
    pending or completed once. \<open>Button_Driver\<close> (drivers/button.c): events and wait requests under
    \<open>button_step\<close>. \<open>Thermal_Zone\<close>, \<open>Thermal_Requests\<close> (drivers/thermal.c): what the zone's worker does with the
    firmware, and the queue, the worker and the stops under \<open>thermal_step\<close>. \<open>Class_Drivers\<close> (drivers/devif.c,
    fan.c, processor.c, applaunch.c): the start and the removal of a device by all class drivers, composed
    with the steps of its button and its thermal zone.

  \<^bold>\<open>State.\<close> C structures are records with the source's field names under a prefix. A pointer into an
  array is an index, a null pointer is \<open>None\<close>, device objects are numbers, and intrusive lists are lists.
  64-bit addresses are \<open>64 word\<close> and wrap as in C. An RTL_RANGE_LIST is the sequence its iterators
  deliver. Pool allocation outcomes are function arguments, so every failure path is a branch.

  \<^bold>\<open>Not modelled.\<close> Debug output, the trace ring and failure dumps; the registry and the IRP plumbing of
  the bus driver; the AML engine, whose evaluations are parameters here.
\<close>

end
